(* ===== verification/Prelude.thy ===== *)
theory Prelude
  imports
    Complex_Main
    "HOL-Library.AList"
    "HOL-Library.Char_ord"
    "HOL-Library.List_Lexorder"
    "HOL-Library.Multiset"
    "HOL-Library.Product_Lexorder"
    "HOL-Library.Sublist"
begin

text \<open>
  What the modelled Python code uses of the language: string methods, dictionaries in
  insertion order, integer parsing and printing, and stable sorting by a key, with the facts
  about them that the component theories share.

  A Python \<open>str\<close> is a \<open>string\<close>, one \<open>char\<close> per character, so the characters are those of
  code points 0 to 255; letter case is that of the ASCII letters, which are the only letters in
  the identifiers, statuses, paths and labels the modelled code compares. A Python \<open>dict\<close> is
  an association list in insertion order: \<open>AList.update\<close> keeps the position of a key that is
  present and appends one that is not, as assignment to a key does. A Python integer is an
  \<open>int\<close>; a float that is only added, divided, rounded and compared is a \<open>rat\<close>.
\<close>

subsection \<open>Characters and strings\<close>

definition py_space :: "char \<Rightarrow> bool" where
  "py_space c \<longleftrightarrow> (let n = (of_char c :: nat) in
     (9 \<le> n \<and> n \<le> 13) \<or> (28 \<le> n \<and> n \<le> 32) \<or> n = 133 \<or> n = 160)"

definition py_digit :: "char \<Rightarrow> bool" where
  "py_digit c \<longleftrightarrow> (let n = (of_char c :: nat) in 48 \<le> n \<and> n \<le> 57)"

definition lower_char :: "char \<Rightarrow> char" where
  "lower_char c = (let n = (of_char c :: nat) in
     if 65 \<le> n \<and> n \<le> 90 then char_of (n + 32) else c)"

definition upper_char :: "char \<Rightarrow> char" where
  "upper_char c = (let n = (of_char c :: nat) in
     if 97 \<le> n \<and> n \<le> 122 then char_of (n - 32) else c)"

definition py_lower :: "string \<Rightarrow> string" where
  "py_lower s = map lower_char s"

definition py_upper :: "string \<Rightarrow> string" where
  "py_upper s = map upper_char s"

definition rstrip_by :: "(char \<Rightarrow> bool) \<Rightarrow> string \<Rightarrow> string" where
  "rstrip_by p s = rev (dropWhile p (rev s))"

definition strip_by :: "(char \<Rightarrow> bool) \<Rightarrow> string \<Rightarrow> string" where
  "strip_by p s = rstrip_by p (dropWhile p s)"

definition py_strip :: "string \<Rightarrow> string" where
  "py_strip s = strip_by py_space s"

definition py_rstrip :: "string \<Rightarrow> string" where
  "py_rstrip = rstrip_by py_space"

fun py_split :: "char \<Rightarrow> string \<Rightarrow> string list" where
  "py_split c [] = [[]]"
| "py_split c (x # xs) =
     (if x = c then [] # py_split c xs
      else (case py_split c xs of [] \<Rightarrow> [[x]] | p # ps \<Rightarrow> (x # p) # ps))"

fun py_join :: "string \<Rightarrow> string list \<Rightarrow> string" where
  "py_join sep [] = []"
| "py_join sep [s] = s"
| "py_join sep (s # t # ss) = s @ sep @ py_join sep (t # ss)"

text \<open>\<open>s.split()\<close>: the words between blanks, the first of which may have begun with \<open>rev acc\<close>.\<close>

fun py_words :: "string \<Rightarrow> string \<Rightarrow> string list" where
  "py_words acc [] = (if acc = [] then [] else [rev acc])"
| "py_words acc (c # cs) =
     (if py_space c then (if acc = [] then py_words [] cs else rev acc # py_words [] cs)
      else py_words (c # acc) cs)"

text \<open>\<open>s.splitlines()\<close>, the first line of which may have begun with \<open>rev acc\<close>. A carriage return and the
  newline after it end one line.\<close>

definition line_break :: "char \<Rightarrow> bool" where
  "line_break c \<longleftrightarrow> (let n = (of_char c :: nat) in (10 \<le> n \<and> n \<le> 13) \<or> (28 \<le> n \<and> n \<le> 30) \<or> n = 133)"

function split_lines :: "string \<Rightarrow> string \<Rightarrow> string list" where
  "split_lines acc [] = (if acc = [] then [] else [rev acc])"
| "split_lines acc (c # cs) =
     (if line_break c
      then rev acc # split_lines [] (if c = CHR 0x0D \<and> prefix [CHR 0x0A] cs then tl cs else cs)
      else split_lines (c # acc) cs)"
  by pat_completeness auto

termination by (relation "measure (\<lambda>(acc, cs). length cs)") (auto simp: prefix_def)

definition py_splitlines :: "string \<Rightarrow> string list" where
  "py_splitlines s = split_lines [] s"

text \<open>The ellipsis and the dashes of the code's prose each have one byte in the model, no blank and no
  letter.\<close>

definition ELLIPSIS :: char where "ELLIPSIS = CHR 0xB7"

definition EM_DASH :: char where "EM_DASH = CHR 0x97"

definition EN_DASH :: char where "EN_DASH = CHR 0x96"

text \<open>\<open>s.partition(c)\<close>: the part before the first \<open>c\<close>, whether there was one, and the rest.\<close>

definition py_partition :: "char \<Rightarrow> string \<Rightarrow> string \<times> bool \<times> string" where
  "py_partition c s =
     (takeWhile (\<lambda>x. x \<noteq> c) s, c \<in> set s, drop 1 (dropWhile (\<lambda>x. x \<noteq> c) s))"

text \<open>\<open>s.split(c, 1)[0]\<close>: everything before the first \<open>c\<close>.\<close>

definition py_head :: "char \<Rightarrow> string \<Rightarrow> string" where
  "py_head c s = takeWhile (\<lambda>x. x \<noteq> c) s"

definition py_startswith :: "string \<Rightarrow> string \<Rightarrow> bool" where
  "py_startswith p s \<longleftrightarrow> prefix p s"

definition py_endswith :: "string \<Rightarrow> string \<Rightarrow> bool" where
  "py_endswith p s \<longleftrightarrow> suffix p s"

text \<open>The operator \<open>sub in s\<close> on strings.\<close>

fun py_contains :: "string \<Rightarrow> string \<Rightarrow> bool" where
  "py_contains sub [] = (sub = [])"
| "py_contains sub (c # s) = (prefix sub (c # s) \<or> py_contains sub s)"

text \<open>The value of \<open>a or b\<close> on strings, and \<open>a or b\<close> on integers.\<close>

definition str_or :: "string \<Rightarrow> string \<Rightarrow> string" where
  "str_or a b = (if a = [] then b else a)"

text \<open>\<open>str.isdigit\<close>, and \<open>int(s)\<close> on a string: surrounding blanks, one sign, and digits with
  single underscores between them; \<open>None\<close> is the \<open>ValueError\<close>.\<close>

definition py_isdigit :: "string \<Rightarrow> bool" where
  "py_isdigit s \<longleftrightarrow> s \<noteq> [] \<and> list_all py_digit s"

definition digits_nat :: "string \<Rightarrow> nat" where
  "digits_nat s = foldl (\<lambda>n c. 10 * n + (of_char c - 48)) 0 s"

definition py_sign :: "string \<Rightarrow> int \<times> string" where
  "py_sign s = (case s of
     [] \<Rightarrow> (1, [])
   | c # r \<Rightarrow> if c = CHR ''-'' then (-1, r) else if c = CHR ''+'' then (1, r) else (1, c # r))"

definition py_int :: "string \<Rightarrow> int option" where
  "py_int s =
     (case py_sign (py_strip s) of
        (sg, d) \<Rightarrow>
          if list_all py_isdigit (py_split CHR ''_'' d)
          then Some (sg * int (digits_nat (concat (py_split CHR ''_'' d)))) else None)"

text \<open>\<open>round(x)\<close> and \<open>round(x, n)\<close>: to the nearest, a half to the even one.\<close>

definition py_round :: "rat \<Rightarrow> int" where
  "py_round x =
     (let f = floor x; r = x - of_int f
      in if r < 1/2 then f else if 1/2 < r then f + 1 else if even f then f else f + 1)"

text \<open>\<open>str(n)\<close> of a natural number.\<close>

fun nat_str :: "nat \<Rightarrow> string" where
  "nat_str n = (if n < 10 then [char_of (48 + n)] else nat_str (n div 10) @ [char_of (48 + n mod 10)])"

declare nat_str.simps [simp del]

lemma str_or_simps [simp]: "str_or [] b = b" "str_or (c # a) b = c # a"
  by (simp_all add: str_or_def)

lemma str_or_Nil_iff [simp]: "str_or a b = [] \<longleftrightarrow> a = [] \<and> b = []"
  by (simp add: str_or_def)

lemma py_contains_iff: "py_contains sub s \<longleftrightarrow> sublist sub s"
  by (induction sub s rule: py_contains.induct) (auto simp: sublist_Cons_right)

lemma py_split_not_Nil [simp]: "py_split c s \<noteq> []"
  by (induction s) (auto split: list.splits)

lemma py_split_no_sep: "p \<in> set (py_split c s) \<Longrightarrow> c \<notin> set p"
  by (induction s arbitrary: p) (auto split: if_splits list.splits)

text \<open>Splitting and joining at the same character are inverse.\<close>

lemma py_join_split: "py_join [c] (py_split c s) = s"
proof (induction s)
  case Nil
  show ?case by simp
next
  case (Cons x s)
  obtain p ps where ps: "py_split c s = p # ps"
    by (cases "py_split c s") auto
  show ?case
    using Cons.IH ps by (cases ps) (auto simp: ps)
qed

lemma py_head_no_sep: "c \<notin> set (py_head c s)"
  by (auto simp: py_head_def dest: set_takeWhileD)

lemma py_partition_append:
  "c \<notin> set a \<Longrightarrow> py_partition c (a @ c # b) = (a, True, b)"
  by (auto simp: py_partition_def takeWhile_append dropWhile_append)

lemma length_py_lower [simp]: "length (py_lower s) = length s"
  by (simp add: py_lower_def)

lemma py_lower_Nil_iff [simp]: "py_lower s = [] \<longleftrightarrow> s = []"
  by (simp add: py_lower_def)

lemma py_upper_Nil_iff [simp]: "py_upper s = [] \<longleftrightarrow> s = []"
  by (simp add: py_upper_def)

lemma py_lower_idem [simp]: "py_lower (py_lower s) = py_lower s"
proof -
  have "lower_char (lower_char c) = lower_char c" for c
    by (auto simp: lower_char_def Let_def)
  then show ?thesis by (simp add: py_lower_def)
qed

subsection \<open>Normal forms of labels\<close>

lemma strip_by_id:
  assumes "s \<noteq> []" "\<not> p (hd s)" "\<not> p (last s)"
  shows "strip_by p s = s"
proof -
  have "dropWhile p s = s" using assms by (cases s) auto
  moreover have "dropWhile p (rev s) = rev s"
    using assms by (simp add: dropWhile_eq_self_iff hd_rev)
  ultimately show ?thesis by (simp add: strip_by_def rstrip_by_def)
qed

lemma strip_by_ends:
  assumes "strip_by p s \<noteq> []"
  shows "\<not> p (hd (strip_by p s))" "\<not> p (last (strip_by p s))"
proof -
  define t where "t = dropWhile p s"
  have ne: "dropWhile p (rev t) \<noteq> []" using assms by (simp add: strip_by_def rstrip_by_def t_def)
  then show "\<not> p (last (strip_by p s))"
    using hd_dropWhile [of p "rev t"] by (simp add: strip_by_def rstrip_by_def t_def last_rev)
  have "t = rev (dropWhile p (rev t)) @ rev (takeWhile p (rev t))"
    by (metis rev_append rev_rev_ident takeWhile_dropWhile_id)
  then have "hd t = hd (rev (dropWhile p (rev t)))" using ne by (metis hd_append2 rev_is_Nil_conv)
  moreover have "t \<noteq> []" using ne by auto
  then have "\<not> p (hd t)" using hd_dropWhile [of p s] by (simp add: t_def)
  ultimately show "\<not> p (hd (strip_by p s))" by (simp add: strip_by_def rstrip_by_def t_def)
qed

lemma py_strip_Nil [simp]: "py_strip [] = []"
  by (simp add: py_strip_def strip_by_def rstrip_by_def)

lemma py_strip_idem [simp]: "py_strip (py_strip s) = py_strip s"
proof (cases "py_strip s = []")
  case True
  then show ?thesis by simp
next
  case False
  then show ?thesis
    using strip_by_ends [of py_space s] by (simp add: py_strip_def strip_by_id)
qed

text \<open>Stripping keeps a text that starts and ends without blanks, whatever follows it.\<close>

lemma py_strip_prefix:
  assumes "x \<noteq> []" "\<not> py_space (hd x)" "\<not> py_space (last x)"
  shows "\<exists>rest. py_strip (x @ y) = x @ rest"
proof -
  have "dropWhile py_space (x @ y) = x @ y"
    using assms by (cases x) auto
  moreover have "dropWhile py_space (rev y @ rev x) = dropWhile py_space (rev y) @ rev x"
  proof (cases "\<forall>c \<in> set y. py_space c")
    case True
    have "dropWhile py_space (rev x) = rev x"
      using assms by (simp add: dropWhile_eq_self_iff hd_rev)
    moreover have "dropWhile py_space (rev y) = []" using True by (simp add: dropWhile_eq_Nil_conv)
    moreover have "dropWhile py_space (rev y @ rev x) = dropWhile py_space (rev x)"
      using True by (intro dropWhile_append2) simp
    ultimately show ?thesis by simp
  next
    case False
    then show ?thesis by (auto simp: dropWhile_append1)
  qed
  ultimately show ?thesis
    by (simp add: py_strip_def strip_by_def rstrip_by_def)
qed

lemma strip_by_map: "(\<And>c. p (f c) = p c) \<Longrightarrow> strip_by p (map f s) = map f (strip_by p s)"
  by (simp add: strip_by_def rstrip_by_def dropWhile_map rev_map comp_def)

lemma py_space_upper [simp]: "py_space (upper_char c) = py_space c"
  by (auto simp: py_space_def upper_char_def Let_def)

lemma upper_char_idem [simp]: "upper_char (upper_char c) = upper_char c"
  by (auto simp: upper_char_def Let_def)

lemma py_upper_idem [simp]: "py_upper (py_upper s) = py_upper s"
  by (simp add: py_upper_def)

lemma py_strip_upper [simp]: "py_strip (py_upper s) = py_upper (py_strip s)"
  by (simp add: py_strip_def py_upper_def strip_by_map)

subsection \<open>Rounding\<close>

lemma py_round_bounds:
  "of_int a \<le> x \<Longrightarrow> a \<le> py_round x" "x \<le> of_int b \<Longrightarrow> py_round x \<le> b"
proof -
  assume "of_int a \<le> x"
  then have "a \<le> floor x" by (simp add: le_floor_iff)
  then show "a \<le> py_round x" by (auto simp: py_round_def Let_def)
next
  assume b: "x \<le> of_int b"
  then have "floor x \<le> b" by linarith
  moreover have "floor x < b \<or> x - of_int (floor x) = 0" using b by linarith
  ultimately show "py_round x \<le> b" by (elim disjE) (simp_all add: py_round_def Let_def)
qed

lemma py_round_of_int [simp]: "py_round (of_int n) = n"
  by (simp add: py_round_def Let_def)

definition py_round_to :: "nat \<Rightarrow> rat \<Rightarrow> rat" where
  "py_round_to n x = of_int (py_round (x * 10 ^ n)) / 10 ^ n"

lemma py_round_to_idem [simp]: "py_round_to n (py_round_to n x) = py_round_to n x"
  by (simp add: py_round_to_def)

lemma py_round_to_bounds:
  "of_int a \<le> x \<Longrightarrow> of_int a \<le> py_round_to n x" "x \<le> of_int b \<Longrightarrow> py_round_to n x \<le> of_int b"
proof -
  assume "of_int a \<le> x"
  then have "of_int (a * 10 ^ n) \<le> x * 10 ^ n" by simp
  then have "a * 10 ^ n \<le> py_round (x * 10 ^ n)" by (rule py_round_bounds)
  then have "(of_int (a * 10 ^ n) :: rat) \<le> of_int (py_round (x * 10 ^ n))" by (simp only: of_int_le_iff)
  then show "of_int a \<le> py_round_to n x" by (simp add: py_round_to_def le_divide_eq)
next
  assume "x \<le> of_int b"
  then have "x * 10 ^ n \<le> of_int (b * 10 ^ n)" by simp
  then have "py_round (x * 10 ^ n) \<le> b * 10 ^ n" by (rule py_round_bounds)
  then have "(of_int (py_round (x * 10 ^ n)) :: rat) \<le> of_int (b * 10 ^ n)" by (simp only: of_int_le_iff)
  then show "py_round_to n x \<le> of_int b" by (simp add: py_round_to_def divide_le_eq)
qed

subsection \<open>Numbers in text\<close>

lemma of_char_digit: "n < 10 \<Longrightarrow> (of_char (char_of (48 + n)) :: nat) = 48 + n" for n :: nat
  by simp

lemma digits_nat_snoc: "digits_nat (s @ [c]) = 10 * digits_nat s + (of_char c - 48)"
  by (simp add: digits_nat_def)

lemma digits_nat_str: "digits_nat (nat_str n) = n"
proof (induction n rule: nat_str.induct)
  case (1 n)
  show ?case
  proof (cases "n < 10")
    case True
    then show ?thesis by (subst nat_str.simps) (simp add: digits_nat_def)
  next
    case False
    with 1 show ?thesis by (subst nat_str.simps) (simp add: digits_nat_snoc)
  qed
qed

lemma py_digit_char: "n < 10 \<Longrightarrow> py_digit (char_of (48 + n))" for n :: nat
  by (simp add: py_digit_def Let_def)

lemma nat_str_digits: "nat_str n \<noteq> [] \<and> list_all py_digit (nat_str n)"
proof (induction n rule: nat_str.induct)
  case (1 n)
  show ?case
  proof (cases "n < 10")
    case True
    then show ?thesis by (subst (1 2) nat_str.simps) (simp add: py_digit_char)
  next
    case False
    with 1 show ?thesis by (subst (1 2) nat_str.simps) (simp add: py_digit_char)
  qed
qed

lemma py_digit_code: "py_digit c \<Longrightarrow> \<not> py_space c \<and> c \<noteq> CHR ''_'' \<and> c \<noteq> CHR ''-'' \<and> c \<noteq> CHR ''+''"
  by (auto simp: py_digit_def py_space_def Let_def)

lemma py_split_none: "c \<notin> set s \<Longrightarrow> py_split c s = [s]"
  by (induction s) auto

text \<open>A number written in decimal, with blanks around it, is read back.\<close>

lemma py_split_append: "c \<notin> set p \<Longrightarrow> py_split c (p @ c # s) = p # py_split c s"
  by (induction p) auto

lemma py_split_cells: "(\<forall>p \<in> set (q # ps). c \<notin> set p) \<Longrightarrow> py_split c (py_join [c] (q # ps)) = q # ps"
  by (induction ps arbitrary: q) (simp_all add: py_split_none py_split_append)

lemma py_strip_digits:
  assumes "s \<noteq> []" "list_all py_digit s"
  shows "py_strip (s @ [CHR 0x0A]) = s" "py_strip s = s"
proof -
  have "py_digit (hd s)" "py_digit (last s)"
    using assms by (simp_all add: list_all_iff)
  then have h: "\<not> py_space (hd s)" "\<not> py_space (last s)"
    using py_digit_code by blast+
  then show "py_strip s = s" using assms(1) by (simp add: py_strip_def strip_by_id)
  have "dropWhile py_space (s @ [CHR 0x0A]) = s @ [CHR 0x0A]"
    using assms(1) h(1) by (cases s) auto
  moreover have "dropWhile py_space (rev s) = rev s"
    using assms(1) h(2) by (simp add: dropWhile_eq_self_iff hd_rev)
  moreover have "py_space CHR 0x0A" by code_simp
  ultimately show "py_strip (s @ [CHR 0x0A]) = s"
    by (simp add: py_strip_def strip_by_def rstrip_by_def)
qed

lemma py_int_nat_str: "py_int (nat_str n @ [CHR 0x0A]) = Some (int n)" "py_int (nat_str n) = Some (int n)"
proof -
  note d = nat_str_digits [of n, THEN conjunct1] nat_str_digits [of n, THEN conjunct2]
  have "py_sign (nat_str n) = (1, nat_str n)"
    using d py_digit_code [of "hd (nat_str n)"] by (cases "nat_str n") (simp_all add: py_sign_def)
  moreover have "CHR ''_'' \<notin> set (nat_str n)"
    using d(2) py_digit_code [of "CHR ''_''"] by (auto simp: list_all_iff)
  ultimately show "py_int (nat_str n @ [CHR 0x0A]) = Some (int n)" "py_int (nat_str n) = Some (int n)"
    using d by (simp_all add: py_int_def py_strip_digits py_split_none py_isdigit_def digits_nat_str)
qed

subsection \<open>Stable sorting by a key\<close>

text \<open>\<open>list.sort(key=f)\<close> keeps the multiset of rows; membership is what the claim loop uses.\<close>

lemma sort_key_Nil_iff [simp]: "sort_key f xs = [] \<longleftrightarrow> xs = []"
  by (metis length_0_conv length_sort)

lemma sum_list_sort_key: "sum_list (map g (sort_key f xs)) = sum_list (map g xs)"
  for g :: "'a \<Rightarrow> 'b::comm_monoid_add"
  by (metis mset_map mset_sort sum_mset_sum_list)

lemma distinct_map_sort_key [simp]: "distinct (map g (sort_key f xs)) \<longleftrightarrow> distinct (map g xs)"
  by (rule mset_eq_imp_distinct_iff) simp

subsection \<open>Lines and trailing blanks\<close>

lemma split_lines_line:
  "list_all (\<lambda>c. \<not> line_break c) s \<Longrightarrow> split_lines acc (s @ CHR 0x0A # t) = (rev acc @ s) # split_lines [] t"
  by (induction s arbitrary: acc) (auto simp: line_break_def)

lemma split_lines_end:
  "list_all (\<lambda>c. \<not> line_break c) s \<Longrightarrow> split_lines acc s = (if acc = [] \<and> s = [] then [] else [rev acc @ s])"
  by (induction s arbitrary: acc) auto

text \<open>A text that ends with a newline, or is empty, splits by itself.\<close>

definition line_closed :: "string \<Rightarrow> bool" where
  "line_closed s \<longleftrightarrow> s = [] \<or> last s = CHR 0x0A"

lemma split_lines_append:
  "s \<noteq> [] \<Longrightarrow> last s = CHR 0x0A \<Longrightarrow> split_lines acc (s @ t) = split_lines acc s @ split_lines [] t"
proof (induction acc s rule: split_lines.induct)
  case (2 acc c cs)
  show ?case
  proof (cases "line_break c")
    case True
    define rest where "rest = (if c = CHR 0x0D \<and> prefix [CHR 0x0A] cs then tl cs else cs)"
    show ?thesis
    proof (cases "cs = []")
      case True
      then have "c = CHR 0x0A" using 2(4) by simp
      then show ?thesis using True \<open>line_break c\<close> by simp
    next
      case False
      then have last: "last cs = CHR 0x0A" using 2(4) by simp
      have rest_t: "(if c = CHR 0x0D \<and> prefix [CHR 0x0A] (cs @ t) then tl (cs @ t) else cs @ t) = rest @ t"
        using False by (cases cs) (auto simp: rest_def)
      have "rest = [] \<or> last rest = CHR 0x0A"
        using False last by (cases cs) (auto simp: rest_def split: if_splits)
      then have "split_lines [] (rest @ t) = split_lines [] rest @ split_lines [] t"
        using 2(1) [OF True] by (cases "rest = []") (simp_all add: rest_def)
      then show ?thesis using True by (simp add: rest_t flip: rest_def)
    qed
  next
    case False
    then have "cs \<noteq> []" using 2(4) by (auto simp: line_break_def)
    then show ?thesis using False 2 by simp
  qed
qed simp

lemma split_lines_not_Nil: "acc \<noteq> [] \<or> s \<noteq> [] \<Longrightarrow> split_lines acc s \<noteq> []"
  by (induction acc s rule: split_lines.induct) auto

lemma splitlines_append:
  "line_closed s \<Longrightarrow> py_splitlines (s @ t) = py_splitlines s @ py_splitlines t"
  by (cases "s = []") (auto simp: line_closed_def py_splitlines_def split_lines_append)

lemma rstrip_prefix: "prefix (py_rstrip s) s"
  unfolding py_rstrip_def rstrip_by_def prefix_def by (metis rev_append rev_rev_ident takeWhile_dropWhile_id)

lemma rstrip_at: "\<not> py_space c \<Longrightarrow> list_all py_space ws \<Longrightarrow> py_rstrip (s @ c # ws) = s @ [c]"
  by (simp add: py_rstrip_def rstrip_by_def, subst dropWhile_append2) (auto simp: list_all_iff)

lemma rstrip_last: "py_rstrip (s @ [c]) = s @ [c] \<longleftrightarrow> \<not> py_space c"
proof
  assume same: "py_rstrip (s @ [c]) = s @ [c]"
  show "\<not> py_space c"
  proof
    assume "py_space c"
    then have "py_rstrip (s @ [c]) = rev (dropWhile py_space (rev s))"
      by (simp add: py_rstrip_def rstrip_by_def)
    also have "length \<dots> \<le> length s" by (metis length_dropWhile_le length_rev)
    finally show False using same by simp
  qed
qed (use rstrip_at [of c "[]" s] in simp)

lemma dropWhile_idem: "dropWhile p (dropWhile p xs) = dropWhile p xs"
  by (induction xs) auto

end
