(* ===== verification/PyTime.thy ===== *)
theory PyTime
  imports Prelude
begin

text \<open>
  The timestamps of the state files (\<open>now_iso\<close>, \<open>parse_iso_utc\<close> of \<open>lib/workqueue.py\<close>) over the
  part of Python's \<open>datetime\<close> they use. A UTC \<open>datetime\<close> and a \<open>timedelta\<close> are integers counting
  microseconds, a \<open>datetime\<close> from the start of year 1. \<open>ymd2ord\<close> and \<open>ord2ymd\<close> are the two
  directions of the proleptic Gregorian calendar. The main fact is \<open>parse_now_iso\<close>: reading back a
  written timestamp gives the moment it was written for, cut to whole seconds.
\<close>

subsection \<open>Calendar\<close>

definition is_leap :: "int \<Rightarrow> bool" where
  "is_leap y \<longleftrightarrow> y mod 4 = 0 \<and> (y mod 100 \<noteq> 0 \<or> y mod 400 = 0)"

definition days_before_year :: "int \<Rightarrow> int" where
  "days_before_year y = (y - 1) * 365 + (y - 1) div 4 - (y - 1) div 100 + (y - 1) div 400"

definition days_in_month :: "bool \<Rightarrow> int \<Rightarrow> int" where
  "days_in_month leap m =
     (if m = 2 then (if leap then 29 else 28) else if m \<in> {4, 6, 9, 11} then 30 else 31)"

definition days_before_month :: "bool \<Rightarrow> int \<Rightarrow> int" where
  "days_before_month leap m =
     [0, 31, 59, 90, 120, 151, 181, 212, 243, 273, 304, 334] ! nat (m - 1)
     + (if 2 < m \<and> leap then 1 else 0)"

definition ymd2ord :: "int \<Rightarrow> int \<Rightarrow> int \<Rightarrow> int" where
  "ymd2ord y m d = days_before_year y + days_before_month (is_leap y) m + d"

definition valid_ymd :: "int \<Rightarrow> int \<Rightarrow> int \<Rightarrow> bool" where
  "valid_ymd y m d \<longleftrightarrow>
     1 \<le> y \<and> 1 \<le> m \<and> m \<le> 12 \<and> 1 \<le> d \<and> d \<le> days_in_month (is_leap y) m"

definition month_at :: "bool \<Rightarrow> int \<Rightarrow> int" where
  "month_at leap n = (let l = (if leap then 1 else 0) in
     if n < 31 then 1 else if n < 59 + l then 2 else if n < 90 + l then 3
     else if n < 120 + l then 4 else if n < 151 + l then 5 else if n < 181 + l then 6
     else if n < 212 + l then 7 else if n < 243 + l then 8 else if n < 273 + l then 9
     else if n < 304 + l then 10 else if n < 334 + l then 11 else 12)"

definition ord2ymd :: "int \<Rightarrow> int \<times> int \<times> int" where
  "ord2ymd n0 =
     (let n = n0 - 1;
          n400 = n div 146097; n = n mod 146097;
          n100 = n div 36524; n = n mod 36524;
          n4 = n div 1461; n = n mod 1461;
          n1 = n div 365; n = n mod 365;
          y = n400 * 400 + 1 + n100 * 100 + n4 * 4 + n1
      in if n1 = 4 \<or> n100 = 4 then (y - 1, 12, 31)
         else (let leap = (n1 = 3 \<and> (n4 \<noteq> 24 \<or> n100 = 3)); m = month_at leap n
               in (y, m, n - days_before_month leap m + 1)))"

lemma days_before_month_simps:
  "days_before_month leap 1 = 0" "days_before_month leap 2 = 31"
  "days_before_month leap 3 = (if leap then 60 else 59)"
  "days_before_month leap 4 = (if leap then 91 else 90)"
  "days_before_month leap 5 = (if leap then 121 else 120)"
  "days_before_month leap 6 = (if leap then 152 else 151)"
  "days_before_month leap 7 = (if leap then 182 else 181)"
  "days_before_month leap 8 = (if leap then 213 else 212)"
  "days_before_month leap 9 = (if leap then 244 else 243)"
  "days_before_month leap 10 = (if leap then 274 else 273)"
  "days_before_month leap 11 = (if leap then 305 else 304)"
  "days_before_month leap 12 = (if leap then 335 else 334)"
  by (simp_all add: days_before_month_def)

definition month_ok :: "bool \<Rightarrow> int \<Rightarrow> int \<Rightarrow> bool" where
  "month_ok leap n m \<longleftrightarrow> 1 \<le> m \<and> m \<le> 12 \<and> 1 \<le> n - days_before_month leap m + 1
     \<and> n - days_before_month leap m + 1 \<le> days_in_month leap m"

lemma month_at_ok:
  assumes "0 \<le> n" and "n < 365 + (if leap then 1 else 0)"
  shows "month_ok leap n (month_at leap n)"
proof -
  have step: "(c \<Longrightarrow> month_ok l n a) \<Longrightarrow> (\<not> c \<Longrightarrow> month_ok l n b)
    \<Longrightarrow> month_ok l n (if c then a else b)" for c a b l
    by simp
  show ?thesis
  proof (cases leap)
    case True
    with assms show ?thesis
      unfolding month_at_def Let_def
      apply (intro step)
      apply (simp_all only: if_True month_ok_def days_before_month_simps days_in_month_def)
      apply simp_all
      done
  next
    case False
    with assms show ?thesis
      unfolding month_at_def Let_def
      apply (intro step)
      apply (simp_all only: if_False month_ok_def days_before_month_simps days_in_month_def)
      apply simp_all
      done
  qed
qed

lemma year_parts:
  fixes a b c d :: int
  assumes "0 \<le> b" "b \<le> 3" "0 \<le> c" "c \<le> 24" "0 \<le> d" "d \<le> 3"
  shows "days_before_year (a * 400 + 1 + b * 100 + c * 4 + d) = a * 146097 + b * 36524 + c * 1461 + d * 365"
    and "is_leap (a * 400 + 1 + b * 100 + c * 4 + d) \<longleftrightarrow> d = 3 \<and> (c \<noteq> 24 \<or> b = 3)"
proof -
  let ?y = "a * 400 + b * 100 + c * 4 + d"
  have q4: "?y div 4 = a * 100 + b * 25 + c"
    using assms by (intro int_div_pos_eq [where r = d]) simp_all
  have q100: "?y div 100 = a * 4 + b"
    using assms by (intro int_div_pos_eq [where r = "c * 4 + d"]) simp_all
  have q400: "?y div 400 = a"
    using assms by (intro int_div_pos_eq [where r = "b * 100 + c * 4 + d"]) simp_all
  have y: "a * 400 + 1 + b * 100 + c * 4 + d - 1 = ?y" by simp
  show "days_before_year (a * 400 + 1 + b * 100 + c * 4 + d)
    = a * 146097 + b * 36524 + c * 1461 + d * 365"
    unfolding days_before_year_def y q4 q100 q400 by simp
  have r4: "(a * 400 + 1 + b * 100 + c * 4 + d) mod 4 = (if d = 3 then 0 else d + 1)"
    using assms
    by (intro int_mod_pos_eq [where q = "a * 100 + b * 25 + c + (if d = 3 then 1 else 0)"])
      simp_all
  have r100: "(a * 400 + 1 + b * 100 + c * 4 + d) mod 100
      = (if c = 24 \<and> d = 3 then 0 else c * 4 + d + 1)"
    using assms
    by (intro int_mod_pos_eq [where q = "a * 4 + b + (if c = 24 \<and> d = 3 then 1 else 0)"])
      auto
  have r400: "(a * 400 + 1 + b * 100 + c * 4 + d) mod 400
      = (if b = 3 \<and> c = 24 \<and> d = 3 then 0 else b * 100 + c * 4 + d + 1)"
    using assms
    by (intro int_mod_pos_eq [where q = "a + (if b = 3 \<and> c = 24 \<and> d = 3 then 1 else 0)"])
      auto
  show "is_leap (a * 400 + 1 + b * 100 + c * 4 + d) \<longleftrightarrow> d = 3 \<and> (c \<noteq> 24 \<or> b = 3)"
    unfolding is_leap_def r4 r100 r400 using assms by auto
qed

lemma ord2ymd_parts:
  fixes n :: int
  defines "a \<equiv> n div 146097" and "r \<equiv> n mod 146097"
  defines "b \<equiv> r div 36524" and "s \<equiv> r mod 36524"
  defines "c \<equiv> s div 1461" and "t \<equiv> s mod 1461"
  defines "d \<equiv> t div 365" and "e \<equiv> t mod 365"
  shows "n = a * 146097 + b * 36524 + c * 1461 + d * 365 + e"
    and "0 \<le> b \<and> b \<le> 4" and "0 \<le> c \<and> c \<le> 24" and "0 \<le> d \<and> d \<le> 4" and "0 \<le> e \<and> e < 365"
    and "b = 4 \<Longrightarrow> c = 0 \<and> d = 0 \<and> e = 0" and "d = 4 \<Longrightarrow> e = 0"
    and "d = 4 \<Longrightarrow> c = 24 \<Longrightarrow> b = 3"
proof -
  have n: "n = a * 146097 + r" and r: "r = b * 36524 + s" and s: "s = c * 1461 + t"
    and t: "t = d * 365 + e"
    by (simp_all add: a_def r_def b_def s_def c_def t_def d_def e_def)
  have rb: "0 \<le> r \<and> r < 146097" and sb: "0 \<le> s \<and> s < 36524" and tb: "0 \<le> t \<and> t < 1461"
    and eb: "0 \<le> e \<and> e < 365"
    by (simp_all add: r_def s_def t_def e_def)
  show "n = a * 146097 + b * 36524 + c * 1461 + d * 365 + e"
    using n r s t by simp
  show b: "0 \<le> b \<and> b \<le> 4" using r rb sb by simp
  show c: "0 \<le> c \<and> c \<le> 24" using s sb tb by simp
  show d: "0 \<le> d \<and> d \<le> 4" using t tb eb by simp
  show "0 \<le> e \<and> e < 365" by (rule eb)
  show "b = 4 \<Longrightarrow> c = 0 \<and> d = 0 \<and> e = 0" using r rb sb s c tb t d eb by simp
  show "d = 4 \<Longrightarrow> e = 0" using t tb eb by simp
  show "d = 4 \<Longrightarrow> c = 24 \<Longrightarrow> b = 3" using r rb sb s t tb eb b by simp
qed

lemma ord2ymd_inverse:
  assumes "0 < n" and "ord2ymd n = (y, m, d)"
  shows "ymd2ord y m d = n \<and> valid_ymd y m d"
proof -
  define k where "k = n - 1"
  define a r b s c t i e where "a = k div 146097" and "r = k mod 146097"
    and "b = r div 36524" and "s = r mod 36524" and "c = s div 1461" and "t = s mod 1461"
    and "i = t div 365" and "e = t mod 365"
  note defs = a_def r_def b_def s_def c_def t_def i_def e_def
  note parts = ord2ymd_parts [of k, folded defs]
  have a0: "0 \<le> a" using assms(1) by (simp add: a_def k_def pos_imp_zdiv_nonneg_iff)
  let ?y = "a * 400 + 1 + b * 100 + c * 4 + i"
  have unf: "ord2ymd n = (if i = 4 \<or> b = 4 then (?y - 1, 12, 31)
     else (let leap = (i = 3 \<and> (c \<noteq> 24 \<or> b = 3)); mo = month_at leap e
           in (?y, mo, e - days_before_month leap mo + 1)))"
    by (simp add: ord2ymd_def Let_def k_def [symmetric] defs [symmetric])
  consider (b4) "b = 4" | (i4) "b \<noteq> 4" "i = 4" | (std) "b \<noteq> 4" "i \<noteq> 4" by blast
  then show ?thesis
  proof cases
    case b4
    with parts(6) have z: "c = 0" "i = 0" "e = 0" by simp_all
    have eq: "?y - 1 = a * 400 + 1 + 3 * 100 + 24 * 4 + 3" using b4 z by simp
    have "days_before_year (?y - 1) = a * 146097 + 3 * 36524 + 24 * 1461 + 3 * 365"
      unfolding eq by (rule year_parts) simp_all
    moreover have "is_leap (?y - 1)"
      unfolding eq by (subst year_parts) simp_all
    ultimately show ?thesis
      using assms(2) unf b4 z parts(1) a0 k_def
      by (auto simp: ymd2ord_def valid_ymd_def days_before_month_simps days_in_month_def)
  next
    case i4
    with parts(7,8) parts(2,3) have z: "e = 0" "c \<noteq> 24 \<or> b = 3" by auto
    have eq: "?y - 1 = a * 400 + 1 + b * 100 + c * 4 + 3" using i4 by simp
    have rng: "0 \<le> b" "b \<le> 3" "0 \<le> c" "c \<le> 24" using parts(2,3) i4 by auto
    have "days_before_year (?y - 1) = a * 146097 + b * 36524 + c * 1461 + 3 * 365"
      unfolding eq by (rule year_parts) (simp_all add: rng)
    moreover have "is_leap (?y - 1)"
      unfolding eq using z by (subst year_parts(2)) (auto simp: rng)
    ultimately show ?thesis
      using assms(2) unf i4 z parts(1,2,3) a0 k_def
      by (auto simp: ymd2ord_def valid_ymd_def days_before_month_simps days_in_month_def)
  next
    case std
    have rng: "0 \<le> b" "b \<le> 3" "0 \<le> c" "c \<le> 24" "0 \<le> i" "i \<le> 3"
      using parts(2,3,4) std by auto
    let ?leap = "i = 3 \<and> (c \<noteq> 24 \<or> b = 3)"
    have dby: "days_before_year ?y = a * 146097 + b * 36524 + c * 1461 + i * 365"
      and leap: "is_leap ?y = ?leap"
      using year_parts [OF rng] by simp_all
    have "month_ok ?leap e (month_at ?leap e)"
      using parts(5) by (intro month_at_ok) auto
    moreover have "y = ?y" "m = month_at ?leap e" "d = e - days_before_month ?leap m + 1"
      using assms(2) unf std by (auto simp: Let_def)
    ultimately show ?thesis
      using parts(1) rng a0 k_def dby leap
      by (simp add: ymd2ord_def valid_ymd_def month_ok_def)
  qed
qed

subsection \<open>Reading and writing timestamps\<close>

abbreviation usec_per_sec :: int where "usec_per_sec \<equiv> 1000000"

definition dig :: "int \<Rightarrow> char" where
  "dig n = char_of (48 + nat n)"

definition undig :: "char \<Rightarrow> int" where
  "undig c = int (of_char c) - 48"

definition pad2 :: "int \<Rightarrow> string" where
  "pad2 n = [dig (n div 10), dig (n mod 10)]"

definition pad4 :: "int \<Rightarrow> string" where
  "pad4 n = [dig (n div 1000), dig (n div 100 mod 10), dig (n div 10 mod 10), dig (n mod 10)]"

definition secs :: "int \<Rightarrow> int" where
  "secs t = t div usec_per_sec mod 86400"

text \<open>
  \<open>now_iso\<close> and every \<open>strftime("%Y-%m-%dT%H:%M:%SZ")\<close>: whole seconds, the microseconds are cut
  off. The year has four digits, as it has for the years 1000 to 9999.
\<close>

definition now_iso :: "int \<Rightarrow> string" where
  "now_iso t =
     (case ord2ymd (t div usec_per_sec div 86400 + 1) of (y, m, d) \<Rightarrow>
        pad4 y @ ''-'' @ pad2 m @ ''-'' @ pad2 d @ ''T'' @ pad2 (secs t div 3600) @ '':''
        @ pad2 (secs t div 60 mod 60) @ '':'' @ pad2 (secs t mod 60) @ ''Z'')"

text \<open>One numeric field of \<open>strptime\<close>: one or two digits within bounds, as its regular expression
  has them; a day may be written with a leading space.\<close>

definition field2 :: "int \<Rightarrow> int \<Rightarrow> string \<Rightarrow> int option" where
  "field2 lo hi s =
     (case s of
        [a] \<Rightarrow> if py_digit a \<and> lo \<le> undig a then Some (undig a) else None
      | [a, b] \<Rightarrow>
          if py_digit a \<and> py_digit b \<and> lo \<le> 10 * undig a + undig b \<and> 10 * undig a + undig b \<le> hi
          then Some (10 * undig a + undig b) else None
      | _ \<Rightarrow> None)"

definition day_field :: "string \<Rightarrow> int option" where
  "day_field s = (case s of
     [a, b] \<Rightarrow> if a = CHR '' '' then field2 1 31 [b] else field2 1 31 s
   | _ \<Rightarrow> field2 1 31 s)"

definition year_field :: "string \<Rightarrow> int option" where
  "year_field s = (case s of
     [a, b, c, d] \<Rightarrow>
       if py_digit a \<and> py_digit b \<and> py_digit c \<and> py_digit d
       then Some (1000 * undig a + 100 * undig b + 10 * undig c + undig d) else None
   | _ \<Rightarrow> None)"

text \<open>\<open>datetime(y, m, d, H, M, S)\<close>, which refuses the leap seconds the pattern admits.\<close>

definition mk_datetime :: "int \<Rightarrow> int \<Rightarrow> int \<Rightarrow> int \<Rightarrow> int \<Rightarrow> int \<Rightarrow> int option" where
  "mk_datetime y m d hh mm ss =
     (if valid_ymd y m d \<and> ss \<le> 59
      then Some ((((ymd2ord y m d - 1) * 86400) + hh * 3600 + mm * 60 + ss) * usec_per_sec)
      else None)"

text \<open>\<open>parse_iso_utc\<close>: the pattern ignores letter case, so \<open>t\<close> and \<open>z\<close> are accepted too.\<close>

definition parse_iso_utc :: "string \<Rightarrow> int option" where
  "parse_iso_utc v =
     (let (ys, _, r1) = py_partition CHR ''-'' v;
          (ms, _, r2) = py_partition CHR ''-'' r1;
          (ds, _, r3) = py_partition CHR ''T'' (map (\<lambda>c. if c = CHR ''t'' then CHR ''T'' else c) r2);
          (hs, _, r4) = py_partition CHR '':'' r3;
          (mins, _, r5) = py_partition CHR '':'' r4;
          (ss, z, r6) = py_partition CHR ''Z'' (map (\<lambda>c. if c = CHR ''z'' then CHR ''Z'' else c) r5)
      in if z \<and> r6 = [] then
           (case (year_field ys, field2 1 12 ms, day_field ds, field2 0 23 hs, field2 0 59 mins,
                  field2 0 61 ss) of
              (Some y, Some m, Some d, Some hh, Some mm, Some s) \<Rightarrow> mk_datetime y m d hh mm s
            | _ \<Rightarrow> None)
         else None)"

lemma of_char_dig: "0 \<le> n \<Longrightarrow> n < 10 \<Longrightarrow> (of_char (dig n) :: nat) = 48 + nat n"
  by (simp add: dig_def)

lemma dig_simps [simp]:
  assumes "0 \<le> n" "n < 10"
  shows "py_digit (dig n)" and "undig (dig n) = n"
  using assms by (simp_all add: py_digit_def undig_def of_char_dig Let_def nat_less_iff)

lemma dig_neq:
  assumes "0 \<le> n" "n < 10"
  shows "dig n \<noteq> CHR ''-''" "dig n \<noteq> CHR ''T''" "dig n \<noteq> CHR ''t''" "dig n \<noteq> CHR '':''"
    "dig n \<noteq> CHR ''Z''" "dig n \<noteq> CHR ''z''" "dig n \<noteq> CHR '' ''"
proof -
  have b: "48 \<le> (of_char (dig n) :: nat)" "(of_char (dig n) :: nat) \<le> 57"
    using assms by (auto simp: of_char_dig)
  show "dig n \<noteq> CHR ''-''" "dig n \<noteq> CHR ''T''" "dig n \<noteq> CHR ''t''" "dig n \<noteq> CHR '':''"
    "dig n \<noteq> CHR ''Z''" "dig n \<noteq> CHR ''z''" "dig n \<noteq> CHR '' ''"
    by (rule notI, use b in simp)+
qed

lemma pad2_field: "0 \<le> n \<Longrightarrow> n \<le> 99 \<Longrightarrow> lo \<le> n \<Longrightarrow> n \<le> hi \<Longrightarrow> field2 lo hi (pad2 n) = Some n"
  by (simp add: field2_def pad2_def)

lemma pad2_day: "1 \<le> n \<Longrightarrow> n \<le> 31 \<Longrightarrow> day_field (pad2 n) = Some n"
  using pad2_field [of n 1 31] by (simp add: day_field_def pad2_def dig_neq)

lemma pad4_field:
  assumes "0 \<le> n" "n \<le> 9999"
  shows "year_field (pad4 n) = Some n"
proof -
  have d: "n div 100 = n div 10 div 10" "n div 1000 = n div 10 div 10 div 10"
    by (simp_all flip: zdiv_zmult2_eq)
  have sum: "n = 10 * a + r0 \<Longrightarrow> a = 10 * b + r1 \<Longrightarrow> b = 10 * c + r2
    \<Longrightarrow> 1000 * c + 100 * r2 + 10 * r1 + r0 = n" for a b c r0 r1 r2 :: int
    by simp
  have "1000 * (n div 1000) + 100 * (n div 100 mod 10) + 10 * (n div 10 mod 10) + n mod 10 = n"
    unfolding d by (rule sum; rule mult_div_mod_eq [symmetric])
  moreover have "0 \<le> n div 1000" "n div 1000 < 10" using assms by auto
  moreover note dig_simps [OF this] and dig_simps [of "n div 100 mod 10"]
    and dig_simps [of "n div 10 mod 10"] and dig_simps [of "n mod 10"]
  ultimately show ?thesis
    unfolding year_field_def pad4_def list.case by (simp only: if_True simp_thms pos_mod_sign
        pos_mod_bound zero_less_numeral)
qed

lemma secs_bounds: "0 \<le> secs t \<and> secs t < 86400"
  by (simp add: secs_def)

lemma pad_no_sep:
  assumes "0 \<le> n" "n \<le> 99" and "c \<in> {CHR ''-'', CHR ''T'', CHR ''t'', CHR '':'', CHR ''Z'', CHR ''z''}"
  shows "c \<notin> set (pad2 n)"
proof -
  have "0 \<le> n div 10" "n div 10 < 10" "0 \<le> n mod 10" "n mod 10 < 10" using assms(1,2) by auto
  note dig_neq [OF this(1,2)] dig_neq [OF this(3,4)]
  with assms(3) show ?thesis by (auto simp: pad2_def)
qed

lemma pad4_no_sep:
  assumes "0 \<le> n" "n \<le> 9999"
  shows "CHR ''-'' \<notin> set (pad4 n)"
proof -
  have "0 \<le> n div 1000" "n div 1000 < 10" using assms by auto
  note dig_neq(1) [OF this] and dig_neq(1) [of "n div 100 mod 10"]
    and dig_neq(1) [of "n div 10 mod 10"] and dig_neq(1) [of "n mod 10"]
  then show ?thesis by (simp add: pad4_def)
qed

lemma map_swap_id: "x \<notin> set s \<Longrightarrow> map (\<lambda>c. if c = x then y else c) s = s"
  by (induction s) auto

lemma parse_iso_fields:
  assumes y: "0 \<le> y" "y \<le> 9999" and m: "1 \<le> m" "m \<le> 12" and d: "1 \<le> d" "d \<le> 31"
    and h: "0 \<le> h" "h \<le> 23" and mi: "0 \<le> mi" "mi \<le> 59" and se: "0 \<le> se" "se \<le> 59"
  shows "parse_iso_utc (pad4 y @ ''-'' @ pad2 m @ ''-'' @ pad2 d @ ''T'' @ pad2 h @ '':''
           @ pad2 mi @ '':'' @ pad2 se @ ''Z'') = mk_datetime y m d h mi se"
proof -
  define r5 where "r5 = pad2 se @ CHR ''Z'' # []"
  define r4 where "r4 = pad2 mi @ CHR '':'' # r5"
  define r3 where "r3 = pad2 h @ CHR '':'' # r4"
  define r2 where "r2 = pad2 d @ CHR ''T'' # r3"
  define r1 where "r1 = pad2 m @ CHR ''-'' # r2"
  note defs = r1_def r2_def r3_def r4_def r5_def
  have p0: "py_partition CHR ''-'' (pad4 y @ CHR ''-'' # r1) = (pad4 y, True, r1)"
    using y by (intro py_partition_append pad4_no_sep) auto
  have p1: "py_partition CHR ''-'' r1 = (pad2 m, True, r2)"
    unfolding r1_def using m by (intro py_partition_append pad_no_sep) auto
  have p2: "py_partition CHR ''T'' r2 = (pad2 d, True, r3)"
    unfolding r2_def using d by (intro py_partition_append pad_no_sep) auto
  have p3: "py_partition CHR '':'' r3 = (pad2 h, True, r4)"
    unfolding r3_def using h by (intro py_partition_append pad_no_sep) auto
  have p4: "py_partition CHR '':'' r4 = (pad2 mi, True, r5)"
    unfolding r4_def using mi by (intro py_partition_append pad_no_sep) auto
  have p5: "py_partition CHR ''Z'' r5 = (pad2 se, True, [])"
    unfolding r5_def using se by (intro py_partition_append pad_no_sep) auto
  have no: "CHR ''t'' \<notin> set (pad2 n)" "CHR ''z'' \<notin> set (pad2 n)" if "0 \<le> n" "n \<le> 99" for n
    by (rule pad_no_sep [OF that], simp)+
  have "CHR ''t'' \<notin> set r2"
    unfolding defs using d h mi se by (simp add: no)
  then have m2: "map (\<lambda>c. if c = CHR ''t'' then CHR ''T'' else c) r2 = r2"
    by (rule map_swap_id)
  have "CHR ''z'' \<notin> set r5"
    unfolding r5_def using se by (simp add: no)
  then have m5: "map (\<lambda>c. if c = CHR ''z'' then CHR ''Z'' else c) r5 = r5"
    by (rule map_swap_id)
  have fields: "year_field (pad4 y) = Some y" "field2 1 12 (pad2 m) = Some m"
    "day_field (pad2 d) = Some d" "field2 0 23 (pad2 h) = Some h"
    "field2 0 59 (pad2 mi) = Some mi" "field2 0 61 (pad2 se) = Some se"
    using y m d h mi se by (auto intro!: pad4_field pad2_field pad2_day)
  have "pad4 y @ ''-'' @ pad2 m @ ''-'' @ pad2 d @ ''T'' @ pad2 h @ '':'' @ pad2 mi @ '':''
      @ pad2 se @ ''Z'' = pad4 y @ CHR ''-'' # r1"
    by (simp add: defs)
  then show ?thesis
    unfolding parse_iso_utc_def by (simp only: Let_def p0 prod.case p1 m2 p2 p3 p4 m5 p5 fields
        option.case simp_thms if_True)
qed

lemma hms_sum:
  "(x div 86400) * 86400 + (x mod 86400 div 3600) * 3600 + (x mod 86400 div 60 mod 60) * 60
     + x mod 86400 mod 60 = (x :: int)"
proof -
  have h60: "x mod 86400 div 3600 = x mod 86400 div 60 div 60" by (simp flip: zdiv_zmult2_eq)
  have sum: "u = 60 * v + r \<Longrightarrow> v = 60 * w + q \<Longrightarrow> x = 86400 * k + u
    \<Longrightarrow> k * 86400 + w * 3600 + q * 60 + r = x" for u v w r q k :: int
    by simp
  show ?thesis
    unfolding h60 by (rule sum; rule mult_div_mod_eq [symmetric])
qed

text \<open>Any timestamp the code writes in the years 1000 to 9999 is read back as the same second.\<close>

theorem parse_now_iso:
  assumes "0 \<le> t" and "1000 \<le> fst (ord2ymd (t div usec_per_sec div 86400 + 1))"
    and "fst (ord2ymd (t div usec_per_sec div 86400 + 1)) \<le> 9999"
  shows "parse_iso_utc (now_iso t) = Some (t div usec_per_sec * usec_per_sec)"
proof -
  obtain y m d where o: "ord2ymd (t div usec_per_sec div 86400 + 1) = (y, m, d)"
    by (cases "ord2ymd (t div usec_per_sec div 86400 + 1)")
  have pos: "0 < t div usec_per_sec div 86400 + 1" using assms(1) by simp
  note inv = ord2ymd_inverse [OF pos o]
  then have d: "1 \<le> d" "d \<le> 31" and m: "1 \<le> m" "m \<le> 12" and val: "valid_ymd y m d"
    by (auto simp: valid_ymd_def days_in_month_def split: if_splits)
  have y: "0 \<le> y" "y \<le> 9999" using assms o by simp_all
  let ?s = "secs t"
  have h: "0 \<le> ?s div 3600" "?s div 3600 \<le> 23" using secs_bounds [of t] by auto
  have mi: "0 \<le> ?s div 60 mod 60" "?s div 60 mod 60 \<le> 59" by auto
  have se: "0 \<le> ?s mod 60" "?s mod 60 \<le> 59" by auto
  have ymd: "ymd2ord y m d - 1 = t div usec_per_sec div 86400" using inv by simp
  have "parse_iso_utc (now_iso t)
      = mk_datetime y m d (?s div 3600) (?s div 60 mod 60) (?s mod 60)"
    unfolding now_iso_def o prod.case by (rule parse_iso_fields [OF y m d h mi se])
  also have "\<dots> = Some (((t div usec_per_sec div 86400) * 86400 + (?s div 3600) * 3600
      + (?s div 60 mod 60) * 60 + ?s mod 60) * usec_per_sec)"
    unfolding mk_datetime_def ymd using val se by (simp only: if_True simp_thms)
  also have "\<dots> = Some (t div usec_per_sec * usec_per_sec)"
    unfolding secs_def hms_sum by (rule refl)
  finally show ?thesis .
qed


subsection \<open>The range of times\<close>

text \<open>
  A convex range of times that are written with a four-digit year: days 365250 to 3651599 of the
  calendar, which lie in the years 1001 to 9998.
\<close>

definition iso_time :: "int \<Rightarrow> bool" where
  "iso_time t \<longleftrightarrow> 365250 * 86400 * usec_per_sec \<le> t \<and> t < 3651600 * 86400 * usec_per_sec"

text \<open>Cut to whole seconds, as a written timestamp is.\<close>

definition whole_sec :: "int \<Rightarrow> int" where
  "whole_sec t = t div usec_per_sec * usec_per_sec"

lemma whole_sec_eq: "whole_sec t = t - t mod usec_per_sec"
  by (simp add: whole_sec_def minus_mod_eq_div_mult)

lemma whole_sec_le: "whole_sec t \<le> t" and whole_sec_gt: "t - usec_per_sec < whole_sec t"
  by (simp_all add: whole_sec_eq)

lemma whole_sec_mono: "t \<le> t' \<Longrightarrow> whole_sec t \<le> whole_sec t'"
  by (simp add: whole_sec_def zdiv_mono1)

lemma whole_sec_add: "whole_sec (t + n * usec_per_sec) = whole_sec t + n * usec_per_sec"
  by (simp add: whole_sec_def algebra_simps)

lemma days_before_year_mono: "y \<le> y' \<Longrightarrow> days_before_year y \<le> days_before_year y'"
proof -
  assume le: "y \<le> y'"
  have "(y' - 1) div 100 \<le> ((y - 1) + 100 * (y' - y)) div 100"
    using le by (intro zdiv_mono1) auto
  also have "\<dots> = (y - 1) div 100 + (y' - y)"
    by (rule div_mult_self2 [THEN trans]) simp_all
  finally have h: "(y' - 1) div 100 \<le> (y - 1) div 100 + (y' - y)" .
  have f: "(y - 1) div 4 \<le> (y' - 1) div 4" "(y - 1) div 400 \<le> (y' - 1) div 400"
    using le by (intro zdiv_mono1; simp)+
  have "(y' - y) \<le> 365 * (y' - y)" using le by simp
  with h f show ?thesis by (simp add: days_before_year_def algebra_simps)
qed

lemma ymd2ord_bounds:
  assumes "valid_ymd y m d"
  shows "days_before_year y < ymd2ord y m d \<and> ymd2ord y m d \<le> days_before_year y + 366"
proof -
  have "m = 1 \<or> m = 2 \<or> m = 3 \<or> m = 4 \<or> m = 5 \<or> m = 6 \<or> m = 7 \<or> m = 8 \<or> m = 9 \<or> m = 10
      \<or> m = 11 \<or> m = 12"
    using assms unfolding valid_ymd_def by arith
  then show ?thesis
    using assms by (auto simp: valid_ymd_def ymd2ord_def days_before_month_simps days_in_month_def
        split: if_splits)
qed

lemma iso_time_year:
  assumes "iso_time t" and o: "ord2ymd (t div usec_per_sec div 86400 + 1) = (y, m, d)"
  shows "1000 \<le> y \<and> y \<le> 9999"
proof -
  define n where "n = t div usec_per_sec div 86400 + 1"
  have "365250 * 86400 * usec_per_sec div usec_per_sec div 86400 \<le> t div usec_per_sec div 86400"
    using assms(1) by (intro zdiv_mono1) (auto simp: iso_time_def)
  then have lo: "365251 \<le> n" by (simp add: n_def)
  have "t div usec_per_sec div 86400
      \<le> (3651600 * 86400 * usec_per_sec - 1) div usec_per_sec div 86400"
    using assms(1) by (intro zdiv_mono1) (auto simp: iso_time_def)
  then have hi: "n \<le> 3651600" by (simp add: n_def)
  have inv: "ymd2ord y m d = n" "valid_ymd y m d"
    using ord2ymd_inverse [of n y m d] o lo by (auto simp: n_def)
  note b = ymd2ord_bounds [OF inv(2), unfolded inv(1)]
  have "1000 \<le> y"
  proof (rule ccontr)
    assume "\<not> 1000 \<le> y"
    then have "days_before_year y \<le> days_before_year 999" by (intro days_before_year_mono) simp
    with b lo show False by (simp add: days_before_year_def)
  qed
  moreover have "y \<le> 9999"
  proof (rule ccontr)
    assume "\<not> y \<le> 9999"
    then have "days_before_year 10000 \<le> days_before_year y" by (intro days_before_year_mono) simp
    with b hi show False by (simp add: days_before_year_def)
  qed
  ultimately show ?thesis ..
qed

lemma parse_iso: "iso_time t \<Longrightarrow> parse_iso_utc (now_iso t) = Some (whole_sec t)"
  using parse_now_iso [of t] iso_time_year [of t]
  by (cases "ord2ymd (t div usec_per_sec div 86400 + 1)") (auto simp: whole_sec_def iso_time_def)

lemma iso_time_between: "iso_time a \<Longrightarrow> iso_time b \<Longrightarrow> a \<le> t \<Longrightarrow> t \<le> b \<Longrightarrow> iso_time t"
  by (simp add: iso_time_def)

end
