(* ===== verification/PyRegex.thy ===== *)
theory PyRegex
  imports Prelude
begin

text \<open>
  The part of Python's \<open>re\<close> module the modelled code uses: a backtracking matcher that returns
  the successes of a pattern in the order \<open>re\<close> tries them, so that the first one is the match
  \<open>re\<close> reports. A pattern is a term of \<open>rx\<close>; \<open>RRep\<close> carries whether the repetition is greedy
  and its bounds, \<open>RCase\<close> sets the IGNORECASE flag for a sub-pattern. A state is the text
  already consumed (reversed), the text left, and the captured groups.

  A repetition never takes an iteration that consumes nothing once its lower bound is reached,
  which is what makes it stop; its fuel, the lower bound plus the length of the text left, is
  never exhausted (\<open>rx_rep_fuel\<close>).
\<close>

subsection \<open>Patterns\<close>

datatype citem = CLit char | CRng char char | CDig | CNDig | CWrd | CNWrd | CSpc | CNSpc

datatype rx =
    REps
  | RSet bool "citem list"
  | RAny
  | RSeq rx rx
  | RAlt rx rx
  | RRep bool nat "nat option" rx
  | RGrp nat rx
  | RCase bool rx
  | RBos
  | REos
  | RBol
  | REol
  | RWordB bool
  | RLook bool rx
  | RBehind bool "citem list" bool

type_synonym rstate = "string \<times> string \<times> (nat \<times> string) list"

definition re_word :: "char \<Rightarrow> bool" where
  "re_word c \<longleftrightarrow> (let n = (of_char c :: nat) in
     (48 \<le> n \<and> n \<le> 57) \<or> (65 \<le> n \<and> n \<le> 90) \<or> n = 95 \<or> (97 \<le> n \<and> n \<le> 122)
     \<or> n \<in> {170, 178, 179, 181, 185, 186, 188, 189, 190}
     \<or> (192 \<le> n \<and> n \<le> 255 \<and> n \<noteq> 215 \<and> n \<noteq> 247))"

fun item_ok :: "char \<Rightarrow> citem \<Rightarrow> bool" where
  "item_ok c (CLit d) = (c = d)"
| "item_ok c (CRng a b) = ((of_char a :: nat) \<le> of_char c \<and> (of_char c :: nat) \<le> of_char b)"
| "item_ok c CDig = py_digit c"
| "item_ok c CNDig = (\<not> py_digit c)"
| "item_ok c CWrd = re_word c"
| "item_ok c CNWrd = (\<not> re_word c)"
| "item_ok c CSpc = py_space c"
| "item_ok c CNSpc = (\<not> py_space c)"

definition set_ok :: "bool \<Rightarrow> bool \<Rightarrow> citem list \<Rightarrow> char \<Rightarrow> bool" where
  "set_ok ic neg items c =
     (let hit = (list_ex (item_ok c) items
                 \<or> ic \<and> (list_ex (item_ok (lower_char c)) items
                         \<or> list_ex (item_ok (upper_char c)) items))
      in hit \<noteq> neg)"

text \<open>A literal string, a set of alternatives, and the usual repetitions.\<close>

fun rstr :: "string \<Rightarrow> rx" where
  "rstr [] = REps"
| "rstr [c] = RSet False [CLit c]"
| "rstr (c # d # s) = RSeq (RSet False [CLit c]) (rstr (d # s))"

fun rseq :: "rx list \<Rightarrow> rx" where
  "rseq [] = REps"
| "rseq [r] = r"
| "rseq (r # s # rs) = RSeq r (rseq (s # rs))"

fun ralt :: "rx list \<Rightarrow> rx" where
  "ralt [] = RSet False []"
| "ralt [r] = r"
| "ralt (r # s # rs) = RAlt r (ralt (s # rs))"

abbreviation ropt :: "rx \<Rightarrow> rx" where "ropt r \<equiv> RRep True 0 (Some 1) r"
abbreviation rstar :: "rx \<Rightarrow> rx" where "rstar r \<equiv> RRep True 0 None r"
abbreviation rplus :: "rx \<Rightarrow> rx" where "rplus r \<equiv> RRep True 1 None r"
abbreviation rset :: "citem list \<Rightarrow> rx" where "rset cs \<equiv> RSet False cs"
abbreviation rnot :: "citem list \<Rightarrow> rx" where "rnot cs \<equiv> RSet True cs"

subsection \<open>Matching\<close>

fun rx_rep :: "(rstate \<Rightarrow> rstate list) \<Rightarrow> bool \<Rightarrow> nat \<Rightarrow> nat \<Rightarrow> nat option \<Rightarrow> rstate \<Rightarrow> rstate list"
  where
  "rx_rep f g 0 m n st = (if m = 0 then [st] else [])"
| "rx_rep f g (Suc k) m n st =
     (if n = Some 0 then (if m = 0 then [st] else [])
      else
        (let more = concat (map (\<lambda>st'.
               if m = 0 \<and> fst (snd st') = fst (snd st) then []
               else rx_rep f g k (m - 1) (map_option (\<lambda>i. i - 1) n) st') (f st))
         in if 0 < m then more else if g then more @ [st] else st # more))"

definition at_word_boundary :: "string \<Rightarrow> string \<Rightarrow> bool" where
  "at_word_boundary pre suf =
     ((case pre of [] \<Rightarrow> False | c # _ \<Rightarrow> re_word c)
      \<noteq> (case suf of [] \<Rightarrow> False | c # _ \<Rightarrow> re_word c))"

abbreviation newline :: char where "newline \<equiv> CHR 0x0A"

primrec rxm :: "rx \<Rightarrow> bool \<Rightarrow> rstate \<Rightarrow> rstate list" where
  "rxm REps ic st = [st]"
| "rxm (RSet neg items) ic st =
     (case st of (pre, suf, caps) \<Rightarrow>
        (case suf of [] \<Rightarrow> []
         | c # cs \<Rightarrow> if set_ok ic neg items c then [(c # pre, cs, caps)] else []))"
| "rxm RAny ic st =
     (case st of (pre, suf, caps) \<Rightarrow>
        (case suf of [] \<Rightarrow> []
         | c # cs \<Rightarrow> if c = newline then [] else [(c # pre, cs, caps)]))"
| "rxm (RSeq a b) ic st = concat (map (rxm b ic) (rxm a ic st))"
| "rxm (RAlt a b) ic st = rxm a ic st @ rxm b ic st"
| "rxm (RRep g m n r) ic st =
     rx_rep (rxm r ic) g (m + length (fst (snd st)) + 1) m n st"
| "rxm (RGrp i r) ic st =
     map (\<lambda>(pre', suf', caps').
            (pre', suf',
             AList.update i (take (length (fst (snd st)) - length suf') (fst (snd st))) caps'))
         (rxm r ic st)"
| "rxm (RCase ic' r) ic st = rxm r ic' st"
| "rxm RBos ic st = (if fst st = [] then [st] else [])"
| "rxm REos ic st =
     (if fst (snd st) = [] \<or> fst (snd st) = [newline] then [st] else [])"
| "rxm RBol ic st =
     (case fst st of [] \<Rightarrow> [st] | c # _ \<Rightarrow> if c = newline then [st] else [])"
| "rxm REol ic st =
     (case fst (snd st) of [] \<Rightarrow> [st] | c # _ \<Rightarrow> if c = newline then [st] else [])"
| "rxm (RWordB pos) ic st =
     (if at_word_boundary (fst st) (fst (snd st)) = pos then [st] else [])"
| "rxm (RLook pos r) ic st = (if (rxm r ic st \<noteq> []) = pos then [st] else [])"
| "rxm (RBehind neg items pos) ic st =
     (if (case fst st of [] \<Rightarrow> False | c # _ \<Rightarrow> set_ok ic neg items c) = pos then [st] else [])"

subsection \<open>The functions of the module\<close>

text \<open>A match: the text before it, the text matched, the text after it, and the groups.\<close>

record re_hit =
  re_before :: string
  re_text :: string
  re_after :: string
  re_groups :: "(nat \<times> string) list"

definition hit_at :: "rx \<Rightarrow> bool \<Rightarrow> string \<Rightarrow> string \<Rightarrow> re_hit option" where
  "hit_at r ic pre suf =
     (case rxm r ic (pre, suf, []) of
        [] \<Rightarrow> None
      | (pre', suf', caps) # _ \<Rightarrow>
          Some \<lparr>re_before = rev pre, re_text = take (length suf - length suf') suf,
                re_after = suf', re_groups = caps\<rparr>)"

definition re_match :: "rx \<Rightarrow> bool \<Rightarrow> string \<Rightarrow> re_hit option" where
  "re_match r ic s = hit_at r ic [] s"

fun search_from :: "rx \<Rightarrow> bool \<Rightarrow> string \<Rightarrow> string \<Rightarrow> re_hit option" where
  "search_from r ic pre [] = hit_at r ic pre []"
| "search_from r ic pre (c # cs) =
     (case hit_at r ic pre (c # cs) of
        Some h \<Rightarrow> Some h
      | None \<Rightarrow> search_from r ic (c # pre) cs)"

definition re_search :: "rx \<Rightarrow> bool \<Rightarrow> string \<Rightarrow> re_hit option" where
  "re_search r ic s = search_from r ic [] s"

definition re_found :: "rx \<Rightarrow> bool \<Rightarrow> string \<Rightarrow> bool" where
  "re_found r ic s \<longleftrightarrow> re_search r ic s \<noteq> None"

definition re_group :: "nat \<Rightarrow> re_hit \<Rightarrow> string" where
  "re_group i h = (case map_of (re_groups h) i of None \<Rightarrow> [] | Some s \<Rightarrow> s)"

text \<open>\<open>re.sub\<close> with a constant replacement: every match that consumes text is replaced, the scan
  going on after it; the fuel is the length of the text.\<close>

fun sub_from :: "nat \<Rightarrow> rx \<Rightarrow> bool \<Rightarrow> string \<Rightarrow> string \<Rightarrow> string \<Rightarrow> string" where
  "sub_from 0 r ic repl pre suf = suf"
| "sub_from (Suc k) r ic repl pre suf =
     (case suf of [] \<Rightarrow> []
      | c # cs \<Rightarrow>
        (case hit_at r ic pre suf of
           Some h \<Rightarrow>
             if re_text h = [] then c # sub_from k r ic repl (c # pre) cs
             else repl @ sub_from k r ic repl (rev (re_text h) @ pre) (re_after h)
         | None \<Rightarrow> c # sub_from k r ic repl (c # pre) cs))"

definition re_sub :: "rx \<Rightarrow> bool \<Rightarrow> string \<Rightarrow> string \<Rightarrow> string" where
  "re_sub r ic repl s = sub_from (length s) r ic repl [] s"

subsection \<open>Facts about the matcher\<close>

text \<open>Matching consumes text from the front of what is left and changes none of it.\<close>

abbreviation whole :: "rstate \<Rightarrow> string" where
  "whole st \<equiv> rev (fst st) @ fst (snd st)"

definition shrinks :: "rstate \<Rightarrow> rstate \<Rightarrow> bool" where
  "shrinks st st' \<longleftrightarrow> whole st' = whole st \<and> suffix (fst (snd st')) (fst (snd st))"

lemma shrinks_refl [simp]: "shrinks st st"
  by (simp add: shrinks_def)

lemma shrinks_step [simp]: "shrinks (pre, c # cs, caps) (c # pre, cs, caps)"
  by (simp add: shrinks_def suffix_Cons)

lemma shrinks_trans: "shrinks a b \<Longrightarrow> shrinks b c \<Longrightarrow> shrinks a c"
  unfolding shrinks_def using suffix_order.trans by (simp, blast)

lemma rx_rep_shrinks:
  assumes f: "\<And>s s'. s' \<in> set (f s) \<Longrightarrow> shrinks s s'"
  shows "st' \<in> set (rx_rep f g k m n st) \<Longrightarrow> shrinks st st'"
proof (induction k arbitrary: m n st)
  case 0
  then show ?case by (simp split: if_splits)
next
  case (Suc k)
  show ?case
  proof (cases "st' = st")
    case True
    then show ?thesis by simp
  next
    case False
    with Suc.prems obtain mid where mid: "mid \<in> set (f st)"
      and st': "st' \<in> set (rx_rep f g k (m - 1) (map_option (\<lambda>i. i - 1) n) mid)"
      by (auto split: if_splits simp: Let_def)
    from st' have "shrinks mid st'" by (rule Suc.IH)
    moreover from mid have "shrinks st mid" by (rule f)
    ultimately show ?thesis by (rule shrinks_trans [rotated])
  qed
qed

lemma rxm_shrinks: "st' \<in> set (rxm r ic st) \<Longrightarrow> shrinks st st'"
proof (induction r arbitrary: ic st st')
  case (RSeq a b)
  then obtain mid where "mid \<in> set (rxm a ic st)" "st' \<in> set (rxm b ic mid)" by auto
  with RSeq.IH have "shrinks st mid" "shrinks mid st'" by blast+
  then show ?case by (rule shrinks_trans)
next
  case (RRep g m n r)
  from RRep.prems have "st' \<in> set (rx_rep (rxm r ic) g (m + length (fst (snd st)) + 1) m n st)"
    by simp
  then show ?case by (rule rx_rep_shrinks [where f = "rxm r ic", rotated]) (rule RRep.IH)
next
  case (RSet neg items)
  then show ?case by (auto split: prod.splits list.splits if_splits)
next
  case RAny
  then show ?case by (auto split: prod.splits list.splits if_splits)
next
  case (RAlt a b)
  from RAlt.prems have "st' \<in> set (rxm a ic st) \<or> st' \<in> set (rxm b ic st)" by simp
  with RAlt.IH show ?case by blast
next
  case (RGrp i r)
  from RGrp.prems obtain mid where "mid \<in> set (rxm r ic st)"
    and "fst st' = fst mid" "fst (snd st') = fst (snd mid)"
    by auto
  with RGrp.IH show ?case unfolding shrinks_def by metis
qed (simp_all split: list.splits if_splits)

text \<open>
  Once the lower bound is reached every further iteration shortens the text left, so any fuel
  above the lower bound plus that length gives the same successes: a repetition is never cut
  short.
\<close>

lemma rx_rep_fuel:
  assumes f: "\<And>s s'. s' \<in> set (f s) \<Longrightarrow> shrinks s s'"
    and "m + length (fst (snd st)) < k" and "k \<le> k'"
  shows "rx_rep f g k m n st = rx_rep f g k' m n st"
  using assms(2,3)
proof (induction k arbitrary: k' m n st)
  case 0
  then show ?case by simp
next
  case (Suc k)
  from Suc.prems obtain j where k': "k' = Suc j" and kj: "k \<le> j"
    by (cases k') auto
  have step: "rx_rep f g k (m - Suc 0) n' mid = rx_rep f g j (m - Suc 0) n' mid"
    if mid: "mid \<in> set (f st)" and prog: "\<not> (m = 0 \<and> fst (snd mid) = fst (snd st))" for mid n'
  proof (rule Suc.IH [OF _ kj])
    from f [OF mid] have suf: "suffix (fst (snd mid)) (fst (snd st))"
      by (simp add: shrinks_def)
    then have len: "length (fst (snd mid)) \<le> length (fst (snd st))"
      by (rule suffix_length_le)
    moreover have "length (fst (snd mid)) < length (fst (snd st))" if "m = 0"
      using prog that suf by (auto simp: suffix_def)
    ultimately show "m - Suc 0 + length (fst (snd mid)) < k"
      using Suc.prems by (cases m) auto
  qed
  have "(if m = 0 \<and> fst (snd mid) = fst (snd st) then []
         else rx_rep f g k (m - 1) (map_option (\<lambda>i. i - 1) n) mid)
        = (if m = 0 \<and> fst (snd mid) = fst (snd st) then []
           else rx_rep f g j (m - 1) (map_option (\<lambda>i. i - 1) n) mid)"
    if "mid \<in> set (f st)" for mid
    using step [OF that] by simp
  then show ?case
    unfolding k' rx_rep.simps by (simp add: Let_def cong: map_cong)
qed


subsection \<open>Literals and character classes\<close>

lemma rxm_rstr: "rxm (rstr w) ic (pre, w @ xs, caps) = [(rev w @ pre, xs, caps)]"
  by (induction w arbitrary: pre rule: rstr.induct) (simp_all add: set_ok_def)

text \<open>A repeated class matches every length up to that of the longest run of the class: the
  shortest first when lazy, the longest first when greedy.\<close>

lemma rx_rep_class:
  assumes f: "\<And>pre caps. f (pre, [], caps) = []"
    "\<And>pre c cs caps. f (pre, c # cs, caps) = (if P c then [(c # pre, cs, caps)] else [])"
    and "m + length suf < k"
  shows "rx_rep f g k m None (pre, suf, caps) =
    (if g then rev else id)
      (map (\<lambda>n. (rev (take n suf) @ pre, drop n suf, caps))
        [m ..< Suc (length (takeWhile P suf))])"
  using assms(3)
proof (induction suf arbitrary: pre k m)
  case Nil
  then obtain j where "k = Suc j" by (cases k) auto
  then show ?case by (simp add: f)
next
  case (Cons c suf)
  then obtain j where k: "k = Suc j" and j: "m - 1 + length suf < j" by (cases k) auto
  show ?case
  proof (cases "P c")
    case False
    then show ?thesis by (simp add: k f)
  next
    case True
    let ?L = "length (takeWhile P suf)"
    have shift: "map (\<lambda>n. (rev (take n suf) @ c # pre, drop n suf, caps)) [m - 1 ..< Suc ?L]
        = map (\<lambda>n. (rev (take n (c # suf)) @ pre, drop n (c # suf), caps)) [Suc (m - 1) ..< Suc (Suc ?L)]"
      unfolding map_Suc_upt [symmetric] by (simp add: comp_def del: upt_Suc)
    have rec: "rx_rep f g j (m - 1) None (c # pre, suf, caps) =
      (if g then rev else id) (map (\<lambda>n. (rev (take n (c # suf)) @ pre, drop n (c # suf), caps))
        [Suc (m - 1) ..< Suc (Suc ?L)])"
      unfolding shift [symmetric] by (rule Cons.IH [OF j])
    show ?thesis
    proof (cases m)
      case 0
      have "[0 ..< Suc (Suc ?L)] = 0 # [Suc 0 ..< Suc (Suc ?L)]"
        by (simp add: upt_conv_Cons del: upt_Suc)
      with rec 0 True show ?thesis by (simp add: k f Let_def del: upt_Suc)
    next
      case (Suc i)
      with rec True show ?thesis by (simp add: k f Let_def del: upt_Suc)
    qed
  qed
qed

lemma rxm_class:
  "rxm (RRep g m None (RSet neg items)) ic (pre, suf, caps) =
    (if g then rev else id)
      (map (\<lambda>n. (rev (take n suf) @ pre, drop n suf, caps))
        [m ..< Suc (length (takeWhile (set_ok ic neg items) suf))])"
  unfolding rxm.simps by (rule rx_rep_class) simp_all

subsection \<open>Searching\<close>

lemma hit_at_None: "hit_at r ic pre suf = None \<longleftrightarrow> rxm r ic (pre, suf, []) = []"
  by (simp add: hit_at_def split: list.split prod.split)

lemma search_from_None:
  "search_from r ic pre s = None \<longleftrightarrow> (\<forall>u v. s = u @ v \<longrightarrow> rxm r ic (rev u @ pre, v, []) = [])"
proof (induction s arbitrary: pre)
  case Nil
  then show ?case by (simp add: hit_at_None)
next
  case (Cons c cs)
  have "(\<forall>u v. c # cs = u @ v \<longrightarrow> rxm r ic (rev u @ pre, v, []) = [])
      \<longleftrightarrow> rxm r ic (pre, c # cs, []) = []
        \<and> (\<forall>u v. cs = u @ v \<longrightarrow> rxm r ic (rev u @ c # pre, v, []) = [])"
    (is "?all \<longleftrightarrow> ?here \<and> ?later")
  proof
    assume all: ?all
    have ?here using all [rule_format, of "[]" "c # cs"] by simp
    moreover have ?later using all [rule_format, of "c # u" v for u v] by simp
    ultimately show "?here \<and> ?later" ..
  qed (auto simp: Cons_eq_append_conv)
  then show ?case using Cons.IH [of "c # pre"] hit_at_None [of r ic pre "c # cs"]
    by (cases "hit_at r ic pre (c # cs)") simp_all
qed

lemma re_found_at: "re_found r ic s \<longleftrightarrow> (\<exists>u v. s = u @ v \<and> rxm r ic (rev u, v, []) \<noteq> [])"
  by (auto simp: re_found_def re_search_def search_from_None)

lemma re_found_alt: "re_found (RAlt a b) ic s \<longleftrightarrow> re_found a ic s \<or> re_found b ic s"
  by (auto simp: re_found_at)

lemma re_found_ralt: "re_found (ralt rs) ic s \<longleftrightarrow> (\<exists>r\<in>set rs. re_found r ic s)"
proof (induction rs rule: ralt.induct)
  case 1
  then show ?case by (simp add: re_found_at set_ok_def split: list.split)
qed (auto simp: re_found_alt)

text \<open>A text that begins with a literal at the start of a line.\<close>

lemma rxm_line_start: "rxm (rseq [RBol, rstr w]) ic ([], w @ xs, []) = [(rev w, xs, [])]"
  by (simp add: rxm_rstr)

lemma re_found_line_start: "re_found (rseq [RBol, rstr w]) ic (w @ xs)"
  unfolding re_found_at by (rule exI [of _ "[]"], rule exI [of _ "w @ xs"]) (simp add: rxm_rstr)

lemma hit_at_parts:
  assumes "hit_at r ic pre suf = Some h"
  shows "re_before h = rev pre" "re_text h @ re_after h = suf"
proof -
  obtain st sts where run: "rxm r ic (pre, suf, []) = st # sts"
    using assms by (auto simp: hit_at_def split: list.splits)
  have "shrinks (pre, suf, []) st" using rxm_shrinks [of st r ic "(pre, suf, [])"] run by simp
  then obtain used where "suf = used @ fst (snd st)" by (auto simp: shrinks_def suffix_def)
  then show "re_before h = rev pre" "re_text h @ re_after h = suf"
    using assms run by (auto simp: hit_at_def split: prod.splits)
qed

lemma search_from_hit:
  "search_from r ic pre s = Some h \<Longrightarrow> \<exists>u v. s = u @ v \<and> hit_at r ic (rev u @ pre) v = Some h"
proof (induction s arbitrary: pre)
  case (Cons c cs)
  show ?case
  proof (cases "hit_at r ic pre (c # cs)")
    case None
    then have "search_from r ic (c # pre) cs = Some h" using Cons.prems by simp
    from Cons.IH [OF this] obtain u v where "cs = u @ v" "hit_at r ic (rev u @ c # pre) v = Some h" by blast
    then have "c # cs = (c # u) @ v \<and> hit_at r ic (rev (c # u) @ pre) v = Some h" by simp
    then show ?thesis by blast
  next
    case (Some h')
    then have "c # cs = [] @ (c # cs) \<and> hit_at r ic (rev [] @ pre) (c # cs) = Some h" using Cons.prems by simp
    then show ?thesis by blast
  qed
qed auto

lemma re_search_hit:
  assumes "re_search r ic s = Some h"
  shows "re_before h @ re_text h @ re_after h = s" "hit_at r ic (rev (re_before h)) (re_text h @ re_after h) = Some h"
  using search_from_hit [of r ic "[]" s h] assms hit_at_parts by (auto simp: re_search_def)

end
