(* ===== verification/Paths.thy ===== *)
theory Paths
  imports PyRegex
begin

text \<open>
  Which files are auditable and which subsystem a file belongs to: the path rules of
  \<open>lib/audit_scope.py\<close> and \<open>lib/workqueue.py\<close>. The partition depth, a module variable of the
  code that the environment can set, is an argument here; \<open>subsystem_depth\<close> is the function that
  chooses it.
\<close>

subsection \<open>Names, suffixes and stems\<close>

text \<open>\<open>Path(s).name\<close>, \<open>.suffix\<close> and \<open>.stem\<close> of a POSIX path.\<close>

definition path_name :: "string \<Rightarrow> string" where
  "path_name s =
     (case rev (filter (\<lambda>p. p \<noteq> [] \<and> p \<noteq> ''.'') (py_split CHR ''/'' s)) of
        [] \<Rightarrow> [] | p # _ \<Rightarrow> p)"

definition split_ext :: "string \<Rightarrow> string \<times> string" where
  "split_ext name =
     (let ext = rev (takeWhile (\<lambda>c. c \<noteq> CHR ''.'') (rev name));
          stem_len = length name - length ext - 1
      in if CHR ''.'' \<in> set name \<and> 0 < stem_len \<and> ext \<noteq> []
         then (take stem_len name, CHR ''.'' # ext) else (name, []))"

definition path_suffix :: "string \<Rightarrow> string" where
  "path_suffix s = snd (split_ext (path_name s))"

definition path_stem :: "string \<Rightarrow> string" where
  "path_stem s = fst (split_ext (path_name s))"

subsection \<open>Scope rules\<close>

definition EXCLUDED_PATH_SEGMENTS :: "string list" where
  "EXCLUDED_PATH_SEGMENTS =
     [''doc'', ''docs'', ''documentation'', ''example'', ''examples'',
      ''test'', ''tests'', ''testing'', ''unittest'', ''unittests'',
      ''bench'', ''benchmark'', ''benchmarks'', ''asv_bench'',
      ''fuzz'', ''fuzzer'', ''fuzzers'', ''fuzzing'', ''flow-typed'']"

definition is_excluded_path_part :: "string \<Rightarrow> bool" where
  "is_excluded_path_part part0 =
     (let part = py_lower part0 in
        part \<in> set EXCLUDED_PATH_SEGMENTS
        \<or> part = ''cmakefiles''
        \<or> list_ex (\<lambda>p. py_startswith p part)
             [''build-asan'', ''build-ubsan'', ''build-msan'', ''build-tsan'', ''cmake-build'']
        \<or> py_endswith ''-install'' part)"

definition non_audit_dirs_for_prompt :: string where
  "non_audit_dirs_for_prompt = py_join '', '' (sort EXCLUDED_PATH_SEGMENTS)"

definition EXCLUDED_FILE_NAMES :: "string list" where
  "EXCLUDED_FILE_NAMES = [''config.h'', ''config.h.cmake'', ''config.h.in'']"

text \<open>The \<open>source_exts\<close> of every entry of the language registry, and their union in lower case.\<close>

definition LANGUAGES_source_exts :: "string list list" where
  "LANGUAGES_source_exts =
     [[''.c'', ''.h''], [''.cc'', ''.cpp'', ''.cxx'', ''.hh'', ''.hpp'', ''.hxx''], [''.rs''],
      [''.go''], [''.swift''], [''.java''], [''.kt'', ''.kts''], [''.py'', ''.pyx'', ''.pxd''],
      [''.js'', ''.mjs'', ''.cjs''], [''.ts'', ''.tsx''], [''.php''], [''.rb''],
      [''.pl'', ''.pm''], [''.r'', ''.R''], []]"

definition all_source_exts :: "string set" where
  "all_source_exts = py_lower ` set (concat LANGUAGES_source_exts)"

definition SOURCE_EXTS :: "string set" where
  "SOURCE_EXTS = all_source_exts"

fun strip_dot_slash :: "string \<Rightarrow> string" where
  "strip_dot_slash (a # b # s) =
     (if a = CHR ''.'' \<and> b = CHR ''/'' then strip_dot_slash s else a # b # s)"
| "strip_dot_slash s = s"

definition normalized_relpath :: "string \<Rightarrow> string" where
  "normalized_relpath path =
     dropWhile (\<lambda>c. c = CHR ''/'')
       (strip_dot_slash (map (\<lambda>c. if c = CHR 0x5C then CHR ''/'' else c) path))"

definition is_excluded_work_path :: "string \<Rightarrow> bool" where
  "is_excluded_work_path path =
     (let rel = py_lower (normalized_relpath path) in
      if rel = [] then True
      else
        (let parts = filter (\<lambda>p. p \<noteq> []) (py_split CHR ''/'' rel);
             name = (if parts \<noteq> [] then last parts else rel);
             stem = py_lower (path_stem name)
         in list_ex is_excluded_path_part (butlast parts)
            \<or> name \<in> set EXCLUDED_FILE_NAMES
            \<or> list_ex (\<lambda>p. py_startswith p stem)
                 [''test'', ''tests_'', ''unit_'', ''fixture_'', ''fuzz'', ''harness'', ''bench'',
                  ''benchmark'']
            \<or> list_ex (\<lambda>p. py_endswith p stem)
                 [''test'', ''_test'', ''_tests'', ''_unittest'', ''_fixture'', ''_fixtures'',
                  ''_fuzz'', ''_fuzzer'', ''_harness'', ''_bench'', ''_benchmark'']
            \<or> list_ex (\<lambda>p. py_contains p stem)
                 [''_test_'', ''test_'', ''_fuzz'', ''fuzz_'', ''_harness'', ''harness_'',
                  ''_bench_'', ''_benchmark_'', ''_perf_'']
            \<or> py_contains ''.test.'' name
            \<or> py_contains ''.spec.'' name))"

definition is_auditable_source_path :: "string \<Rightarrow> bool" where
  "is_auditable_source_path path =
     (let rel = normalized_relpath path
      in py_lower (path_suffix rel) \<in> SOURCE_EXTS \<and> \<not> is_excluded_work_path rel)"

subsection \<open>Subsystems\<close>

definition subsystem_bucket :: "string \<Rightarrow> nat \<Rightarrow> string" where
  "subsystem_bucket path depth =
     (let parts = filter (\<lambda>p. p \<noteq> []) (py_split CHR ''/'' path);
          directories = butlast parts
      in if directories = [] then ''root'' else py_join ''/'' (take depth directories))"

definition subsystem_for :: "nat \<Rightarrow> string \<Rightarrow> string" where
  "subsystem_for depth path =
     (if path = [] then ''root''
      else if py_startswith ''/'' path then ''unknown''
      else subsystem_bucket path depth)"

definition DEFAULT_SUBSYSTEM_DEPTH :: nat where "DEFAULT_SUBSYSTEM_DEPTH = 2"
definition MAX_SUBSYSTEM_DEPTH :: nat where "MAX_SUBSYSTEM_DEPTH = 5"

fun bucket_counts :: "nat \<Rightarrow> string list \<Rightarrow> (string \<times> nat) list \<Rightarrow> (string \<times> nat) list" where
  "bucket_counts depth [] acc = acc"
| "bucket_counts depth (raw # rest) acc =
     bucket_counts depth rest
       (AList.map_default (subsystem_bucket raw depth) 1 Suc acc)"

text \<open>The comparison \<open>largest / total <= 0.7\<close> in whole numbers.\<close>

definition spread_ok :: "nat \<Rightarrow> string list \<Rightarrow> bool" where
  "spread_ok depth paths =
     (let buckets = bucket_counts depth paths []
      in 2 \<le> length buckets
         \<and> 10 * Max (set (map snd buckets)) \<le> 7 * length paths)"

definition auto_subsystem_depth :: "string list \<Rightarrow> nat \<Rightarrow> nat" where
  "auto_subsystem_depth source_paths dflt =
     (let paths = filter (\<lambda>p. p \<noteq> []) source_paths
      in if paths = [] then dflt
         else (case find (\<lambda>depth. spread_ok depth paths) [dflt ..< Suc MAX_SUBSYSTEM_DEPTH] of
                 Some depth \<Rightarrow> depth
               | None \<Rightarrow> MAX_SUBSYSTEM_DEPTH))"

definition load_persisted_subsystem_depth :: "string option \<Rightarrow> nat option" where
  "load_persisted_subsystem_depth content =
     (case content of
        None \<Rightarrow> None
      | Some text \<Rightarrow>
          (let raw = py_strip text in
           if py_isdigit raw then
             (let d = digits_nat raw in
              if 1 \<le> d \<and> d \<le> MAX_SUBSYSTEM_DEPTH then Some d else None)
           else None))"

text \<open>\<open>_subsystem_depth\<close>: the depth of this process, else the environment's, else the persisted
  one (absent when there is no results directory), else the default.\<close>

definition subsystem_depth :: "nat option \<Rightarrow> string \<Rightarrow> string option \<Rightarrow> nat" where
  "subsystem_depth auto env persisted =
     (case auto of
        Some d \<Rightarrow> d
      | None \<Rightarrow>
          if py_isdigit env \<and> 1 \<le> digits_nat env then min (digits_nat env) MAX_SUBSYSTEM_DEPTH
          else (case load_persisted_subsystem_depth persisted of
                  Some d \<Rightarrow> d
                | None \<Rightarrow> DEFAULT_SUBSYSTEM_DEPTH))"

subsection \<open>Facts\<close>

lemma normalized_relpath_not_absolute: "\<not> py_startswith ''/'' (normalized_relpath path)"
  by (auto simp: py_startswith_def normalized_relpath_def prefix_def dropWhile_eq_Cons_conv)

lemma normalized_relpath_Nil [simp]: "normalized_relpath [] = []"
  by (simp add: normalized_relpath_def)

lemma butlast_filter_file:
  assumes "CHR ''/'' \<notin> set f" "f \<noteq> []"
  shows "butlast (filter (\<lambda>p. p \<noteq> []) (py_split CHR ''/'' (d @ CHR ''/'' # f)))
    = filter (\<lambda>p. p \<noteq> []) (py_split CHR ''/'' d)"
proof -
  have f: "py_split CHR ''/'' f = [f]"
    using assms(1) by (induction f) auto
  have "py_split CHR ''/'' (d @ CHR ''/'' # f) = py_split CHR ''/'' d @ [f]"
    by (induction d) (auto simp: f split: list.splits)
  with assms(2) show ?thesis by simp
qed

text \<open>Two files of one directory are in the same bucket, whatever their names.\<close>

lemma subsystem_bucket_same_dir:
  assumes "CHR ''/'' \<notin> set f" "f \<noteq> []" "CHR ''/'' \<notin> set g" "g \<noteq> []"
  shows "subsystem_bucket (d @ CHR ''/'' # f) depth = subsystem_bucket (d @ CHR ''/'' # g) depth"
  by (simp add: subsystem_bucket_def butlast_filter_file assms Let_def)

lemma auto_subsystem_depth_bounds:
  assumes "dflt \<le> MAX_SUBSYSTEM_DEPTH"
  shows "dflt \<le> auto_subsystem_depth ps dflt \<and> auto_subsystem_depth ps dflt \<le> MAX_SUBSYSTEM_DEPTH"
  using assms unfolding auto_subsystem_depth_def Let_def
  by (auto split: option.splits simp: find_Some_iff simp del: upt_Suc)

end
