(* ===== verification/Rows.thy ===== *)
theory Rows
  imports PyTime Paths
begin

text \<open>
  The state files of a results tree (\<open>state/*.jsonl\<close>, \<open>work-cards.jsonl\<close>). A file is the list of
  its rows in file order, and a row is a record with one field per key that the modelled code
  reads or writes. The value of a field is the value \<open>row.get(key, "")\<close> (or \<open>0\<close>, \<open>[]\<close>) has, so a
  missing key is the empty string; where the code tells a missing key from an empty one the field
  is an option. Rows are those this code writes: every key has a value of the type it is written
  with. Appending is atomic (the code holds the file's lock and appends one line), and a rewrite
  under the lock replaces the list.
\<close>

subsection \<open>Rows\<close>

record card =
  cd_id :: string
  cd_kind :: string
  cd_file :: string
  cd_function :: string
  cd_strategy :: string
  cd_allowed :: "string list"
  cd_reason :: string
  cd_edge_set :: string
  cd_touched :: "string list"
  cd_description :: string
  cd_subsystem :: string
  cd_mode :: string
  cd_score :: int
  cd_patch_cards :: "string list"
  cd_buildability :: string
  cd_source_strategy :: string

definition card0 :: card where
  "card0 = \<lparr>cd_id = [], cd_kind = [], cd_file = [], cd_function = [], cd_strategy = [],
     cd_allowed = [], cd_reason = [], cd_edge_set = [], cd_touched = [], cd_description = [],
     cd_subsystem = [], cd_mode = [], cd_score = 0, cd_patch_cards = [], cd_buildability = [],
     cd_source_strategy = []\<rparr>"

record claim =
  cl_card :: string
  cl_file :: string
  cl_agent :: string
  cl_mode :: string
  cl_role :: string
  cl_status :: "string option"
  cl_claimed_at :: string
  cl_expires_at :: string
  cl_updated_at :: string
  cl_released_at :: string
  cl_rank :: int
  cl_size :: int
  cl_score :: int
  cl_strategy :: string
  cl_source :: string
  cl_hyp :: string
  cl_reason :: string
  cl_preserved :: string
  cl_artifact :: string
  cl_note :: string

definition claim0 :: claim where
  "claim0 = \<lparr>cl_card = [], cl_file = [], cl_agent = [], cl_mode = [], cl_role = [],
     cl_status = None, cl_claimed_at = [], cl_expires_at = [], cl_updated_at = [],
     cl_released_at = [], cl_rank = 0, cl_size = 0, cl_score = 0, cl_strategy = [], cl_source = [],
     cl_hyp = [], cl_reason = [], cl_preserved = [], cl_artifact = [], cl_note = []\<rparr>"

text \<open>\<open>row.get("status", "")\<close> and \<open>row.get("status", "claimed")\<close>.\<close>

definition cl_st :: "claim \<Rightarrow> string" where
  "cl_st r = (case cl_status r of None \<Rightarrow> [] | Some s \<Rightarrow> s)"

definition cl_st_claimed :: "claim \<Rightarrow> string" where
  "cl_st_claimed r = (case cl_status r of None \<Rightarrow> ''claimed'' | Some s \<Rightarrow> s)"

record hyp =
  hy_id :: string
  hy_agent :: string
  hy_card :: string
  hy_hypothesis :: string
  hy_file :: string
  hy_input_shape :: string
  hy_guard_gap :: string
  hy_diagnostic :: string
  hy_strategy :: string
  hy_status :: string
  hy_created_at :: string
  hy_updated_at :: string
  hy_note :: string
  hy_subsystem :: string
  hy_rejected :: string

definition hyp0 :: hyp where
  "hyp0 = \<lparr>hy_id = [], hy_agent = [], hy_card = [], hy_hypothesis = [], hy_file = [],
     hy_input_shape = [], hy_guard_gap = [], hy_diagnostic = [], hy_strategy = [], hy_status = [],
     hy_created_at = [], hy_updated_at = [], hy_note = [], hy_subsystem = [], hy_rejected = []\<rparr>"

record run =
  rn_id :: string
  rn_agent :: string
  rn_hyp :: string
  rn_card :: string
  rn_mode :: string
  rn_testcase :: string
  rn_sha1 :: string
  rn_asan_output :: string
  rn_verdict :: string
  rn_sanitizer :: string
  rn_sanitizer_runs :: int
  rn_created_at :: string
  rn_reason :: string
  rn_failure_class :: string
  rn_coverage :: string
  rn_closest :: string
  rn_property :: string
  rn_duplicate_of :: "string option"
  rn_not_filed :: string
  rn_duration :: "rat option"

definition run0 :: run where
  "run0 = \<lparr>rn_id = [], rn_agent = [], rn_hyp = [], rn_card = [], rn_mode = [], rn_testcase = [],
     rn_sha1 = [], rn_asan_output = [], rn_verdict = [], rn_sanitizer = [], rn_sanitizer_runs = 0,
     rn_created_at = [], rn_reason = [], rn_failure_class = [], rn_coverage = [],
     rn_closest = [], rn_property = [], rn_duplicate_of = None, rn_not_filed = [],
     rn_duration = None\<rparr>"

record note_row =
  nt_id :: string
  nt_agent :: string
  nt_hyp :: string
  nt_card :: string
  nt_kind :: string
  nt_text :: string
  nt_created_at :: string

definition note0 :: note_row where
  "note0 = \<lparr>nt_id = [], nt_agent = [], nt_hyp = [], nt_card = [], nt_kind = [], nt_text = [],
     nt_created_at = []\<rparr>"

text \<open>One results tree: the queue, the ledgers, and the dry-iteration counter files
  (\<open>.subsystem_dry_<slug>\<close>, by slug).\<close>

record store =
  st_cards :: "card list"
  st_hyps :: "hyp list"
  st_claims :: "claim list"
  st_runs :: "run list"
  st_notes :: "note_row list"
  st_dry :: "(string \<times> string) list"

definition store0 :: store where
  "store0 = \<lparr>st_cards = [], st_hyps = [], st_claims = [], st_runs = [], st_notes = [], st_dry = []\<rparr>"

lemmas row_defaults = card0_def claim0_def hyp0_def run0_def note0_def store0_def

subsection \<open>The last row of each key\<close>

text \<open>
  The recurring loop \<open>for row in rows: key = ...; if key: latest[key] = row\<close>. The dictionary keeps
  the order in which the keys were first met.
\<close>

definition latest_by :: "('r \<Rightarrow> 'k option) \<Rightarrow> 'r list \<Rightarrow> ('k \<times> 'r) list" where
  "latest_by key rows =
     foldl (\<lambda>acc row. case key row of None \<Rightarrow> acc | Some k \<Rightarrow> AList.update k row acc) [] rows"

definition some_key :: "string \<Rightarrow> string option" where
  "some_key k = (if k = [] then None else Some k)"

lemma some_key_simps [simp]:
  "some_key [] = None" "some_key (c # s) = Some (c # s)" "some_key k = Some k' \<longleftrightarrow> k = k' \<and> k \<noteq> []"
  "some_key k = None \<longleftrightarrow> k = []"
  by (auto simp: some_key_def)

lemma latest_by_Nil [simp]: "latest_by key [] = []"
  by (simp add: latest_by_def)

lemma latest_by_snoc:
  "latest_by key (rows @ [row]) =
     (case key row of None \<Rightarrow> latest_by key rows | Some k \<Rightarrow> AList.update k row (latest_by key rows))"
  unfolding latest_by_def by simp

lemma map_of_latest_by_snoc:
  "map_of (latest_by key (rows @ [row])) k =
     (if key row = Some k then Some row else map_of (latest_by key rows) k)"
  by (auto simp: latest_by_snoc update_conv split: option.splits)

text \<open>The entry of a key is the last row with that key.\<close>

lemma map_of_latest_by:
  "map_of (latest_by key rows) k = find (\<lambda>r. key r = Some k) (rev rows)"
  by (induction rows rule: rev_induct) (simp_all add: map_of_latest_by_snoc)

lemma map_of_latest_by_SomeD:
  "map_of (latest_by key rows) k = Some r \<Longrightarrow> r \<in> set rows \<and> key r = Some k"
  by (induction rows rule: rev_induct) (auto simp: map_of_latest_by_snoc split: if_splits)

lemma distinct_latest_by [simp]: "distinct (map fst (latest_by key rows))"
  by (induction rows rule: rev_induct)
    (auto simp: latest_by_snoc distinct_update split: option.splits)

lemma in_latest_byD:
  "(k, r) \<in> set (latest_by key rows) \<Longrightarrow> r \<in> set rows \<and> key r = Some k"
  using map_of_latest_by_SomeD [of key rows k r] by (simp add: map_of_eq_Some_iff)

text \<open>With the index of each row: the last index that has the key.\<close>

lemma map_of_latest_enumerate:
  "map_of (latest_by (\<lambda>(i, r). key r) (enumerate 0 rows)) k = Some (i, r) \<longleftrightarrow>
     i < length rows \<and> r = rows ! i \<and> key r = Some k
     \<and> (\<forall>j < length rows. i < j \<longrightarrow> key (rows ! j) \<noteq> Some k)"
proof (induction rows rule: rev_induct)
  case Nil
  show ?case by simp
next
  case (snoc x rows)
  have e: "enumerate 0 (rows @ [x]) = enumerate 0 rows @ [(length rows, x)]"
    by (simp add: enumerate_append_eq)
  show ?case
  proof (cases "key x = Some k")
    case True
    then show ?thesis
      unfolding e map_of_latest_by_snoc by (auto simp: nth_append less_Suc_eq)
  next
    case False
    then show ?thesis
      unfolding e map_of_latest_by_snoc using snoc by (auto simp: nth_append less_Suc_eq)
  qed
qed

subsection \<open>Counters\<close>

text \<open>
  \<open>counts[key] = counts.get(key, 0) + 1\<close> over the rows that have a key, the reading
  \<open>counts.get(key, 0)\<close>, and the sets \<open>seen.setdefault(key, set()).add(value)\<close>.
\<close>

definition count_by :: "('r \<Rightarrow> 'k option) \<Rightarrow> 'r list \<Rightarrow> ('k \<times> nat) list" where
  "count_by key rows =
     foldl (\<lambda>acc row. case key row of None \<Rightarrow> acc | Some k \<Rightarrow> AList.map_default k 1 Suc acc) [] rows"

definition get0 :: "('k \<times> nat) list \<Rightarrow> 'k \<Rightarrow> nat" where
  "get0 m k = (case map_of m k of None \<Rightarrow> 0 | Some n \<Rightarrow> n)"

definition group_sets :: "('r \<Rightarrow> ('k \<times> 'v) option) \<Rightarrow> 'r list \<Rightarrow> ('k \<times> 'v list) list" where
  "group_sets key rows =
     foldl (\<lambda>acc row. case key row of
              None \<Rightarrow> acc
            | Some (k, v) \<Rightarrow> AList.map_default k [v] (List.insert v) acc) [] rows"

definition get_set :: "('k \<times> 'v list) list \<Rightarrow> 'k \<Rightarrow> 'v list" where
  "get_set m k = (case map_of m k of None \<Rightarrow> [] | Some vs \<Rightarrow> vs)"

lemma map_of_map_default:
  "map_of (AList.map_default k v f al) k' =
     (if k = k' then Some (case map_of al k of None \<Rightarrow> v | Some x \<Rightarrow> f x) else map_of al k')"
  by (induction al) auto

lemma count_by_Nil [simp]: "count_by key [] = []"
  by (simp add: count_by_def)

lemma count_by_snoc:
  "count_by key (rows @ [r]) =
     (case key r of None \<Rightarrow> count_by key rows | Some k \<Rightarrow> AList.map_default k 1 Suc (count_by key rows))"
  unfolding count_by_def by simp

lemma get0_count_by: "get0 (count_by key rows) k = length (filter (\<lambda>r. key r = Some k) rows)"
  by (induction rows rule: rev_induct)
    (auto simp: count_by_snoc get0_def map_of_map_default split: option.splits)

lemma map_of_count_by_pos: "map_of (count_by key rows) k = Some n \<Longrightarrow> 0 < n"
  by (induction rows arbitrary: n rule: rev_induct)
    (auto simp: count_by_snoc map_of_map_default split: option.splits if_splits)

lemma map_default_not_Nil [simp]: "AList.map_default k v f al \<noteq> []"
  by (cases al) auto

lemma count_by_Nil_iff: "count_by key rows = [] \<longleftrightarrow> (\<forall>r \<in> set rows. key r = None)"
  by (induction rows rule: rev_induct) (auto simp: count_by_snoc split: option.splits)

lemma group_sets_Nil [simp]: "group_sets key [] = []"
  by (simp add: group_sets_def)

lemma group_sets_snoc:
  "group_sets key (rows @ [r]) =
     (case key r of
        None \<Rightarrow> group_sets key rows
      | Some (k, v) \<Rightarrow> AList.map_default k [v] (List.insert v) (group_sets key rows))"
  unfolding group_sets_def by simp

lemma set_get_set:
  "set (get_set (group_sets key rows) k) = {v. \<exists>r \<in> set rows. key r = Some (k, v)}"
  by (induction rows rule: rev_induct)
    (auto simp: group_sets_snoc get_set_def map_of_map_default split: option.splits prod.splits)

lemma distinct_get_set: "distinct (get_set (group_sets key rows) k)"
  by (induction rows rule: rev_induct)
    (auto simp: group_sets_snoc get_set_def map_of_map_default split: option.splits prod.splits)

lemma length_get_set:
  "length (get_set (group_sets key rows) k) = card {v. \<exists>r \<in> set rows. key r = Some (k, v)}"
  by (metis distinct_card distinct_get_set set_get_set)

text \<open>\<open>acc.setdefault(key, start)\<close> followed by an update of the entry, over all rows: the entry of
  a key is the fold of the update over the rows with that key.\<close>

lemma group_fold:
  fixes key :: "'r \<Rightarrow> 'k" and f :: "'r \<Rightarrow> 'b \<Rightarrow> 'b" and z :: "'k \<Rightarrow> 'b"
  defines "F \<equiv> \<lambda>rows. foldl (\<lambda>acc r. AList.map_default (key r) (f r (z (key r))) (f r) acc) [] rows"
  shows "map_of (F rows) k =
      (if \<exists>r \<in> set rows. key r = k
       then Some (foldl (\<lambda>b r. f r b) (z k) (filter (\<lambda>r. key r = k) rows)) else None)"
    and "distinct (map fst (F rows))"
    and "set (map fst (F rows)) = key ` set rows"
proof -
  have s: "F (rows @ [r]) = AList.map_default (key r) (f r (z (key r))) (f r) (F rows)" for rows r
    by (simp add: F_def)
  show m: "map_of (F rows) k =
      (if \<exists>r \<in> set rows. key r = k
       then Some (foldl (\<lambda>b r. f r b) (z k) (filter (\<lambda>r. key r = k) rows)) else None)" for k
  proof (induction rows rule: rev_induct)
    case Nil
    show ?case by (simp add: F_def)
  next
    case (snoc r rows)
    then show ?case
      by (auto simp: s map_of_map_default filter_empty_conv split: option.splits)
  qed
  show "distinct (map fst (F rows))"
    by (induction rows rule: rev_induct) (simp add: F_def, simp add: s distinct_map_default)
  have "k \<in> set (map fst (F rows)) \<longleftrightarrow> map_of (F rows) k \<noteq> None" for k
    using map_of_eq_None_iff [of "F rows" k] by (simp only: set_map) blast
  then have "k \<in> set (map fst (F rows)) \<longleftrightarrow> k \<in> key ` set rows" for k
    unfolding m by (auto simp: image_iff)
  then show "set (map fst (F rows)) = key ` set rows" by blast
qed

text \<open>Splitting the rows by a key loses none and counts none twice.\<close>

lemma sum_list_length_filter:
  assumes "distinct ks" "key ` set xs \<subseteq> set ks"
  shows "sum_list (map (\<lambda>k. length (filter (\<lambda>x. key x = k) xs)) ks) = length xs"
  using assms(2)
proof (induction xs)
  case Nil
  show ?case by simp
next
  case (Cons x xs)
  have "sum_list (map (\<lambda>k. length (filter (\<lambda>x. key x = k) (x # xs))) ks)
      = sum_list (map (\<lambda>k. (if key x = k then 1 else 0) + length (filter (\<lambda>x. key x = k) xs)) ks)"
    by (intro arg_cong [where f = sum_list] map_cong) auto
  also have "\<dots> = sum_list (map (\<lambda>k. if key x = k then 1 else 0) ks) + length xs"
    using Cons by (simp add: sum_list_addf)
  also have "sum_list (map (\<lambda>k. if key x = k then 1 else 0) ks) = (1 :: nat)"
    using assms(1) Cons.prems by (simp add: sum_list_distinct_conv_sum_set)
  finally show ?case by simp
qed

end
