(* ===== verification/Patterns.thy ===== *)
theory Patterns
  imports PyRegex
begin

text \<open>
  The regular expressions and word tables of \<open>lib/workqueue.py\<close> that decide how a commit is
  scored, which notes count as evidence for a strategy, and how an artifact id is read, each as a
  pattern term with the syntax tree \<open>re\<close> parses it to. \<open>True\<close> beside a pattern is IGNORECASE.
\<close>

definition AUDIT_PATCH_BOOST_PATTERNS :: "rx list" where
  "AUDIT_PATCH_BOOST_PATTERNS =
     [(rseq [(RWordB True), (rstr ''cve''), (ropt (rset [CLit (CHR ''-''), CLit (CHR ''_''),
      CLit (CHR '' '')])), (RRep True 4 (Some 4) (rset [CDig])), (rset [CLit (CHR ''-''),
      CLit (CHR ''_'')]), (RRep True 3 (Some 7) (rset [CDig])), (RWordB True)]),
      (rseq [(RWordB True), (rstr ''ghsa''), (rset [CLit (CHR ''-''), CLit (CHR ''_'')]),
      (RRep True 4 None (rset [CRng (CHR ''a'') (CHR ''z''), CRng (CHR ''0'') (CHR ''9''),
      CLit (CHR ''-'')])), (RWordB True)]),
      (rseq [(RWordB True), (rstr ''cwe''), (ropt (rset [CLit (CHR ''-''), CLit (CHR ''_''),
      CLit (CHR '' '')])), (RRep True 2 (Some 4) (rset [CDig])), (RWordB True)]),
      (rseq [(RWordB True), (rstr ''s''), (ralt [(rstr ''ecurity''), (rstr ''ec''),
      (rstr ''afety'')]), (rset [CLit (CHR '' ''), CLit (CHR ''-'')]), (ralt [(rstr ''fix''),
      (rstr ''patch''), (rstr ''update''), (rstr ''advisory''), (rstr ''issue''),
      (rstr ''bug'')]), (RWordB True)]),
      (rseq [(RWordB True), (rstr ''use''), (ropt (rset [CLit (CHR ''-''),
      CLit (CHR '' '')])), (rstr ''after''), (ropt (rset [CLit (CHR ''-''),
      CLit (CHR '' '')])), (ralt [(rstr ''free''), (rstr ''return''), (rstr ''scope''),
      (rstr ''poison'')]), (RWordB True)]),
      (rseq [(RWordB True), (rstr ''double''), (ropt (rset [CLit (CHR ''-''),
      CLit (CHR '' '')])), (rstr ''free''), (RWordB True)]),
      (rseq [(RWordB True), (ralt [(rstr ''heap''), (rstr ''stack''), (rstr ''buffer''),
      (rstr ''global'')]), (ropt (rset [CLit (CHR ''-''), CLit (CHR '' '')])),
      (ralt [(rseq [(rstr ''over''), (ropt (rset [CLit (CHR ''-''), CLit (CHR '' '')])),
      (ralt [(rstr ''flow''), (rstr ''read''), (rstr ''write'')])]), (rseq [(rstr ''under''),
      (ropt (rset [CLit (CHR ''-''), CLit (CHR '' '')])), (ralt [(rstr ''flow''),
      (rstr ''read''), (rstr ''write'')])])]), (RWordB True)]),
      (rseq [(RWordB True), (rstr ''buffer ''), (ralt [(rstr ''over''), (rstr ''under'')]),
      (ropt (rset [CLit (CHR ''-''), CLit (CHR '' '')])), (ralt [(rstr ''flow''),
      (rstr ''read''), (rstr ''write''), (rstr ''run'')]), (RWordB True)]),
      (rseq [(RWordB True), (rstr ''out''), (ropt (rset [CLit (CHR ''-''),
      CLit (CHR '' '')])), (rstr ''of''), (ropt (rset [CLit (CHR ''-''), CLit (CHR '' '')])),
      (rstr ''bound''), (ropt (ralt [(rstr ''s''), (rstr ''ed'')])), (RWordB True)]),
      (rseq [(RWordB True), (ralt [(rstr ''integer''), (rstr ''signed''),
      (rstr ''unsigned'')]), (ropt (rset [CLit (CHR ''-''), CLit (CHR '' '')])),
      (ralt [(rstr ''over''), (rstr ''under'')]), (ropt (rset [CLit (CHR ''-''),
      CLit (CHR '' '')])), (rstr ''flow''), (RWordB True)]),
      (rseq [(RWordB True), (rstr ''null''), (ropt (rset [CLit (CHR ''-''),
      CLit (CHR '' '')])), (ropt (rstr ''pointer '')), (rstr ''deref''), (ralt [REps,
      (rstr ''erence'')]), (RWordB True)]),
      (rseq [(RWordB True), (ralt [(rstr ''memory''), (rstr ''resource''), (rstr ''heap'')]),
      (rstr '' corruption''), (RWordB True)]),
      (rseq [(RWordB True), (rstr ''uninitiali''), (rset [CLit (CHR ''s''),
      CLit (CHR ''z'')]), (rstr ''ed ''), (ralt [(rstr ''memory''), (rstr ''read''),
      (rstr ''value''), (rstr ''access'')]), (RWordB True)]),
      (rseq [(RWordB True), (rstr ''type''), (ropt (rset [CLit (CHR ''-''),
      CLit (CHR '' '')])), (rstr ''confusion''), (RWordB True)]),
      (rseq [(RWordB True), (ralt [(rstr ''wild''), (rstr ''invalid'')]), (rstr '' ''),
      (ralt [(rstr ''pointer''), (rstr ''free'')]), (RWordB True)]),
      (rseq [(RWordB True), (ralt [(rstr ''uaf''), (rstr ''oob''), (rseq [(rstr ''use''),
      (ropt (rset [CLit (CHR ''-''), CLit (CHR '' '')])), (rstr ''after''),
      (ropt (rset [CLit (CHR ''-''), CLit (CHR '' '')])), (rstr ''free'')])]), (RWordB True),
      (RLook False (rset [CRng (CHR ''a'') (CHR ''z'')]))]),
      (rseq [(RWordB True), (ralt [(rstr ''race condition''), (rstr ''data race''),
      (rstr ''toctou''), (rseq [(rstr ''time''), (ropt (rset [CLit (CHR ''-''),
      CLit (CHR '' '')])), (rstr ''of''), (ropt (rset [CLit (CHR ''-''), CLit (CHR '' '')])),
      (rstr ''check'')])]), (RWordB True)]),
      (rseq [(RWordB True), (ralt [(rseq [(rstr ''dead''), (ropt (rset [CLit (CHR ''-''),
      CLit (CHR '' '')])), (rstr ''lock'')]), (rseq [(rstr ''live''),
      (ropt (rset [CLit (CHR ''-''), CLit (CHR '' '')])), (rstr ''lock'')]),
      (rseq [(rstr ''use''), (ropt (rset [CLit (CHR ''-''), CLit (CHR '' '')])),
      (rstr ''while''), (ropt (rset [CLit (CHR ''-''), CLit (CHR '' '')])),
      (rstr ''freed'')])]), (RWordB True)]),
      (rseq [(RWordB True), (ralt [(rstr ''sql''), (rstr ''command''), (rstr ''os''),
      (rstr ''shell''), (rstr ''code''), (rstr ''template''), (rstr ''ssti''),
      (rstr ''ldap''), (rstr ''xpath''), (rstr ''crlf''), (rstr ''header''), (rstr ''log''),
      (rseq [(rstr ''http''), (ropt (rset [CLit (CHR ''-''), CLit (CHR '' '')])),
      (rstr ''header'')]), (rstr ''nosql''), (rstr ''expression''), (rstr ''html''),
      (rstr ''css'')]), (ropt (rset [CLit (CHR ''-''), CLit (CHR '' '')])),
      (rstr ''injection''), (RWordB True)]),
      (rseq [(RWordB True), (rstr ''r''), (ralt [(rseq [(rstr ''ce''), (RWordB True)]),
      (rseq [(rstr ''emote code execution''), (RWordB True)])])]),
      (rseq [(RWordB True), (rstr ''unsafe ''), (ralt [(rstr ''eval''), (rstr ''exec''),
      (rstr ''spawn''), (rstr ''deserialization''), (rstr ''unserialize''),
      (rstr ''pickle''), (rstr ''yaml'')]), (RWordB True)]),
      (rseq [(RWordB True), (ralt [(rstr ''insecure''), (rstr ''unsafe'')]),
      (rstr '' deserialization''), (RWordB True)]),
      (rseq [(RWordB True), (rstr ''pickle deserialization''), (RWordB True)]),
      (rseq [(RWordB True), (rstr ''auth''), (ralt [(rstr ''n''), (rstr ''entication'')]),
      (rstr '' bypass''), (RWordB True)]),
      (rseq [(RWordB True), (rstr ''a''), (ralt [(rstr ''uthz''), (rstr ''uthorization''),
      (rseq [(rstr ''ccess''), (ropt (rset [CLit (CHR ''-''), CLit (CHR '' '')])),
      (rstr ''control'')])]), (rstr '' bypass''), (RWordB True)]),
      (rseq [(RWordB True), (rstr ''privilege''), (ropt (rset [CLit (CHR ''-''),
      CLit (CHR '' '')])), (rstr ''escalation''), (RWordB True)]),
      (rseq [(RWordB True), (ralt [(rstr ''sandbox''), (rstr ''container''), (rstr ''vm'')]),
      (ropt (rset [CLit (CHR ''-''), CLit (CHR '' '')])), (rstr ''escape''), (RWordB True)]),
      (rseq [(RWordB True), (rstr ''i''), (ralt [(rseq [(rstr ''dor''), (RWordB True)]),
      (rseq [(rstr ''nsecure direct object reference''), (RWordB True)])])]),
      (rseq [(RWordB True), (rstr ''session ''), (ralt [(rstr ''fixation''),
      (rseq [(rstr ''hijack''), (ropt (rstr ''ing''))]), (rstr ''reuse'')]), (RWordB True)]),
      (rseq [(RWordB True), (ralt [(rstr ''jwt''), (rstr ''token'')]), (rstr '' ''),
      (ralt [(rstr ''bypass''), (rstr ''reuse''), (rstr ''forgery''), (rstr ''confusion'')]),
      (RWordB True)]),
      (rseq [(RWordB True), (rstr ''mass''), (ropt (rset [CLit (CHR ''-''),
      CLit (CHR '' '')])), (rstr ''assignment''), (RWordB True)]),
      (rseq [(RWordB True), (rstr ''broken a''), (ralt [(rseq [(rstr ''ccess''),
      (ropt (rset [CLit (CHR ''-''), CLit (CHR '' '')])), (rstr ''control'')]),
      (rstr ''uthentication''), (rstr ''uthorization'')]), (RWordB True)]),
      (rseq [(RWordB True), (rstr ''s''), (ralt [(rseq [(rstr ''srf''), (RWordB True)]),
      (rseq [(rstr ''erver''), (ropt (rset [CLit (CHR ''-''), CLit (CHR '' '')])),
      (rstr ''side request forgery''), (RWordB True)])])]),
      (rseq [(RWordB True), (ralt [(rstr ''path''), (rstr ''directory'')]),
      (rstr '' traversal''), (RWordB True)]),
      (rseq [(RWordB True), (rstr ''arbitrary ''), (ralt [(rstr ''file''), (rstr ''path'')]),
      (rstr '' ''), (ralt [(rstr ''read''), (rstr ''write''), (rstr ''delete''),
      (rstr ''disclosure''), (rstr ''access'')]), (RWordB True)]),
      (rseq [(RWordB True), (ralt [(rseq [(ralt [(rstr ''local''), (rstr ''remote'')]),
      (rstr '' file inclusion''), (RWordB True)]), (rseq [(rstr ''lfi''), (RWordB True)]),
      (rseq [(rstr ''rfi''), (RWordB True)])])]),
      (rseq [(RWordB True), (ralt [(rseq [(rstr ''zip''), (ropt (rset [CLit (CHR ''-''),
      CLit (CHR '' '')])), (rstr ''slip''), (RWordB True)]), (rseq [(rstr ''tar''),
      (ropt (rset [CLit (CHR ''-''), CLit (CHR '' '')])), (rstr ''slip''),
      (RWordB True)])])]),
      (rseq [(RWordB True), (rstr ''x''), (ralt [(rstr ''xe''),
      (rseq [(rstr ''ml external entit''), (ralt [(rstr ''y''), (rstr ''ies'')])])]),
      (RWordB True)]),
      (rseq [(RWordB True), (ralt [(rseq [(rstr ''xss''), (RWordB True)]),
      (rseq [(rstr ''cross''), (ropt (rset [CLit (CHR ''-''), CLit (CHR '' '')])),
      (rstr ''site scripting''), (RWordB True)])])]),
      (rseq [(RWordB True), (rstr ''c''), (ralt [(rseq [(rstr ''srf''), (RWordB True)]),
      (rseq [(rstr ''ross''), (ropt (rset [CLit (CHR ''-''), CLit (CHR '' '')])),
      (rstr ''site request forgery''), (RWordB True)])])]),
      (rseq [(RWordB True), (ralt [(rseq [(rstr ''open''), (ropt (rset [CLit (CHR ''-''),
      CLit (CHR '' '')])), (rstr ''redirect''), (RWordB True)]),
      (rseq [(rstr ''unvalidated redirect''), (RWordB True)])])]),
      (rseq [(RWordB True), (ralt [(rstr ''dom''), (rstr ''reflected''), (rstr ''stored''),
      (rstr ''persistent'')]), (rstr '' ''), (ralt [(rstr ''xss''), (rstr ''scripting'')]),
      (RWordB True)]),
      (rseq [(RWordB True), (rstr ''prototype pollution''), (RWordB True)]),
      (rseq [(RWordB True), (ralt [(rstr ''weak''), (rstr ''broken''), (rstr ''insecure'')]),
      (rstr '' ''), (ralt [(rseq [(rstr ''crypto''), (ropt (rstr ''graphy''))]),
      (rstr ''cipher''), (rstr ''hash''), (rstr ''prng''), (rstr ''rng''),
      (rstr ''random'')]), (RWordB True)]),
      (rseq [(RWordB True), (ralt [(rstr ''timing''), (rseq [(rstr ''side''),
      (ropt (rset [CLit (CHR ''-''), CLit (CHR '' '')])), (rstr ''channel'')])]),
      (rstr '' ''), (ralt [(rstr ''attack''), (rstr ''leak'')]), (RWordB True)]),
      (rseq [(RWordB True), (rstr ''hard''), (ropt (rset [CLit (CHR ''-''),
      CLit (CHR '' '')])), (rstr ''coded ''), (ropt (rseq [(rplus (rset [CWrd])),
      (rstr '' '')])), (ralt [(rstr ''credential''), (rstr ''secret''), (rstr ''key''),
      (rstr ''password''), (rstr ''token'')]), (RWordB True)]),
      (rseq [(RWordB True), (ralt [(rstr ''credential''), (rstr ''secret''),
      (rstr ''token''), (rseq [(rstr ''api''), (ropt (rset [CLit (CHR ''-''),
      CLit (CHR '' '')])), (rstr ''key'')]), (rstr ''password'')]), (rstr '' ''),
      (ralt [(rstr ''leak''), (rstr ''exposure''), (rstr ''disclosure'')]), (RWordB True)]),
      (rseq [(RWordB True), (rstr ''signature ''), (ralt [(rstr ''bypass''),
      (rstr ''forgery''), (rstr ''spoofing'')]), (RWordB True)]),
      (rseq [(RWordB True), (ralt [(rstr ''padding''), (rstr ''oracle'')]), (rstr '' ''),
      (ralt [(rstr ''attack''), (rstr ''leak'')]), (RWordB True)]),
      (rseq [(RWordB True), (rstr ''tls ''), (ralt [(rstr ''downgrade''),
      (rstr ''stripping''), (rstr ''confusion'')]), (RWordB True)]),
      (rseq [(RWordB True), (rstr ''info''), (ralt [REps, (rstr ''rmation'')]), (rstr '' ''),
      (ralt [(rstr ''leak''), (rstr ''disclosure''), (rstr ''exposure'')]), (RWordB True)]),
      (rseq [(RWordB True), (rstr ''sensitive data ''), (ralt [(rstr ''leak''),
      (rstr ''exposure''), (rstr ''disclosure'')]), (RWordB True)]),
      (rseq [(RWordB True), (rstr ''memory ''), (ralt [(rstr ''disclosure''),
      (rstr ''leak through'')]), (RWordB True)]),
      (rseq [(RWordB True), (ralt [(rstr ''dns''), (rstr ''cache''), (rstr ''cookie'')]),
      (rstr '' ''), (ralt [(rstr ''poisoning''), (rstr ''spoofing'')]), (RWordB True)]),
      (rseq [(RWordB True), (ralt [(rstr ''tcp''), (rstr ''tls''), (rstr ''protocol'')]),
      (rstr '' downgrade''), (RWordB True)]),
      (rseq [(RWordB True), (rstr ''smuggl''), (ralt [(rstr ''ing''), (rstr ''e'')]),
      (rstr '' re''), (ralt [(rstr ''quest''), (rstr ''sponse'')]), (RWordB True)]),
      (rseq [(RWordB True), (rstr ''request smuggling''), (RWordB True)]),
      (rseq [(RWordB True), (rstr ''host header ''), (ralt [(rstr ''attack''),
      (rstr ''spoofing'')]), (RWordB True)]),
      (rseq [(RWordB True), (rstr ''re''), (ralt [(rseq [(rstr ''gex''), (ropt (rstr ''p'')),
      (rstr '' d''), (ralt [(rstr ''os''), (rseq [(rstr ''enial''),
      (ropt (rset [CLit (CHR ''-''), CLit (CHR '' '')])), (rstr ''of''),
      (ropt (rset [CLit (CHR ''-''), CLit (CHR '' '')])), (rstr ''service'')])]),
      (RWordB True)]), (rseq [(rstr ''dos''), (RWordB True)])])]),
      (rseq [(RWordB True), (rstr ''catastrophic backtracking''), (RWordB True)]),
      (rseq [(RWordB True), (ralt [(rstr ''zip''), (rstr ''decompression'')]),
      (rstr '' bomb''), (RWordB True)]),
      (rseq [(RWordB True), (rstr ''algorithmic ''), (ralt [(rstr ''complexity''),
      (rstr ''amplification'')]), (RWordB True)]),
      (rseq [(RWordB True), (ralt [(rstr ''hash''), (rstr ''collision'')]),
      (ropt (rset [CLit (CHR ''-''), CLit (CHR '' '')])), (rstr ''flood''),
      (ropt (rstr ''ing'')), (RWordB True)]),
      (rseq [(RWordB True), (rstr ''d''), (ralt [(rstr ''os''), (rseq [(rstr ''enial''),
      (ropt (rset [CLit (CHR ''-''), CLit (CHR '' '')])), (rstr ''of''),
      (ropt (rset [CLit (CHR ''-''), CLit (CHR '' '')])), (rstr ''service'')])]),
      (rstr '' ''), (ralt [(rstr ''vector''), (rstr ''amplifier''),
      (rstr ''amplification'')]), (RWordB True)]),
      (rseq [(RWordB True), (ralt [(rseq [(rstr ''stack exhaustion''), (RWordB True)]),
      (rseq [(ralt [(rstr ''unbounded''), (rstr ''uncontrolled''), (rstr ''infinite''),
      (rstr ''excessive''), (rstr ''deep'')]), (rstr '' recursion''), (RWordB True)])])]),
      (rseq [(RWordB True), (ralt [(rstr ''malicious''), (rseq [(rstr ''backdoor''),
      (ropt (rstr ''ed''))]), (rstr ''compromised'')]), (rstr '' ''),
      (ralt [(rstr ''dependency''), (rstr ''package''), (rstr ''crate''), (rstr ''gem''),
      (rstr ''module'')]), (RWordB True)]),
      (rseq [(RWordB True), (rstr ''typosquat''), (ropt (rstr ''ting'')), (RWordB True)]),
      (rseq [(RWordB True), (rstr ''dependency confusion''), (RWordB True)]),
      (rseq [(RWordB True), (ralt [(rstr ''asan''), (rstr ''ubsan''), (rstr ''msan''),
      (rstr ''tsan''), (rseq [(rstr ''address''), (ropt (rset [CLit (CHR ''-''),
      CLit (CHR '' '')])), (rstr ''sanitizer'')]), (rseq [(rstr ''memory''),
      (ropt (rset [CLit (CHR ''-''), CLit (CHR '' '')])), (rstr ''sanitizer'')]),
      (rseq [(rstr ''thread''), (ropt (rset [CLit (CHR ''-''), CLit (CHR '' '')])),
      (rstr ''sanitizer'')]), (rseq [(rstr ''undefined''), (ropt (rset [CLit (CHR ''-''),
      CLit (CHR '' '')])), (rstr ''behavior''), (ropt (rset [CLit (CHR ''-''),
      CLit (CHR '' '')])), (rstr ''sanitizer'')])]), (rstr '' ''),
      (ropt (ralt [(rstr ''hit''), (rstr ''crash''), (rstr ''finding''),
      (rstr ''report'')])), (RWordB True)]),
      (rseq [(RWordB True), (ralt [(rstr ''libfuzzer''), (rseq [(rstr ''oss''),
      (ropt (rset [CLit (CHR ''-''), CLit (CHR '' '')])), (rstr ''fuzz'')]),
      (rseq [(rstr ''afl''), (ropt (ralt [(rstr ''++''), (rstr ''plusplus'')]))])]),
      (rstr '' ''), (ralt [(rstr ''crash''), (rstr ''finding''), (rstr ''repro'')]),
      (RWordB True)]),
      (rseq [(RWordB True), (rstr ''fuzz''), (ropt (ralt [(rstr ''er''), (rstr ''ing'')])),
      (rstr '' ''), (ralt [(rstr ''crash''), (rstr ''finding''), (rstr ''hit'')]),
      (RWordB True)]),
      (rseq [(RWordB True), (ralt [(rseq [(rstr ''harden''), (ropt (rstr ''ing''))]),
      (rseq [(rstr ''sanitize''), (ropt (rstr ''r'')), (rstr '' ''), (ralt [(rstr ''input''),
      (rstr ''output'')])])]), (RWordB True)]),
      (rseq [(RWordB True), (ralt [(rstr ''bounds''), (rstr ''length''), (rstr ''size'')]),
      (rstr '' ''), (ralt [(rstr ''check''), (rstr ''validation'')]), (RWordB True),
      (rstar RAny), (RWordB True), (ralt [(rstr ''add''), (rstr ''fix''),
      (rstr ''missing'')]), (RWordB True)]),
      (rseq [(RWordB True), (ralt [(rstr ''add''), (rstr ''fix''), (rstr ''missing'')]),
      (rstr '' ''), (ralt [(rstr ''bounds''), (rstr ''length''), (rstr ''size'')]),
      (rstr '' ''), (ralt [(rstr ''check''), (rstr ''validation'')]), (RWordB True)])]"

text \<open>Each pattern with whether it ignores letter case.\<close>

definition VERSION_ONLY_FILE_PATTERNS :: "(rx \<times> bool) list" where
  "VERSION_ONLY_FILE_PATTERNS =
     [((rseq [(ralt [RBos, (rstr ''/'')]), (ropt (rseq [(rset [CRng (CHR ''A'') (CHR ''Z''),
      CRng (CHR ''a'') (CHR ''z''), CLit (CHR ''_'')]),
      (rstar (rset [CRng (CHR ''A'') (CHR ''Z''), CRng (CHR ''a'') (CHR ''z''),
      CRng (CHR ''0'') (CHR ''9''), CLit (CHR ''_'')])), (rstr ''_'')])),
      (rstr ''version.h''), REos]), True),
      ((rseq [(ralt [RBos, (rstr ''/'')]), (rstr ''version''), REos]), True),
      ((rseq [(ralt [RBos, (rstr ''/'')]), (rstr ''VERSION''), REos]), False),
      ((rseq [(ralt [RBos, (rstr ''/'')]), (rstr ''RELEASE-NOTES''),
      (ropt (rseq [(rstr ''.''), (ralt [(rstr ''md''), (rstr ''txt'')])])), REos]), True),
      ((rseq [(ralt [RBos, (rstr ''/'')]), (rstr ''CHANGELOG''), (ropt (rseq [(rstr ''.''),
      (ralt [(rstr ''md''), (rstr ''txt'')])])), REos]), True),
      ((rseq [(ralt [RBos, (rstr ''/'')]), (rstr ''CHANGES''), (ropt (rseq [(rstr ''.''),
      (ralt [(rstr ''md''), (rstr ''txt'')])])), REos]), True),
      ((rseq [(ralt [RBos, (rstr ''/'')]), (rstr ''NEWS''), (ropt (rseq [(rstr ''.''),
      (ralt [(rstr ''md''), (rstr ''txt'')])])), REos]), True)]"

definition NON_AUDIT_PATCH_TERMS :: "string list" where
  "NON_AUDIT_PATCH_TERMS =
     [''spdx'', ''reuse'', ''license'', ''copyright'', ''typo'', ''doc'', ''docs'',
      ''documentation'', ''readme'', ''changelog'', ''formatting'', ''clang-format'',
      ''deprecation warning'', ''compiler warning'', ''whitespace'', ''maint:'',
      ''maintenance'', ''build fix'', ''build system'', ''cmake'', ''autotools'',
      ''configure'', ''pkg-config'', ''code coverage'', ''coverage'', ''tests:'', ''test:'',
      ''test code'', ''test harness'', ''test program'', ''test suite'', ''release-'',
      ''release '', ''version bump'', ''bump version'', ''next release'', ''prepare release'',
      ''prepare for release'', ''post-release'', ''tag '']"

definition CI_PATCH_TERMS :: "string list" where
  "CI_PATCH_TERMS =
     [''ci'', ''workflow'', ''github action'', ''build action'', ''fix ci'']"

definition keywords_S1 :: rx where
  "keywords_S1 =
     (rseq [(RWordB True), (ralt [(rseq [(rstr ''PATCH-''),
     (RRep True 6 None (rset [CRng (CHR ''0'') (CHR ''9''), CRng (CHR ''a'') (CHR ''f'')]))]),
     (rseq [(rstr ''fix''), (ropt (rset [CSpc, CLit (CHR ''_''), CLit (CHR ''-'')])),
     (rstr ''hash'')]), (rseq [(rstr ''prior''), (ropt (rset [CSpc, CLit (CHR ''_''),
     CLit (CHR ''-'')])), (rstr ''fix'')]), (rstr ''regression''), (rseq [(rstr ''patch''),
     (ropt (rset [CSpc, CLit (CHR ''_''), CLit (CHR ''-'')])), (rstr ''card'')]),
     (rseq [(rstr ''landed''), (ropt (rset [CSpc, CLit (CHR ''_''), CLit (CHR ''-'')])),
     (rstr ''fix'')]), (rstr ''backport''), (rseq [(rstr ''incomplete''), (ropt (rset [CSpc,
     CLit (CHR ''_''), CLit (CHR ''-'')])), (rstr ''patch'')]), (rseq [(rstr ''cve''),
     (ropt (rstr ''-'')), (rplus (rset [CDig]))]), (rseq [(rstr ''bug''), (ropt (rset [CSpc,
     CLit (CHR ''_''), CLit (CHR ''-'')])), (RRep True 4 None (rset [CDig]))])])])"

definition keywords_S2 :: rx where
  "keywords_S2 =
     (rseq [(RWordB True), (ralt [(rseq [(rset [CRng (CHR ''A'') (CHR ''Z'')]),
     (rstar (rset [CRng (CHR ''A'') (CHR ''Z''), CRng (CHR ''0'') (CHR ''9'')])), (rstr ''_''),
     (ralt [(rstr ''ASSERT''), (rstr ''CHECK''), (rstr ''ASSUME''), (rstr ''VERIFY''),
     (rstr ''ENSURE''), (rstr ''REQUIRE''), (rstr ''EXPECT'')]), (RWordB True)]),
     (rseq [(rstr ''DCHECK''), (ropt (rseq [(rstr ''_''), (ralt [(rstr ''EQ''), (rstr ''NE''),
     (rstr ''GE''), (rstr ''GT''), (rstr ''LE''), (rstr ''LT'')])])), (RWordB True)]),
     (rseq [(rstr ''CHECK_''), (ralt [(rstr ''EQ''), (rstr ''NE''), (rstr ''GE''),
     (rstr ''GT''), (rstr ''LE''), (rstr ''LT'')]), (RWordB True)]), (rstr ''assert(''),
     (rseq [(rstr ''static_assert''), (RWordB True)]), (rseq [(rstr ''__builtin_''),
     (ralt [(rstr ''assume''), (rstr ''unreachable''), (rstr ''trap'')]), (RWordB True)]),
     (rseq [(rstr ''abort_if''), (RWordB True)]), (rseq [(rstr ''invariant''), (RWordB True)]),
     (rseq [(rstr ''precondition''), (RWordB True)]), (rseq [(rstr ''postcondition''),
     (RWordB True)]), (rseq [(rstr ''debug''), (ropt (rset [CSpc, CLit (CHR ''_''),
     CLit (CHR ''-'')])), (rstr ''only''), (RWordB True)]), (rseq [(rstr ''release''),
     (ropt (rset [CSpc, CLit (CHR ''_''), CLit (CHR ''-'')])), (rstr ''build''),
     (ropt (rset [CSpc, CLit (CHR ''_''), CLit (CHR ''-'')])), (rstr ''gap''), (RWordB True)]),
     (rseq [(rstr ''disabled''), (ropt (rset [CSpc, CLit (CHR ''_''), CLit (CHR ''-'')])),
     (rstr ''in''), (ropt (rset [CSpc, CLit (CHR ''_''), CLit (CHR ''-'')])),
     (rstr ''release''), (RWordB True)]), (rseq [(rstr ''NDEBUG''), (RWordB True)])])])"

definition keywords_S3 :: rx where
  "keywords_S3 =
     (rseq [(RWordB True), (ralt [(rseq [(rstr ''spec''), (ropt (rstr ''ification''))]),
     (rseq [(rstr ''rfc''), (ropt (rset [CSpc, CLit (CHR ''_''), CLit (CHR ''-'')])),
     (rplus (rset [CDig]))]), (rstr ''whatwg''), (rstr ''w3c''), (rstr ''standard''),
     (rseq [(rstr ''fast''), (ropt (rset [CSpc, CLit (CHR ''_''), CLit (CHR ''-'')])),
     (rstr ''path'')]), (rseq [(rstr ''slow''), (ropt (rset [CSpc, CLit (CHR ''_''),
     CLit (CHR ''-'')])), (rstr ''path'')]), (rseq [(rstr ''optimization''), (ropt (rset [CSpc,
     CLit (CHR ''_''), CLit (CHR ''-'')])), (rstr ''skip'')]), (rseq [(rstr ''short''),
     (ropt (rset [CSpc, CLit (CHR ''_''), CLit (CHR ''-'')])), (rstr ''circuit'')]),
     (rseq [(rstr ''early''), (ropt (rset [CSpc, CLit (CHR ''_''), CLit (CHR ''-'')])),
     (rstr ''return'')]), (rseq [(rstr ''undefined''), (ropt (rset [CSpc, CLit (CHR ''_''),
     CLit (CHR ''-'')])), (rstr ''behavio''), (ralt [REps, (rstr ''u'')]), (rstr ''r'')]),
     (rstr ''conformance''), (rseq [(rstr ''rule''), (ropt (rset [CSpc, CLit (CHR ''_''),
     CLit (CHR ''-'')])), (rstr ''v''), (ralt [(rstr ''s''), (rstr ''ersus'')]),
     (ropt (rset [CSpc, CLit (CHR ''_''), CLit (CHR ''-'')])), (rstr ''implementation'')]),
     (rseq [(rstr ''trust''), (ropt (rset [CSpc, CLit (CHR ''_''), CLit (CHR ''-'')])),
     (rstr ''boundary'')]), (rseq [(rstr ''security''), (ropt (rset [CSpc, CLit (CHR ''_''),
     CLit (CHR ''-'')])), (rstr ''boundary'')]), (rseq [(rstr ''access''), (ropt (rset [CSpc,
     CLit (CHR ''_''), CLit (CHR ''-'')])), (rstr ''control'')]), (rstr ''authoriz''),
     (rstr ''authentic''), (rstr ''privileg''), (rstr ''permission''), (rseq [(rstr ''same''),
     (ropt (rset [CSpc, CLit (CHR ''_''), CLit (CHR ''-'')])), (rstr ''origin'')]),
     (rseq [(rstr ''cross''), (ropt (rset [CSpc, CLit (CHR ''_''), CLit (CHR ''-'')])),
     (rstr ''origin'')]), (rseq [(rstr ''origin''), (ropt (rset [CSpc, CLit (CHR ''_''),
     CLit (CHR ''-'')])), (rstr ''check'')]), (rseq [(rstr ''cookie''), (ropt (rset [CSpc,
     CLit (CHR ''_''), CLit (CHR ''-'')])), (ralt [(rstr ''scope''), (rstr ''domain''),
     (rstr ''path''), (rstr ''jar'')])]), (rseq [(rstr ''host''), (ropt (rstr ''name'')),
     (ropt (rset [CSpc, CLit (CHR ''_''), CLit (CHR ''-'')])), (rstr ''verif'')]),
     (rseq [(rstr ''certificate''), (ropt (rset [CSpc, CLit (CHR ''_''), CLit (CHR ''-'')])),
     (rstr ''verif'')]), (rseq [(rstr ''host''), (ropt (rset [CSpc, CLit (CHR ''_''),
     CLit (CHR ''-'')])), (rstr ''key'')]), (rseq [(rstr ''redirect''), (ropt (rset [CSpc,
     CLit (CHR ''_''), CLit (CHR ''-'')])), (ralt [(rstr ''follow''), (rstr ''retain''),
     (rstr ''chain'')])]), (rseq [(rstr ''outbound''), (ropt (rset [CSpc, CLit (CHR ''_''),
     CLit (CHR ''-'')])), (ralt [(rstr ''request''), (rstr ''fetch'')])]),
     (rseq [(rstr ''destination''), (ropt (rset [CSpc, CLit (CHR ''_''), CLit (CHR ''-'')])),
     (rstr ''policy'')]), (rseq [(rstr ''redirect''), (ropt (rset [CSpc, CLit (CHR ''_''),
     CLit (CHR ''-'')])), (rstr ''target'')]), (rstr ''injection''), (rstr ''traversal''),
     (rstr ''ssrf''), (rstr ''xxe''), (rseq [(rstr ''external''), (ropt (rset [CSpc,
     CLit (CHR ''_''), CLit (CHR ''-'')])), (rstr ''entity'')]), (rstr ''deserializ''),
     (rseq [(rstr ''constant''), (ropt (rset [CSpc, CLit (CHR ''_''), CLit (CHR ''-'')])),
     (rstr ''time'')]), (rseq [(rstr ''timing''), (ropt (rset [CSpc, CLit (CHR ''_''),
     CLit (CHR ''-'')])), (rstr ''safe'')]), (rseq [(rstr ''signature''), (ropt (rset [CSpc,
     CLit (CHR ''_''), CLit (CHR ''-'')])), (rstr ''verif'')]), (rstr ''credential''),
     (rseq [(rstr ''sandbox''), (ropt (rset [CSpc, CLit (CHR ''_''), CLit (CHR ''-'')])),
     (ralt [(rstr ''escape''), (rstr ''bypass'')])])])])"

definition keywords_S5 :: rx where
  "keywords_S5 =
     (rseq [(RWordB True), (ralt [(rseq [(rstr ''re''), (ropt (rset [CSpc, CLit (CHR ''_''),
     CLit (CHR ''-'')])), (rstr ''entran''), (ralt [(rstr ''cy''), (rstr ''t'')])]),
     (rseq [(rstr ''life''), (ropt (rset [CSpc, CLit (CHR ''_''), CLit (CHR ''-'')])),
     (rstr ''time'')]), (rseq [(rstr ''use''), (ropt (rset [CSpc, CLit (CHR ''_''),
     CLit (CHR ''-'')])), (rstr ''after'')]), (rseq [(rstr ''cleanup''), (ropt (rset [CSpc,
     CLit (CHR ''_''), CLit (CHR ''-'')])), (rstr ''on''), (ropt (rset [CSpc, CLit (CHR ''_''),
     CLit (CHR ''-'')])), (rstr ''error'')]), (rseq [(rstr ''state''), (ropt (rset [CSpc,
     CLit (CHR ''_''), CLit (CHR ''-'')])), (rstr ''machine'')]), (rstr ''destructor''),
     (rseq [(rstr ''drop''), (ropt (rset [CSpc, CLit (CHR ''_''), CLit (CHR ''-'')])),
     (rstr ''ord'')]), (rstr ''dangling''), (rseq [(rstr ''owner''), (ropt (rset [CSpc,
     CLit (CHR ''_''), CLit (CHR ''-'')])), (rstr ''ship'')]), (rstr ''raii''),
     (rseq [(rstr ''invalidat''), (ralt [(rstr ''e''), (rstr ''ed''), (rstr ''ion'')])]),
     (rstr ''race''), (rstr ''concurren'')])])"

definition keywords_S6 :: rx where
  "keywords_S6 =
     (rseq [(RWordB True), (ralt [(rseq [(rstr ''peer''), (ropt (rset [CSpc, CLit (CHR ''_''),
     CLit (CHR ''-'')])), (ralt [(rstr ''project''), (rseq [(rstr ''impl''),
     (ropt (rstr ''ementation''))]), (rstr ''fix'')])]), (rseq [(rstr ''sibling''),
     (ropt (rset [CSpc, CLit (CHR ''_''), CLit (CHR ''-'')])), (ralt [(rstr ''project''),
     (rseq [(rstr ''impl''), (ropt (rstr ''ementation''))])])]), (rseq [(rstr ''upstream''),
     (ropt (rset [CSpc, CLit (CHR ''_''), CLit (CHR ''-'')])), (ralt [(rstr ''fix''),
     (rstr ''patch''), (rstr ''advisory'')])]), (rseq [(rstr ''cross''), (ropt (rset [CSpc,
     CLit (CHR ''_''), CLit (CHR ''-'')])), (ralt [(rstr ''project''), (rstr ''browser''),
     (rstr ''engine''), (rstr ''impl'')])]), (rseq [(rstr ''same''), (ropt (rset [CSpc,
     CLit (CHR ''_''), CLit (CHR ''-'')])), (ralt [(rstr ''bug''), (rstr ''class''),
     (rstr ''pattern'')]), (ropt (rset [CSpc, CLit (CHR ''_''), CLit (CHR ''-'')])),
     (rstr ''in'')]), (rseq [(rstr ''analog''), (ralt [(rstr ''ue''), (rstr ''ous'')]),
     (ropt (rset [CSpc, CLit (CHR ''_''), CLit (CHR ''-'')])), (ralt [(rstr ''in''),
     (rstr ''to'')])]), (rseq [(rstr ''other''), (ropt (rset [CSpc, CLit (CHR ''_''),
     CLit (CHR ''-'')])), (ralt [(rstr ''engine''), (rseq [(rstr ''impl''),
     (ropt (rstr ''ementation''))]), (rstr ''library'')])]), (rseq [(rstr ''oss''),
     (ropt (rset [CSpc, CLit (CHR ''_''), CLit (CHR ''-'')])), (rstr ''fuzz'')]),
     (rseq [(rstr ''cve''), (ropt (rset [CSpc, CLit (CHR ''_''), CLit (CHR ''-'')])),
     (RRep True 4 (Some 4) (rset [CDig]))])])])"

definition keywords_S7 :: rx where
  "keywords_S7 =
     (rseq [(RWordB True), (ralt [(rstr ''truncat''), (rstr ''malformed''),
     (rstr ''adversarial''), (rstr ''crafted''), (rseq [(rstr ''short''), (ropt (rset [CSpc,
     CLit (CHR ''_''), CLit (CHR ''-'')])), (rstr ''input'')]), (rseq [(rstr ''over''),
     (ropt (rset [CSpc, CLit (CHR ''_''), CLit (CHR ''-'')])), (rstr ''long'')]),
     (rstr ''encoding''), (rstr ''surrogate''), (rstr ''bom''), (rseq [(rstr ''null''),
     (ropt (rset [CSpc, CLit (CHR ''_''), CLit (CHR ''-'')])), (rstr ''byte'')]),
     (rseq [(rstr ''partial''), (ropt (rset [CSpc, CLit (CHR ''_''), CLit (CHR ''-'')])),
     (rstr ''read'')])])])"

definition keywords_S4 :: rx where
  "keywords_S4 =
     (rseq [(RWordB True), (ralt [(rseq [(rstr ''fuzz''), (ropt (ralt [(rstr ''er''),
     (rstr ''ing'')])), (ropt (rset [CSpc, CLit (CHR ''_''), CLit (CHR ''-'')])),
     (ralt [(rstr ''target''), (rstr ''harness''), (rstr ''campaign''), (rstr ''blocker''),
     (rstr ''seed'')])]), (rstr ''libfuzzer''), (rstr ''LLVMFuzzerTestOneInput''),
     (rseq [(rstr ''cargo''), (ropt (rset [CSpc, CLit (CHR ''_''), CLit (CHR ''-'')])),
     (rstr ''fuzz'')]), (rstr ''atheris''), (rstr ''jazzer''), (rseq [(rstr ''corpus''),
     (ropt (rseq [(ropt (rset [CSpc, CLit (CHR ''_''), CLit (CHR ''-'')])),
     (ralt [(rstr ''gap''), (rstr ''seed''), (rstr ''merge''), (rstr ''minimi'')])]))]),
     (rseq [(rstr ''coverage''), (ropt (rset [CSpc, CLit (CHR ''_''), CLit (CHR ''-'')])),
     (ralt [(rstr ''feedback''), (rstr ''edge''), (rstr ''guided''), (rstr ''instrument'')])]),
     (rseq [(rstr ''new''), (ropt (rset [CSpc, CLit (CHR ''_''), CLit (CHR ''-'')])),
     (rstr ''edges'')]), (rseq [(rstr ''exec''), (ropt (rstr ''utions'')), (rstr ''/s'')]),
     (rseq [(rstr ''exec''), (ropt (rstr ''s'')), (ropt (rset [CSpc, CLit (CHR ''_''),
     CLit (CHR ''-'')])), (rstr ''per''), (ropt (rset [CSpc, CLit (CHR ''_''),
     CLit (CHR ''-'')])), (rstr ''second'')]), (rseq [(rstr ''sanitizer''), (ropt (rset [CSpc,
     CLit (CHR ''_''), CLit (CHR ''-'')])), (rstr ''coverage'')]), (rstr ''artifact_prefix''),
     (ralt [(rseq [(rstr ''startup''), (ropt (rset [CSpc, CLit (CHR ''_''),
     CLit (CHR ''-'')])), (rstr ''crash'')]), (rseq [(rstr ''noise''), (ropt (rset [CSpc,
     CLit (CHR ''_''), CLit (CHR ''-'')])), (rstr ''flood'')]), (rseq [(rstr ''blocked''),
     (ropt (rset [CSpc, CLit (CHR ''_''), CLit (CHR ''-'')])), (rstr ''on''),
     (ropt (rset [CSpc, CLit (CHR ''_''), CLit (CHR ''-'')])), (rstr ''crash'')]),
     (rseq [(rstr ''saturated''), (ropt (rset [CSpc, CLit (CHR ''_''), CLit (CHR ''-'')])),
     (rstr ''harness'')])])])])"

definition keywords_S8 :: rx where
  "keywords_S8 =
     (rseq [(RWordB True), (ralt [(rseq [(rstr ''property''), (ropt (rset [CSpc,
     CLit (CHR ''_''), CLit (CHR ''-'')])), (rstr ''based'')]), (rseq [(rstr ''round''),
     (ropt (rset [CSpc, CLit (CHR ''_''), CLit (CHR ''-'')])), (rstr ''trip'')]),
     (rstr ''roundtrip''), (rseq [(rstr ''idempoten''), (ralt [(rstr ''t''), (rstr ''ce''),
     (rstr ''cy'')])]), (rseq [(rstr ''injectiv''), (ralt [(rstr ''e''), (rstr ''ity'')])]),
     (rseq [(rstr ''collision''), (ropt (rset [CSpc, CLit (CHR ''_''), CLit (CHR ''-'')])),
     (rstr ''resistan'')]), (rseq [(rstr ''numerical''), (ropt (rset [CSpc, CLit (CHR ''_''),
     CLit (CHR ''-'')])), (ralt [(rstr ''domain''), (rstr ''bound''), (rstr ''invariant'')])]),
     (rseq [(rstr ''format''), (ropt (rset [CSpc, CLit (CHR ''_''), CLit (CHR ''-'')])),
     (rstr ''compliance'')]), (rseq [(rstr ''inverse''), (ropt (rset [CSpc, CLit (CHR ''_''),
     CLit (CHR ''-'')])), (ralt [(rstr ''operation''), (rstr ''function'')])]),
     (rseq [(rstr ''encode''), (rstar RAny), (rstr ''decode'')]), (rseq [(rstr ''decode''),
     (rstar RAny), (rstr ''encode'')]), (rseq [(rstr ''hypothesis''), (ropt (rset [CSpc,
     CLit (CHR ''_''), CLit (CHR ''-'')])), (ralt [(rstr ''library''), (rstr ''strategy'')])]),
     (rstr ''quickcheck''), (rstr ''proptest''), (rstr ''shrinker''), (rstr ''shrinking''),
     (rseq [(rstr ''fixed''), (ropt (rset [CSpc, CLit (CHR ''_''), CLit (CHR ''-'')])),
     (rstr ''point'')]), (rseq [(rstr ''normaliz''), (ralt [(rstr ''e''), (rstr ''ation'')])]),
     (rseq [(rstr ''canonicaliz''), (ralt [(rstr ''e''), (rstr ''ation'')])])])])"

definition STRATEGY_KEYWORDS :: "(string \<times> (rx \<times> nat)) list" where
  "STRATEGY_KEYWORDS =
     [(''S1'', (keywords_S1, 2)),
      (''S2'', (keywords_S2, 2)),
      (''S3'', (keywords_S3, 2)),
      (''S5'', (keywords_S5, 2)),
      (''S6'', (keywords_S6, 1)),
      (''S7'', (keywords_S7, 2)),
      (''S4'', (keywords_S4, 2)),
      (''S8'', (keywords_S8, 2))]"

definition artifact_id_re :: rx where
  "artifact_id_re =
     (rseq [RBos, (ralt [(rstr ''CRASH''), (rstr ''FIND'')]), (rstr ''-''),
     (rplus (rset [CDig])), (ropt (rseq [(rstr ''-''), (rplus (rset [CDig]))]))])"

definition collision_suffix_re :: rx where
  "collision_suffix_re =
     (rseq [(rstr ''.''), (RRep True 8 (Some 8) (rset [CDig])), (rstr ''T''),
     (RRep True 6 (Some 6) (rset [CDig])), (rstr ''Z.''), (rplus (rset [CDig])), REos])"

definition PROBE_CRASH_NAME_RE :: rx where
  "PROBE_CRASH_NAME_RE =
     (rseq [RBos, (rstr ''CRASH-''), (rplus (rset [CDig])), (rstr ''-''),
     (RGrp 1 (rplus (rset [CDig]))), (ropt (rseq [(rstr ''.''), (rstar RAny)])), REos])"

definition ARTIFACT_STATUS_RE :: rx where
  "ARTIFACT_STATUS_RE =
     (rseq [RBos, (RGrp 1 (ralt [(rstr ''CRASH''), (rstr ''FIND'')])), (rstr ''-''),
     (rplus (rset [CNSpc]))])"

definition rejected_note_re :: rx where
  "rejected_note_re =
     (rseq [RBos, (rstr ''Triage rejected''), (rplus (rset [CSpc])),
     (RGrp 1 (RRep False 1 None (rset [CNSpc]))), (rstar (rset [CSpc])), (rstr '':'')])"

definition cluster_prefix_re :: rx where
  "cluster_prefix_re =
     (rseq [RBos, (ralt [(rstr ''CRASH''), (rstr ''FIND'')]), (rstr ''-'')])"

end
