(* ===== verification/Strategies.thy ===== *)
theory Strategies
  imports Rows Patterns
begin

text \<open>
  The lane tables and the card predicates of \<open>lib/workqueue.py\<close>: which strategy a source file's
  reasons select, which cards a strategy may claim, what a card's surface is, and which patch
  descriptions carry no defect. The reason tags are kept as lists; the code's sets are the sets of
  their elements.
\<close>

subsection \<open>Reason tables\<close>

definition S3_SECURITY_REASONS :: "string list" where
  "S3_SECURITY_REASONS =
     [''access-control decision'', ''identity/origin decision'',
      ''credential/verification decision'', ''query/template construction'',
      ''outbound-request decision'', ''filesystem path effect'',
      ''command/injection surface'', ''deserialization sink'',
      ''external-entity surface'']"

definition BOUNDARY_REASONS :: "string list" where
  "BOUNDARY_REASONS = S3_SECURITY_REASONS @ [''remote-peer endpoint'']"

definition S7_INPUT_ROUTE_REASONS :: "string list" where
  "S7_INPUT_ROUTE_REASONS = [''input-consumption entrypoint'', ''remote-peer endpoint'']"

definition STRATEGY_BUCKETS :: "(string \<times> string list) list" where
  "STRATEGY_BUCKETS =
     [(''S7'', [''input-consumption entrypoint'', ''remote-peer endpoint'',
                ''raw memory operation'', ''allocation/resize'']),
      (''S5'', [''lifetime/ownership operation'', ''unmanaged escape hatch'',
                ''concurrency primitive'', ''state-machine transition'']),
      (''S2'', [''asserted invariant'']),
      (''S3'', [''cast-heavy path'', ''size math'', ''exported API surface''] @ S3_SECURITY_REASONS),
      (''S8'', [''round-trip property surface'', ''identity-key property surface'',
                ''numerical-domain surface''])]"

definition S1_REASON_TAGS :: "string list" where
  "S1_REASON_TAGS = [''near prior-fix card'']"

definition STRATEGY_YIELD_ORDER :: "string list" where
  "STRATEGY_YIELD_ORDER = [''S3'', ''S7'', ''S5'', ''S2'', ''S8'']"

definition meets :: "'a list \<Rightarrow> 'a list \<Rightarrow> bool" where
  "meets xs ys \<longleftrightarrow> list_ex (\<lambda>x. x \<in> set ys) xs"

lemma meets_iff: "meets xs ys \<longleftrightarrow> set xs \<inter> set ys \<noteq> {}"
  by (auto simp: meets_def list_ex_iff)

definition bucket_tags :: "string \<Rightarrow> string list" where
  "bucket_tags strat = (case map_of STRATEGY_BUCKETS strat of None \<Rightarrow> [] | Some tags \<Rightarrow> tags)"

definition lane_evidence_reasons :: "string \<Rightarrow> string list" where
  "lane_evidence_reasons strategy =
     (let pin = py_upper (py_strip strategy)
      in if pin = ''S3'' then S3_SECURITY_REASONS else bucket_tags pin)"

definition carries_lane_evidence :: "card \<Rightarrow> string \<Rightarrow> bool" where
  "carries_lane_evidence c strategy =
     (let tags = lane_evidence_reasons strategy
      in if cd_kind c \<noteq> ''ranked-source'' \<or> tags = [] then True
         else meets (map py_strip (py_split CHR '';'' (cd_reason c))) tags)"

fun index_of :: "'a \<Rightarrow> 'a list \<Rightarrow> nat" where
  "index_of x [] = 0"
| "index_of x (y # ys) = (if x = y then 0 else Suc (index_of x ys))"

definition expected_yield_rank :: "string \<Rightarrow> nat" where
  "expected_yield_rank strategy =
     (let s = py_upper strategy
      in if s \<in> set STRATEGY_YIELD_ORDER then index_of s STRATEGY_YIELD_ORDER
         else length STRATEGY_YIELD_ORDER)"

definition strategy_for :: "string list \<Rightarrow> string" where
  "strategy_for reasons =
     (if meets reasons S3_SECURITY_REASONS then ''S3''
      else (case find (\<lambda>(strat, tags). meets reasons tags
                     \<and> (strat \<noteq> ''S7'' \<or> meets reasons S7_INPUT_ROUTE_REASONS)) STRATEGY_BUCKETS of
              Some (strat, _) \<Rightarrow> strat
            | None \<Rightarrow> ''S1''))"

definition complementary_strategies :: "string list \<Rightarrow> string \<Rightarrow> string list" where
  "complementary_strategies reasons primary =
     (let out = map fst (filter (\<lambda>(strat, tags). strat \<noteq> primary \<and> meets reasons tags)
                           STRATEGY_BUCKETS);
          out = (if ''S7'' \<in> set out \<and> \<not> meets reasons S7_INPUT_ROUTE_REASONS
                 then remove1 ''S7'' out else out)
      in if ''near prior-fix card'' \<in> set reasons \<and> primary \<noteq> ''S1'' then out @ [''S1''] else out)"

subsection \<open>Cards\<close>

definition work_surface :: "card \<Rightarrow> string" where
  "work_surface c =
     (let file = normalized_relpath (cd_file c);
          function = py_strip (cd_function c);
          strategy = py_upper (py_strip (cd_strategy c))
      in if file \<noteq> [] \<and> cd_kind c = ''call-edge''
         then py_lower file @ '':edge-callers:'' @ py_lower (cd_edge_set c)
         else if file \<noteq> [] then
           (if function \<noteq> [] then py_lower file @ '':'' @ py_lower function
            else if strategy \<noteq> [] then py_lower file @ '':'' @ py_lower strategy
            else py_lower file)
         else (case cd_touched c of
                 t # _ \<Rightarrow> py_lower (normalized_relpath t)
               | [] \<Rightarrow> py_lower (cd_id c)))"

definition card_strategy_matches :: "card \<Rightarrow> string \<Rightarrow> bool" where
  "card_strategy_matches c strategy =
     (let requested = py_upper (py_strip strategy)
      in requested = []
         \<or> py_upper (py_strip (cd_strategy c)) = requested
         \<or> requested \<in> set (map (\<lambda>s. py_upper (py_strip s))
                              (filter (\<lambda>s. py_strip s \<noteq> []) (cd_allowed c))))"

definition card_reason_for_strategy :: "card \<Rightarrow> string \<Rightarrow> string" where
  "card_reason_for_strategy c strategy =
     (let reason = py_strip (cd_reason c);
          assigned = py_upper (py_strip (str_or strategy (cd_strategy c)))
      in if reason = [] \<or> cd_kind c \<noteq> ''ranked-source'' \<or> assigned = [] then reason
         else
           (let parts = filter (\<lambda>p. p \<noteq> []) (map py_strip (py_split CHR '';'' reason));
                tags = (if assigned = ''S1'' then S1_REASON_TAGS else bucket_tags assigned);
                all_tags = concat (map snd STRATEGY_BUCKETS) @ S1_REASON_TAGS;
                specific = filter (\<lambda>p. p \<in> set tags) parts;
                context = filter (\<lambda>p. p \<notin> set all_tags
                            \<and> \<not> py_startswith ''companion strategy '' p
                            \<and> \<not> py_startswith ''llm-rerank:'' p) parts
            in if specific = [] then str_or (py_join ''; '' context) reason
               else py_join ''; '' ((assigned @ '' evidence: '' @ py_join '', '' specific) # context)))"

subsection \<open>Patch descriptions\<close>

definition matches_audit_boost :: "string \<Rightarrow> nat" where
  "matches_audit_boost desc =
     (if desc = [] then 0
      else length (filter (\<lambda>pat. re_found pat True desc) AUDIT_PATCH_BOOST_PATTERNS))"

definition is_version_only_file_set :: "string list \<Rightarrow> bool" where
  "is_version_only_file_set touched \<longleftrightarrow>
     touched \<noteq> []
     \<and> list_all (\<lambda>f. list_ex (\<lambda>(pat, ic). re_found pat ic f) VERSION_ONLY_FILE_PATTERNS) touched"

definition patch_audit_boost :: "string \<Rightarrow> nat" where
  "patch_audit_boost desc =
     (let matches = matches_audit_boost desc
      in if matches = 0 then 0 else min (20 + (matches - 1) * 5) 35)"

definition is_non_audit_patch_description :: "string \<Rightarrow> string list \<Rightarrow> bool" where
  "is_non_audit_patch_description desc touched =
     (let low = py_lower desc in
      if 0 < matches_audit_boost desc then False
      else if list_ex (\<lambda>term. py_contains term low) NON_AUDIT_PATCH_TERMS then True
      else if list_ex (\<lambda>term. py_contains term low) CI_PATCH_TERMS \<and> touched = [] then True
      else touched \<noteq> [] \<and> is_version_only_file_set touched)"

definition is_auditable_work_card :: "card \<Rightarrow> bool" where
  "is_auditable_work_card c =
     (if cd_file c \<noteq> [] \<and> \<not> is_auditable_source_path (cd_file c) then False
      else
        (let touched = filter is_auditable_source_path (cd_touched c)
         in if cd_kind c = ''s1-patch'' then
              \<not> is_non_audit_patch_description (cd_description c)
                  (if touched \<noteq> [] then touched else if cd_file c \<noteq> [] then [cd_file c] else [])
              \<and> (cd_file c \<noteq> [] \<or> touched \<noteq> [])
            else True))"

text \<open>\<open>dedupe_work_cards\<close>: the first auditable card of every surface, in order.\<close>

definition dedupe_key :: "bool \<Rightarrow> card \<Rightarrow> string" where
  "dedupe_key preserve_s1 c =
     (if preserve_s1 \<and> cd_kind c = ''s1-patch'' then py_lower (cd_id c) else work_surface c)"

fun dedupe_from :: "bool \<Rightarrow> string list \<Rightarrow> card list \<Rightarrow> card list" where
  "dedupe_from p seen [] = []"
| "dedupe_from p seen (c # cs) =
     (if \<not> is_auditable_work_card c then dedupe_from p seen cs
      else if dedupe_key p c = [] \<or> dedupe_key p c \<in> set seen then dedupe_from p seen cs
      else c # dedupe_from p (dedupe_key p c # seen) cs)"

definition dedupe_work_cards :: "card list \<Rightarrow> bool \<Rightarrow> card list" where
  "dedupe_work_cards cards preserve_s1 = dedupe_from preserve_s1 [] cards"

definition work_card_sort_key :: "card \<Rightarrow> int \<times> int \<times> string" where
  "work_card_sort_key c =
     (if cd_kind c = ''s1-patch'' then 0 else 1, - cd_score c, cd_file c)"

definition severity_score :: "string \<Rightarrow> nat" where
  "severity_score sev =
     (let s = py_lower sev in
      if py_contains ''critical'' s then 50 else if py_contains ''high'' s then 40
      else if py_contains ''moderate'' s then 25 else if py_contains ''low'' s then 10 else 18)"

subsection \<open>Facts\<close>

lemma dedupe_from_subseq: "subseq (dedupe_from p seen cs) cs"
  by (induction p seen cs rule: dedupe_from.induct) (simp_all add: list_emb_Cons)

lemma dedupe_from_ok:
  "c \<in> set (dedupe_from p seen cs) \<Longrightarrow>
     is_auditable_work_card c \<and> dedupe_key p c \<noteq> [] \<and> dedupe_key p c \<notin> set seen \<and> c \<in> set cs"
  by (induction p seen cs rule: dedupe_from.induct) (auto split: if_splits)

lemma dedupe_from_distinct: "distinct (map (dedupe_key p) (dedupe_from p seen cs))"
proof (induction p seen cs rule: dedupe_from.induct)
  case (2 p seen c cs)
  have "dedupe_key p c \<notin> set (map (dedupe_key p) (dedupe_from p (dedupe_key p c # seen) cs))"
  proof
    assume "dedupe_key p c \<in> set (map (dedupe_key p) (dedupe_from p (dedupe_key p c # seen) cs))"
    then obtain d where d: "d \<in> set (dedupe_from p (dedupe_key p c # seen) cs)"
      and "dedupe_key p d = dedupe_key p c" by fastforce
    with dedupe_from_ok [OF d] show False by simp
  qed
  with "2.IH" show ?case by simp
qed simp

lemma dedupe_from_covers:
  assumes "c \<in> set cs" "is_auditable_work_card c" "dedupe_key p c \<noteq> []"
    and "dedupe_key p c \<notin> set seen"
  shows "dedupe_key p c \<in> set (map (dedupe_key p) (dedupe_from p seen cs))"
  using assms by (induction p seen cs rule: dedupe_from.induct) auto

lemma dedupe_from_fixed:
  assumes "distinct (map (dedupe_key p) cs)" "set (map (dedupe_key p) cs) \<inter> set seen = {}"
    and "\<forall>c \<in> set cs. is_auditable_work_card c \<and> dedupe_key p c \<noteq> []"
  shows "dedupe_from p seen cs = cs"
  using assms by (induction p seen cs rule: dedupe_from.induct) auto

lemma find_Some_set: "find P xs = Some x \<Longrightarrow> x \<in> set xs \<and> P x"
  by (auto simp: find_Some_iff)

lemma complementary_not_primary: "primary \<notin> set (complementary_strategies reasons primary)"
  by (auto simp: complementary_strategies_def Let_def notin_set_remove1
      dest!: set_remove1_subset [THEN subsetD])

text \<open>
  Fact (dedupe_keeps_first). Deduplication keeps, in order, one card per work surface key and only
  auditable cards, loses no key an auditable card has, and has nothing left to do the second time.
\<close>

theorem dedupe_keeps_first:
  "subseq (dedupe_work_cards cards p) cards
   \<and> distinct (map (dedupe_key p) (dedupe_work_cards cards p))
   \<and> set (map (dedupe_key p) (dedupe_work_cards cards p))
       = dedupe_key p ` {c \<in> set cards. is_auditable_work_card c \<and> dedupe_key p c \<noteq> []}
   \<and> dedupe_work_cards (dedupe_work_cards cards p) p = dedupe_work_cards cards p"
proof -
  let ?d = "dedupe_from p [] cards"
  have ok: "\<forall>c \<in> set ?d. is_auditable_work_card c \<and> dedupe_key p c \<noteq> []"
    using dedupe_from_ok by blast
  have "set (map (dedupe_key p) ?d) = dedupe_key p ` {c \<in> set cards. is_auditable_work_card c \<and> dedupe_key p c \<noteq> []}"
  proof
    show "set (map (dedupe_key p) ?d) \<subseteq> dedupe_key p ` {c \<in> set cards. is_auditable_work_card c \<and> dedupe_key p c \<noteq> []}"
      using dedupe_from_ok [of _ p "[]" cards] by auto
    show "dedupe_key p ` {c \<in> set cards. is_auditable_work_card c \<and> dedupe_key p c \<noteq> []} \<subseteq> set (map (dedupe_key p) ?d)"
      using dedupe_from_covers [of _ cards p "[]"] by auto
  qed
  then show ?thesis
    using dedupe_from_subseq [of p "[]" cards] dedupe_from_distinct [of p "[]" cards]
      dedupe_from_fixed [of p ?d "[]"] ok
    by (simp add: dedupe_work_cards_def)
qed

end
