(* ===== verification/Ledger.thy ===== *)
theory Ledger
  imports Strategies
begin

text \<open>
  What the queue reads out of the ledgers (\<open>hypotheses.jsonl\<close>, \<open>runs.jsonl\<close>, \<open>claims.jsonl\<close>):
  the status classes, the per-card counters, and the evidence a card has. All of it is functions
  of the rows, in the order of \<open>lib/workqueue.py\<close>.
\<close>

subsection \<open>Settings\<close>

text \<open>
  What an operation takes from its surroundings: the process environment
  (\<open>os.environ.get(name, "")\<close>) and the bucket depth of this run.
\<close>

record ctx =
  cx_env :: "string \<Rightarrow> string"
  cx_depth :: nat

definition int_env :: "(string \<Rightarrow> string) \<Rightarrow> string \<Rightarrow> int \<Rightarrow> int" where
  "int_env env name dflt =
     (let raw = env name
      in if raw = [] then dflt else (case py_int raw of None \<Rightarrow> dflt | Some n \<Rightarrow> max 0 n))"

definition strategy_matches_pin :: "string \<Rightarrow> string \<Rightarrow> bool" where
  "strategy_matches_pin label pinned =
     (let value = py_upper (py_strip label); pin = py_upper (py_strip pinned)
      in value = pin
         \<or> pin \<noteq> [] \<and> py_startswith pin value \<and> length pin < length value
           \<and> value ! length pin \<in> set ''-_ ('')"

definition fixed_strategy :: "string option \<Rightarrow> string" where
  "fixed_strategy content = (case content of None \<Rightarrow> [] | Some t \<Rightarrow> py_upper (py_strip t))"

subsection \<open>Hypothesis statuses\<close>

definition ACTIVE_HYPOTHESIS_STATUSES :: "string list" where
  "ACTIVE_HYPOTHESIS_STATUSES = [''PENDING'', ''INVESTIGATING'', ''NEEDS_TESTCASE'']"

definition is_active_hypothesis_status :: "string \<Rightarrow> bool" where
  "is_active_hypothesis_status status \<longleftrightarrow> status \<in> set ACTIVE_HYPOTHESIS_STATUSES"

definition HYPOTHESIS_DIAGNOSTIC_CATEGORIES :: "string list" where
  "HYPOTHESIS_DIAGNOSTIC_CATEGORIES =
     [''bounds'', ''lifetime'', ''type'', ''size'', ''uninit'', ''state'']"

definition AGENT_COUNT_KEYS :: "string list" where
  "AGENT_COUNT_KEYS =
     [''pending'', ''investigating'', ''needs_testcase'', ''active'', ''discards'', ''env_blocked'',
      ''result'']"

definition is_result_status :: "string \<Rightarrow> bool" where
  "is_result_status s \<longleftrightarrow> py_startswith ''CRASH'' s \<or> py_startswith ''FIND'' s"

definition classify_hypothesis_status :: "string \<Rightarrow> string list" where
  "classify_hypothesis_status s =
     (if s = ''PENDING'' then [''pending'', ''active'']
      else if s = ''INVESTIGATING'' then [''investigating'', ''active'']
      else if s = ''NEEDS_TESTCASE'' then [''needs_testcase'', ''active'']
      else if s = ''DISCARDED'' then [''discards'']
      else if s = ''ENV-BLOCKED'' then [''env_blocked'']
      else [])
     @ (if is_result_status s then [''result''] else [])"

definition agent_counts :: "hyp list \<Rightarrow> string \<Rightarrow> (string \<times> nat) list" where
  "agent_counts hyps agent =
     (let counts = map (\<lambda>k. (k, 0)) AGENT_COUNT_KEYS
      in if agent = [] then counts
         else foldl (\<lambda>acc row.
                if hy_agent row \<noteq> agent then acc
                else foldl (\<lambda>acc bucket. AList.map_entry bucket Suc acc) acc
                       (classify_hypothesis_status (hy_status row))) counts hyps)"

subsection \<open>Card statuses\<close>

definition PERMANENT_TERMINAL_CARD_STATUSES :: "string list" where
  "PERMANENT_TERMINAL_CARD_STATUSES = [''done'', ''discarded'', ''crash'', ''find'']"

definition SOFT_TERMINAL_CARD_STATUSES :: "string list" where
  "SOFT_TERMINAL_CARD_STATUSES = [''blocked'']"

definition TERMINAL_CARD_STATUSES :: "string list" where
  "TERMINAL_CARD_STATUSES = PERMANENT_TERMINAL_CARD_STATUSES @ SOFT_TERMINAL_CARD_STATUSES"

definition PRODUCTIVE_DECAY_AFTER_ITERS :: int where
  "PRODUCTIVE_DECAY_AFTER_ITERS = 2"

definition PRODUCTIVE_TERMINAL_CARD_STATUSES :: "string list" where
  "PRODUCTIVE_TERMINAL_CARD_STATUSES = [''crash'', ''find'']"

definition EVIDENCE_GATED_CARD_STATUSES :: "string list" where
  "EVIDENCE_GATED_CARD_STATUSES =
     filter (\<lambda>s. s \<notin> set [''crash'', ''find'']) PERMANENT_TERMINAL_CARD_STATUSES"

definition PRODUCTIVE_REDISCOVERY_MARGIN :: int where
  "PRODUCTIVE_REDISCOVERY_MARGIN = 1"

definition UNREACHABLE_REJECTION_CATEGORY :: string where
  "UNREACHABLE_REJECTION_CATEGORY = ''trigger-provenance''"

lemmas card_status_defs =
  PERMANENT_TERMINAL_CARD_STATUSES_def SOFT_TERMINAL_CARD_STATUSES_def TERMINAL_CARD_STATUSES_def
  PRODUCTIVE_TERMINAL_CARD_STATUSES_def EVIDENCE_GATED_CARD_STATUSES_def

definition is_broad_file_card :: "card \<Rightarrow> bool" where
  "is_broad_file_card c \<longleftrightarrow> cd_kind c \<in> set [''ranked-source'', ''s4-campaign'']"

subsection \<open>Counters per card\<close>

definition card_conclusion_counts :: "claim list \<Rightarrow> (string \<times> nat) list" where
  "card_conclusion_counts claims =
     count_by (\<lambda>row.
       if cl_source row = ''release-stale-claims'' \<and> cl_preserved row \<noteq> [] then None
       else if cl_st row \<in> set PRODUCTIVE_TERMINAL_CARD_STATUSES then some_key (cl_card row)
       else None) claims"

definition hypothesis_shape :: "hyp \<Rightarrow> string" where
  "hypothesis_shape h =
     (let shape = py_join [CHR 0x1F]
            (map (\<lambda>f. py_lower (py_strip (f h)))
               [hy_hypothesis, hy_input_shape, hy_guard_gap, hy_diagnostic, hy_strategy])
      in if strip_by (\<lambda>c. c = CHR 0x1F) shape \<noteq> [] then shape else hy_id h)"

definition card_distinct_hypothesis_count :: "hyp list \<Rightarrow> string \<Rightarrow> nat" where
  "card_distinct_hypothesis_count hyps card_id =
     (if card_id = [] then 0
      else length (foldl (\<lambda>seen h.
             if hy_card h = card_id \<and> hypothesis_shape h \<noteq> []
             then List.insert (hypothesis_shape h) seen else seen) [] hyps))"

definition hyp_key :: "hyp \<Rightarrow> (string \<times> string) option" where
  "hyp_key h = (if py_strip (hy_id h) = [] then None else Some (hy_agent h, py_strip (hy_id h)))"

definition card_unreachable_rejection_counts :: "hyp list \<Rightarrow> (string \<times> nat) list" where
  "card_unreachable_rejection_counts hyps =
     (let latest = filter (\<lambda>(k, row). hy_card row \<noteq> []) (latest_by hyp_key hyps);
          kept = map (\<lambda>(k, row). hy_card row)
                   (filter (\<lambda>(k, row). is_result_status (hy_status row)) latest);
          rejected = group_sets (\<lambda>((agent, hid), row).
                if is_result_status (hy_status row) then None
                else if hy_rejected row = UNREACHABLE_REJECTION_CATEGORY then Some (hy_card row, hid)
                else None) latest
      in map (\<lambda>(cid, ids). (cid, length ids)) (filter (\<lambda>(cid, ids). cid \<notin> set kept) rejected))"

definition card_distinct_hypothesis_counts :: "hyp list \<Rightarrow> (string \<times> nat) list" where
  "card_distinct_hypothesis_counts hyps =
     map (\<lambda>(cid, shapes). (cid, length shapes))
       (group_sets (\<lambda>h. if hy_card h = [] \<or> hypothesis_shape h = [] then None
                        else Some (hy_card h, hypothesis_shape h)) hyps)"

subsection \<open>Runs as evidence\<close>

definition card_run_count :: "run list \<Rightarrow> string \<Rightarrow> string \<Rightarrow> nat" where
  "card_run_count runs card_id verdict =
     (if card_id = [] then 0
      else (let want = py_upper verdict in
        length (filter (\<lambda>r.
          if rn_card r \<noteq> card_id then False
          else if want \<noteq> [] \<and> py_upper (rn_verdict r) \<noteq> want then False
          else if want = ''CRASH'' \<and> rn_not_filed r \<noteq> [] then False
          else True) runs)))"

definition card_discard_requirements :: "ctx \<Rightarrow> int \<times> int" where
  "card_discard_requirements cx =
     (int_env (cx_env cx) ''WORK_CARD_MIN_RUNS_BEFORE_DISCARD'' 3,
      int_env (cx_env cx) ''WORK_CARD_MIN_HYPS_BEFORE_DISCARD'' 2)"

text \<open>\<open>hypothesis_shapes\<close> of \<open>card_discard_evidence\<close>, by agent and hypothesis id.\<close>

definition discard_shapes :: "hyp list \<Rightarrow> string \<Rightarrow> ((string \<times> string) \<times> hyp) list" where
  "discard_shapes hyps card_id =
     latest_by (\<lambda>row. if hy_card row = card_id \<and> hy_id row \<noteq> [] then Some (hy_agent row, hy_id row)
                      else None) hyps"

definition card_discard_evidence :: "hyp list \<Rightarrow> run list \<Rightarrow> string \<Rightarrow> nat \<times> nat \<times> nat" where
  "card_discard_evidence hyps runs card_id =
     (let shapes = map_of (discard_shapes hyps card_id);
          (clean, missed, probed) = foldl (\<lambda>(clean, missed, probed) run.
             if rn_card run \<noteq> card_id then (clean, missed, probed)
             else if py_upper (rn_verdict run) \<noteq> ''CLEAN'' then (clean, missed, probed)
             else (case shapes (rn_agent run, rn_hyp run) of
                     None \<Rightarrow> (clean, missed, probed)
                   | Some row \<Rightarrow>
                       if hypothesis_shape row = [] then (clean, missed, probed)
                       else if py_upper (rn_coverage run) = ''MISSED'' then (clean, missed + 1, probed)
                       else (clean + 1, missed, List.insert (hypothesis_shape row) probed)))
             (0 :: nat, 0 :: nat, []) runs
      in (clean, length probed, missed))"


subsection \<open>What the counters count\<close>

lemma get0_conclusion_counts:
  "get0 (card_conclusion_counts claims) cid =
     length (filter (\<lambda>row. cid \<noteq> [] \<and> cl_card row = cid
       \<and> cl_st row \<in> set PRODUCTIVE_TERMINAL_CARD_STATUSES
       \<and> \<not> (cl_source row = ''release-stale-claims'' \<and> cl_preserved row \<noteq> [])) claims)"
  unfolding card_conclusion_counts_def get0_count_by
  by (rule arg_cong [where f = length], rule filter_cong [OF refl]) (auto simp: some_key_def)

lemma length_foldl_insert:
  "length (foldl (\<lambda>seen x. if P x then List.insert (f x) seen else seen) [] xs)
     = card {f x |x. x \<in> set xs \<and> P x}"
proof -
  define F where "F seen xs = foldl (\<lambda>seen x. if P x then List.insert (f x) seen else seen) seen xs"
    for seen xs
  have "set (F seen xs) = set seen \<union> {f x |x. x \<in> set xs \<and> P x}
      \<and> (distinct seen \<longrightarrow> distinct (F seen xs))" for seen
    by (induction xs arbitrary: seen) (auto simp: F_def)
  from this [of "[]"] have "set (F [] xs) = {f x |x. x \<in> set xs \<and> P x}" "distinct (F [] xs)"
    by simp_all
  then have "length (F [] xs) = card {f x |x. x \<in> set xs \<and> P x}"
    using distinct_card [of "F [] xs"] by simp
  then show ?thesis by (simp add: F_def)
qed

lemma card_distinct_hypothesis_count_eq:
  "card_id \<noteq> [] \<Longrightarrow> card_distinct_hypothesis_count hyps card_id =
     card {hypothesis_shape h |h. h \<in> set hyps \<and> hy_card h = card_id \<and> hypothesis_shape h \<noteq> []}"
  by (simp add: card_distinct_hypothesis_count_def length_foldl_insert)

lemma get0_map_length: "get0 (map (\<lambda>(k, vs). (k, length vs)) m) k = length (get_set m k)"
  by (induction m) (auto simp: get0_def get_set_def)

lemma map_of_map_entry:
  "map_of (AList.map_entry k f al) k' = (if k = k' then map_option f (map_of al k) else map_of al k')"
  by (induction al) auto

lemma get0_bump:
  "get0 (foldl (\<lambda>acc b. AList.map_entry b Suc acc) acc bs) k =
     (if map_of acc k = None then 0 else get0 acc k + count_list bs k)"
  by (induction bs arbitrary: acc) (auto simp: get0_def map_of_map_entry split: option.splits)

lemma bump_dom:
  "map_of (foldl (\<lambda>acc b. AList.map_entry b Suc acc) acc bs) k = None \<longleftrightarrow> map_of acc k = None"
  by (induction bs arbitrary: acc) (auto simp: map_of_map_entry)

lemma distinct_classify: "distinct (classify_hypothesis_status s)"
  by (simp add: classify_hypothesis_status_def)

lemma count_list_distinct: "distinct xs \<Longrightarrow> count_list xs x = (if x \<in> set xs then 1 else 0)"
  by (induction xs) auto

lemma get0_agent_fold:
  "get0 (foldl (\<lambda>acc row.
                if hy_agent row \<noteq> agent then acc
                else foldl (\<lambda>acc bucket. AList.map_entry bucket Suc acc) acc
                       (classify_hypothesis_status (hy_status row))) acc hyps) k =
     (if map_of acc k = None then 0
      else get0 acc k + length (filter (\<lambda>row. hy_agent row = agent
             \<and> k \<in> set (classify_hypothesis_status (hy_status row))) hyps))"
proof (induction hyps arbitrary: acc)
  case Nil
  show ?case by (auto simp: get0_def)
next
  case (Cons h hyps)
  show ?case
  proof (cases "hy_agent h = agent")
    case True
    show ?thesis
      by (simp add: True Cons.IH bump_dom get0_bump count_list_distinct [OF distinct_classify])
  next
    case False
    then show ?thesis by (simp add: Cons.IH)
  qed
qed

lemma get0_agent_counts:
  assumes "agent \<noteq> []" "k \<in> set AGENT_COUNT_KEYS"
  shows "get0 (agent_counts hyps agent) k =
    length (filter (\<lambda>row. hy_agent row = agent
      \<and> k \<in> set (classify_hypothesis_status (hy_status row))) hyps)"
proof -
  have "map_of (map (\<lambda>k. (k, 0 :: nat)) AGENT_COUNT_KEYS) k = Some 0"
    using assms(2) by (auto simp: map_of_map_restrict [of "\<lambda>_. 0"] restrict_map_def)
  then show ?thesis
    using assms by (simp add: agent_counts_def Let_def get0_agent_fold) (simp add: get0_def)
qed

lemma length_filter_disj:
  "(\<And>x. P x \<Longrightarrow> Q x \<Longrightarrow> False) \<Longrightarrow>
     length (filter P xs) + length (filter Q xs) = length (filter (\<lambda>x. P x \<or> Q x) xs)"
  by (induction xs) auto

lemma active_status_buckets:
  "''active'' \<in> set (classify_hypothesis_status s) \<longleftrightarrow> is_active_hypothesis_status s"
  "''pending'' \<in> set (classify_hypothesis_status s) \<longleftrightarrow> s = ''PENDING''"
  "''investigating'' \<in> set (classify_hypothesis_status s) \<longleftrightarrow> s = ''INVESTIGATING''"
  "''needs_testcase'' \<in> set (classify_hypothesis_status s) \<longleftrightarrow> s = ''NEEDS_TESTCASE''"
  by (auto simp: classify_hypothesis_status_def is_active_hypothesis_status_def
      ACTIVE_HYPOTHESIS_STATUSES_def)

text \<open>The evidence of a card: the \<open>CLEAN\<close> runs of its own hypotheses, MISSED runs apart.\<close>

definition evidence_run :: "hyp list \<Rightarrow> string \<Rightarrow> run \<Rightarrow> string option" where
  "evidence_run hyps card_id run =
     (if rn_card run = card_id \<and> py_upper (rn_verdict run) = ''CLEAN'' then
        (case map_of (discard_shapes hyps card_id) (rn_agent run, rn_hyp run) of
           Some row \<Rightarrow> some_key (hypothesis_shape row)
         | None \<Rightarrow> None)
      else None)"

lemma foldl_evidence:
  assumes "\<And>a b p r. step (a, b, p) r = (case ev r of
      None \<Rightarrow> (a, b, p)
    | Some s \<Rightarrow> if missed r then (a, Suc b, p) else (Suc a, b, List.insert s p))"
  shows "\<exists>probed. foldl step (0, 0, []) runs =
      (length (filter (\<lambda>r. ev r \<noteq> None \<and> \<not> missed r) runs),
       length (filter (\<lambda>r. ev r \<noteq> None \<and> missed r) runs), probed)
    \<and> distinct probed \<and> set probed = {s. \<exists>r \<in> set runs. ev r = Some s \<and> \<not> missed r}"
proof (induction runs rule: rev_induct)
  case Nil
  show ?case by simp
next
  case (snoc r runs)
  then obtain p where p: "foldl step (0, 0, []) runs =
      (length (filter (\<lambda>r. ev r \<noteq> None \<and> \<not> missed r) runs),
       length (filter (\<lambda>r. ev r \<noteq> None \<and> missed r) runs), p)"
    "distinct p" "set p = {s. \<exists>r \<in> set runs. ev r = Some s \<and> \<not> missed r}" by blast
  show ?case
  proof (cases "ev r")
    case None
    with p show ?thesis by (auto simp: assms)
  next
    case (Some s)
    show ?thesis
    proof (cases "missed r")
      case True
      with Some p show ?thesis by (auto simp: assms)
    next
      case False
      have "distinct (List.insert s p)" "set (List.insert s p) =
          {s. \<exists>r \<in> set (runs @ [r]). ev r = Some s \<and> \<not> missed r}"
        using p(2,3) Some False by auto
      with Some False p(1) show ?thesis by (auto simp: assms)
    qed
  qed
qed

lemma card_discard_evidence_eq:
  "card_discard_evidence hyps runs card_id =
     (length (filter (\<lambda>r. evidence_run hyps card_id r \<noteq> None \<and> py_upper (rn_coverage r) \<noteq> ''MISSED'') runs),
      card {s. \<exists>r \<in> set runs. evidence_run hyps card_id r = Some s \<and> py_upper (rn_coverage r) \<noteq> ''MISSED''},
      length (filter (\<lambda>r. evidence_run hyps card_id r \<noteq> None \<and> py_upper (rn_coverage r) = ''MISSED'') runs))"
proof -
  define step where "step = (\<lambda>(clean :: nat, missed :: nat, probed) (run :: run).
     if rn_card run \<noteq> card_id then (clean, missed, probed)
     else if py_upper (rn_verdict run) \<noteq> ''CLEAN'' then (clean, missed, probed)
     else (case map_of (discard_shapes hyps card_id) (rn_agent run, rn_hyp run) of
             None \<Rightarrow> (clean, missed, probed)
           | Some row \<Rightarrow>
               if hypothesis_shape row = [] then (clean, missed, probed)
               else if py_upper (rn_coverage run) = ''MISSED'' then (clean, missed + 1, probed)
               else (clean + 1, missed, List.insert (hypothesis_shape row) probed)))"
  have step: "step (a, b, p) r = (case evidence_run hyps card_id r of
      None \<Rightarrow> (a, b, p)
    | Some s \<Rightarrow> if py_upper (rn_coverage r) = ''MISSED'' then (a, Suc b, p)
                else (Suc a, b, List.insert s p))" for a b p and r :: run
    by (auto simp: step_def evidence_run_def some_key_def split: option.splits)
  obtain p where p: "foldl step (0, 0, []) runs =
      (length (filter (\<lambda>r. evidence_run hyps card_id r \<noteq> None \<and> py_upper (rn_coverage r) \<noteq> ''MISSED'') runs),
       length (filter (\<lambda>r. evidence_run hyps card_id r \<noteq> None \<and> py_upper (rn_coverage r) = ''MISSED'') runs), p)"
    "distinct p" "set p = {s. \<exists>r \<in> set runs. evidence_run hyps card_id r = Some s
        \<and> py_upper (rn_coverage r) \<noteq> ''MISSED''}"
    using foldl_evidence [where step = step and ev = "evidence_run hyps card_id" and runs = runs
        and missed = "\<lambda>r. py_upper (rn_coverage r) = ''MISSED''", OF step] by blast
  have "card_discard_evidence hyps runs card_id =
      (case foldl step (0, 0, []) runs of (clean, missed, probed) \<Rightarrow> (clean, length probed, missed))"
    by (simp add: card_discard_evidence_def step_def Let_def)
  with p show ?thesis by (simp add: distinct_card [symmetric])
qed

subsection \<open>The counters agree\<close>

text \<open>
  Fact (agent_counts_partition). The counters of an agent are those of its rows: \<open>active\<close> is the
  number of its rows with an active status and is the sum of \<open>pending\<close>, \<open>investigating\<close> and
  \<open>needs_testcase\<close>, \<open>result\<close> counts the rows that name a crash or a finding, and without an agent
  every counter is 0.
\<close>

theorem agent_counts_partition:
  "get0 (agent_counts hyps agent) ''active'' =
     get0 (agent_counts hyps agent) ''pending'' + get0 (agent_counts hyps agent) ''investigating''
     + get0 (agent_counts hyps agent) ''needs_testcase''
   \<and> get0 (agent_counts hyps agent) ''active'' =
     length (filter (\<lambda>h. agent \<noteq> [] \<and> hy_agent h = agent \<and> is_active_hypothesis_status (hy_status h)) hyps)
   \<and> get0 (agent_counts hyps agent) ''result'' =
     length (filter (\<lambda>h. agent \<noteq> [] \<and> hy_agent h = agent \<and> is_result_status (hy_status h)) hyps)"
proof (cases "agent = []")
  case True
  then show ?thesis by (simp add: agent_counts_def get0_def AGENT_COUNT_KEYS_def)
next
  case False
  have k: "''active'' \<in> set AGENT_COUNT_KEYS" "''pending'' \<in> set AGENT_COUNT_KEYS"
    "''investigating'' \<in> set AGENT_COUNT_KEYS" "''needs_testcase'' \<in> set AGENT_COUNT_KEYS"
    "''result'' \<in> set AGENT_COUNT_KEYS"
    by (simp_all add: AGENT_COUNT_KEYS_def)
  have r: "''result'' \<in> set (classify_hypothesis_status s) \<longleftrightarrow> is_result_status s" for s
    by (simp add: classify_hypothesis_status_def)
  have "length (filter (\<lambda>h. hy_agent h = agent \<and> is_active_hypothesis_status (hy_status h)) hyps)
      = length (filter (\<lambda>h. hy_agent h = agent \<and> hy_status h = ''PENDING'') hyps)
        + length (filter (\<lambda>h. hy_agent h = agent \<and> hy_status h = ''INVESTIGATING'') hyps)
        + length (filter (\<lambda>h. hy_agent h = agent \<and> hy_status h = ''NEEDS_TESTCASE'') hyps)"
    by (induction hyps) (auto simp: is_active_hypothesis_status_def ACTIVE_HYPOTHESIS_STATUSES_def)
  then show ?thesis
    using False by (simp add: get0_agent_counts k active_status_buckets r)
qed

text \<open>
  Fact (distinct_counts_agree). The count of distinct hypotheses of one card, which the audit asks
  for, and the entry of that card in the table the claim path computes once for all cards, are the
  same number; an absent entry reads 0.
\<close>

theorem distinct_counts_agree:
  "card_distinct_hypothesis_count hyps card_id = get0 (card_distinct_hypothesis_counts hyps) card_id"
proof (cases "card_id = []")
  case True
  have "get0 (card_distinct_hypothesis_counts hyps) [] = 0"
    unfolding card_distinct_hypothesis_counts_def get0_map_length length_get_set by simp
  with True show ?thesis by (simp add: card_distinct_hypothesis_count_def)
next
  case False
  have "{v. \<exists>r \<in> set hyps. (if hy_card r = [] \<or> hypothesis_shape r = [] then None
              else Some (hy_card r, hypothesis_shape r)) = Some (card_id, v)}
      = {hypothesis_shape h |h. h \<in> set hyps \<and> hy_card h = card_id \<and> hypothesis_shape h \<noteq> []}"
    using False by auto
  then show ?thesis
    unfolding card_distinct_hypothesis_counts_def get0_map_length length_get_set
    using card_distinct_hypothesis_count_eq [OF False] by simp
qed

end
