(* ===== verification/Lease.thy ===== *)
theory Lease
  imports Ledger
begin

text \<open>
  Leases on work cards: when a claim row holds its card, what the latest row of a card says, the
  release of claims whose hypotheses no longer justify them, the dry-iteration counters of
  subsystems, and when a card is closed for a run. Times are microseconds; a lease lifetime is a
  \<open>timedelta\<close> in microseconds.
\<close>

subsection \<open>Lifetimes and the latest row of a card\<close>

definition work_card_claim_ttl :: "ctx \<Rightarrow> int" where
  "work_card_claim_ttl cx =
     (let raw = cx_env cx ''WORK_CARD_CLAIM_TTL_SECONDS'';
          seconds = (if raw = [] then 30 * 60
                     else (case py_int raw of None \<Rightarrow> 30 * 60 | Some n \<Rightarrow> n))
      in max 0 seconds * usec_per_sec)"

definition claim_row_expiry :: "claim \<Rightarrow> int \<Rightarrow> int option" where
  "claim_row_expiry row ttl =
     (case parse_iso_utc (cl_expires_at row) of
        Some e \<Rightarrow> Some e
      | None \<Rightarrow>
          (case parse_iso_utc (cl_claimed_at row) of
             Some c \<Rightarrow> Some (c + ttl)
           | None \<Rightarrow> map_option (\<lambda>u. u + ttl) (parse_iso_utc (cl_updated_at row))))"

definition claim_blocks_card :: "claim option \<Rightarrow> int \<Rightarrow> int \<Rightarrow> bool" where
  "claim_blocks_card row ttl now =
     (case row of
        None \<Rightarrow> False
      | Some r \<Rightarrow>
          if cl_st_claimed r \<noteq> ''claimed'' then False
          else (case claim_row_expiry r ttl of None \<Rightarrow> False | Some e \<Rightarrow> now < e))"

definition latest_claims_by_card :: "claim list \<Rightarrow> (string \<times> claim) list" where
  "latest_claims_by_card claims = latest_by (\<lambda>r. some_key (cl_card r)) claims"

definition agent_has_card_activity :: "claim list \<Rightarrow> string \<Rightarrow> bool" where
  "agent_has_card_activity claims agent = list_ex (\<lambda>r. cl_agent r = agent \<and> cl_card r \<noteq> []) claims"

definition latest_terminal_status_by_card :: "claim list \<Rightarrow> (string \<times> string) list" where
  "latest_terminal_status_by_card claims =
     map (\<lambda>(cid, r). (cid, cl_st r))
       (latest_by (\<lambda>r. if cl_card r \<noteq> [] \<and> cl_st r \<in> set TERMINAL_CARD_STATUSES
                          \<and> cl_source r \<noteq> ''release-stale-claims''
                       then Some (cl_card r) else None) claims)"

definition visible_card_status :: "claim option \<Rightarrow> int \<Rightarrow> int \<Rightarrow> string" where
  "visible_card_status row ttl now =
     (case row of
        None \<Rightarrow> ''unclaimed''
      | Some r \<Rightarrow>
          (let status = str_or (cl_st_claimed r) ''claimed'' in
           if status \<noteq> ''claimed'' then status
           else if claim_blocks_card row ttl now then ''claimed'' else ''unclaimed''))"

definition apply_latest_claim_status :: "ctx \<Rightarrow> claim list \<Rightarrow> card list \<Rightarrow> int \<Rightarrow> (card \<times> string) list" where
  "apply_latest_claim_status cx claims cards now =
     (let latest = map_of (latest_claims_by_card claims); ttl = work_card_claim_ttl cx
      in map (\<lambda>c. (c, visible_card_status (latest (cd_id c)) ttl now)) cards)"

subsection \<open>Releasing stale claims\<close>

definition claim_grace :: "ctx \<Rightarrow> int" where
  "claim_grace cx = int_env (cx_env cx) ''WORK_CARD_CLAIM_GRACE_SECONDS'' (5 * 60) * usec_per_sec"

definition last_run_of :: "run list \<Rightarrow> string \<Rightarrow> int option" where
  "last_run_of runs cid =
     foldl (\<lambda>prev r.
       if rn_card r \<noteq> cid then prev
       else (case parse_iso_utc (rn_created_at r) of
               None \<Rightarrow> prev
             | Some ts \<Rightarrow> (case prev of None \<Rightarrow> Some ts | Some p \<Rightarrow> if p < ts then Some ts else Some p)))
       None runs"

definition claim_start :: "claim \<Rightarrow> int option" where
  "claim_start r =
     (case parse_iso_utc (cl_claimed_at r) of Some c \<Rightarrow> Some c | None \<Rightarrow> parse_iso_utc (cl_updated_at r))"

text \<open>The body of the loop over the latest rows, up to the choice of \<open>reason\<close>; \<open>None\<close> is \<open>continue\<close>.\<close>

definition release_reason ::
  "hyp list \<Rightarrow> run list \<Rightarrow> string list \<Rightarrow> int \<Rightarrow> int \<Rightarrow> string \<Rightarrow> claim \<Rightarrow> string option" where
  "release_reason hyps runs live grace now cid claim =
     (if cl_st claim \<noteq> ''claimed'' then None
      else if cl_agent claim \<in> set live then None
      else
        (let mine = filter (\<lambda>h. hy_card h = cid) hyps in
         if list_ex (\<lambda>h. is_active_hypothesis_status (hy_status h)) mine then None
         else if mine = [] then
           (case claim_start claim of
              None \<Rightarrow> None
            | Some claimed_at \<Rightarrow>
                if now - claimed_at < grace then None
                else (case last_run_of runs cid of
                        Some last_run \<Rightarrow>
                          if now - last_run < grace then None
                          else Some ''no-hypothesis-after-grace''
                      | None \<Rightarrow> Some ''no-hypothesis-after-grace''))
         else Some ''all-hypotheses-terminal''))"

definition release_row :: "claim option \<Rightarrow> int \<Rightarrow> string \<Rightarrow> claim \<Rightarrow> string \<Rightarrow> claim" where
  "release_row prior now cid claim reason =
     claim0\<lparr>cl_card := cid, cl_agent := cl_agent claim,
       cl_status := Some (case prior of Some p \<Rightarrow> cl_st p | None \<Rightarrow> ''released''),
       cl_updated_at := now_iso now, cl_released_at := now_iso now, cl_reason := reason,
       cl_source := ''release-stale-claims'',
       cl_preserved := (case prior of Some p \<Rightarrow> cl_st p | None \<Rightarrow> [])\<rparr>"

definition latest_terminal_claims :: "claim list \<Rightarrow> (string \<times> claim) list" where
  "latest_terminal_claims claims =
     latest_by (\<lambda>r. if cl_card r \<noteq> [] \<and> cl_st r \<in> set TERMINAL_CARD_STATUSES then Some (cl_card r)
                    else None) claims"

definition released_rows ::
  "claim list \<Rightarrow> hyp list \<Rightarrow> run list \<Rightarrow> string list \<Rightarrow> int \<Rightarrow> int \<Rightarrow> claim list" where
  "released_rows claims hyps runs live grace now =
     concat (map (\<lambda>(cid, claim).
         case release_reason hyps runs live grace now cid claim of
           None \<Rightarrow> []
         | Some reason \<Rightarrow>
             [release_row (map_of (latest_terminal_claims claims) cid) now cid claim reason])
       (latest_claims_by_card claims))"

text \<open>\<open>release_stale_claims\<close>: the rows appended to \<open>claims.jsonl\<close>, and the tree after it.\<close>

definition release_stale_claims ::
  "ctx \<Rightarrow> store \<Rightarrow> int option \<Rightarrow> int \<Rightarrow> string list \<Rightarrow> claim list \<times> store" where
  "release_stale_claims cx st grace now keep_agents =
     (let g = (case grace of Some g \<Rightarrow> g | None \<Rightarrow> claim_grace cx);
          rows = released_rows (st_claims st) (st_hyps st) (st_runs st) keep_agents g now
      in (rows, st\<lparr>st_claims := st_claims st @ rows\<rparr>))"

subsection \<open>Dry iterations of a subsystem\<close>

definition dry_slug :: "string \<Rightarrow> string" where
  "dry_slug subsystem = map (\<lambda>c. if c = CHR ''/'' then CHR ''_'' else c) subsystem"

definition subsystem_dry_streak :: "store \<Rightarrow> string \<Rightarrow> int" where
  "subsystem_dry_streak st subsystem =
     (if subsystem = [] \<or> subsystem = ''unknown'' then 0
      else (case map_of (st_dry st) (dry_slug subsystem) of
              None \<Rightarrow> 0
            | Some raw \<Rightarrow> (case py_int (py_strip raw) of None \<Rightarrow> 0 | Some n \<Rightarrow> max 0 n)))"

definition record_subsystem_iteration :: "store \<Rightarrow> string \<Rightarrow> bool \<Rightarrow> store" where
  "record_subsystem_iteration st subsystem productive =
     (if subsystem = [] \<or> subsystem = ''unknown'' then st
      else if productive then st\<lparr>st_dry := AList.delete (dry_slug subsystem) (st_dry st)\<rparr>
      else st\<lparr>st_dry := AList.update (dry_slug subsystem)
                (nat_str (nat (subsystem_dry_streak st subsystem + 1)) @ [CHR 0x0A]) (st_dry st)\<rparr>)"

subsection \<open>Closed cards\<close>

definition card_closed_for_run ::
  "(string \<times> nat) list \<Rightarrow> (string \<times> nat) list \<Rightarrow> card \<Rightarrow> string \<Rightarrow> bool" where
  "card_closed_for_run conclusion_counts distinct_counts c status =
     (let cid = cd_id c;
          concluded = (if cid \<noteq> [] then get0 conclusion_counts cid else 0)
      in if is_broad_file_card c then status = ''blocked''
         else
           (let is_productive = (status \<in> set PRODUCTIVE_TERMINAL_CARD_STATUSES
                                 \<or> status = ''unclaimed'' \<and> 0 < concluded)
            in if \<not> is_productive then status \<in> set TERMINAL_CARD_STATUSES
               else if cid = [] then True
               else PRODUCTIVE_REDISCOVERY_MARGIN
                      \<le> int concluded - int (get0 distinct_counts cid)))"

subsection \<open>Facts\<close>

lemma latest_claims_snoc:
  "map_of (latest_claims_by_card (claims @ [r])) cid =
     (if cl_card r = cid \<and> cid \<noteq> [] then Some r else map_of (latest_claims_by_card claims) cid)"
  by (auto simp: latest_claims_by_card_def map_of_latest_by_snoc)

lemma latest_claims_Nil [simp]: "map_of (latest_claims_by_card claims) [] = None"
  by (induction claims rule: rev_induct) (simp_all add: latest_claims_snoc, simp add: latest_claims_by_card_def)

lemma latest_claims_SomeD:
  "map_of (latest_claims_by_card claims) cid = Some r \<Longrightarrow> r \<in> set claims \<and> cl_card r = cid \<and> cid \<noteq> []"
  unfolding latest_claims_by_card_def by (drule map_of_latest_by_SomeD) auto

lemma latest_claims_append:
  "map_of (latest_claims_by_card (claims @ rows)) cid =
     (case map_of (latest_claims_by_card rows) cid of
        Some r \<Rightarrow> Some r | None \<Rightarrow> map_of (latest_claims_by_card claims) cid)"
proof (induction rows rule: rev_induct)
  case Nil
  show ?case by (simp add: latest_claims_by_card_def)
next
  case (snoc r rows)
  show ?case
    unfolding append_assoc [symmetric] latest_claims_snoc snoc.IH by simp
qed

lemma claim_blocks_card_None [simp]: "\<not> claim_blocks_card None ttl now"
  by (simp add: claim_blocks_card_def)

lemma claim_blocks_card_Some:
  "claim_blocks_card (Some r) ttl now \<longleftrightarrow>
     cl_st_claimed r = ''claimed'' \<and> (\<exists>e. claim_row_expiry r ttl = Some e \<and> now < e)"
  by (auto simp: claim_blocks_card_def split: option.splits)

text \<open>A lease that blocks blocks at every earlier time.\<close>

lemma claim_blocks_card_antimono:
  "claim_blocks_card row ttl now \<Longrightarrow> t \<le> now \<Longrightarrow> claim_blocks_card row ttl t"
  by (cases row) (auto simp: claim_blocks_card_Some)

lemma visible_card_status_claimed:
  "visible_card_status row ttl now = ''claimed'' \<longleftrightarrow> claim_blocks_card row ttl now"
  by (cases row) (auto simp: visible_card_status_def claim_blocks_card_Some Let_def str_or_def)

lemma release_row_fields [simp]:
  "cl_card (release_row prior now cid claim reason) = cid"
  "cl_agent (release_row prior now cid claim reason) = cl_agent claim"
  "cl_source (release_row prior now cid claim reason) = ''release-stale-claims''"
  "cl_st (release_row prior now cid claim reason) = (case prior of Some p \<Rightarrow> cl_st p | None \<Rightarrow> ''released'')"
  by (simp_all add: release_row_def claim0_def cl_st_def)

lemma latest_terminal_claimsD:
  "map_of (latest_terminal_claims claims) cid = Some p \<Longrightarrow>
     p \<in> set claims \<and> cl_card p = cid \<and> cl_st p \<in> set TERMINAL_CARD_STATUSES"
  unfolding latest_terminal_claims_def by (drule map_of_latest_by_SomeD) (auto split: if_splits)

lemma claimed_not_terminal: "''claimed'' \<notin> set TERMINAL_CARD_STATUSES"
  by (simp add: card_status_defs)


subsection \<open>What a release does\<close>

lemma latest_released:
  assumes "distinct (map fst al)" "\<forall>(k, v) \<in> set al. k \<noteq> [] \<and> (\<forall>x. cl_card (g k v x) = k)"
  shows "map_of (latest_claims_by_card
           (concat (map (\<lambda>(k, v). case f k v of None \<Rightarrow> [] | Some x \<Rightarrow> [g k v x]) al))) cid =
     (case map_of al cid of
        None \<Rightarrow> None
      | Some v \<Rightarrow> map_option (g cid v) (f cid v))"
  using assms
proof (induction al)
  case Nil
  show ?case by (simp add: latest_claims_by_card_def)
next
  case (Cons p al)
  obtain k v where p: "p = (k, v)" by (cases p)
  have one: "map_of (latest_claims_by_card [r]) c = (if cl_card r = c \<and> c \<noteq> [] then Some r else None)"
    for r c using latest_claims_snoc [of "[]" r c] by (simp add: latest_claims_by_card_def)
  have k: "k \<noteq> []" "\<And>x. cl_card (g k v x) = k" "map_of al k = None"
    using Cons.prems by (auto simp: p map_of_eq_None_iff)
  have ih: "map_of (latest_claims_by_card
         (concat (map (\<lambda>(k, v). case f k v of None \<Rightarrow> [] | Some x \<Rightarrow> [g k v x]) al))) cid =
     (case map_of al cid of None \<Rightarrow> None | Some v \<Rightarrow> map_option (g cid v) (f cid v))"
    using Cons by auto
  show ?case
  proof (cases "f k v")
    case None
    then show ?thesis using ih k(3) by (auto simp: p)
  next
    case (Some x)
    have "map_of (latest_claims_by_card
         (g k v x # concat (map (\<lambda>(k, v). case f k v of None \<Rightarrow> [] | Some x \<Rightarrow> [g k v x]) al))) cid
       = (case map_of (latest_claims_by_card
         (concat (map (\<lambda>(k, v). case f k v of None \<Rightarrow> [] | Some x \<Rightarrow> [g k v x]) al))) cid of
           Some r \<Rightarrow> Some r | None \<Rightarrow> if k = cid then Some (g k v x) else None)"
      using latest_claims_append [of "[g k v x]"] k
      by (cases "k = cid") (simp_all add: one split: option.splits)
    then show ?thesis
      using ih k(3) Some by (auto simp: p split: option.splits)
  qed
qed

lemma latest_released_rows:
  "map_of (latest_claims_by_card (released_rows claims hyps runs live grace now)) cid =
     (case map_of (latest_claims_by_card claims) cid of
        None \<Rightarrow> None
      | Some claim \<Rightarrow>
          map_option (release_row (map_of (latest_terminal_claims claims) cid) now cid claim)
            (release_reason hyps runs live grace now cid claim))"
  unfolding released_rows_def
proof (rule latest_released)
  show "distinct (map fst (latest_claims_by_card claims))"
    by (simp add: latest_claims_by_card_def)
  show "\<forall>(k, v) \<in> set (latest_claims_by_card claims). k \<noteq> []
      \<and> (\<forall>x. cl_card (release_row (map_of (latest_terminal_claims claims) k) now k v x) = k)"
    by (auto simp: latest_claims_by_card_def dest: in_latest_byD)
qed

lemma released_rowsD:
  assumes "r \<in> set (released_rows claims hyps runs live grace now)"
  obtains cid claim reason where
    "map_of (latest_claims_by_card claims) cid = Some claim"
    "release_reason hyps runs live grace now cid claim = Some reason"
    "r = release_row (map_of (latest_terminal_claims claims) cid) now cid claim reason"
proof -
  obtain cid claim where c: "(cid, claim) \<in> set (latest_claims_by_card claims)"
    and r: "r \<in> set (case release_reason hyps runs live grace now cid claim of
           None \<Rightarrow> []
         | Some reason \<Rightarrow>
             [release_row (map_of (latest_terminal_claims claims) cid) now cid claim reason])"
    using assms by (auto simp: released_rows_def)
  have "map_of (latest_claims_by_card claims) cid = Some claim"
    using c by (simp add: latest_claims_by_card_def map_of_eq_Some_iff)
  with r show thesis
    by (cases "release_reason hyps runs live grace now cid claim") (simp, rule that, simp_all)
qed

lemma release_reasonD:
  assumes "release_reason hyps runs live grace now cid claim = Some reason"
  shows "cl_st claim = ''claimed''" "cl_agent claim \<notin> set live"
    "\<And>h. h \<in> set hyps \<Longrightarrow> hy_card h = cid \<Longrightarrow> \<not> is_active_hypothesis_status (hy_status h)"
  using assms by (auto simp: release_reason_def Let_def list_ex_iff split: if_splits)

lemma released_not_claimed:
  assumes "r \<in> set (released_rows claims hyps runs live grace now)"
  shows "cl_st_claimed r \<noteq> ''claimed''" "cl_st r \<noteq> ''claimed''" "cl_status r = Some (cl_st r)"
proof -
  obtain cid claim reason
    where r: "r = release_row (map_of (latest_terminal_claims claims) cid) now cid claim reason"
    by (rule released_rowsD [OF assms]) (rule that)
  show "cl_st r \<noteq> ''claimed''"
    using claimed_not_terminal by (auto simp: r dest: latest_terminal_claimsD split: option.splits)
  moreover show "cl_status r = Some (cl_st r)"
    by (simp add: r release_row_def claim0_def cl_st_def)
  ultimately show "cl_st_claimed r \<noteq> ''claimed''" by (simp add: cl_st_claimed_def)
qed

text \<open>Release rows are not conclusions.\<close>

lemma released_no_conclusion:
  assumes "r \<in> set (released_rows claims hyps runs live grace now)"
  shows "\<not> (cl_st r \<in> set PRODUCTIVE_TERMINAL_CARD_STATUSES
      \<and> \<not> (cl_source r = ''release-stale-claims'' \<and> cl_preserved r \<noteq> []))"
proof -
  obtain cid claim reason
    where r: "r = release_row (map_of (latest_terminal_claims claims) cid) now cid claim reason"
    by (rule released_rowsD [OF assms]) (rule that)
  show ?thesis
  proof (cases "map_of (latest_terminal_claims claims) cid")
    case None
    then show ?thesis by (simp add: r card_status_defs)
  next
    case (Some p)
    then have "cl_st p \<noteq> []" using latest_terminal_claimsD [OF Some] by (auto simp: card_status_defs)
    then show ?thesis by (simp add: r Some release_row_def)
  qed
qed

lemma count_by_append_None:
  "(\<forall>r \<in> set ys. key r = None) \<Longrightarrow> count_by key (xs @ ys) = count_by key xs"
  unfolding count_by_def by (induction ys rule: rev_induct) auto

lemma conclusion_counts_release:
  "card_conclusion_counts (claims @ released_rows claims hyps runs live grace now)
     = card_conclusion_counts claims"
  unfolding card_conclusion_counts_def
  by (rule count_by_append_None) (use released_no_conclusion in auto)

text \<open>The latest row of a card after a release.\<close>

lemma latest_after_release:
  "map_of (latest_claims_by_card (claims @ released_rows claims hyps runs live grace now)) cid =
     (case map_of (latest_claims_by_card claims) cid of
        None \<Rightarrow> None
      | Some claim \<Rightarrow>
          (case release_reason hyps runs live grace now cid claim of
             None \<Rightarrow> Some claim
           | Some reason \<Rightarrow>
               Some (release_row (map_of (latest_terminal_claims claims) cid) now cid claim reason)))"
  by (simp add: latest_claims_append latest_released_rows split: option.splits)

text \<open>
  Fact (release_idempotent). A release leaves nothing to release: run again at once, with the same
  grace and the same live agents, \<open>release_stale_claims\<close> appends no row. It never counts as a
  conclusion: the productive conclusions of every card are what they were.
\<close>

theorem release_idempotent:
  "fst (release_stale_claims cx (snd (release_stale_claims cx st grace now live)) grace now live) = []
   \<and> card_conclusion_counts (st_claims (snd (release_stale_claims cx st grace now live)))
       = card_conclusion_counts (st_claims st)"
proof
  define g where "g = (case grace of Some g \<Rightarrow> g | None \<Rightarrow> claim_grace cx)"
  define rows where "rows = released_rows (st_claims st) (st_hyps st) (st_runs st) live g now"
  have "release_reason (st_hyps st) (st_runs st) live g now cid claim = None"
    if c: "map_of (latest_claims_by_card (st_claims st @ rows)) cid = Some claim" for cid claim
  proof (rule ccontr)
    assume "release_reason (st_hyps st) (st_runs st) live g now cid claim \<noteq> None"
    then obtain reason where r: "release_reason (st_hyps st) (st_runs st) live g now cid claim = Some reason"
      by auto
    have "cl_st claim = ''claimed''" by (rule release_reasonD [OF r])
    moreover have "claim \<in> set rows"
    proof -
      obtain old where old: "map_of (latest_claims_by_card (st_claims st)) cid = Some old"
        using c by (auto simp: rows_def latest_after_release split: option.splits)
      show ?thesis
      proof (cases "release_reason (st_hyps st) (st_runs st) live g now cid old")
        case None
        then have "claim = old" using c old by (simp add: rows_def latest_after_release)
        with None r show ?thesis by simp
      next
        case (Some reason')
        then have "map_of (latest_claims_by_card rows) cid = Some claim"
          using c old by (simp add: rows_def latest_after_release latest_released_rows)
        then show ?thesis using latest_claims_SomeD by blast
      qed
    qed
    ultimately show False using released_not_claimed(2) rows_def by blast
  qed
  then have "released_rows (st_claims st @ rows) (st_hyps st) (st_runs st) live g now = []"
    unfolding released_rows_def
    by (auto simp: latest_claims_by_card_def map_of_eq_Some_iff split: option.splits)
  then show "fst (release_stale_claims cx (snd (release_stale_claims cx st grace now live)) grace now live) = []"
    by (simp add: release_stale_claims_def Let_def g_def rows_def)
  show "card_conclusion_counts (st_claims (snd (release_stale_claims cx st grace now live)))
       = card_conclusion_counts (st_claims st)"
    by (simp add: release_stale_claims_def Let_def conclusion_counts_release)
qed

text \<open>
  C34 (release_justified). Every row \<open>release_stale_claims\<close> appends frees a lease nothing supports:
  the latest row of its card is a claim by an agent that is not live, no hypothesis of the card is
  active, and a card without any hypothesis was claimed, and last run, at least the grace ago. The
  card then shows its last terminal status again, or \<open>released\<close> if it never had one.
\<close>

theorem release_justified:
  assumes "r \<in> set (fst (release_stale_claims cx st (Some grace) now live))"
  shows "\<exists>claim. map_of (latest_claims_by_card (st_claims st)) (cl_card r) = Some claim
     \<and> cl_st claim = ''claimed'' \<and> cl_agent claim \<notin> set live
     \<and> {h \<in> set (st_hyps st). hy_card h = cl_card r \<and> is_active_hypothesis_status (hy_status h)} = {}
     \<and> ({h \<in> set (st_hyps st). hy_card h = cl_card r} \<noteq> {}
        \<or> (\<exists>start. claim_start claim = Some start \<and> grace \<le> now - start
             \<and> last_run_of (st_runs st) (cl_card r) \<notin> Some ` {t. now - t < grace}))
     \<and> map_of (latest_claims_by_card
          (st_claims (snd (release_stale_claims cx st (Some grace) now live)))) (cl_card r) = Some r
     \<and> cl_st r = (case map_of (latest_terminal_claims (st_claims st)) (cl_card r) of
                    Some p \<Rightarrow> cl_st p | None \<Rightarrow> ''released'')"
proof -
  have "r \<in> set (released_rows (st_claims st) (st_hyps st) (st_runs st) live grace now)"
    using assms by (simp add: release_stale_claims_def Let_def)
  then obtain cid claim reason where c: "map_of (latest_claims_by_card (st_claims st)) cid = Some claim"
    and reason: "release_reason (st_hyps st) (st_runs st) live grace now cid claim = Some reason"
    and r: "r = release_row (map_of (latest_terminal_claims (st_claims st)) cid) now cid claim reason"
    by (rule released_rowsD)
  have "{h \<in> set (st_hyps st). hy_card h = cid} \<noteq> {}
        \<or> (\<exists>start. claim_start claim = Some start \<and> grace \<le> now - start
             \<and> last_run_of (st_runs st) cid \<notin> Some ` {t. now - t < grace})"
  proof (cases "filter (\<lambda>h. hy_card h = cid) (st_hyps st) = []")
    case True
    with reason show ?thesis
      by (auto simp: release_reason_def Let_def split: if_splits option.splits)
  next
    case False
    then show ?thesis by (auto simp: filter_empty_conv)
  qed
  then show ?thesis
    using c release_reasonD [OF reason]
    by (intro exI [of _ claim]) (auto simp: r latest_after_release reason release_stale_claims_def Let_def)
qed

subsection \<open>Dry iterations\<close>

lemma streak_nonneg: "0 \<le> subsystem_dry_streak st s"
  by (simp add: subsystem_dry_streak_def split: option.splits)

text \<open>
  C35 (dry_streak_counts). The dry counter of a subsystem counts: a dry iteration adds one to what
  was recorded, a productive one resets it to 0, and a subsystem that is empty or \<open>unknown\<close> is
  never recorded. The counters of two subsystems are one counter exactly when their file names
  agree, which they do for labels that differ only in \<open>/\<close> and \<open>_\<close>.
\<close>

theorem dry_streak_counts:
  "subsystem_dry_streak (record_subsystem_iteration st s productive) t =
     (if s \<in> {[], ''unknown''} \<or> t \<in> {[], ''unknown''} then subsystem_dry_streak st t
      else if dry_slug t = dry_slug s then (if productive then 0 else subsystem_dry_streak st s + 1)
      else subsystem_dry_streak st t)"
proof (cases "s = [] \<or> s = ''unknown'' \<or> t = [] \<or> t = ''unknown'' \<or> dry_slug t \<noteq> dry_slug s")
  case True
  then show ?thesis
    by (auto simp: record_subsystem_iteration_def subsystem_dry_streak_def update_conv delete_conv)
next
  case False
  define n where "n = nat (subsystem_dry_streak st s + 1)"
  have strip: "py_strip (nat_str n @ [CHR 0x0A]) = nat_str n"
    using nat_str_digits [of n] by (simp add: py_strip_digits)
  have n: "int n = subsystem_dry_streak st s + 1" using streak_nonneg [of st s] by (simp add: n_def)
  show ?thesis
  proof (cases productive)
    case True
    with False show ?thesis
      by (simp add: record_subsystem_iteration_def subsystem_dry_streak_def delete_conv)
  next
    case dry: False
    have "map_of (st_dry (record_subsystem_iteration st s productive)) (dry_slug t)
        = Some (nat_str n @ [CHR 0x0A])"
      using False dry by (simp add: record_subsystem_iteration_def n_def update_conv)
    then have "subsystem_dry_streak (record_subsystem_iteration st s productive) t = int n"
      using False by (simp add: subsystem_dry_streak_def strip py_int_nat_str)
    with False dry n show ?thesis by simp
  qed
qed

text \<open>Two labels that share a counter: a dry streak of one is read for the other.\<close>

lemma dry_slug_alias: "dry_slug ''a/b'' = dry_slug ''a_b''"
  by code_simp

subsection \<open>A release at a concrete tree\<close>

definition stale_store :: store where
  "stale_store = store0\<lparr>st_claims := [claim0\<lparr>cl_card := ''a'', cl_agent := ''1'',
     cl_status := Some ''claimed'', cl_claimed_at := ''2024-12-17T02:40:00Z''\<rparr>]\<rparr>"

lemma stale_released:
  "map (\<lambda>r. (cl_card r, cl_st r)) (fst (release_stale_claims \<lparr>cx_env = (\<lambda>_. []), cx_depth = 2\<rparr>
      stale_store (Some 1) 63990000000000000 [])) = [(''a'', ''released'')]"
  by code_simp

theorem release_justified_witness:
  "\<exists>claim. map_of (latest_claims_by_card (st_claims stale_store)) ''a'' = Some claim
     \<and> cl_st claim = ''claimed''"
proof -
  obtain r where r: "r \<in> set (fst (release_stale_claims \<lparr>cx_env = (\<lambda>_. []), cx_depth = 2\<rparr>
      stale_store (Some 1) 63990000000000000 []))" "cl_card r = ''a''"
    using stale_released by (auto simp: map_eq_Cons_conv)
  show ?thesis using release_justified [OF r(1)] r(2) by auto
qed

end
