(* ===== verification/Window.thy ===== *)
theory Window
  imports Strategies
begin

text \<open>
  Choosing the bounded set of cards a ranked tree is worked through
  (\<open>select_strategy_window\<close> and \<open>select_diversity_floor\<close> of \<open>lib/workqueue.py\<close>), and the
  target-level campaign card. The window's local state is the list of chosen ids and of seen files
  (sets in the code); the cursor into a pool is the suffix of the pool it has not passed yet.
\<close>

subsection \<open>Build evidence\<close>

definition buildability_priority :: "card \<Rightarrow> nat" where
  "buildability_priority c =
     (if cd_buildability c = ''built'' then 0
      else if cd_buildability c = ''platform-mismatch'' then 2 else 1)"

definition built_first :: "card \<Rightarrow> nat" where
  "built_first c = buildability_priority c"

subsection \<open>The strategy window\<close>

record win =
  w_ids :: "string list"
  w_files :: "string list"

definition card_rel :: "card \<Rightarrow> string" where
  "card_rel c = normalized_relpath (cd_file c)"

definition win_take :: "card \<Rightarrow> win \<Rightarrow> win" where
  "win_take c w =
     w\<lparr>w_ids := List.insert (cd_id c) (w_ids w),
       w_files := (if card_rel c \<noteq> [] then List.insert (card_rel c) (w_files w) else w_files w)\<rparr>"

definition win_open :: "int \<Rightarrow> win \<Rightarrow> bool" where
  "win_open limit w \<longleftrightarrow> int (length (w_ids w)) < limit"

text \<open>The first loop of \<open>rotate\<close>: sort a tier into pools, taking patch and peer cards at once.\<close>

definition pool_add :: "string \<Rightarrow> card \<Rightarrow> (string \<times> card list) list \<Rightarrow> (string \<times> card list) list" where
  "pool_add s c pools = AList.map_default s [c] (\<lambda>cs. cs @ [c]) pools"

fun fill_pools :: "int \<Rightarrow> card list \<Rightarrow> (string \<times> card list) list \<Rightarrow> win \<Rightarrow> (string \<times> card list) list \<times> win"
where
  "fill_pools limit [] pools w = (pools, w)"
| "fill_pools limit (c # cs) pools w =
     (if cd_kind c = ''call-edge'' then fill_pools limit cs (pool_add ''S3'' c pools) w
      else if cd_kind c \<noteq> ''ranked-source'' then
        fill_pools limit cs pools (if win_open limit w then win_take c w else w)
      else if py_upper (cd_strategy c) = ''S1'' then fill_pools limit cs pools w
      else fill_pools limit cs (pool_add (py_upper (cd_strategy c)) c pools) w)"

text \<open>One turn of the rotation: every strategy takes its best card on a file not held yet.\<close>

definition unseen :: "win \<Rightarrow> card list \<Rightarrow> card list" where
  "unseen w pool = dropWhile (\<lambda>c. card_rel c \<in> set (w_files w)) pool"

fun rotate_turn :: "int \<Rightarrow> (string \<times> card list) list \<Rightarrow> win \<Rightarrow> (string \<times> card list) list \<times> win \<times> bool"
where
  "rotate_turn limit [] w = ([], w, False)"
| "rotate_turn limit ((s, pool) # ps) w =
     (if \<not> win_open limit w then ((s, pool) # ps, w, False)
      else (case unseen w pool of
              [] \<Rightarrow> (case rotate_turn limit ps w of (ps', w', placed) \<Rightarrow> ((s, []) # ps', w', placed))
            | c # rest \<Rightarrow>
                (case rotate_turn limit ps (win_take c w) of
                   (ps', w', _) \<Rightarrow> ((s, rest) # ps', w', True))))"

definition pools_size :: "(string \<times> card list) list \<Rightarrow> nat" where
  "pools_size pools = sum_list (map (\<lambda>(s, pool). length pool) pools)"

lemma pools_size_simps [simp]:
  "pools_size [] = 0" "pools_size ((s, pool) # ps) = length pool + pools_size ps"
  by (simp_all add: pools_size_def)

lemma length_unseen: "length (unseen w pool) \<le> length pool"
  by (simp add: unseen_def length_dropWhile_le)

text \<open>A turn that places a card shortens the pools, so the rotation ends.\<close>

lemma rotate_turn_size:
  "rotate_turn limit pools w = (pools', w', placed) \<Longrightarrow>
     pools_size pools' \<le> pools_size pools \<and> (placed \<longrightarrow> pools_size pools' < pools_size pools)"
proof (induction limit pools w arbitrary: pools' w' placed rule: rotate_turn.induct)
  case (2 limit s pool ps w)
  show ?case
  proof (cases "win_open limit w")
    case False
    with 2 show ?thesis by auto
  next
    case True
    show ?thesis
    proof (cases "unseen w pool")
      case Nil
      obtain p1 w1 b1 where r: "rotate_turn limit ps w = (p1, w1, b1)"
        by (cases "rotate_turn limit ps w") auto
      from "2.IH"(1) [OF _ Nil r] True "2.prems" Nil r show ?thesis by auto
    next
      case (Cons c rest)
      obtain p1 w1 b1 where r: "rotate_turn limit ps (win_take c w) = (p1, w1, b1)"
        by (cases "rotate_turn limit ps (win_take c w)") auto
      have "length rest < length pool"
        using length_unseen [of w pool] Cons by simp
      with "2.IH"(2) [OF _ Cons r] True "2.prems" Cons r show ?thesis by auto
    qed
  qed
qed simp

function rotate_loop :: "int \<Rightarrow> (string \<times> card list) list \<Rightarrow> win \<Rightarrow> win" where
  "rotate_loop limit pools w =
     (if \<not> win_open limit w then w
      else (case rotate_turn limit pools w of
              (pools', w', placed) \<Rightarrow> if placed then rotate_loop limit pools' w' else w'))"
  by pat_completeness auto
termination
  by (relation "measure (\<lambda>(_, pools, _). pools_size pools)") (auto dest!: rotate_turn_size [OF sym])

declare rotate_loop.simps [simp del]

text \<open>Rank-order fill, then one tier, then the tiers in order of build evidence.\<close>

definition rank_fill :: "int \<Rightarrow> card list \<Rightarrow> win \<Rightarrow> win" where
  "rank_fill limit tier w =
     foldl (\<lambda>w c. if win_open limit w \<and> cd_id c \<notin> set (w_ids w) \<and> cd_kind c \<noteq> ''call-edge''
                  then win_take c w else w) w tier"

definition rotate_tier :: "int \<Rightarrow> card list \<Rightarrow> win \<Rightarrow> win" where
  "rotate_tier limit tier w =
     (case fill_pools limit tier [] w of
        (pools, w1) \<Rightarrow> rank_fill limit tier (rotate_loop limit pools w1))"

definition window_tiers :: "card list \<Rightarrow> nat list" where
  "window_tiers cards = sort (remdups (map built_first cards))"

definition win0 :: win where
  "win0 = \<lparr>w_ids = [], w_files = []\<rparr>"

definition tier_of :: "card list \<Rightarrow> nat \<Rightarrow> card list" where
  "tier_of cards t = filter (\<lambda>c. built_first c = t) cards"

definition window_chosen :: "card list \<Rightarrow> int \<Rightarrow> win" where
  "window_chosen cards limit =
     foldl (\<lambda>w t. if win_open limit w then rotate_tier limit (tier_of cards t) w else w)
       win0 (window_tiers cards)"

definition file_kind :: "card \<Rightarrow> bool" where
  "file_kind c \<longleftrightarrow> cd_kind c = ''ranked-source'' \<or> cd_kind c = ''call-edge''"

definition selected_files :: "card list \<Rightarrow> string list \<Rightarrow> string list" where
  "selected_files cards ids =
     filter (\<lambda>f. f \<noteq> []) (map card_rel (filter (\<lambda>c. cd_id c \<in> set ids \<and> file_kind c) cards))"

definition select_strategy_window :: "card list \<Rightarrow> int \<Rightarrow> card list" where
  "select_strategy_window cards limit =
     (if limit \<le> 0 then []
      else if int (length cards) \<le> limit then cards
      else
        (let ids = w_ids (window_chosen cards limit);
             files = selected_files cards ids
         in filter (\<lambda>c. cd_id c \<in> set ids \<or> file_kind c \<and> card_rel c \<in> set files) cards))"

subsection \<open>The diversity floor\<close>

type_synonym floor_map = "(string \<times> (string \<times> card list) list) list"

definition floor_available :: "card list \<Rightarrow> string list \<Rightarrow> card list" where
  "floor_available cards excluded =
     sort_key (\<lambda>c. (cd_id c, cd_file c))
       (filter (\<lambda>c. cd_id c \<noteq> [] \<and> cd_id c \<notin> set excluded) cards)"

definition card_subsystem :: "card \<Rightarrow> string" where
  "card_subsystem c = str_or (cd_subsystem c) ''unknown''"

definition floor_add :: "card \<Rightarrow> floor_map \<Rightarrow> floor_map" where
  "floor_add c m =
     AList.map_default (card_subsystem c) [(card_rel c, [c])] (\<lambda>files. pool_add (card_rel c) c files) m"

fun floor_turn :: "int \<Rightarrow> floor_map \<Rightarrow> int \<Rightarrow> floor_map \<times> int \<times> card list" where
  "floor_turn limit [] sel = ([], sel, [])"
| "floor_turn limit ((s, []) # bs) sel = floor_turn limit bs sel"
| "floor_turn limit ((s, (f, cs) # files) # bs) sel =
     (if limit \<le> sel + 1 then ((s, files) # bs, sel + 1, cs)
      else (case floor_turn limit bs (sel + 1) of
              (bs', sel', out) \<Rightarrow> ((s, files) # bs', sel', cs @ out)))"

definition floor_size :: "floor_map \<Rightarrow> nat" where
  "floor_size m = sum_list (map (\<lambda>(s, files). Suc (length files)) m)"

lemma floor_size_simps [simp]:
  "floor_size [] = 0" "floor_size ((s, files) # bs) = Suc (length files) + floor_size bs"
  by (simp_all add: floor_size_def)

lemma floor_turn_size:
  "floor_turn limit m sel = (m', sel', out) \<Longrightarrow> m \<noteq> [] \<Longrightarrow> floor_size m' < floor_size m"
proof (induction limit m sel arbitrary: m' sel' out rule: floor_turn.induct)
  case (2 limit s bs sel)
  then show ?case by (cases bs) (auto simp: less_Suc_eq)
next
  case (3 limit s f cs files bs sel)
  then show ?case
    by (cases bs) (auto split: if_splits prod.splits simp: less_Suc_eq)
qed simp

function floor_loop :: "int \<Rightarrow> floor_map \<Rightarrow> int \<Rightarrow> card list" where
  "floor_loop limit m sel =
     (if limit \<le> sel \<or> m = [] then []
      else (case floor_turn limit m sel of (m', sel', out) \<Rightarrow> out @ floor_loop limit m' sel'))"
  by pat_completeness auto
termination
  by (relation "measure (\<lambda>(_, m, _). floor_size m)") (auto dest!: floor_turn_size [OF sym])

declare floor_loop.simps [simp del]

definition select_diversity_floor :: "card list \<Rightarrow> int \<Rightarrow> string list \<Rightarrow> card list" where
  "select_diversity_floor cards limit excluded =
     (if limit \<le> 0 then []
      else floor_loop limit
             (sort_key fst (foldl (\<lambda>m c. floor_add c m) [] (floor_available cards excluded))) 0)"

subsection \<open>The campaign card\<close>

definition campaign_supported :: "(string list \<times> (string \<Rightarrow> bool)) option \<Rightarrow> bool" where
  "campaign_supported config =
     (case config of
        None \<Rightarrow> False
      | Some (enabled, sanitizer_lib) \<Rightarrow>
          (let native = filter (\<lambda>name. name \<in> set [''asan'', ''ubsan'', ''msan'', ''tsan'']) enabled
           in if native = [] then False else list_ex sanitizer_lib native))"

definition campaign_card :: "(string \<Rightarrow> string) \<Rightarrow> string \<Rightarrow> card" where
  "campaign_card sha1 target_slug =
     card0\<lparr>cd_id := ''FUZZ-'' @ take 12 (sha1 (target_slug @ '':s4-campaign'')),
       cd_kind := ''s4-campaign'', cd_strategy := ''S4'', cd_subsystem := ''(target)'',
       cd_mode := ''auto'', cd_score := 1, cd_buildability := ''built'',
       cd_reason := ''boundary-directed fuzzing campaign for the whole target; ''
         @ ''run `bin/fuzz candidates` for published APIs with compatible ''
         @ ''input shapes and no harness, then trace a product input route ''
         @ ''to the chosen API''\<rparr>"


subsection \<open>What the window keeps\<close>

text \<open>
  \<open>win_ext limit cs w w'\<close>: going from \<open>w\<close> to \<open>w'\<close> only adds ids of cards of \<open>cs\<close>, keeps
  the ids distinct, and never passes the limit.
\<close>

definition win_inv :: "int \<Rightarrow> win \<Rightarrow> bool" where
  "win_inv limit w \<longleftrightarrow> distinct (w_ids w) \<and> int (length (w_ids w)) \<le> limit"

definition win_ext :: "int \<Rightarrow> card list \<Rightarrow> win \<Rightarrow> win \<Rightarrow> bool" where
  "win_ext limit cs w w' \<longleftrightarrow>
     (win_inv limit w \<longrightarrow> win_inv limit w') \<and> set (w_ids w) \<subseteq> set (w_ids w')
     \<and> set (w_ids w') \<subseteq> set (w_ids w) \<union> cd_id ` set cs"

lemma win_ext_refl [simp]: "win_ext limit cs w w"
  by (simp add: win_ext_def)

lemma win_ext_trans: "win_ext limit cs w w' \<Longrightarrow> win_ext limit cs w' w'' \<Longrightarrow> win_ext limit cs w w''"
  unfolding win_ext_def by blast

lemma win_ext_mono: "win_ext limit cs w w' \<Longrightarrow> set cs \<subseteq> set ds \<Longrightarrow> win_ext limit ds w w'"
  unfolding win_ext_def by blast

lemma win_ext_take: "win_open limit w \<Longrightarrow> c \<in> set cs \<Longrightarrow> win_ext limit cs w (win_take c w)"
  by (auto simp: win_ext_def win_take_def win_inv_def win_open_def List.insert_def)

lemma win_ids_take [simp]: "set (w_ids (win_take c w)) = insert (cd_id c) (set (w_ids w))"
  by (simp add: win_take_def)

text \<open>The pools hold only cards of the tier.\<close>

definition pool_cards :: "(string \<times> card list) list \<Rightarrow> card set" where
  "pool_cards pools = (\<Union>(s, pool) \<in> set pools. set pool)"

lemma pool_cards_simps [simp]:
  "pool_cards [] = {}" "pool_cards ((s, pool) # ps) = set pool \<union> pool_cards ps"
  by (auto simp: pool_cards_def)

lemma pool_cards_add [simp]: "pool_cards (pool_add s c pools) = insert c (pool_cards pools)"
proof (induction pools)
  case Nil
  show ?case by (simp add: pool_add_def)
next
  case (Cons p ps)
  then show ?case by (cases p) (auto simp: pool_add_def)
qed

lemma fill_pools_ext:
  "fill_pools limit cs pools w = (pools', w') \<Longrightarrow>
     win_ext limit cs w w' \<and> pool_cards pools' \<subseteq> pool_cards pools \<union> set cs"
proof (induction limit cs pools w arbitrary: pools' w' rule: fill_pools.induct)
  case (2 limit c cs pools w)
  have step: "win_ext limit (c # cs) w w'"
    if "win_ext limit (c # cs) w w1" "win_ext limit cs w1 w'" for w1
    using that by (meson set_subset_Cons win_ext_mono win_ext_trans)
  show ?case
  proof (cases "cd_kind c = ''call-edge''")
    case True
    with 2 step [OF win_ext_refl] show ?thesis by fastforce
  next
    case ce: False
    show ?thesis
    proof (cases "cd_kind c = ''ranked-source''")
      case False
      define w1 where "w1 = (if win_open limit w then win_take c w else w)"
      have "win_ext limit (c # cs) w w1"
        by (simp add: w1_def win_ext_take)
      moreover have "fill_pools limit cs pools w1 = (pools', w')"
        using "2.prems" ce False by (simp add: w1_def)
      ultimately show ?thesis
        using "2.IH"(2) [OF ce False] step w1_def by fastforce
    next
      case True
      with 2 ce step [OF win_ext_refl] show ?thesis
        by (cases "py_upper (cd_strategy c) = ''S1''") fastforce+
    qed
  qed
qed simp

lemma set_unseen: "set (unseen w pool) \<subseteq> set pool"
  by (auto simp: unseen_def dest: set_dropWhileD)

lemma rotate_turn_ext:
  "rotate_turn limit pools w = (pools', w', placed) \<Longrightarrow> pool_cards pools \<subseteq> set cs \<Longrightarrow>
     win_ext limit cs w w' \<and> pool_cards pools' \<subseteq> set cs"
proof (induction limit pools w arbitrary: pools' w' placed rule: rotate_turn.induct)
  case (2 limit s pool ps w)
  show ?case
  proof (cases "win_open limit w")
    case False
    with 2 show ?thesis by auto
  next
    case True
    show ?thesis
    proof (cases "unseen w pool")
      case Nil
      obtain p1 w1 b1 where r: "rotate_turn limit ps w = (p1, w1, b1)"
        by (cases "rotate_turn limit ps w") auto
      from "2.IH"(1) [OF _ Nil r] True "2.prems" Nil r show ?thesis by auto
    next
      case (Cons c rest)
      obtain p1 w1 b1 where r: "rotate_turn limit ps (win_take c w) = (p1, w1, b1)"
        by (cases "rotate_turn limit ps (win_take c w)") auto
      have sub: "c \<in> set pool" "set rest \<subseteq> set pool"
        using set_unseen [of w pool] Cons by auto
      have ih: "win_ext limit cs (win_take c w) w1" "pool_cards p1 \<subseteq> set cs"
        using "2.IH"(2) [OF _ Cons r] True "2.prems"(2) by simp_all
      moreover have "win_ext limit cs w (win_take c w)"
        using True sub "2.prems"(2) by (intro win_ext_take) auto
      ultimately have "win_ext limit cs w w1" by (blast intro: win_ext_trans)
      moreover have "set rest \<union> pool_cards p1 \<subseteq> set cs"
        using sub(2) ih(2) "2.prems"(2) by (simp, blast)
      ultimately show ?thesis
        using True "2.prems"(1) Cons r by (auto simp del: Un_subset_iff)
    qed
  qed
qed simp

lemma rotate_loop_ext: "pool_cards pools \<subseteq> set cs \<Longrightarrow> win_ext limit cs w (rotate_loop limit pools w)"
proof (induction limit pools w rule: rotate_loop.induct)
  case (1 limit pools w)
  obtain p1 w1 b1 where r: "rotate_turn limit pools w = (p1, w1, b1)"
    by (cases "rotate_turn limit pools w") auto
  have e: "win_ext limit cs w w1 \<and> pool_cards p1 \<subseteq> set cs"
    using rotate_turn_ext [OF r "1.prems"] .
  show ?case
  proof (cases "win_open limit w \<and> b1")
    case True
    with "1.IH" r e have "win_ext limit cs w1 (rotate_loop limit p1 w1)" by auto
    with True r e show ?thesis
      by (subst rotate_loop.simps) (auto intro: win_ext_trans)
  next
    case False
    with r e show ?thesis by (subst rotate_loop.simps) auto
  qed
qed


lemma rank_fill_closed: "\<not> win_open limit w \<Longrightarrow> rank_fill limit tier w = w"
  by (induction tier) (simp_all add: rank_fill_def)

lemma rank_fill_ext:
  "set tier \<subseteq> set cs \<Longrightarrow>
     win_ext limit cs w (rank_fill limit tier w)
     \<and> (win_open limit (rank_fill limit tier w) \<longrightarrow>
          (\<forall>c \<in> set tier. cd_kind c \<noteq> ''call-edge'' \<longrightarrow> cd_id c \<in> set (w_ids (rank_fill limit tier w))))"
proof (induction tier arbitrary: w)
  case Nil
  show ?case by (simp add: rank_fill_def)
next
  case (Cons c tier)
  define w1 where "w1 = (if win_open limit w \<and> cd_id c \<notin> set (w_ids w) \<and> cd_kind c \<noteq> ''call-edge''
    then win_take c w else w)"
  have eq: "rank_fill limit (c # tier) w = rank_fill limit tier w1"
    by (simp add: rank_fill_def w1_def)
  let ?w2 = "rank_fill limit tier w1"
  have ih: "win_ext limit cs w1 ?w2"
    "win_open limit ?w2 \<Longrightarrow> \<forall>c \<in> set tier. cd_kind c \<noteq> ''call-edge'' \<longrightarrow> cd_id c \<in> set (w_ids ?w2)"
    using Cons by auto
  have e1: "win_ext limit cs w w1"
    using Cons.prems by (simp add: w1_def win_ext_take)
  have mono: "set (w_ids w1) \<subseteq> set (w_ids ?w2)"
    using ih(1) by (simp add: win_ext_def)
  have "cd_id c \<in> set (w_ids ?w2)" if "win_open limit ?w2" "cd_kind c \<noteq> ''call-edge''"
  proof -
    have "win_open limit w"
      using that(1) rank_fill_closed [of limit w tier] by (cases "win_open limit w") (auto simp: w1_def)
    with that(2) mono show ?thesis by (auto simp: w1_def split: if_splits)
  qed
  moreover have "win_ext limit cs w ?w2"
    using e1 ih(1) by (rule win_ext_trans)
  ultimately show ?case
    using ih(2) by (simp add: eq)
qed

lemma rotate_tier_ext:
  assumes "set tier \<subseteq> set cs"
  shows "win_ext limit cs w (rotate_tier limit tier w)"
    and "win_open limit (rotate_tier limit tier w) \<Longrightarrow> c \<in> set tier \<Longrightarrow> cd_kind c \<noteq> ''call-edge'' \<Longrightarrow>
      cd_id c \<in> set (w_ids (rotate_tier limit tier w))"
proof -
  obtain pools w1 where f: "fill_pools limit tier [] w = (pools, w1)"
    by (cases "fill_pools limit tier [] w") auto
  have e1: "win_ext limit tier w w1" "pool_cards pools \<subseteq> set tier"
    using fill_pools_ext [OF f] by auto
  let ?w2 = "rotate_loop limit pools w1"
  have eq: "rotate_tier limit tier w = rank_fill limit tier ?w2"
    by (simp add: rotate_tier_def f)
  have e2: "win_ext limit cs w ?w2"
    using win_ext_mono [OF e1(1) assms] rotate_loop_ext [of pools cs limit w1] e1(2) assms
    by (blast intro: win_ext_trans)
  show "win_ext limit cs w (rotate_tier limit tier w)"
    using win_ext_trans [OF e2] rank_fill_ext [OF assms] by (simp add: eq)
  show "cd_id c \<in> set (w_ids (rotate_tier limit tier w))"
    if "win_open limit (rotate_tier limit tier w)" "c \<in> set tier" "cd_kind c \<noteq> ''call-edge''"
    using that rank_fill_ext [OF assms, of limit ?w2] by (simp add: eq)
qed

text \<open>
  After the tiers \<open>ts\<close>, in increasing order: the ids are bounded and come from those tiers, and
  while the window is open everything but call-edge cards of them has been taken; whatever has
  been taken leaves no card of a better tier behind.
\<close>

definition tiers_done :: "card list \<Rightarrow> int \<Rightarrow> nat set \<Rightarrow> win \<Rightarrow> bool" where
  "tiers_done cards limit ts w \<longleftrightarrow>
     win_inv limit w
     \<and> set (w_ids w) \<subseteq> cd_id ` {c \<in> set cards. built_first c \<in> ts}
     \<and> (win_open limit w \<longrightarrow>
          (\<forall>c \<in> set cards. built_first c \<in> ts \<and> cd_kind c \<noteq> ''call-edge'' \<longrightarrow> cd_id c \<in> set (w_ids w)))
     \<and> (\<forall>c \<in> set cards. \<forall>i \<in> set (w_ids w). cd_kind c \<noteq> ''call-edge''
          \<and> (\<forall>d \<in> set cards. cd_id d = i \<longrightarrow> built_first c < built_first d) \<longrightarrow> cd_id c \<in> set (w_ids w))"


lemma tiers_done_step:
  assumes d: "tiers_done cards limit ts w"
    and below: "\<And>c. c \<in> set cards \<Longrightarrow> built_first c < t \<Longrightarrow> built_first c \<in> ts"
  shows "tiers_done cards limit (insert t ts)
    (if win_open limit w then rotate_tier limit (tier_of cards t) w else w)"
proof (cases "win_open limit w")
  case False
  with d show ?thesis by (fastforce simp: tiers_done_def)
next
  case True
  let ?T = "tier_of cards t" and ?w = "rotate_tier limit (tier_of cards t) w"
  have T: "set ?T = {c \<in> set cards. built_first c = t}" by (auto simp: tier_of_def)
  have ext: "win_ext limit ?T w ?w" by (rule rotate_tier_ext) simp
  have full: "cd_id c \<in> set (w_ids ?w)"
    if "win_open limit ?w" "c \<in> set ?T" "cd_kind c \<noteq> ''call-edge''" for c
    using rotate_tier_ext(2) [of ?T ?T limit w c] that by simp
  have old: "cd_id c \<in> set (w_ids w)"
    if "c \<in> set cards" "built_first c \<in> ts" "cd_kind c \<noteq> ''call-edge''" for c
    using d True that by (auto simp: tiers_done_def)
  have mono: "set (w_ids w) \<subseteq> set (w_ids ?w)" using ext by (simp add: win_ext_def)
  have "cd_id c \<in> set (w_ids ?w)"
    if c: "c \<in> set cards" "cd_kind c \<noteq> ''call-edge''" and i: "i \<in> set (w_ids ?w)"
      and lt: "\<forall>d \<in> set cards. cd_id d = i \<longrightarrow> built_first c < built_first d" for c i
  proof (cases "i \<in> set (w_ids w)")
    case True
    with d c lt have "cd_id c \<in> set (w_ids w)" unfolding tiers_done_def by blast
    with mono show ?thesis by blast
  next
    case False
    with i ext have "i \<in> cd_id ` set ?T" unfolding win_ext_def by blast
    then obtain e where "e \<in> set cards" "built_first e = t" "cd_id e = i"
      using T by auto
    with lt below c have "built_first c \<in> ts" by auto
    with old c mono show ?thesis by blast
  qed
  moreover have "set (w_ids ?w) \<subseteq> cd_id ` {c \<in> set cards. built_first c \<in> insert t ts}"
  proof
    fix i
    assume "i \<in> set (w_ids ?w)"
    then have "i \<in> set (w_ids w) \<or> i \<in> cd_id ` set ?T" using ext unfolding win_ext_def by blast
    moreover have "set (w_ids w) \<subseteq> cd_id ` {c \<in> set cards. built_first c \<in> ts}"
      using d by (simp add: tiers_done_def)
    ultimately show "i \<in> cd_id ` {c \<in> set cards. built_first c \<in> insert t ts}"
      unfolding T by blast
  qed
  moreover have "win_inv limit ?w" using ext d by (simp add: win_ext_def tiers_done_def)
  moreover have "cd_id c \<in> set (w_ids ?w)"
    if "win_open limit ?w" "c \<in> set cards" "built_first c \<in> insert t ts" "cd_kind c \<noteq> ''call-edge''"
    for c using that full old mono T by blast
  ultimately show ?thesis using True by (simp add: tiers_done_def)
qed

lemma tiers_done_fold:
  assumes "sorted_wrt (<) ts" "tiers_done cards limit D w"
    and "\<And>c. c \<in> set cards \<Longrightarrow> built_first c \<in> D \<union> set ts"
    and "\<And>x y. x \<in> D \<Longrightarrow> y \<in> set ts \<Longrightarrow> x < y"
  shows "tiers_done cards limit (D \<union> set ts)
    (foldl (\<lambda>w t. if win_open limit w then rotate_tier limit (tier_of cards t) w else w) w ts)"
  using assms
proof (induction ts arbitrary: D w)
  case (Cons t ts)
  have "tiers_done cards limit (insert t D)
      (if win_open limit w then rotate_tier limit (tier_of cards t) w else w)"
  proof (rule tiers_done_step [OF Cons.prems(2)])
    show "built_first c \<in> D" if "c \<in> set cards" "built_first c < t" for c
      using Cons.prems(1) Cons.prems(3) [OF that(1)] that(2) by fastforce
  qed
  from Cons.IH [OF _ this] Cons.prems(1,3,4) show ?case by fastforce
qed simp

lemma window_chosen_done:
  assumes "0 \<le> limit"
  shows "tiers_done cards limit (built_first ` set cards) (window_chosen cards limit)"
proof -
  have "sorted_wrt (<) (window_tiers cards)"
    by (simp add: window_tiers_def strict_sorted_iff)
  moreover have "tiers_done cards limit {} win0"
    using assms by (simp add: tiers_done_def win0_def win_inv_def)
  ultimately have "tiers_done cards limit ({} \<union> set (window_tiers cards)) (window_chosen cards limit)"
    unfolding window_chosen_def by (rule tiers_done_fold) (auto simp: window_tiers_def)
  then show ?thesis by (simp add: window_tiers_def)
qed


lemma subseq_set: "subseq xs ys \<Longrightarrow> set xs \<subseteq> set ys"
  by (metis set_nths_subset subseq_conv_nths)

lemma window_chosen_facts:
  assumes "0 \<le> limit"
  shows "distinct (w_ids (window_chosen cards limit))"
    and "int (length (w_ids (window_chosen cards limit))) \<le> limit"
    and "set (w_ids (window_chosen cards limit)) \<subseteq> cd_id ` set cards"
  using window_chosen_done [OF assms, of cards] by (auto simp: tiers_done_def win_inv_def)

lemma select_strategy_window_unfold:
  "0 < limit \<Longrightarrow> limit < int (length cards) \<Longrightarrow>
     set (select_strategy_window cards limit) =
       {c \<in> set cards. cd_id c \<in> set (w_ids (window_chosen cards limit))
          \<or> file_kind c \<and> card_rel c \<in> set (selected_files cards (w_ids (window_chosen cards limit)))}"
  by (simp add: select_strategy_window_def Let_def)

lemma in_selected_files:
  "f \<in> set (selected_files cards ids) \<longleftrightarrow>
     f \<noteq> [] \<and> (\<exists>c \<in> set cards. cd_id c \<in> set ids \<and> file_kind c \<and> card_rel c = f)"
  by (auto simp: selected_files_def)

lemma card_image_split_le:
  fixes f :: "'a \<Rightarrow> 'b"
  assumes "finite S" "A \<subseteq> S" "B \<subseteq> f ` (S - A)"
  shows "card A + card B \<le> card S"
proof -
  have "card B \<le> card (S - A)"
    using assms by (meson card_image_le card_mono finite_Diff finite_imageI order_trans)
  then show ?thesis
    using assms card_mono [of S A] by (simp add: card_Diff_subset finite_subset)
qed

subsection \<open>Properties of the window\<close>

text \<open>
  C1 (window_bounds). \<open>select_strategy_window\<close> keeps the rank order (its result is a subsequence
  of the cards), and its limit bounds the patch and peer cards together with the distinct ranked
  files: companion cards ride on their file for free and nothing else passes the limit.
\<close>

theorem window_bounds:
  assumes "0 \<le> limit" "distinct (map cd_id cards)"
  shows "subseq (select_strategy_window cards limit) cards
    \<and> int (card {c \<in> set (select_strategy_window cards limit). \<not> file_kind c}
           + card (card_rel ` {c \<in> set (select_strategy_window cards limit).
                     file_kind c \<and> card_rel c \<noteq> []})) \<le> limit"
    (is "subseq ?W cards \<and> int (card ?N + card ?F) \<le> limit")
proof -
  have sub: "subseq ?W cards" by (simp add: select_strategy_window_def Let_def)
  have inj: "card (cd_id ` S) = card S" if "S \<subseteq> set cards" for S
    using assms(2) that by (meson card_image distinct_map inj_on_subset)
  obtain S where S: "finite S" "int (card S) \<le> limit" "?N \<subseteq> S" "?F \<subseteq> card_rel ` (S - ?N)"
  proof (cases "limit = 0 \<or> int (length cards) \<le> limit")
    case True
    then have "int (length ?W) \<le> limit" using assms by (auto simp: select_strategy_window_def)
    then have "int (card (set ?W)) \<le> limit" using card_length [of ?W] by linarith
    then show ?thesis by (intro that [of "set ?W"]) auto
  next
    case False
    let ?ids = "w_ids (window_chosen cards limit)"
    have f: "0 < limit" "limit < int (length cards)" using False assms by auto
    let ?S = "{c \<in> set cards. cd_id c \<in> set ?ids}"
    have "card ?S \<le> length ?ids"
      unfolding inj [of ?S, OF Collect_restrict, symmetric]
      by (rule order_trans [OF card_mono card_length]) auto
    then have "int (card ?S) \<le> limit"
      using window_chosen_facts(2) [OF assms(1), of cards] by linarith
    moreover have "?N \<subseteq> ?S" by (auto simp: select_strategy_window_unfold [OF f])
    moreover have "?F \<subseteq> card_rel ` (?S - ?N)"
    proof
      fix r
      assume "r \<in> ?F"
      then obtain c where c: "c \<in> set ?W" "file_kind c" "card_rel c \<noteq> []" "r = card_rel c" by auto
      then obtain e where "e \<in> ?S" "file_kind e" "card_rel e = r"
        by (auto simp: select_strategy_window_unfold [OF f] in_selected_files)
      then show "r \<in> card_rel ` (?S - ?N)" by (intro image_eqI [of _ _ e]) auto
    qed
    ultimately show ?thesis by (intro that [of ?S]) auto
  qed
  have "int (card ?N + card ?F) \<le> limit"
    using card_image_split_le [OF S(1) S(3) S(4)] S(2) by linarith
  with sub show ?thesis by blast
qed

definition demo_card :: "string \<Rightarrow> string \<Rightarrow> string \<Rightarrow> string \<Rightarrow> card" where
  "demo_card i kind file built =
     card0\<lparr>cd_id := i, cd_kind := kind, cd_file := file, cd_strategy := ''S7'', cd_buildability := built\<rparr>"

definition demo_cards :: "card list" where
  "demo_cards = [demo_card ''a'' ''s1-patch'' ''x.c'' [], demo_card ''b'' ''s1-patch'' ''y.c'' ''built'',
     demo_card ''c'' ''ranked-source'' ''z.c'' [], demo_card ''d'' ''s1-patch'' ''w.c'' []]"

theorem window_bounds_witness:
  "int (card {c \<in> set (select_strategy_window demo_cards 2). \<not> file_kind c}) \<le> 2"
  using window_bounds [of 2 demo_cards] by (simp add: demo_cards_def demo_card_def card0_def)

text \<open>
  Fact (window_not_starved). The window is never left short: unless the limit is reached every card
  that can buy a place (all but the call-edge cards) is in it; and it is closed under companions:
  every strategy card of a selected file is kept with it, so that each strategy's evidence on the
  file stays separate.
\<close>

theorem window_not_starved:
  assumes "0 \<le> limit" "distinct (map cd_id cards)"
  shows "min limit (int (length (filter (\<lambda>c. cd_kind c \<noteq> ''call-edge'') cards)))
           \<le> int (length (select_strategy_window cards limit))
    \<and> (\<forall>c \<in> set (select_strategy_window cards limit). \<forall>d \<in> set cards.
         file_kind c \<and> file_kind d \<and> card_rel c = card_rel d \<and> card_rel c \<noteq> [] \<longrightarrow>
         d \<in> set (select_strategy_window cards limit))"
    (is "?fill \<and> ?comp")
proof (cases "limit = 0 \<or> int (length cards) \<le> limit")
  case True
  have "int (length (filter (\<lambda>c. cd_kind c \<noteq> ''call-edge'') cards)) \<le> int (length cards)"
    by (simp add: length_filter_le)
  with True assms(1) show ?thesis
    by (auto simp: select_strategy_window_def min_le_iff_disj)
next
  case False
  let ?W = "select_strategy_window cards limit" and ?w = "window_chosen cards limit"
  have f: "0 < limit" "limit < int (length cards)" using False assms by auto
  have td: "tiers_done cards limit (built_first ` set cards) ?w"
    by (rule window_chosen_done) (use assms in simp)
  have dW: "distinct ?W" "subseq ?W cards"
    using assms(2) f by (simp_all add: select_strategy_window_def Let_def distinct_map)
  have ?fill
  proof (cases "win_open limit ?w")
    case True
    with td have "cd_kind c \<noteq> ''call-edge'' \<Longrightarrow> c \<in> set cards \<Longrightarrow> c \<in> set ?W" for c
      by (auto simp: tiers_done_def select_strategy_window_unfold [OF f])
    then have "set (filter (\<lambda>c. cd_kind c \<noteq> ''call-edge'') cards) \<subseteq> set ?W" by auto
    then have "card (set (filter (\<lambda>c. cd_kind c \<noteq> ''call-edge'') cards)) \<le> card (set ?W)"
      by (intro card_mono) simp_all
    moreover have "distinct (filter (\<lambda>c. cd_kind c \<noteq> ''call-edge'') cards)"
      using assms(2) by (simp add: distinct_map)
    ultimately have "length (filter (\<lambda>c. cd_kind c \<noteq> ''call-edge'') cards) \<le> length ?W"
      using dW by (simp only: distinct_card)
    then show ?thesis by linarith
  next
    case False
    have "set (w_ids ?w) \<subseteq> cd_id ` set ?W"
      using window_chosen_facts(3) [of limit cards] assms
      by (auto simp: select_strategy_window_unfold [OF f])
    then have "card (set (w_ids ?w)) \<le> card (set ?W)"
      by (meson card_image_le card_mono finite_imageI List.finite_set order_trans)
    then have "length (w_ids ?w) \<le> length ?W"
      using dW window_chosen_facts(1) [of limit cards] assms by (simp add: distinct_card)
    with False show ?thesis by (simp add: win_open_def)
  qed
  moreover have ?comp
    by (auto simp: select_strategy_window_unfold [OF f] in_selected_files)
  ultimately show ?thesis by blast
qed

theorem window_not_starved_witness: "2 \<le> int (length (select_strategy_window demo_cards 2))"
  using window_not_starved [of 2 demo_cards] by (simp add: demo_cards_def demo_card_def card0_def)



subsection \<open>Properties of the diversity floor\<close>

definition floor_groups :: "floor_map \<Rightarrow> ((string \<times> string) \<times> card list) list" where
  "floor_groups m = concat (map (\<lambda>(s, files). map (\<lambda>(f, cs). ((s, f), cs)) files) m)"

lemma floor_groups_simps [simp]:
  "floor_groups [] = []"
  "floor_groups ((s, files) # m) = map (\<lambda>(f, cs). ((s, f), cs)) files @ floor_groups m"
  by (simp_all add: floor_groups_def)

text \<open>A turn takes whole groups, and the loop takes as many as the limit allows.\<close>

lemma floor_turn_groups:
  assumes "floor_turn limit m sel = (m', sel', out)" "sel < limit"
  shows "\<exists>gs. out = concat (map snd gs) \<and> mset (floor_groups m) = mset gs + mset (floor_groups m')
     \<and> sel' = sel + int (length gs) \<and> sel' \<le> limit"
  using assms
proof (induction limit m sel arbitrary: m' sel' out rule: floor_turn.induct)
  case (3 limit s f cs files bs sel)
  show ?case
  proof (cases "limit \<le> sel + 1")
    case True
    with 3(2,3) show ?thesis by (intro exI [of _ "[((s, f), cs)]"]) auto
  next
    case False
    obtain bs' sel1 out1 where t: "floor_turn limit bs (sel + 1) = (bs', sel1, out1)"
      using prod_cases3 by blast
    obtain gs where gs: "out1 = concat (map snd gs)"
      "mset (floor_groups bs) = mset gs + mset (floor_groups bs')"
      "sel1 = sel + 1 + int (length gs)" "sel1 \<le> limit"
      using 3(1) [OF False t] False by auto
    have "m' = (s, files) # bs'" "sel' = sel1" "out = cs @ out1"
      using 3(2) False t by auto
    with gs show ?thesis by (intro exI [of _ "((s, f), cs) # gs"]) auto
  qed
qed auto

lemma floor_loop_groups:
  assumes "sel \<le> limit"
  shows "\<exists>gs. floor_loop limit m sel = concat (map snd gs) \<and> mset gs \<subseteq># mset (floor_groups m)
     \<and> int (length gs) = min (limit - sel) (int (length (floor_groups m)))"
  using assms
proof (induction limit m sel rule: floor_loop.induct)
  case (1 limit m sel)
  show ?case
  proof (cases "limit \<le> sel \<or> m = []")
    case True
    then have "floor_loop limit m sel = []" by (subst floor_loop.simps) simp
    then show ?thesis using True 1(2) by (intro exI [of _ "[]"]) auto
  next
    case False
    obtain m' sel' out where t: "floor_turn limit m sel = (m', sel', out)" using prod_cases3 by blast
    obtain g1 where g1: "out = concat (map snd g1)"
      "mset (floor_groups m) = mset g1 + mset (floor_groups m')"
      "sel' = sel + int (length g1)" "sel' \<le> limit"
      using floor_turn_groups [OF t] False by auto
    obtain g2 where g2: "floor_loop limit m' sel' = concat (map snd g2)"
      "mset g2 \<subseteq># mset (floor_groups m')"
      "int (length g2) = min (limit - sel') (int (length (floor_groups m')))"
      using 1(1) [OF False t [symmetric] refl] g1(4) by blast
    have "length (floor_groups m) = length g1 + length (floor_groups m')"
      using g1(2) by (metis mset_append size_mset length_append)
    moreover have "floor_loop limit m sel = out @ floor_loop limit m' sel'"
      using False t by (subst floor_loop.simps) simp
    ultimately show ?thesis
      using g1 g2 by (intro exI [of _ "g1 @ g2"]) auto
  qed
qed

definition floor_group :: "card \<Rightarrow> string \<times> string" where
  "floor_group c = (card_subsystem c, card_rel c)"

lemma floor_map_groups:
  fixes cs :: "card list"
  defines "M \<equiv> foldl (\<lambda>m c. floor_add c m) [] cs"
  shows "((s, f), g) \<in> set (floor_groups M) \<longleftrightarrow>
      g = filter (\<lambda>c. floor_group c = (s, f)) cs \<and> g \<noteq> []"
    and "distinct (map fst (floor_groups M))"
proof -
  define file_map where "file_map = (\<lambda>s. foldl (\<lambda>files c. pool_add (card_rel c) c files) []
      (filter (\<lambda>c. card_subsystem c = s) cs))"
  note outer = group_fold [where key = card_subsystem and z = "\<lambda>_. []" and rows = cs
      and f = "\<lambda>c files. pool_add (card_rel c) c files"]
  have M: "M = foldl (\<lambda>acc r. AList.map_default (card_subsystem r) (pool_add (card_rel r) r [])
      (pool_add (card_rel r) r) acc) [] cs"
    by (simp add: M_def floor_add_def [abs_def] pool_add_def [abs_def])
  have dM: "distinct (map fst M)" using outer(2) by (simp only: M)
  have inM: "(s, files) \<in> set M \<longleftrightarrow> files = file_map s \<and> (\<exists>c \<in> set cs. card_subsystem c = s)" for s files
  proof -
    have "(s, files) \<in> set M \<longleftrightarrow> map_of M s = Some files" using dM by simp
    also have "map_of M s = (if \<exists>c \<in> set cs. card_subsystem c = s then Some (file_map s) else None)"
      unfolding M outer(1) file_map_def ..
    finally show ?thesis by auto
  qed
  note inner = group_fold [where key = card_rel and z = "\<lambda>_. []" and f = "\<lambda>c cs. cs @ [c]"]
  have app: "foldl (\<lambda>b r. b @ [r]) xs ys = xs @ ys" for xs ys :: "card list"
    by (induction ys arbitrary: xs) simp_all
  have F: "file_map s = foldl (\<lambda>acc r. AList.map_default (card_rel r) ([] @ [r]) (\<lambda>cs. cs @ [r]) acc) []
      (filter (\<lambda>c. card_subsystem c = s) cs)" for s
    by (simp add: file_map_def pool_add_def [abs_def])
  have dF: "distinct (map fst (file_map s))" for s using inner(2) by (simp only: F)
  have inF: "(f, g) \<in> set (file_map s) \<longleftrightarrow> g = filter (\<lambda>c. floor_group c = (s, f)) cs \<and> g \<noteq> []" for s f g
  proof -
    have "(f, g) \<in> set (file_map s) \<longleftrightarrow> map_of (file_map s) f = Some g" using dF by simp
    also have "\<dots> \<longleftrightarrow> (\<exists>r \<in> set (filter (\<lambda>c. card_subsystem c = s) cs). card_rel r = f)
        \<and> g = filter (\<lambda>c. floor_group c = (s, f)) cs"
      unfolding F inner(1) app by (auto simp: floor_group_def conj_commute)
    also have "\<dots> \<longleftrightarrow> g = filter (\<lambda>c. floor_group c = (s, f)) cs \<and> g \<noteq> []"
      by (auto simp: filter_empty_conv floor_group_def)
    finally show ?thesis .
  qed
  show "((s, f), g) \<in> set (floor_groups M) \<longleftrightarrow>
      g = filter (\<lambda>c. floor_group c = (s, f)) cs \<and> g \<noteq> []" for s f g
  proof -
    have "((s, f), g) \<in> set (floor_groups M) \<longleftrightarrow> (\<exists>files. (s, files) \<in> set M \<and> (f, g) \<in> set files)"
      by (force simp: floor_groups_def)
    also have "\<dots> \<longleftrightarrow> (\<exists>c \<in> set cs. card_subsystem c = s) \<and> (f, g) \<in> set (file_map s)"
      by (auto simp: inM)
    finally show ?thesis
      unfolding inF by (auto simp: filter_empty_conv floor_group_def)
  qed
  have D: "distinct (map fst (floor_groups m))"
    if "distinct (map fst m)" "\<forall>(s, files) \<in> set m. distinct (map fst files)" for m :: floor_map
    using that
  proof (induction m)
    case (Cons p m)
    obtain s files where p: "p = (s, files)" by (cases p)
    have "distinct (map (Pair s) (map fst files))"
      using Cons.prems(2) by (simp only: distinct_map) (auto simp: p intro: inj_onI)
    moreover have "map fst (floor_groups (p # m)) = map (Pair s) (map fst files) @ map fst (floor_groups m)"
      by (simp add: p comp_def case_prod_unfold)
    moreover have "fst k \<noteq> s" if "k \<in> set (map fst (floor_groups m))" for k
      using that Cons.prems(1) by (auto simp: p floor_groups_def rev_image_eqI)
    then have "set (map (Pair s) (map fst files)) \<inter> set (map fst (floor_groups m)) = {}"
      by fastforce
    moreover have "distinct (map fst (floor_groups m))" using Cons by simp
    ultimately show ?case by (simp only: distinct_append simp_thms)
  qed simp
  have "\<forall>(s, files) \<in> set M. distinct (map fst files)" using inM dF by auto
  with dM show "distinct (map fst (floor_groups M))" by (rule D)
qed

lemma mset_filter_keys:
  assumes "distinct ks"
  shows "mset (concat (map (\<lambda>k. filter (\<lambda>x. h x = k) xs) ks)) = mset (filter (\<lambda>x. h x \<in> set ks) xs)"
  using assms
proof (induction ks)
  case (Cons k ks)
  have "mset (filter (\<lambda>x. h x \<in> set (k # ks)) xs)
      = mset (filter (\<lambda>x. h x = k) xs) + mset (filter (\<lambda>x. h x \<in> set ks) xs)"
    using Cons.prems by (induction xs) auto
  with Cons show ?case by simp
qed simp

text \<open>
  Fact (floor_counts_files). The limit of the diversity floor counts files: the floor takes as many
  (subsystem, file) pairs as the limit and the available cards allow, no fewer and no more, and every
  available card of a file it takes rides along, none of them twice. Available are the cards with an
  id that is not excluded.
\<close>

theorem floor_counts_files:
  "card (floor_group ` set (select_diversity_floor cards limit excluded))
     = min (nat limit) (card (floor_group ` set (floor_available cards excluded)))
   \<and> mset (select_diversity_floor cards limit excluded)
     = mset (filter (\<lambda>c. floor_group c \<in> floor_group ` set (select_diversity_floor cards limit excluded))
         (floor_available cards excluded))"
proof (cases "limit \<le> 0")
  case True
  then show ?thesis by (simp add: select_diversity_floor_def)
next
  case False
  define cs where "cs = floor_available cards excluded"
  define M where "M = foldl (\<lambda>m c. floor_add c m) [] cs"
  note G = floor_map_groups [where cs = cs, folded M_def]
  have perm: "mset (floor_groups (sort_key fst M)) = mset (floor_groups M)"
    by (simp add: floor_groups_def mset_concat sum_list_sort_key)
  obtain gs where out: "floor_loop limit (sort_key fst M) 0 = concat (map snd gs)"
    and sub: "mset gs \<subseteq># mset (floor_groups M)"
    and len: "int (length gs) = min limit (int (length (floor_groups M)))"
    using floor_loop_groups [of 0 limit "sort_key fst M"] False perm
    by (auto simp: size_mset [symmetric] simp del: size_mset)
  have sel: "select_diversity_floor cards limit excluded = concat (map snd gs)"
    using False out by (simp add: select_diversity_floor_def M_def cs_def)
  obtain ys where ys: "mset (floor_groups M) = mset (gs @ ys)"
    using sub by (metis ex_mset mset_append mset_subset_eq_exists_conv)
  then have "mset (map fst (floor_groups M)) = mset (map fst gs @ map fst ys)"
    by (simp only: mset_map map_append [symmetric])
  then have d: "distinct (map fst gs)"
    using G(2) mset_eq_imp_distinct_iff distinct_append by metis
  have g: "snd p = filter (\<lambda>c. floor_group c = fst p) cs \<and> snd p \<noteq> []" if "p \<in> set gs" for p
    using that sub G(1) [where s = "fst (fst p)" and f = "snd (fst p)" and g = "snd p"] by (auto dest: mset_subset_eqD)
  have c: "concat (map snd gs) = concat (map (\<lambda>k. filter (\<lambda>c. floor_group c = k) cs) (map fst gs))"
    using g by (auto intro!: arg_cong [where f = concat])
  have one: "floor_group ` set (snd p) = {fst p}" if p: "p \<in> set gs" for p
  proof -
    obtain c where "c \<in> set (snd p)" using g [OF p] hd_in_set by blast
    moreover have "floor_group c = fst p" if "c \<in> set (snd p)" for c
    proof -
      have "c \<in> set (filter (\<lambda>c. floor_group c = fst p) cs)" using g [OF p] that by simp
      then show ?thesis by simp
    qed
    ultimately show ?thesis by (auto simp: image_iff)
  qed
  have img: "floor_group ` set (concat (map snd gs)) = set (map fst gs)"
    using one by (simp add: image_UN) blast
  have all: "floor_group ` set cs = set (map fst (floor_groups M))"
  proof (rule set_eqI)
    fix k :: "string \<times> string"
    have "k \<in> set (map fst (floor_groups M)) \<longleftrightarrow> (\<exists>g. (k, g) \<in> set (floor_groups M))"
      by (force simp: image_iff)
    also have "\<dots> \<longleftrightarrow> filter (\<lambda>c. floor_group c = k) cs \<noteq> []"
      using G(1) [where s = "fst k" and f = "snd k"] by auto
    also have "\<dots> \<longleftrightarrow> k \<in> floor_group ` set cs" by (auto simp: filter_empty_conv)
    finally show "k \<in> floor_group ` set cs \<longleftrightarrow> k \<in> set (map fst (floor_groups M))" ..
  qed
  have "card (floor_group ` set (concat (map snd gs))) = min (nat limit) (card (floor_group ` set cs))"
    unfolding img all using len distinct_card [OF d] distinct_card [OF G(2)] by simp
  moreover have "mset (concat (map snd gs)) = mset (filter (\<lambda>x. floor_group x \<in> set (map fst gs)) cs)"
    unfolding c by (rule mset_filter_keys [OF d])
  ultimately show ?thesis unfolding sel img cs_def by simp
qed

end
