(* ===== verification/Queue.thy ===== *)
theory Queue
  imports Lease Window
begin

text \<open>
  Handing out cards: which surfaces and subsystems are taken, why a card is or is not offered
  (\<open>explain_queue\<close>), and the claim itself (\<open>claim_next_card\<close>). A claim reads one snapshot of the
  ledgers, filters the candidates, applies the soft preferences as stable sorts, and appends one
  lease row.
\<close>

subsection \<open>Productive subsystems and the scope an agent works in\<close>

definition cards_by_id :: "card list \<Rightarrow> string \<Rightarrow> card option" where
  "cards_by_id cards cid = map_of (rev (map (\<lambda>c. (cd_id c, c)) cards)) cid"

definition card_of_row :: "(string \<Rightarrow> card option) \<Rightarrow> string \<Rightarrow> card option" where
  "card_of_row by_id cid = (if cid \<noteq> [] then by_id cid else None)"

text \<open>The subsystem of a hypothesis row: its own, its card's, or that of its file.\<close>

definition hyp_subsystem :: "ctx \<Rightarrow> (string \<Rightarrow> card option) \<Rightarrow> hyp \<Rightarrow> string" where
  "hyp_subsystem cx by_id row =
     (let own = hy_subsystem row;
          from_card = (if own = [] then (case card_of_row by_id (hy_card row) of
                                            Some c \<Rightarrow> cd_subsystem c | None \<Rightarrow> []) else own);
          file = py_head CHR '':'' (hy_file row)
      in if from_card = [] \<and> file \<noteq> [] then subsystem_for (cx_depth cx) file else from_card)"

definition agent_productive_subsystems ::
  "ctx \<Rightarrow> hyp list \<Rightarrow> (string \<Rightarrow> card option) \<Rightarrow> string \<Rightarrow> string list" where
  "agent_productive_subsystems cx hyps by_id agent =
     (if agent = [] then []
      else foldl (\<lambda>subsystems row.
             if hy_agent row \<noteq> agent then subsystems
             else if \<not> is_result_status (hy_status row) then subsystems
             else (let s = hyp_subsystem cx by_id row
                   in if s \<noteq> [] \<and> s \<noteq> ''unknown'' then List.insert s subsystems else subsystems))
             [] hyps)"

definition is_scope_status :: "string \<Rightarrow> bool" where
  "is_scope_status s \<longleftrightarrow>
     list_ex (\<lambda>p. py_startswith p s)
       [''PENDING'', ''INVESTIGATING'', ''NEEDS_TESTCASE'', ''ENV-BLOCKED'', ''CRASH'', ''FIND'']"

definition agent_current_scopes :: "ctx \<Rightarrow> store \<Rightarrow> string \<Rightarrow> string \<times> string" where
  "agent_current_scopes cx st agent =
     (let selected = filter (\<lambda>row. hy_agent row = agent) (st_hyps st)
      in if selected = [] then ([], [])
         else
           (let relevant = filter (\<lambda>row. is_scope_status (hy_status row)) selected;
                row = (if relevant \<noteq> [] then last relevant else last selected);
                subsystem = hy_subsystem row;
                source = normalized_relpath (py_head CHR '':'' (hy_file row));
                (subsystem, source) =
                  (if hy_card row \<noteq> [] \<and> (subsystem = [] \<or> source = []) then
                     (case cards_by_id (st_cards st) (hy_card row) of
                        Some c \<Rightarrow> (str_or subsystem (cd_subsystem c),
                                   str_or source (normalized_relpath (cd_file c)))
                      | None \<Rightarrow> (subsystem, source))
                   else (subsystem, source));
                subsystem = (if subsystem = [] \<and> source \<noteq> [] then subsystem_for (cx_depth cx) source
                             else subsystem)
            in (if subsystem = ''unknown'' then [] else subsystem, source)))"

subsection \<open>Modes\<close>

definition SANITIZER_WORK_CARD_MODES :: "string list" where
  "SANITIZER_WORK_CARD_MODES = [''asan'', ''ubsan'', ''msan'', ''tsan'', ''race'', ''runner'']"

definition card_mode_matches :: "string \<Rightarrow> string \<Rightarrow> bool" where
  "card_mode_matches card_mode0 agent_mode =
     (let card_mode = str_or card_mode0 ''auto'' in
      agent_mode = []
      \<or> card_mode \<in> set [[], ''auto'', agent_mode, ''generic'']
      \<or> agent_mode = ''generic'' \<and> card_mode = ''js''
      \<or> agent_mode = ''shell'' \<and> card_mode = ''js''
      \<or> agent_mode \<in> set [''generic'', ''shell''] \<and> card_mode \<in> set SANITIZER_WORK_CARD_MODES)"

subsection \<open>What is taken\<close>

definition active_hypothesis_queue_sets ::
  "ctx \<Rightarrow> (string \<Rightarrow> card option) \<Rightarrow> hyp list \<Rightarrow> string list \<times> string list \<times> string list" where
  "active_hypothesis_queue_sets cx by_id hyps =
     (let act = filter (\<lambda>row. is_active_hypothesis_status (hy_status row)) hyps;
          surface = (\<lambda>row. case card_of_row by_id (hy_card row) of
                       Some c \<Rightarrow> work_surface c
                     | None \<Rightarrow> py_lower (normalized_relpath (py_head CHR '':'' (hy_file row))))
      in (remdups (filter (\<lambda>c. c \<noteq> []) (map hy_card act)),
          remdups (filter (\<lambda>s. s \<noteq> []) (map surface act)),
          remdups (filter (\<lambda>s. s \<noteq> [] \<and> s \<noteq> ''unknown'') (map (hyp_subsystem cx by_id) act))))"

definition claimed_card_queue_sets ::
  "(string \<Rightarrow> card option) \<Rightarrow> (string \<times> claim) list \<Rightarrow> int \<Rightarrow> int \<Rightarrow> string list \<times> string list" where
  "claimed_card_queue_sets by_id latest ttl now =
     (let held = List.map_filter (\<lambda>(cid, claim).
                   if claim_blocks_card (Some claim) ttl now then by_id cid else None) latest
      in (remdups (filter (\<lambda>s. s \<noteq> []) (map work_surface held)),
          remdups (filter (\<lambda>s. s \<noteq> [] \<and> s \<noteq> ''unknown'') (map cd_subsystem held))))"

subsection \<open>Explaining the queue\<close>

record queue_row =
  qr_id :: string
  qr_kind :: string
  qr_file :: string
  qr_subsystem :: string
  qr_mode :: string
  qr_status :: string
  qr_reason :: string

definition queue_status_row ::
  "(string \<times> nat) list \<Rightarrow> (string \<times> nat) list \<Rightarrow> (string \<Rightarrow> claim option) \<Rightarrow> int \<Rightarrow> int \<Rightarrow> string list
   \<Rightarrow> string list \<Rightarrow> string list \<Rightarrow> string list \<Rightarrow> string list \<Rightarrow> string \<Rightarrow> card \<Rightarrow> queue_row" where
  "queue_status_row conclusion_counts distinct_counts latest ttl now active_cards active_surfaces
     claimed_surfaces owned_subsystems agent_modes strategy c =
     (let cid = cd_id c;
          status = visible_card_status (latest cid) ttl now;
          surface = work_surface c;
          mode = str_or (cd_mode c) ''auto'';
          reason =
            (if \<not> is_auditable_work_card c then ''not-auditable''
             else if card_closed_for_run conclusion_counts distinct_counts c status
               then ''terminal:'' @ status
             else if strategy \<noteq> [] \<and> \<not> card_strategy_matches c strategy
               then ''strategy-incompatible:'' @ str_or (cd_strategy c) ''none''
             else if cid \<in> set active_cards then ''active-hypothesis''
             else if surface \<noteq> [] \<and> surface \<in> set active_surfaces then ''active-surface''
             else if status = ''claimed'' then
               (case latest cid of
                  None \<Rightarrow> ''claimed''
                | Some claim \<Rightarrow>
                    (let expires_at = str_or (cl_expires_at claim)
                           (case claim_row_expiry claim ttl of Some e \<Rightarrow> now_iso e | None \<Rightarrow> [])
                     in if expires_at \<noteq> [] then ''claimed-until:'' @ expires_at else ''claimed''))
             else if surface \<noteq> [] \<and> surface \<in> set claimed_surfaces then ''claimed-surface''
             else if mode \<in> set [[], ''auto'', ''generic''] \<and> cd_subsystem c \<in> set owned_subsystems
               then ''claimed-subsystem''
             else if agent_modes \<noteq> [] \<and> \<not> list_ex (card_mode_matches mode) agent_modes
               then ''mode-incompatible:'' @ mode
             else ''eligible'')
      in \<lparr>qr_id = cid, qr_kind = cd_kind c, qr_file = cd_file c, qr_subsystem = cd_subsystem c,
          qr_mode = mode, qr_status = status, qr_reason = reason\<rparr>)"

definition explain_queue :: "ctx \<Rightarrow> store \<Rightarrow> string list \<Rightarrow> string \<Rightarrow> int \<Rightarrow> queue_row list" where
  "explain_queue cx st agent_modes strategy now =
     (let cards = st_cards st;
          by_id = cards_by_id cards;
          latest = latest_claims_by_card (st_claims st);
          ttl = work_card_claim_ttl cx;
          (active_cards, active_surfaces, active_subsystems) =
             active_hypothesis_queue_sets cx by_id (st_hyps st);
          (claimed_surfaces, claimed_subsystems) = claimed_card_queue_sets by_id latest ttl now
      in map (queue_status_row (card_conclusion_counts (st_claims st))
                (card_distinct_hypothesis_counts (st_hyps st)) (map_of latest) ttl now
                active_cards active_surfaces claimed_surfaces (active_subsystems @ claimed_subsystems)
                agent_modes strategy) cards)"

definition queue_health_reason :: "string \<Rightarrow> string" where
  "queue_health_reason reason =
     (if py_startswith ''claimed-until:'' reason then ''claimed-until'' else reason)"

definition reason_counts :: "queue_row list \<Rightarrow> (string \<times> nat) list" where
  "reason_counts rows = count_by (\<lambda>row. Some (queue_health_reason (qr_reason row))) rows"

definition ordered_reasons :: "queue_row list \<Rightarrow> (string \<times> nat) list" where
  "ordered_reasons rows = sort_key (\<lambda>(reason, n). (- int n, reason)) (reason_counts rows)"

definition queue_health_lines :: "ctx \<Rightarrow> store \<Rightarrow> string \<Rightarrow> int option \<Rightarrow> int \<Rightarrow> string list" where
  "queue_health_lines cx st mode limit0 now =
     (let rows = explain_queue cx st (if mode = [] then [] else [mode]) [] now
      in if reason_counts rows = [] then [''- no work cards'']
         else
           (let limit = (case limit0 of Some n \<Rightarrow> n
                         | None \<Rightarrow> int_env (cx_env cx) ''STATE_RESUME_QUEUE_HEALTH_LIMIT'' 8);
                ordered = ordered_reasons rows;
                n = length ordered;
                shown = (if 0 \<le> limit then take (nat limit) ordered
                         else take (nat (int n + limit)) ordered);
                out = map (\<lambda>(reason, count). ''- '' @ reason @ '': '' @ nat_str count) shown;
                remaining = (if 0 < limit then drop (nat limit) ordered else ordered)
            in if remaining = [] then out
               else out @ [''- ... '' @ nat_str (length remaining) @ '' more reason(s), ''
                           @ nat_str (sum_list (map snd remaining)) @ '' card(s)'']))"

datatype digest_row =
    ReasonRow string nat string
  | MoreRow nat nat

definition reason_samples :: "queue_row list \<Rightarrow> string \<Rightarrow> string" where
  "reason_samples rows reason =
     (case find (\<lambda>row. queue_health_reason (qr_reason row) = reason) rows of
        Some row \<Rightarrow> qr_id row | None \<Rightarrow> [])"

definition summarize_queue :: "ctx \<Rightarrow> store \<Rightarrow> string list \<Rightarrow> int \<Rightarrow> string \<Rightarrow> int \<Rightarrow> digest_row list" where
  "summarize_queue cx st agent_modes top_n strategy now =
     (let rows = explain_queue cx st agent_modes strategy now
      in if reason_counts rows = [] then []
         else
           (let ordered = ordered_reasons rows;
                kept = (if top_n \<le> 0 then ordered else take (nat top_n) ordered);
                out = map (\<lambda>(reason, count). ReasonRow reason count (reason_samples rows reason)) kept;
                remaining = drop (length kept) ordered
            in if remaining = [] then out
               else out @ [MoreRow (sum_list (map snd remaining)) (length remaining)]))"


subsection \<open>What is taken, as sets\<close>

lemma set_active_cards:
  "set (fst (active_hypothesis_queue_sets cx by_id hyps)) =
     {hy_card h |h. h \<in> set hyps \<and> is_active_hypothesis_status (hy_status h) \<and> hy_card h \<noteq> []}"
  by (auto simp: active_hypothesis_queue_sets_def Let_def)

lemma set_claimed_surfaces:
  "set (fst (claimed_card_queue_sets by_id (latest_claims_by_card claims) ttl now)) =
     {work_surface c |c cid r. map_of (latest_claims_by_card claims) cid = Some r
        \<and> claim_blocks_card (Some r) ttl now \<and> by_id cid = Some c \<and> work_surface c \<noteq> []}"
proof -
  have d: "distinct (map fst (latest_claims_by_card claims))"
    by (simp add: latest_claims_by_card_def)
  show ?thesis
    by (auto simp: claimed_card_queue_sets_def Let_def List.map_filter_def map_of_eq_Some_iff [OF d]
        image_iff split: if_splits) (metis (no_types, lifting) option.sel)+
qed

lemma set_claimed_subsystems:
  "set (snd (claimed_card_queue_sets by_id (latest_claims_by_card claims) ttl now)) =
     {cd_subsystem c |c cid r. map_of (latest_claims_by_card claims) cid = Some r
        \<and> claim_blocks_card (Some r) ttl now \<and> by_id cid = Some c
        \<and> cd_subsystem c \<noteq> [] \<and> cd_subsystem c \<noteq> ''unknown''}"
proof -
  have d: "distinct (map fst (latest_claims_by_card claims))"
    by (simp add: latest_claims_by_card_def)
  show ?thesis
    by (auto simp: claimed_card_queue_sets_def Let_def List.map_filter_def map_of_eq_Some_iff [OF d]
        image_iff split: if_splits) (metis (no_types, lifting) option.sel)+
qed

lemma cards_by_id_SomeD: "cards_by_id cards cid = Some c \<Longrightarrow> c \<in> set cards \<and> cd_id c = cid"
  unfolding cards_by_id_def by (drule map_of_SomeD) auto

lemma cards_by_id_distinct:
  assumes "distinct (map cd_id cards)" "c \<in> set cards"
  shows "cards_by_id cards (cd_id c) = Some c"
proof -
  have "distinct (map fst (rev (map (\<lambda>c. (cd_id c, c)) cards)))"
    using assms(1) by (simp add: rev_map [symmetric] comp_def)
  then show ?thesis
    unfolding cards_by_id_def using assms(2) by (auto simp: map_of_eq_Some_iff)
qed

lemma cards_by_id_exists: "c \<in> set cards \<Longrightarrow> \<exists>d. cards_by_id cards (cd_id c) = Some d"
proof -
  assume "c \<in> set cards"
  then have "map_of (rev (map (\<lambda>c. (cd_id c, c)) cards)) (cd_id c) \<noteq> None"
    unfolding map_of_eq_None_iff by force
  then show ?thesis by (simp add: cards_by_id_def)
qed

end
