(* ===== verification/Claim.thy ===== *)
theory Claim
  imports Queue
begin

text \<open>
  \<open>claim_next_card\<close>: the snapshot a claim reads, the candidate filter, the diversity rule, the
  three stable sorts (diminishing returns, lane, buildability), and the lease row.
\<close>

subsection \<open>The snapshot\<close>

record snap =
  sn_cards :: "card list"
  sn_latest :: "string \<Rightarrow> claim option"
  sn_active_cards :: "string list"
  sn_owned_surfaces :: "string list"
  sn_owned_subsystems :: "string list"
  sn_conclusions :: "(string \<times> nat) list"
  sn_distinct :: "(string \<times> nat) list"
  sn_unreachable :: "(string \<times> nat) list"
  sn_productive :: "string list"
  sn_agent :: string
  sn_mode :: string
  sn_filter :: string
  sn_ttl :: int
  sn_now :: int

definition claim_snapshot :: "ctx \<Rightarrow> store \<Rightarrow> string \<Rightarrow> string \<Rightarrow> string \<Rightarrow> int \<Rightarrow> snap" where
  "claim_snapshot cx st agent mode strategy now =
     (let by_id = cards_by_id (st_cards st);
          latest = latest_claims_by_card (st_claims st);
          ttl = work_card_claim_ttl cx;
          (active_cards, active_surfaces, active_subsystems) =
             active_hypothesis_queue_sets cx by_id (st_hyps st);
          (claimed_surfaces, claimed_subsystems) = claimed_card_queue_sets by_id latest ttl now
      in \<lparr>sn_cards = st_cards st, sn_latest = map_of latest, sn_active_cards = active_cards,
          sn_owned_surfaces = active_surfaces @ claimed_surfaces,
          sn_owned_subsystems = active_subsystems @ claimed_subsystems,
          sn_conclusions = card_conclusion_counts (st_claims st),
          sn_distinct = card_distinct_hypothesis_counts (st_hyps st),
          sn_unreachable = card_unreachable_rejection_counts (st_hyps st),
          sn_productive = filter (\<lambda>s. subsystem_dry_streak st s < PRODUCTIVE_DECAY_AFTER_ITERS)
                            (agent_productive_subsystems cx (st_hyps st) by_id agent),
          sn_agent = agent, sn_mode = mode, sn_filter = py_upper (py_strip strategy),
          sn_ttl = ttl, sn_now = now\<rparr>)"

text \<open>\<open>own_active_claim\<close>, \<open>own_lease\<close> and \<open>own_active_lease\<close> of the local functions.\<close>

definition own_lease :: "snap \<Rightarrow> card \<Rightarrow> bool" where
  "own_lease sn c =
     (case sn_latest sn (cd_id c) of
        None \<Rightarrow> False
      | Some row \<Rightarrow> cl_agent row = sn_agent sn \<and> claim_blocks_card (Some row) (sn_ttl sn) (sn_now sn))"

definition prior_work :: "snap \<Rightarrow> card \<Rightarrow> nat" where
  "prior_work sn c =
     get0 (sn_conclusions sn) (cd_id c) + get0 (sn_unreachable sn) (cd_id c)
     + get0 (sn_distinct sn) (cd_id c)"

subsection \<open>Candidates\<close>

definition is_candidate :: "snap \<Rightarrow> bool \<Rightarrow> card \<Rightarrow> bool" where
  "is_candidate sn unworked_only c =
     (let cid = cd_id c;
          latest_claim = sn_latest sn cid;
          latest_status = visible_card_status latest_claim (sn_ttl sn) (sn_now sn);
          blocks_card = claim_blocks_card latest_claim (sn_ttl sn) (sn_now sn);
          own_active_claim = own_lease sn c;
          surface = work_surface c
      in if \<not> is_auditable_work_card c then False
         else if unworked_only \<and> get0 (sn_distinct sn) cid \<noteq> 0 then False
         else if sn_filter sn \<noteq> [] \<and> \<not> card_strategy_matches c (sn_filter sn) then False
         else if card_closed_for_run (sn_conclusions sn) (sn_distinct sn) c latest_status
                 \<or> cid \<in> set (sn_active_cards sn) \<or> blocks_card \<and> \<not> own_active_claim then False
         else if surface \<noteq> [] \<and> surface \<in> set (sn_owned_surfaces sn) \<and> \<not> own_active_claim then False
         else if \<not> card_mode_matches (str_or (cd_mode c) ''auto'') (sn_mode sn) then False
         else True)"

definition build_candidates :: "snap \<Rightarrow> bool \<Rightarrow> card list" where
  "build_candidates sn unworked_only = filter (is_candidate sn unworked_only) (sn_cards sn)"

text \<open>The soft subsystem preference, and fresh work before spread.\<close>

definition diversity_keeps :: "snap \<Rightarrow> card \<Rightarrow> bool" where
  "diversity_keeps sn c =
     (let subsystem = cd_subsystem c;
          generic_mode = (sn_mode sn \<in> set [''generic'', ''shell'']
                          \<or> str_or (cd_mode c) ''auto'' \<in> set [[], ''auto'', ''generic''] \<and> sn_mode sn = [])
      in \<not> (generic_mode \<and> subsystem \<noteq> []
            \<and> subsystem \<in> set (sn_owned_subsystems sn) \<and> \<not> own_lease sn c
            \<and> subsystem \<notin> set (sn_productive sn)))"

definition apply_diversity :: "snap \<Rightarrow> card list \<Rightarrow> card list" where
  "apply_diversity sn candidates =
     (let preferred0 = filter (diversity_keeps sn) candidates;
          preferred = (if preferred0 = [] then candidates else preferred0);
          worked = (\<lambda>c. 0 < prior_work sn c);
          fresh = filter (\<lambda>c. \<not> worked c) candidates
      in if fresh \<noteq> [] \<and> length preferred < length candidates \<and> list_all worked preferred then
           (let held = filter (own_lease sn) preferred
            in held @ filter (\<lambda>c. c \<notin> set held) fresh)
         else preferred)"

subsection \<open>Sorting\<close>

definition examined_share :: "(string \<times> rat) list \<Rightarrow> card \<Rightarrow> int" where
  "examined_share examined c =
     (if is_broad_file_card c then
        py_round ((case map_of examined (normalized_relpath (cd_file c)) of Some x \<Rightarrow> x | None \<Rightarrow> 0) * 100)
      else 0)"

definition demotion_key :: "snap \<Rightarrow> (string \<times> rat) list \<Rightarrow> card \<Rightarrow> nat \<times> nat \<times> int" where
  "demotion_key sn examined c =
     (let cid = cd_id c;
          outcomes = max (get0 (sn_conclusions sn) cid + get0 (sn_unreachable sn) cid)
                         (get0 (sn_distinct sn) cid)
      in (if own_lease sn c then 0 else 1, outcomes, examined_share examined c))"

definition demote :: "snap \<Rightarrow> (string \<times> rat) list \<Rightarrow> card list \<Rightarrow> card list" where
  "demote sn examined preferred =
     (if 1 < length preferred
         \<and> (sn_conclusions sn \<noteq> [] \<or> sn_unreachable sn \<noteq> [] \<or> sn_distinct sn \<noteq> [] \<or> examined \<noteq> [])
      then sort_key (demotion_key sn examined) preferred else preferred)"

definition lane_priority :: "snap \<Rightarrow> card \<Rightarrow> nat \<times> nat \<times> nat \<times> nat" where
  "lane_priority sn c =
     (let primary = py_upper (py_strip (cd_strategy c))
      in (if own_lease sn c then 0 else 1,
          if sn_filter sn = ''S1'' \<and> cd_kind c = ''s1-patch'' then 0 else 1,
          if primary = sn_filter sn then 0 else 1,
          if carries_lane_evidence c (sn_filter sn) \<and> prior_work sn c = 0 then 0 else 1))"

definition lane_sort :: "snap \<Rightarrow> card list \<Rightarrow> card list" where
  "lane_sort sn preferred =
     (if sn_filter sn \<noteq> [] \<and> 1 < length preferred then sort_key (lane_priority sn) preferred
      else preferred)"

definition buildability_key :: "snap \<Rightarrow> card \<Rightarrow> nat \<times> nat" where
  "buildability_key sn c = (if own_lease sn c then 0 else 1, buildability_priority c)"

definition build_sort :: "snap \<Rightarrow> string \<Rightarrow> card list \<Rightarrow> card list" where
  "build_sort sn role preferred =
     (if role = ''reproduce'' \<and> 1 < length preferred then sort_key (buildability_key sn) preferred
      else preferred)"

definition offered :: "snap \<Rightarrow> string \<Rightarrow> bool \<Rightarrow> (string \<times> rat) list \<Rightarrow> card list" where
  "offered sn role unworked_only examined =
     build_sort sn role (lane_sort sn (demote sn examined
       (apply_diversity sn (build_candidates sn unworked_only))))"

subsection \<open>The lease\<close>

definition rank_by_id :: "card list \<Rightarrow> string \<Rightarrow> int" where
  "rank_by_id cards cid =
     (case map_of (rev (zip (map cd_id cards) [1 ..< Suc (length cards)])) cid of
        Some n \<Rightarrow> int n | None \<Rightarrow> 0)"

definition effective_strategy :: "snap \<Rightarrow> card \<Rightarrow> string" where
  "effective_strategy sn c = str_or (sn_filter sn) (py_upper (py_strip (cd_strategy c)))"

definition claim_row_of :: "snap \<Rightarrow> string \<Rightarrow> int \<Rightarrow> card \<Rightarrow> claim" where
  "claim_row_of sn role claim_time c =
     claim0\<lparr>cl_card := cd_id c, cl_file := normalized_relpath (cd_file c), cl_agent := sn_agent sn,
       cl_mode := sn_mode sn, cl_role := role, cl_status := Some ''claimed'',
       cl_claimed_at := now_iso claim_time, cl_expires_at := now_iso (claim_time + sn_ttl sn),
       cl_rank := rank_by_id (sn_cards sn) (cd_id c), cl_size := int (length (sn_cards sn)),
       cl_score := cd_score c, cl_strategy := effective_strategy sn c\<rparr>"

definition relabelled :: "snap \<Rightarrow> card \<Rightarrow> card" where
  "relabelled sn c =
     (let primary = py_upper (py_strip (cd_strategy c));
          eff = effective_strategy sn c;
          shown = card_reason_for_strategy c eff
      in if eff \<noteq> primary \<or> shown \<noteq> cd_reason c \<or> eff \<noteq> ''S1'' \<and> cd_patch_cards c \<noteq> [] then
           c\<lparr>cd_strategy := eff, cd_reason := shown,
             cd_source_strategy := (if eff \<noteq> primary then primary else cd_source_strategy c),
             cd_patch_cards := (if eff \<noteq> ''S1'' then [] else cd_patch_cards c)\<rparr>
         else c)"

text \<open>\<open>claim_next_card\<close>: the card handed out, and the tree after it. \<open>now\<close> is the time of the
  snapshot and \<open>claim_time\<close> that of the lease row.\<close>

definition claim_next_card ::
  "ctx \<Rightarrow> store \<Rightarrow> string \<Rightarrow> string \<Rightarrow> string \<Rightarrow> bool \<Rightarrow> string \<Rightarrow> bool \<Rightarrow> (string \<times> rat) list
   \<Rightarrow> int \<Rightarrow> int \<Rightarrow> card option \<times> store" where
  "claim_next_card cx st agent mode role claim strategy unworked_only examined now claim_time =
     (let sn = claim_snapshot cx st agent mode strategy now
      in case offered sn role unworked_only examined of
           [] \<Rightarrow> (None, st)
         | c # _ \<Rightarrow>
             (Some (relabelled sn c),
              if claim then st\<lparr>st_claims := st_claims st @ [claim_row_of sn role claim_time c]\<rparr> else st))"

subsection \<open>What is offered\<close>

lemma demote_set [simp]: "set (demote sn examined xs) = set xs"
  by (simp add: demote_def)

lemma lane_sort_set [simp]: "set (lane_sort sn xs) = set xs"
  by (simp add: lane_sort_def)

lemma build_sort_set [simp]: "set (build_sort sn role xs) = set xs"
  by (simp add: build_sort_def)

lemma demote_Nil_iff [simp]: "demote sn examined xs = [] \<longleftrightarrow> xs = []"
  by (metis demote_set set_empty)

lemma lane_sort_Nil_iff [simp]: "lane_sort sn xs = [] \<longleftrightarrow> xs = []"
  by (metis lane_sort_set set_empty)

lemma build_sort_Nil_iff [simp]: "build_sort sn role xs = [] \<longleftrightarrow> xs = []"
  by (metis build_sort_set set_empty)

lemma apply_diversity_subset: "set (apply_diversity sn cs) \<subseteq> set cs"
  by (auto simp: apply_diversity_def Let_def)

text \<open>The preferences never empty the offer.\<close>

lemma held_fresh_not_Nil: "fresh \<noteq> [] \<Longrightarrow> held @ filter (\<lambda>c. c \<notin> set held) fresh \<noteq> []"
  by (cases held) (auto simp: filter_empty_conv)

lemma apply_diversity_Nil_iff [simp]: "apply_diversity sn cs = [] \<longleftrightarrow> cs = []"
proof (cases "cs = []")
  case True
  then show ?thesis by (simp add: apply_diversity_def)
next
  case False
  then have "(if filter (diversity_keeps sn) cs = [] then cs else filter (diversity_keeps sn) cs) \<noteq> []"
    by simp
  then have "apply_diversity sn cs \<noteq> []"
    unfolding apply_diversity_def Let_def by (rule_tac if_split [THEN iffD2], intro conjI impI)
      (rule held_fresh_not_Nil, simp_all only: simp_thms)
  with False show ?thesis by simp
qed

lemma offered_subset: "set (offered sn role u ex) \<subseteq> set (build_candidates sn u)"
  unfolding offered_def using apply_diversity_subset by simp

lemma offered_Nil_iff: "offered sn role u ex = [] \<longleftrightarrow> build_candidates sn u = []"
  by (simp add: offered_def)

lemma candidateD:
  assumes "c \<in> set (build_candidates sn u)"
  shows "c \<in> set (sn_cards sn)" "is_candidate sn u c"
  using assms by (simp_all add: build_candidates_def)

lemma is_candidateD:
  assumes "is_candidate sn u c"
  shows "is_auditable_work_card c"
    and "cd_id c \<notin> set (sn_active_cards sn)"
    and "claim_blocks_card (sn_latest sn (cd_id c)) (sn_ttl sn) (sn_now sn) \<longrightarrow> own_lease sn c"
    and "work_surface c \<noteq> [] \<and> work_surface c \<in> set (sn_owned_surfaces sn) \<longrightarrow> own_lease sn c"
    and "card_mode_matches (str_or (cd_mode c) ''auto'') (sn_mode sn)"
    and "sn_filter sn \<noteq> [] \<longrightarrow> card_strategy_matches c (sn_filter sn)"
    and "\<not> card_closed_for_run (sn_conclusions sn) (sn_distinct sn) c
           (visible_card_status (sn_latest sn (cd_id c)) (sn_ttl sn) (sn_now sn))"
    and "u \<longrightarrow> get0 (sn_distinct sn) (cd_id c) = 0"
  using assms by (auto simp: is_candidate_def Let_def split: if_splits)

lemma relabelled_id [simp]: "cd_id (relabelled sn c) = cd_id c" "cd_file (relabelled sn c) = cd_file c"
  "cd_kind (relabelled sn c) = cd_kind c" "cd_subsystem (relabelled sn c) = cd_subsystem c"
  by (simp_all add: relabelled_def Let_def)

lemma snapshot_fields [simp]:
  "sn_cards (claim_snapshot cx st agent mode strategy now) = st_cards st"
  "sn_latest (claim_snapshot cx st agent mode strategy now) = map_of (latest_claims_by_card (st_claims st))"
  "sn_agent (claim_snapshot cx st agent mode strategy now) = agent"
  "sn_mode (claim_snapshot cx st agent mode strategy now) = mode"
  "sn_filter (claim_snapshot cx st agent mode strategy now) = py_upper (py_strip strategy)"
  "sn_ttl (claim_snapshot cx st agent mode strategy now) = work_card_claim_ttl cx"
  "sn_now (claim_snapshot cx st agent mode strategy now) = now"
  "sn_conclusions (claim_snapshot cx st agent mode strategy now) = card_conclusion_counts (st_claims st)"
  "sn_distinct (claim_snapshot cx st agent mode strategy now) = card_distinct_hypothesis_counts (st_hyps st)"
  by (simp_all add: claim_snapshot_def Let_def split: prod.split)


lemma snapshot_active_cards:
  "set (sn_active_cards (claim_snapshot cx st agent mode strategy now)) =
     {hy_card h |h. h \<in> set (st_hyps st) \<and> is_active_hypothesis_status (hy_status h) \<and> hy_card h \<noteq> []}"
  by (simp add: claim_snapshot_def Let_def set_active_cards [of cx "cards_by_id (st_cards st)", symmetric]
      split: prod.split)

lemma snapshot_claimed_surfaces:
  "set (fst (claimed_card_queue_sets (cards_by_id (st_cards st)) (latest_claims_by_card (st_claims st))
       (work_card_claim_ttl cx) now))
     \<subseteq> set (sn_owned_surfaces (claim_snapshot cx st agent mode strategy now))"
  by (auto simp: claim_snapshot_def Let_def split: prod.split)

lemma claim_next_SomeD:
  assumes "claim_next_card cx st agent mode role claim strategy u ex now ct = (Some c, st')"
  obtains c0 where
    "c0 \<in> set (st_cards st)" "is_candidate (claim_snapshot cx st agent mode strategy now) u c0"
    "c = relabelled (claim_snapshot cx st agent mode strategy now) c0"
    "offered (claim_snapshot cx st agent mode strategy now) role u ex \<noteq> []"
    "c0 = hd (offered (claim_snapshot cx st agent mode strategy now) role u ex)"
    "st' = (if claim then st\<lparr>st_claims := st_claims st
              @ [claim_row_of (claim_snapshot cx st agent mode strategy now) role ct c0]\<rparr> else st)"
proof (cases "offered (claim_snapshot cx st agent mode strategy now) role u ex")
  case Nil
  then show thesis using assms by (simp add: claim_next_card_def)
next
  case (Cons c0 rest)
  then have "c0 \<in> set (build_candidates (claim_snapshot cx st agent mode strategy now) u)"
    using offered_subset [of "claim_snapshot cx st agent mode strategy now" role u ex] by simp
  note c0 = candidateD [OF this]
  have r: "c = relabelled (claim_snapshot cx st agent mode strategy now) c0"
    "st' = (if claim then st\<lparr>st_claims := st_claims st
              @ [claim_row_of (claim_snapshot cx st agent mode strategy now) role ct c0]\<rparr> else st)"
    using assms by (simp_all add: claim_next_card_def Let_def Cons)
  show thesis
    by (rule that [of c0]) (use c0 r Cons in simp_all)
qed


subsection \<open>The lease row\<close>

lemma claim_row_fields [simp]:
  "cl_card (claim_row_of sn role ct c) = cd_id c" "cl_agent (claim_row_of sn role ct c) = sn_agent sn"
  "cl_st_claimed (claim_row_of sn role ct c) = ''claimed''" "cl_st (claim_row_of sn role ct c) = ''claimed''"
  "cl_claimed_at (claim_row_of sn role ct c) = now_iso ct"
  "cl_expires_at (claim_row_of sn role ct c) = now_iso (ct + sn_ttl sn)"
  "cl_source (claim_row_of sn role ct c) = []" "cl_hyp (claim_row_of sn role ct c) = []"
  by (simp_all add: claim_row_of_def claim0_def cl_st_claimed_def cl_st_def)

lemma claim_row_expiry_of:
  "iso_time (ct + sn_ttl sn) \<Longrightarrow>
     claim_row_expiry (claim_row_of sn role ct c) ttl = Some (whole_sec (ct + sn_ttl sn))"
  by (simp add: claim_row_expiry_def parse_iso)

lemma claim_row_blocks:
  "iso_time (ct + sn_ttl sn) \<Longrightarrow>
     claim_blocks_card (Some (claim_row_of sn role ct c)) ttl t \<longleftrightarrow> t < whole_sec (ct + sn_ttl sn)"
  by (simp add: claim_blocks_card_Some claim_row_expiry_of)

lemma own_lease_iff:
  "own_lease sn c \<longleftrightarrow> (\<exists>r. sn_latest sn (cd_id c) = Some r \<and> cl_agent r = sn_agent sn
     \<and> claim_blocks_card (Some r) (sn_ttl sn) (sn_now sn))"
  by (auto simp: own_lease_def split: option.splits)

lemma candidate_other_lease:
  assumes "is_candidate sn u c" "sn_latest sn (cd_id c) = Some r"
    and "claim_blocks_card (Some r) (sn_ttl sn) (sn_now sn)"
  shows "cl_agent r = sn_agent sn"
  using is_candidateD(3) [OF assms(1)] assms(2,3) by (auto simp: own_lease_iff)

text \<open>The surface of a candidate is not that of a card someone else holds.\<close>

lemma candidate_other_surface:
  assumes c: "is_candidate (claim_snapshot cx st agent mode strategy now) u c"
    and d: "cards_by_id (st_cards st) (cd_id d) = Some d" "work_surface d = work_surface c"
      "work_surface c \<noteq> []"
    and r: "map_of (latest_claims_by_card (st_claims st)) (cd_id d) = Some r"
      "claim_blocks_card (Some r) (work_card_claim_ttl cx) now"
  shows "own_lease (claim_snapshot cx st agent mode strategy now) c"
proof -
  have "work_surface d \<in> set (fst (claimed_card_queue_sets (cards_by_id (st_cards st))
      (latest_claims_by_card (st_claims st)) (work_card_claim_ttl cx) now))"
    unfolding set_claimed_surfaces by (rule CollectI, intro exI conjI) (rule refl, rule r(1), rule r(2),
      rule d(1), simp add: d(2,3))
  then have "work_surface d \<in> set (sn_owned_surfaces (claim_snapshot cx st agent mode strategy now))"
    using snapshot_claimed_surfaces by (rule rev_subsetD)
  then show ?thesis using is_candidateD(4) [OF c] d(2,3) by simp
qed

subsection \<open>Properties of a claim\<close>

text \<open>
  C9 (claim_eligible). A card handed out is a card of the queue that is auditable, carries no active
  hypothesis, fits the agent's mode and the requested lane, and is not closed for the run at the
  status its latest row shows.
\<close>

theorem claim_eligible:
  assumes "claim_next_card cx st agent mode role claim strategy u ex now ct = (Some c, st')"
  shows "\<exists>c0 \<in> set (st_cards st). cd_id c0 = cd_id c \<and> cd_file c0 = cd_file c
    \<and> is_auditable_work_card c0
    \<and> (\<forall>h \<in> set (st_hyps st). is_active_hypothesis_status (hy_status h) \<longrightarrow>
         hy_card h = [] \<or> hy_card h \<noteq> cd_id c)
    \<and> card_mode_matches (str_or (cd_mode c0) ''auto'') mode
    \<and> (py_strip strategy = [] \<or> card_strategy_matches c0 (py_upper (py_strip strategy)))
    \<and> \<not> card_closed_for_run (card_conclusion_counts (st_claims st))
          (card_distinct_hypothesis_counts (st_hyps st)) c0
          (visible_card_status (map_of (latest_claims_by_card (st_claims st)) (cd_id c))
             (work_card_claim_ttl cx) now)"
proof -
  obtain c0 where c0: "c0 \<in> set (st_cards st)"
    "is_candidate (claim_snapshot cx st agent mode strategy now) u c0"
    "c = relabelled (claim_snapshot cx st agent mode strategy now) c0"
    by (rule claim_next_SomeD [OF assms]) (rule that)
  note d = is_candidateD [OF c0(2)]
  have "hy_card h = [] \<or> hy_card h \<noteq> cd_id c"
    if "h \<in> set (st_hyps st)" "is_active_hypothesis_status (hy_status h)" for h
    using d(2) that unfolding snapshot_active_cards by (auto simp: c0(3))
  then show ?thesis
    using c0 d(1,5,6,7) by (intro bexI [of _ c0]) auto
qed

text \<open>
  C7 (claim_exclusive). A claim never takes over a live lease: the card handed out is not held by
  another agent, and unless the agent already holds it, no card of the queue with the same work
  surface is held by anyone.
\<close>

theorem claim_exclusive:
  assumes "claim_next_card cx st agent mode role claim strategy u ex now ct = (Some c, st')"
    and "distinct (map cd_id (st_cards st))"
    and "d \<in> set (st_cards st)"
    and "map_of (latest_claims_by_card (st_claims st)) (cd_id d) = Some r"
    and "claim_blocks_card (Some r) (work_card_claim_ttl cx) now"
    and "cd_id d = cd_id c \<or> (\<exists>c0 \<in> set (st_cards st). cd_id c0 = cd_id c
           \<and> work_surface d = work_surface c0 \<and> work_surface c0 \<noteq> [])"
  shows "(cd_id d = cd_id c \<longrightarrow> cl_agent r = agent)
    \<and> (\<exists>r'. map_of (latest_claims_by_card (st_claims st)) (cd_id c) = Some r' \<and> cl_agent r' = agent
          \<and> claim_blocks_card (Some r') (work_card_claim_ttl cx) now)"
proof -
  let ?sn = "claim_snapshot cx st agent mode strategy now"
  obtain c0 where c0: "c0 \<in> set (st_cards st)" "is_candidate ?sn u c0" "c = relabelled ?sn c0"
    by (rule claim_next_SomeD [OF assms(1)]) (rule that)
  have byid: "cards_by_id (st_cards st) (cd_id e) = Some e" if "e \<in> set (st_cards st)" for e
    using cards_by_id_distinct [OF assms(2) that] .
  show ?thesis
  proof (cases "cd_id d = cd_id c")
    case True
    with candidate_other_lease [OF c0(2), of r] assms(4,5) c0(3) show ?thesis by auto
  next
    case False
    then obtain c1 where c1: "c1 \<in> set (st_cards st)" "cd_id c1 = cd_id c"
      "work_surface d = work_surface c1" "work_surface c1 \<noteq> []"
      using assms(6) by blast
    have "cd_id c1 = cd_id c0" using c1(2) unfolding c0(3) by simp
    with byid [OF c1(1)] byid [OF c0(1)] have "c1 = c0" by (metis option.inject)
    with candidate_other_surface [OF c0(2) byid [OF assms(3)] _ _ assms(4,5)] c1(3,4)
    have "own_lease ?sn c0" by simp
    then have "\<exists>r'. map_of (latest_claims_by_card (st_claims st)) (cd_id c) = Some r' \<and> cl_agent r' = agent
          \<and> claim_blocks_card (Some r') (work_card_claim_ttl cx) now"
      unfolding own_lease_iff by (simp add: c0(3))
    with False show ?thesis by simp
  qed
qed

text \<open>
  C4 (lease_holds). A lease lasts what it says: after an agent claims a card, until the whole second
  \<open>claim_time + ttl\<close> no claim of another agent, whatever has happened to the hypotheses and the
  settings in between, is handed that card, and from that second on the lease no longer blocks it.
\<close>

theorem lease_holds:
  assumes "claim_next_card cx st a mode role True strategy u ex now ct = (Some c, st')"
    and "iso_time (ct + work_card_claim_ttl cx)"
    and "st_claims st2 = st_claims st'" and "b \<noteq> a"
    and "claim_next_card cx2 st2 b mode2 role2 claim2 strategy2 u2 ex2 now2 ct2 = (Some c2, st2')"
    and "cd_id c \<noteq> []"
  shows "(now2 < whole_sec (ct + work_card_claim_ttl cx) \<longrightarrow> cd_id c2 \<noteq> cd_id c)
    \<and> (whole_sec (ct + work_card_claim_ttl cx) \<le> now2 \<longrightarrow>
         \<not> claim_blocks_card (map_of (latest_claims_by_card (st_claims st')) (cd_id c))
             (work_card_claim_ttl cx2) now2)"
proof -
  let ?sn = "claim_snapshot cx st a mode strategy now"
  let ?sn2 = "claim_snapshot cx2 st2 b mode2 strategy2 now2"
  obtain c0 where c0: "c = relabelled ?sn c0"
    "st' = st\<lparr>st_claims := st_claims st @ [claim_row_of ?sn role ct c0]\<rparr>"
    by (rule claim_next_SomeD [OF assms(1)]) (simp add: that)
  have latest: "map_of (latest_claims_by_card (st_claims st')) (cd_id c) = Some (claim_row_of ?sn role ct c0)"
    using assms(6) c0 by (simp add: latest_claims_snoc)
  have blocks: "claim_blocks_card (Some (claim_row_of ?sn role ct c0)) ttl t
      \<longleftrightarrow> t < whole_sec (ct + work_card_claim_ttl cx)" for ttl t
    using claim_row_blocks [of ct ?sn role c0 ttl t] assms(2) by simp
  obtain c1 where c1: "is_candidate ?sn2 u2 c1" "c2 = relabelled ?sn2 c1"
    by (rule claim_next_SomeD [OF assms(5)]) (rule that)
  have "cd_id c2 \<noteq> cd_id c" if "now2 < whole_sec (ct + work_card_claim_ttl cx)"
  proof
    assume eq: "cd_id c2 = cd_id c"
    have "cl_agent (claim_row_of ?sn role ct c0) = sn_agent ?sn2"
      by (rule candidate_other_lease [OF c1(1)])
        (use latest eq c1(2) assms(3) blocks that in simp_all)
    with assms(4) show False by simp
  qed
  then show ?thesis using latest blocks by auto
qed


lemma claim_next_None_iff:
  "fst (claim_next_card cx st agent mode role claim strategy u ex now ct) = None \<longleftrightarrow>
     (\<forall>c \<in> set (st_cards st). \<not> is_candidate (claim_snapshot cx st agent mode strategy now) u c)"
  using offered_Nil_iff [of "claim_snapshot cx st agent mode strategy now" role u ex]
  by (auto simp: claim_next_card_def Let_def build_candidates_def filter_empty_conv split: list.splits)

text \<open>The row \<open>explain_queue\<close> gives a card, over the snapshot a claim would read.\<close>

definition explain_row :: "ctx \<Rightarrow> store \<Rightarrow> string list \<Rightarrow> string \<Rightarrow> int \<Rightarrow> card \<Rightarrow> queue_row" where
  "explain_row cx st modes strategy now c =
     queue_status_row (card_conclusion_counts (st_claims st)) (card_distinct_hypothesis_counts (st_hyps st))
       (map_of (latest_claims_by_card (st_claims st))) (work_card_claim_ttl cx) now
       (fst (active_hypothesis_queue_sets cx (cards_by_id (st_cards st)) (st_hyps st)))
       (fst (snd (active_hypothesis_queue_sets cx (cards_by_id (st_cards st)) (st_hyps st))))
       (fst (claimed_card_queue_sets (cards_by_id (st_cards st)) (latest_claims_by_card (st_claims st))
          (work_card_claim_ttl cx) now))
       (snd (snd (active_hypothesis_queue_sets cx (cards_by_id (st_cards st)) (st_hyps st)))
        @ snd (claimed_card_queue_sets (cards_by_id (st_cards st)) (latest_claims_by_card (st_claims st))
          (work_card_claim_ttl cx) now))
       modes strategy c"

lemma explain_queue_eq: "explain_queue cx st modes strategy now = map (explain_row cx st modes strategy now) (st_cards st)"
  by (simp add: explain_queue_def explain_row_def Let_def split: prod.split)

lemma snapshot_owned_surfaces:
  "sn_owned_surfaces (claim_snapshot cx st agent mode strategy now) =
     fst (snd (active_hypothesis_queue_sets cx (cards_by_id (st_cards st)) (st_hyps st)))
     @ fst (claimed_card_queue_sets (cards_by_id (st_cards st)) (latest_claims_by_card (st_claims st))
          (work_card_claim_ttl cx) now)"
  "sn_active_cards (claim_snapshot cx st agent mode strategy now) =
     fst (active_hypothesis_queue_sets cx (cards_by_id (st_cards st)) (st_hyps st))"
  by (simp_all add: claim_snapshot_def Let_def split: prod.split)

lemma card_strategy_matches_norm:
  "card_strategy_matches c (py_upper (py_strip strategy)) = card_strategy_matches c strategy"
  by (simp add: card_strategy_matches_def Let_def)

lemma candidate_of_eligible:
  assumes "qr_reason (explain_row cx st [mode] strategy now c) = ''eligible''"
  shows "is_candidate (claim_snapshot cx st agent mode strategy now) False c"
proof -
  let ?sn = "claim_snapshot cx st agent mode strategy now"
  let ?lat = "map_of (latest_claims_by_card (st_claims st)) (cd_id c)"
  have a: "is_auditable_work_card c"
    "\<not> card_closed_for_run (card_conclusion_counts (st_claims st)) (card_distinct_hypothesis_counts (st_hyps st))
      c (visible_card_status ?lat (work_card_claim_ttl cx) now)"
    "strategy = [] \<or> card_strategy_matches c strategy"
    "cd_id c \<notin> set (sn_active_cards ?sn)"
    "work_surface c = [] \<or> work_surface c \<notin> set (sn_owned_surfaces ?sn)"
    "visible_card_status ?lat (work_card_claim_ttl cx) now \<noteq> ''claimed''"
    "card_mode_matches (str_or (cd_mode c) ''auto'') mode"
    using assms unfolding snapshot_owned_surfaces
    by (auto simp: explain_row_def queue_status_row_def Let_def split: if_splits option.splits)
  then show ?thesis
    unfolding is_candidate_def Let_def
    by (auto simp: visible_card_status_claimed card_strategy_matches_norm)
qed

lemma eligible_of_candidate:
  assumes c: "is_candidate (claim_snapshot cx st agent mode strategy now) u c"
    and own: "\<not> own_lease (claim_snapshot cx st agent mode strategy now) c"
  shows "qr_reason (explain_row cx st [mode] strategy now c) \<in> {''eligible'', ''claimed-subsystem''}"
proof -
  let ?sn = "claim_snapshot cx st agent mode strategy now"
  note d = is_candidateD [OF c]
  have m: "strategy = [] \<or> card_strategy_matches c strategy"
  proof (cases "py_strip strategy = []")
    case True
    then show ?thesis by (simp add: card_strategy_matches_def Let_def)
  next
    case False
    with d(6) show ?thesis by (simp add: card_strategy_matches_norm)
  qed
  have s: "visible_card_status (map_of (latest_claims_by_card (st_claims st)) (cd_id c))
      (work_card_claim_ttl cx) now \<noteq> ''claimed''"
    using d(3) own by (auto simp: visible_card_status_claimed)
  have w: "work_surface c = [] \<or> work_surface c \<notin> set (sn_owned_surfaces ?sn)"
    using d(4) own by blast
  show ?thesis
    using d(1,2,5,7) m s w unfolding snapshot_owned_surfaces
    by (auto simp: explain_row_def queue_status_row_def Let_def)
qed

text \<open>
  C8 (queue_progress). The queue is not starved: whenever \<open>explain_queue\<close> calls some card eligible
  for the agent's mode and lane, \<open>claim_next_card\<close> hands out a card; the diversity rule and the
  sorts never empty the offer.
\<close>

theorem queue_progress:
  assumes "row \<in> set (explain_queue cx st [mode] strategy now)" "qr_reason row = ''eligible''"
  shows "\<exists>c st'. claim_next_card cx st agent mode role claim strategy False ex now ct = (Some c, st')"
proof -
  obtain c where c: "c \<in> set (st_cards st)" "row = explain_row cx st [mode] strategy now c"
    using assms(1) by (auto simp: explain_queue_eq)
  have "is_candidate (claim_snapshot cx st agent mode strategy now) False c"
    using assms(2) c(2) by (intro candidate_of_eligible) simp
  with c(1) have "fst (claim_next_card cx st agent mode role claim strategy False ex now ct) \<noteq> None"
    by (auto simp: claim_next_None_iff)
  then show ?thesis
    by (cases "claim_next_card cx st agent mode role claim strategy False ex now ct") auto
qed

text \<open>
  Fact (claim_explained). What is handed out is what \<open>explain_queue\<close> says is free: the card a claim
  returns is explained as eligible or as lying in a claimed subsystem (the soft preference), unless
  the agent already holds its lease.
\<close>

theorem claim_explained:
  assumes "claim_next_card cx st agent mode role claim strategy u ex now ct = (Some c, st')"
  shows "\<exists>c0 \<in> set (st_cards st). cd_id c0 = cd_id c
    \<and> (qr_reason (explain_row cx st [mode] strategy now c0) \<in> {''eligible'', ''claimed-subsystem''}
       \<or> (\<exists>r. map_of (latest_claims_by_card (st_claims st)) (cd_id c) = Some r \<and> cl_agent r = agent
            \<and> claim_blocks_card (Some r) (work_card_claim_ttl cx) now))"
proof -
  obtain c0 where c0: "c0 \<in> set (st_cards st)"
    "is_candidate (claim_snapshot cx st agent mode strategy now) u c0"
    "c = relabelled (claim_snapshot cx st agent mode strategy now) c0"
    by (rule claim_next_SomeD [OF assms]) (rule that)
  then show ?thesis
    using eligible_of_candidate [OF c0(2)] by (intro bexI [of _ c0]) (auto simp: own_lease_iff)
qed


subsection \<open>Order of the offer\<close>

lemma hd_sort_key_min:
  assumes "x \<in> set xs"
  shows "f (hd (sort_key f xs)) \<le> f x"
proof -
  have "sorted (map f (sort_key f xs))" by simp
  moreover have "x \<in> set (sort_key f xs)" using assms by simp
  ultimately show ?thesis
    by (cases "sort_key f xs") (auto)
qed

definition hd_own :: "snap \<Rightarrow> card list \<Rightarrow> bool" where
  "hd_own sn xs \<longleftrightarrow> ((\<exists>x \<in> set xs. own_lease sn x) \<longrightarrow> own_lease sn (hd xs))"

lemma hd_own_short: "length xs \<le> 1 \<Longrightarrow> hd_own sn xs"
  by (cases xs) (auto simp: hd_own_def)

lemma hd_own_sort:
  assumes "\<And>c. fst (f c) = (if own_lease sn c then 0 else 1 :: nat)"
  shows "hd_own sn (sort_key f xs)"
  unfolding hd_own_def
proof
  assume "\<exists>x \<in> set (sort_key f xs). own_lease sn x"
  then obtain x where x: "x \<in> set xs" "own_lease sn x" by auto
  have "fst (f (hd (sort_key f xs))) \<le> fst (f x)"
    using hd_sort_key_min [OF x(1), of f] by (auto simp: less_eq_prod_def)
  with x(2) show "own_lease sn (hd (sort_key f xs))"
    by (auto simp: assms split: if_splits)
qed

lemma hd_own_steps:
  "hd_own sn xs \<Longrightarrow> hd_own sn (demote sn ex xs)" "hd_own sn xs \<Longrightarrow> hd_own sn (lane_sort sn xs)"
  "hd_own sn xs \<Longrightarrow> hd_own sn (build_sort sn role xs)"
  by (auto simp: demote_def lane_sort_def build_sort_def intro!: hd_own_sort
      simp: demotion_key_def lane_priority_def buildability_key_def Let_def)

lemma own_lease_in_diversity:
  assumes "c \<in> set cs" "own_lease sn c"
  shows "c \<in> set (apply_diversity sn cs)"
proof -
  have "c \<in> set (filter (diversity_keeps sn) cs)"
    using assms by (simp add: diversity_keeps_def Let_def)
  then show ?thesis
    using assms(2) by (auto simp: apply_diversity_def Let_def)
qed

lemma hd_own_offered:
  assumes "sn_filter sn \<noteq> [] \<or> role = ''reproduce'' \<or> sn_conclusions sn \<noteq> []
     \<or> sn_unreachable sn \<noteq> [] \<or> sn_distinct sn \<noteq> [] \<or> ex \<noteq> []"
  shows "hd_own sn (offered sn role u ex)"
proof -
  define xs where "xs = apply_diversity sn (build_candidates sn u)"
  define ys where "ys = demote sn ex xs"
  define zs where "zs = lane_sort sn ys"
  have o: "offered sn role u ex = build_sort sn role zs"
    by (simp add: offered_def xs_def ys_def zs_def)
  have len: "length ys = length xs" "length zs = length ys"
    by (simp_all add: ys_def zs_def demote_def lane_sort_def)
  show ?thesis
  proof (cases "length xs \<le> 1")
    case True
    then show ?thesis
      unfolding o by (intro hd_own_steps(3) hd_own_short) (simp add: len)
  next
    case False
    consider "role = ''reproduce''" | "sn_filter sn \<noteq> []" | "hd_own sn ys"
    proof (cases "sn_filter sn \<noteq> [] \<or> role = ''reproduce''")
      case False': False
      then have "ys = sort_key (demotion_key sn ex) xs"
        using assms False by (auto simp: ys_def demote_def)
      then have "hd_own sn ys"
        by (simp add: hd_own_sort demotion_key_def Let_def)
      then show thesis by (rule that(3))
    qed (use that in blast)
    then show ?thesis
    proof cases
      case 1
      then have "build_sort sn role zs = sort_key (buildability_key sn) zs"
        using False len by (simp add: build_sort_def)
      then show ?thesis unfolding o by (simp add: hd_own_sort buildability_key_def)
    next
      case 2
      then have "zs = sort_key (lane_priority sn) ys"
        using False len by (simp add: zs_def lane_sort_def)
      then have "hd_own sn zs" by (simp add: hd_own_sort lane_priority_def Let_def)
      then show ?thesis unfolding o by (rule hd_own_steps(3))
    next
      case 3
      then show ?thesis unfolding o zs_def by (intro hd_own_steps)
    qed
  qed
qed

text \<open>
  Fact (claim_resumes_lease). An agent is sent back to its own card: if it holds a live lease on a
  card it may still work, and the offer is sorted at all (a lane is requested, or the role is
  \<open>reproduce\<close>, or any card has been concluded, hypothesised or read), the card handed out is one
  it holds, so no lease is stranded until it expires.
\<close>

theorem claim_resumes_lease:
  assumes "claim_next_card cx st agent mode role claim strategy u ex now ct = (Some c, st')"
    and "d \<in> set (st_cards st)" "is_candidate (claim_snapshot cx st agent mode strategy now) u d"
    and "map_of (latest_claims_by_card (st_claims st)) (cd_id d) = Some r" "cl_agent r = agent"
    and "claim_blocks_card (Some r) (work_card_claim_ttl cx) now"
    and "py_strip strategy \<noteq> [] \<or> role = ''reproduce'' \<or> card_conclusion_counts (st_claims st) \<noteq> []
      \<or> card_distinct_hypothesis_counts (st_hyps st) \<noteq> [] \<or> ex \<noteq> []"
  shows "\<exists>r'. map_of (latest_claims_by_card (st_claims st)) (cd_id c) = Some r' \<and> cl_agent r' = agent
    \<and> claim_blocks_card (Some r') (work_card_claim_ttl cx) now"
proof -
  let ?sn = "claim_snapshot cx st agent mode strategy now"
  obtain c0 where c0: "c = relabelled ?sn c0" "c0 = hd (offered ?sn role u ex)"
    by (rule claim_next_SomeD [OF assms(1)]) (rule that)
  have d: "d \<in> set (build_candidates ?sn u)" "own_lease ?sn d"
    using assms(2-6) by (auto simp: build_candidates_def own_lease_iff)
  have "d \<in> set (offered ?sn role u ex)"
    using own_lease_in_diversity [OF d] by (simp add: offered_def)
  moreover have "hd_own ?sn (offered ?sn role u ex)"
    by (rule hd_own_offered) (use assms(7) in auto)
  ultimately have "own_lease ?sn c0"
    using d(2) c0(2) by (auto simp: hd_own_def)
  then show ?thesis by (simp add: own_lease_iff c0(1))
qed

text \<open>
  Fact (diminishing_returns). Without a requested lane and outside the reproduce role, an agent that
  holds nothing is handed a least-mined card: no candidate the diversity rule keeps has fewer
  recorded outcomes (the larger of conclusions plus unreachable triggers and distinct hypotheses).
\<close>

theorem diminishing_returns:
  assumes "claim_next_card cx st agent mode role claim [] u ex now ct = (Some c, st')"
    and "role \<noteq> ''reproduce''"
    and "d \<in> set (apply_diversity (claim_snapshot cx st agent mode [] now)
                    (build_candidates (claim_snapshot cx st agent mode [] now) u))"
    and "\<not> own_lease (claim_snapshot cx st agent mode [] now) c"
    and "card_conclusion_counts (st_claims st) \<noteq> [] \<or> card_distinct_hypothesis_counts (st_hyps st) \<noteq> []"
  shows "max (get0 (card_conclusion_counts (st_claims st)) (cd_id c)
              + get0 (card_unreachable_rejection_counts (st_hyps st)) (cd_id c))
             (get0 (card_distinct_hypothesis_counts (st_hyps st)) (cd_id c))
       \<le> max (get0 (card_conclusion_counts (st_claims st)) (cd_id d)
              + get0 (card_unreachable_rejection_counts (st_hyps st)) (cd_id d))
             (get0 (card_distinct_hypothesis_counts (st_hyps st)) (cd_id d))
     \<and> \<not> own_lease (claim_snapshot cx st agent mode [] now) d"
proof -
  let ?sn = "claim_snapshot cx st agent mode [] now"
  let ?xs = "apply_diversity ?sn (build_candidates ?sn u)"
  have unr: "sn_unreachable ?sn = card_unreachable_rejection_counts (st_hyps st)"
    by (simp add: claim_snapshot_def Let_def split: prod.split)
  obtain c0 where c0: "c = relabelled ?sn c0" "c0 = hd (offered ?sn role u ex)"
    by (rule claim_next_SomeD [OF assms(1)]) (rule that)
  have o: "offered ?sn role u ex = demote ?sn ex ?xs"
    using assms(2) by (simp add: offered_def build_sort_def lane_sort_def py_upper_def)
  have own: "own_lease ?sn c0 = own_lease ?sn c" by (simp add: own_lease_iff c0(1))
  have le: "demotion_key ?sn ex c0 \<le> demotion_key ?sn ex d"
  proof (cases "1 < length ?xs")
    case True
    then have "offered ?sn role u ex = sort_key (demotion_key ?sn ex) ?xs"
      using o assms(5) by (auto simp: demote_def)
    then show ?thesis using hd_sort_key_min [OF assms(3)] c0(2) by simp
  next
    case False
    then have "?xs = [d]" using assms(3) by (cases ?xs) (auto simp: length_Suc_conv)
    then show ?thesis using o c0(2) by (simp add: demote_def)
  qed
  then show ?thesis
    using assms(4) own
    by (auto simp: demotion_key_def Let_def unr c0(1) less_eq_prod_def less_prod_def split: if_splits)
qed


subsection \<open>The properties at concrete trees\<close>

definition demo_ctx :: ctx where "demo_ctx = \<lparr>cx_env = (\<lambda>_. []), cx_depth = 2\<rparr>"

definition demo_time :: int where "demo_time = 63870000000000000"

definition demo_a :: card where "demo_a = demo_card ''a'' ''s4-campaign'' [] ''built''"

definition demo_b :: card where "demo_b = demo_card ''b'' ''s4-campaign'' [] ''built''"

definition demo_store :: store where "demo_store = store0\<lparr>st_cards := [demo_a, demo_b]\<rparr>"

text \<open>Agent 1 holds the first card; the first card has been worked.\<close>

definition demo_store1 :: store where
  "demo_store1 = demo_store\<lparr>st_claims := [claim0\<lparr>cl_card := ''a'', cl_agent := ''1'',
     cl_status := Some ''claimed'', cl_claimed_at := ''2024-12-17T02:40:00Z'',
     cl_expires_at := ''2024-12-17T03:10:00Z''\<rparr>]\<rparr>"

definition demo_store2 :: store where
  "demo_store2 = demo_store\<lparr>st_hyps := [hyp0\<lparr>hy_id := ''h'', hy_agent := ''1'', hy_card := ''a'',
     hy_hypothesis := ''x'', hy_status := ''DISCARDED''\<rparr>]\<rparr>"

definition demo_snap :: "store \<Rightarrow> string \<Rightarrow> string \<Rightarrow> snap" where
  "demo_snap st agent strategy = claim_snapshot demo_ctx st agent [] strategy demo_time"

lemma demo_offers:
  "offered (demo_snap demo_store ''1'' []) [] False [] = [demo_a, demo_b]"
  "offered (demo_snap demo_store1 ''1'' ''S7'') [] False [] = [demo_a, demo_b]"
  "offered (demo_snap demo_store2 ''1'' []) [] False [] = [demo_b, demo_a]"
  by code_simp+

lemma demo_next:
  assumes "offered (demo_snap st agent strategy) [] False [] = c # cs"
  shows "claim_next_card demo_ctx st agent [] [] claim strategy False [] demo_time demo_time
    = (Some (relabelled (demo_snap st agent strategy) c),
       if claim then st\<lparr>st_claims := st_claims st
         @ [claim_row_of (demo_snap st agent strategy) [] demo_time c]\<rparr> else st)"
  using assms by (simp add: claim_next_card_def demo_snap_def Let_def)

lemma demo_card_fields [simp]: "cd_id demo_a = ''a''" "cd_id demo_b = ''b''"
  by (simp_all add: demo_a_def demo_b_def demo_card_def card0_def)

theorem claim_eligible_witness:
  "\<exists>c0 \<in> set (st_cards demo_store). cd_id c0 = ''a'' \<and> is_auditable_work_card c0"
  using claim_eligible [OF demo_next [OF demo_offers(1), of True]] by auto

theorem claim_explained_witness: "\<exists>c0 \<in> set (st_cards demo_store). cd_id c0 = ''a''"
  using claim_explained [OF demo_next [OF demo_offers(1), of False]] by auto

lemma demo_store1_facts:
  "distinct (map cd_id (st_cards demo_store1))" "demo_a \<in> set (st_cards demo_store1)"
  "map_of (latest_claims_by_card (st_claims demo_store1)) ''a'' = Some (hd (st_claims demo_store1))"
  "cl_agent (hd (st_claims demo_store1)) = ''1''"
  "claim_blocks_card (Some (hd (st_claims demo_store1))) (work_card_claim_ttl demo_ctx) demo_time"
  "is_candidate (claim_snapshot demo_ctx demo_store1 ''1'' [] ''S7'' demo_time) False demo_a"
  by code_simp+

theorem claim_exclusive_witness:
  "\<exists>r. map_of (latest_claims_by_card (st_claims demo_store1)) ''a'' = Some r \<and> cl_agent r = ''1''"
  using claim_exclusive [OF demo_next [OF demo_offers(2), of True] demo_store1_facts(1,2), simplified,
      OF demo_store1_facts(3) demo_store1_facts(5)] by auto

theorem claim_resumes_lease_witness:
  "\<exists>r. map_of (latest_claims_by_card (st_claims demo_store1)) ''a'' = Some r \<and> cl_agent r = ''1''
    \<and> claim_blocks_card (Some r) (work_card_claim_ttl demo_ctx) demo_time"
proof -
  have s: "py_strip ''S7'' \<noteq> []" by code_simp
  show ?thesis
    using claim_resumes_lease [OF demo_next [OF demo_offers(2), of True] demo_store1_facts(2,6), simplified,
        OF demo_store1_facts(3,4,5)] s by auto
qed

text \<open>Agent 2 claims the tree agent 1 has just claimed from.\<close>

definition demo_store3 :: store where
  "demo_store3 = demo_store\<lparr>st_claims := [claim_row_of (demo_snap demo_store ''1'' []) [] demo_time demo_a]\<rparr>"

theorem lease_holds_witness:
  "\<exists>c2. fst (claim_next_card demo_ctx demo_store3 ''2'' [] [] True [] False [] demo_time demo_time) = Some c2
     \<and> cd_id c2 \<noteq> ''a''"
proof -
  have t: "iso_time (demo_time + work_card_claim_ttl demo_ctx)"
    "demo_time < whole_sec (demo_time + work_card_claim_ttl demo_ctx)"
    "offered (demo_snap demo_store3 ''2'' []) [] False [] = [demo_b]"
    by code_simp+
  have "demo_store\<lparr>st_claims := st_claims demo_store
      @ [claim_row_of (demo_snap demo_store ''1'' []) [] demo_time demo_a]\<rparr> = demo_store3"
    by (simp add: demo_store3_def demo_store_def store0_def)
  with lease_holds [OF demo_next [OF demo_offers(1), of True] t(1) _ _ demo_next [OF t(3), of True]] t(2)
  show ?thesis by (simp add: demo_next [OF t(3)])
qed

theorem queue_progress_witness:
  "\<exists>c st'. claim_next_card demo_ctx demo_store ''1'' ''generic'' [] True [] False [] demo_time demo_time
     = (Some c, st')"
proof (rule queue_progress)
  show "hd (explain_queue demo_ctx demo_store [''generic''] [] demo_time)
      \<in> set (explain_queue demo_ctx demo_store [''generic''] [] demo_time)"
    by (simp add: explain_queue_eq demo_store_def)
  show "qr_reason (hd (explain_queue demo_ctx demo_store [''generic''] [] demo_time)) = ''eligible''"
    by code_simp
qed

theorem diminishing_returns_witness:
  "get0 (card_distinct_hypothesis_counts (st_hyps demo_store2)) ''b''
     \<le> max (get0 (card_conclusion_counts (st_claims demo_store2)) ''a''
              + get0 (card_unreachable_rejection_counts (st_hyps demo_store2)) ''a'')
            (get0 (card_distinct_hypothesis_counts (st_hyps demo_store2)) ''a'')"
proof -
  let ?sn = "claim_snapshot demo_ctx demo_store2 ''1'' [] [] demo_time"
  have d: "demo_a \<in> set (apply_diversity ?sn (build_candidates ?sn False))"
    "\<not> own_lease ?sn (relabelled (demo_snap demo_store2 ''1'' []) demo_b)"
    "card_distinct_hypothesis_counts (st_hyps demo_store2) \<noteq> []"
    by code_simp+
  show ?thesis
    using diminishing_returns [OF demo_next [OF demo_offers(3), of True] _ d(1,2)] d(3) by simp
qed

end
