(* ===== verification/Artifacts.thy ===== *)
theory Artifacts
  imports Queue
begin

text \<open>
  Joining filed bundles (crash and finding directories) to the hypotheses that filed them, and the
  three dispositions triage writes back: rejection, folding into a duplicate, and requeueing. What
  a bundle's directory says is a parameter: its name, the hypothesis ids its evidence names
  (\<open>hypotheses_named_in_evidence\<close>) and the SHA-1 digests of its files (\<open>_bundle_file_digests\<close>).
\<close>

record art =
  bd_name :: string
  bd_named :: "string list"
  bd_digests :: "string list"

subsection \<open>How a status names an artifact\<close>

definition TRIAGE_REJECTED_NOTE :: string where
  "TRIAGE_REJECTED_NOTE = ''Triage rejected ''"

definition artifact_status_id :: "string \<Rightarrow> string" where
  "artifact_status_id v =
     (let normalized = py_upper (py_strip v)
      in case re_match artifact_id_re False normalized of
           Some m \<Rightarrow> re_text m | None \<Rightarrow> normalized)"

datatype naming = Full | Bare | Unnamed

definition status_match :: "string \<Rightarrow> string \<Rightarrow> naming" where
  "status_match status artifact_name =
     (let normalized_status = py_upper (py_strip status);
          normalized_artifact = py_upper (re_sub collision_suffix_re False [] (py_strip artifact_name));
          bare = artifact_status_id normalized_status
      in if normalized_status = [] \<or> normalized_artifact = [] then Unnamed
         else if normalized_status = normalized_artifact then Full
         else if bare = normalized_status \<and> bare = artifact_status_id normalized_artifact then Bare
         else Unnamed)"

definition status_names_artifact :: "string \<Rightarrow> string \<Rightarrow> bool" where
  "status_names_artifact status artifact_name \<longleftrightarrow> status_match status artifact_name \<noteq> Unnamed"

subsection \<open>Whose bundle it is\<close>

definition artifact_owner_agent :: "run list \<Rightarrow> art option \<Rightarrow> string list \<Rightarrow> string" where
  "artifact_owner_agent runs bd named =
     (case bd of
        None \<Rightarrow> []
      | Some b \<Rightarrow>
          (case re_match PROBE_CRASH_NAME_RE False (py_upper (bd_name b)) of
             Some m \<Rightarrow> re_group 1 m
           | None \<Rightarrow>
               if named = [] then []
               else
                 (let agents = remdups (map rn_agent (filter (\<lambda>r.
                         py_strip (rn_hyp r) \<in> set named
                         \<and> py_lower (rn_sha1 r) \<in> set (bd_digests b)) runs))
                  in case agents of [a] \<Rightarrow> a | _ \<Rightarrow> [])))"

definition evidence_agents :: "hyp list \<Rightarrow> art option \<Rightarrow> run list \<Rightarrow> string list \<times> bool" where
  "evidence_agents rows bd runs =
     (let named = (case bd of None \<Rightarrow> [] | Some b \<Rightarrow> bd_named b);
          owner = artifact_owner_agent runs bd named
      in if owner \<noteq> [] then ([owner], False)
         else
           (let latest = map snd (latest_by (\<lambda>h. Some (hy_agent h, py_strip (hy_id h))) rows);
                agents = remdups (map hy_agent (filter (\<lambda>h.
                    py_strip (hy_id h) \<in> set named
                    \<and> (is_active_hypothesis_status (hy_status h)
                       \<or> re_match ARTIFACT_STATUS_RE True (py_strip (hy_status h)) \<noteq> None)) latest))
            in if length agents \<le> 1 then (agents, False) else ([], True)))"

text \<open>The latest row of every (agent, id), with its index in the file.\<close>

definition latest_indexed :: "hyp list \<Rightarrow> (nat \<times> hyp) list" where
  "latest_indexed rows = map snd (latest_by (\<lambda>(i, h). hyp_key h) (enumerate 0 rows))"

definition rows_naming_artifact ::
  "(nat \<times> hyp) list \<Rightarrow> (hyp \<Rightarrow> naming) \<Rightarrow> art option \<Rightarrow> run list \<Rightarrow> (nat \<times> hyp) list" where
  "rows_naming_artifact rows how_named bd runs =
     (let bare = filter (\<lambda>(i, h). how_named h = Bare) rows;
          (owners, ambiguous) = evidence_agents (map snd rows) bd runs;
          kept = (if ambiguous then []
                  else if owners \<noteq> [] then filter (\<lambda>(i, h). hy_agent h \<in> set owners) bare
                  else if 1 < length (remdups (map (\<lambda>(i, h). hy_agent h) bare)) then []
                  else bare)
      in filter (\<lambda>(i, h). how_named h = Full \<or> i \<in> set (map fst kept)) rows)"

text \<open>A rewrite of the rows at some indices: the new file and the rows that changed.\<close>

definition rewrite_rows :: "hyp list \<Rightarrow> nat list \<Rightarrow> (hyp \<Rightarrow> hyp) \<Rightarrow> hyp list" where
  "rewrite_rows rows sel f = map (\<lambda>(i, h). if i \<in> set sel then f h else h) (enumerate 0 rows)"

subsection \<open>Dispositions\<close>

definition rejected_hyp :: "string \<Rightarrow> string \<Rightarrow> int \<Rightarrow> hyp \<Rightarrow> hyp" where
  "rejected_hyp reason category now h =
     h\<lparr>hy_status := ''DISCARDED'', hy_updated_at := now_iso now,
       hy_note := py_strip (TRIAGE_REJECTED_NOTE @ py_strip (hy_status h) @ '': '' @ reason),
       hy_rejected := (if category \<noteq> [] then category else hy_rejected h)\<rparr>"

definition record_artifact_rejection ::
  "store \<Rightarrow> string \<Rightarrow> string \<Rightarrow> string \<Rightarrow> art option \<Rightarrow> int \<Rightarrow> hyp list \<times> store" where
  "record_artifact_rejection st artifact_name reason category bd now =
     (if artifact_status_id artifact_name = [] then ([], st)
      else
        (let sel = rows_naming_artifact (latest_indexed (st_hyps st))
                     (\<lambda>h. status_match (hy_status h) artifact_name) bd (st_runs st)
         in (map (\<lambda>(i, h). rejected_hyp reason category now h) sel,
             st\<lparr>st_hyps := rewrite_rows (st_hyps st) (map fst sel) (rejected_hyp reason category now)\<rparr>)))"

definition folded_hyp :: "string \<Rightarrow> string \<Rightarrow> string \<Rightarrow> int \<Rightarrow> hyp \<Rightarrow> hyp" where
  "folded_hyp artifact_name owner reason now h =
     h\<lparr>hy_status := owner, hy_updated_at := now_iso now,
       hy_note := ''Triage folded '' @ artifact_name @ '' into '' @ owner @ '': '' @ reason\<rparr>"

definition record_artifact_duplicate ::
  "store \<Rightarrow> string \<Rightarrow> string \<Rightarrow> string \<Rightarrow> art option \<Rightarrow> int \<Rightarrow> hyp list \<times> store" where
  "record_artifact_duplicate st artifact_name owner reason bd now =
     (if artifact_status_id artifact_name = [] then ([], st)
      else
        (let named = (case bd of None \<Rightarrow> [] | Some b \<Rightarrow> bd_named b);
             latest = latest_indexed (st_hyps st);
             filed = map fst (rows_naming_artifact latest
                       (\<lambda>h. status_match (hy_status h) artifact_name) bd (st_runs st));
             (owners, ambiguous) = evidence_agents (map snd latest) bd (st_runs st);
             still_open = (\<lambda>h. py_strip (hy_id h) \<in> set named \<and> \<not> ambiguous
                            \<and> (owners = [] \<or> hy_agent h \<in> set owners)
                            \<and> is_active_hypothesis_status (py_strip (hy_status h)));
             sel = filter (\<lambda>(i, h). i \<in> set filed \<or> still_open h) latest
         in (map (\<lambda>(i, h). folded_hyp artifact_name owner reason now h) sel,
             st\<lparr>st_hyps := rewrite_rows (st_hyps st) (map fst sel)
                  (folded_hyp artifact_name owner reason now)\<rparr>)))"

definition rejected_status :: "hyp \<Rightarrow> string" where
  "rejected_status h =
     (if py_upper (py_strip (hy_status h)) \<noteq> ''DISCARDED'' then []
      else (case re_match rejected_note_re True (py_strip (hy_note h)) of
              Some m \<Rightarrow> re_group 1 m | None \<Rightarrow> []))"

definition requeued_hyp :: "string \<Rightarrow> int \<Rightarrow> hyp \<Rightarrow> hyp" where
  "requeued_hyp reason now h =
     h\<lparr>hy_status := rejected_status h, hy_updated_at := now_iso now,
       hy_note := py_strip (''Triage requeued '' @ rejected_status h @ '': '' @ reason),
       hy_rejected := []\<rparr>"

definition record_artifact_reconsideration ::
  "store \<Rightarrow> string \<Rightarrow> string \<Rightarrow> art option \<Rightarrow> int \<Rightarrow> hyp list \<times> store" where
  "record_artifact_reconsideration st artifact_name reason bd now =
     (if artifact_status_id artifact_name = [] then ([], st)
      else
        (let sel = rows_naming_artifact (latest_indexed (st_hyps st))
                     (\<lambda>h. status_match (rejected_status h) artifact_name) bd (st_runs st)
         in (map (\<lambda>(i, h). requeued_hyp reason now h) sel,
             st\<lparr>st_hyps := rewrite_rows (st_hyps st) (map fst sel) (requeued_hyp reason now)\<rparr>)))"

definition crash_origin_from_hyps :: "hyp list \<Rightarrow> string \<Rightarrow> hyp option" where
  "crash_origin_from_hyps hyps crash_id =
     (let cid_target = py_strip crash_id
      in if cid_target = [] then None
         else
           (let cid_norm = py_upper cid_target;
                latest = map snd (latest_by (\<lambda>h. some_key (py_strip (hy_id h))) hyps)
            in find (\<lambda>h. let status = py_upper (py_strip (hy_status h))
                         in status = cid_norm \<or> py_startswith (cid_norm @ '' '') status) latest))"

subsection \<open>Accepted artifacts\<close>

text \<open>The rows an accepted artifact's evidence closes: \<open>open_rows\<close>, over the whole history.\<close>

definition open_rows :: "hyp list \<Rightarrow> art \<Rightarrow> run list \<Rightarrow> nat list" where
  "open_rows rows b runs =
     (let (owners, ambiguous) = evidence_agents rows (Some b) runs
      in if ambiguous then []
         else map fst (filter (\<lambda>(i, h). py_strip (hy_id h) \<in> set (bd_named b)
                \<and> (owners = [] \<or> hy_agent h \<in> set owners)
                \<and> is_active_hypothesis_status (hy_status h)) (enumerate 0 rows)))"

definition accepted_hyp :: "art \<Rightarrow> int \<Rightarrow> hyp \<Rightarrow> hyp" where
  "accepted_hyp b now h =
     (let closure = ''closed by triage: '' @ bd_name b @ '' accepted with this hypothesis in its evidence header''
      in h\<lparr>hy_status := bd_name b, hy_updated_at := now_iso now,
           hy_note := (if hy_note h \<noteq> [] then hy_note h @ ''; '' @ closure else closure)\<rparr>)"

definition reconcile_artifact_hypotheses :: "store \<Rightarrow> art \<Rightarrow> int \<Rightarrow> string list \<times> store" where
  "reconcile_artifact_hypotheses st b now =
     (if bd_named b = [] then ([], st)
      else
        (let sel = open_rows (st_hyps st) b (st_runs st)
         in (foldl (\<lambda>ids i. let h = st_hyps st ! i in if hy_id h \<in> set ids then ids else ids @ [hy_id h])
               [] sel,
             st\<lparr>st_hyps := rewrite_rows (st_hyps st) sel (accepted_hyp b now)\<rparr>)))"

text \<open>Python's \<open>max\<close> with a key: the first row with the largest key.\<close>

fun max_by :: "('a \<Rightarrow> 'b::linorder) \<Rightarrow> 'a \<Rightarrow> 'a list \<Rightarrow> 'a" where
  "max_by f best [] = best"
| "max_by f best (x # xs) = max_by f (if f best < f x then x else best) xs"

definition artifact_prefix :: "string \<Rightarrow> string" where
  "artifact_prefix terminal =
     (if terminal = ''find'' then ''FIND-'' else if terminal = ''crash'' then ''CRASH-'' else [])"

definition accepted_how_named :: "string \<Rightarrow> string \<Rightarrow> hyp \<Rightarrow> naming" where
  "accepted_how_named pre artifact h =
     (let status = py_upper (py_strip (hy_status h))
      in if \<not> py_startswith pre status \<or> hy_card h = [] then Unnamed
         else if py_upper artifact = status then Full
         else if py_startswith (status @ ''-'') (py_upper artifact) then Bare else Unnamed)"

definition accepted_claim_row :: "hyp \<Rightarrow> string \<Rightarrow> string \<Rightarrow> int \<Rightarrow> claim" where
  "accepted_claim_row origin artifact terminal now =
     claim0\<lparr>cl_card := hy_card origin, cl_agent := hy_agent origin, cl_hyp := hy_id origin,
       cl_artifact := artifact, cl_status := Some terminal, cl_source := ''accepted-artifact'',
       cl_updated_at := now_iso now\<rparr>"

definition record_accepted_artifact_card ::
  "store \<Rightarrow> string \<Rightarrow> string \<Rightarrow> art option \<Rightarrow> int \<Rightarrow> bool \<times> store" where
  "record_accepted_artifact_card st artifact_id kind bd now =
     (let artifact = py_strip artifact_id;
          terminal = py_lower (py_strip kind);
          pre = artifact_prefix terminal
      in if artifact = [] \<or> pre = [] \<or> \<not> py_startswith pre (py_upper artifact) then (False, st)
         else
           (case map snd (rows_naming_artifact (latest_indexed (st_hyps st))
                    (accepted_how_named pre artifact) bd (st_runs st)) of
              [] \<Rightarrow> (False, st)
            | m # ms \<Rightarrow>
                (let origin = max_by (\<lambda>h. str_or (hy_updated_at h) (hy_created_at h)) m ms
                 in if list_ex (\<lambda>r. cl_source r = ''accepted-artifact'' \<and> cl_artifact r = artifact)
                         (st_claims st) then (False, st)
                    else if list_ex (\<lambda>r. cl_source r \<noteq> ''accepted-artifact'' \<and> cl_card r = hy_card origin
                              \<and> cl_agent r = hy_agent origin \<and> cl_st r = terminal) (st_claims st)
                         then (False, st)
                    else (True, st\<lparr>st_claims := st_claims st
                                  @ [accepted_claim_row origin artifact terminal now]\<rparr>))))"


subsection \<open>Rows and rewrites\<close>

lemma length_rewrite_rows [simp]: "length (rewrite_rows rows sel f) = length rows"
  by (simp add: rewrite_rows_def)

lemma nth_rewrite_rows:
  "i < length rows \<Longrightarrow> rewrite_rows rows sel f ! i = (if i \<in> set sel then f (rows ! i) else rows ! i)"
  by (simp add: rewrite_rows_def nth_enumerate_eq)

lemma latest_indexed_iff:
  "(i, h) \<in> set (latest_indexed rows) \<longleftrightarrow>
     i < length rows \<and> h = rows ! i \<and> hyp_key h \<noteq> None
     \<and> (\<forall>j < length rows. i < j \<longrightarrow> hyp_key (rows ! j) \<noteq> hyp_key h)"
proof -
  have "(i, h) \<in> set (latest_indexed rows) \<longleftrightarrow>
      (\<exists>k. map_of (latest_by (\<lambda>(i, h). hyp_key h) (enumerate 0 rows)) k = Some (i, h))"
    unfolding latest_indexed_def by (force simp: map_of_eq_Some_iff image_iff)
  then show ?thesis unfolding map_of_latest_enumerate by auto
qed

lemma lower_upper_colon [simp]: "lower_char c = CHR '':'' \<longleftrightarrow> c = CHR '':''"
  "upper_char c = CHR '':'' \<longleftrightarrow> c = CHR '':''"
proof -
  have n: "(of_char CHR '':'' :: nat) = 58" by simp
  have "lower_char c \<noteq> CHR '':''" if "65 \<le> (of_char c :: nat)" "(of_char c :: nat) \<le> 90"
  proof
    assume "lower_char c = CHR '':''"
    then have "(of_char (char_of (of_char c + 32 :: nat)) :: nat) = 58"
      using that n by (simp add: lower_char_def Let_def)
    with that show False by simp
  qed
  then show "lower_char c = CHR '':'' \<longleftrightarrow> c = CHR '':''" by (auto simp: lower_char_def Let_def)
  have "upper_char c \<noteq> CHR '':''" if "97 \<le> (of_char c :: nat)" "(of_char c :: nat) \<le> 122"
  proof
    assume "upper_char c = CHR '':''"
    then have "(of_char (char_of (of_char c - 32 :: nat)) :: nat) = 58"
      using that n by (simp add: upper_char_def Let_def)
    with that show False by simp
  qed
  then show "upper_char c = CHR '':'' \<longleftrightarrow> c = CHR '':''" by (auto simp: upper_char_def Let_def)
qed

lemma py_space_lower [simp]: "py_space (lower_char c) = py_space c"
  by (auto simp: py_space_def lower_char_def Let_def)

lemma set_ok_spaces [simp]:
  "set_ok ic False [CSpc] = py_space" "set_ok ic False [CNSpc] = (\<lambda>c. \<not> py_space c)"
  by (auto simp: set_ok_def fun_eq_iff)

text \<open>The status a rejection note records is read back from it.\<close>

lemma rejected_note_match:
  assumes s: "s \<noteq> []" "\<And>c. c \<in> set s \<Longrightarrow> \<not> py_space c \<and> c \<noteq> CHR '':''"
  shows "map_option (re_group 1)
     (re_match rejected_note_re True (TRIAGE_REJECTED_NOTE @ s @ CHR '':'' # rest)) = Some s"
proof -
  define T where "T = ''Triage rejected''"
  define suf where "suf = s @ CHR '':'' # rest"
  define pre where "pre = CHR '' '' # rev T"
  define L where "L = length (takeWhile (\<lambda>c. \<not> py_space c) suf)"
  define F where "F st = concat (map (rxm (rstr '':'') True) (rxm (rstar (rset [CSpc])) True st))" for st
  have sp: "py_space CHR '' ''" "\<not> py_space CHR '':''" by code_simp+
  have nt: "TRIAGE_REJECTED_NOTE @ s @ CHR '':'' # rest = T @ CHR '' '' # suf"
    by (simp add: TRIAGE_REJECTED_NOTE_def T_def suf_def)
  have h: "\<not> py_space (hd suf)" "suf \<noteq> []" using s by (cases s; simp add: suf_def)+
  have blank: "takeWhile py_space (CHR '' '' # suf) = [CHR '' '']"
    using h sp by (cases suf) auto
  have m1: "rxm (rplus (rset [CSpc])) True (rev T, CHR '' '' # suf, []) = [(pre, suf, [])]"
    unfolding rxm_class set_ok_spaces blank by (simp add: pre_def)
  have F_lt: "F (p, drop n suf, caps) = []" if "n < length s" for p n caps
  proof -
    have d: "drop n suf = s ! n # drop (Suc n) suf"
      using that by (simp add: suf_def Cons_nth_drop_Suc [symmetric] nth_append)
    have "\<not> py_space (s ! n)" "s ! n \<noteq> CHR '':''" using s(2) that by simp_all
    then show ?thesis unfolding F_def d rxm_class set_ok_spaces by (simp add: set_ok_def)
  qed
  have F_eq: "F (p, drop (length s) suf, caps) = [(CHR '':'' # p, rest, caps)]" for p caps
  proof -
    have d: "drop (length s) suf = CHR '':'' # rest" by (simp add: suf_def)
    show ?thesis unfolding F_def d rxm_class set_ok_spaces using sp by (simp add: set_ok_def)
  qed
  have L: "length s < Suc L" "1 \<le> length s"
    using s sp by (simp_all add: L_def suf_def takeWhile_append2 Suc_le_eq)
  have split: "[1 ..< Suc L] = [1 ..< length s] @ length s # [Suc (length s) ..< Suc L]"
    using upt_add_eq_append [of 1 "length s" "Suc L - length s"] L
    by (simp add: upt_conv_Cons del: upt_Suc)
  let ?grp = "rxm (RGrp 1 (RRep False 1 None (rset [CNSpc]))) True (pre, suf, [])"
  have seq: "rxm (RSeq a b) True st = concat (map (rxm b True) (rxm a True st))" for a b st
    by simp
  have F: "F = rxm (RSeq (rstar (rset [CSpc])) (rstr '':'')) True"
    by (simp only: fun_eq_iff F_def seq) simp
  have bos: "rxm RBos True ([], xs, caps) = [([], xs, caps)]" for xs caps by simp
  have lit: "rxm (rstr ''Triage rejected'') True ([], T @ xs, caps) = [(rev T @ [], xs, caps)]" for xs caps
    unfolding T_def by (rule rxm_rstr)
  have "rxm rejected_note_re True ([], T @ CHR '' '' # suf, []) = concat (map F ?grp)"
    unfolding rejected_note_re_def rseq.simps
    by (simp only: seq bos lit m1 F append_Nil2 list.map concat.simps)
  also have "?grp = map (\<lambda>n. (rev (take n suf) @ pre, drop n suf, [(1, take n suf)])) [1 ..< Suc L]"
  proof -
    have t: "take (length suf - (length suf - n)) suf = take n suf" for n by (cases "n \<le> length suf") auto
    have cls: "rxm (RRep False 1 None (rset [CNSpc])) True (pre, suf, []) =
        map (\<lambda>n. (rev (take n suf) @ pre, drop n suf, [])) [1 ..< Suc L]"
      unfolding rxm_class set_ok_spaces L_def by simp
    have grp: "rxm (RGrp 1 r) True (pre, suf, []) =
        map (\<lambda>(p, s', c). (p, s', AList.update 1 (take (length suf - length s') suf) c))
          (rxm r True (pre, suf, []))" for r
      by simp
    show ?thesis unfolding grp cls by (simp add: t del: upt_Suc)
  qed
  finally have m0: "rxm rejected_note_re True ([], T @ CHR '' '' # suf, []) =
      concat (map F (map (\<lambda>n. (rev (take n suf) @ pre, drop n suf, [(1, take n suf)])) [1 ..< Suc L]))" .
  have z: "concat (map F (map (\<lambda>n. (rev (take n suf) @ pre, drop n suf, [(1, take n suf)])) [1 ..< length s])) = []"
    using F_lt by simp
  have ts: "take (length s) suf = s" by (simp add: suf_def)
  have m: "rxm rejected_note_re True ([], T @ CHR '' '' # suf, []) =
      (CHR '':'' # rev s @ pre, rest, [(1, s)])
        # concat (map F (map (\<lambda>n. (rev (take n suf) @ pre, drop n suf, [(1, take n suf)]))
            [Suc (length s) ..< Suc L]))"
    unfolding m0 split map_append concat_append z list.map concat.simps F_eq ts by simp
  show ?thesis
    unfolding nt re_match_def hit_at_def m by (simp add: re_group_def)
qed


subsection \<open>What the dispositions touch\<close>

lemma rows_naming_artifactD:
  assumes "(i, h) \<in> set (rows_naming_artifact rows how bd runs)" "distinct (map fst rows)"
  shows "(i, h) \<in> set rows" "how h \<noteq> Unnamed"
    "how h = Bare \<Longrightarrow> evidence_agents (map snd rows) bd runs = (os, amb) \<Longrightarrow>
       \<not> amb \<and> (os \<noteq> [] \<longrightarrow> hy_agent h \<in> set os)"
proof -
  define bare where "bare = filter (\<lambda>(i, h). how h = Bare) rows"
  define kept where "kept os amb = (if amb then []
    else if os \<noteq> [] then filter (\<lambda>(i, h). hy_agent h \<in> set os) bare
    else if 1 < length (remdups (map (\<lambda>(i, h). hy_agent h) bare)) then [] else bare)"
    for os amb
  obtain os' amb' where e: "evidence_agents (map snd rows) bd runs = (os', amb')"
    by (cases "evidence_agents (map snd rows) bd runs")
  have "rows_naming_artifact rows how bd runs =
      filter (\<lambda>(i, h). how h = Full \<or> i \<in> set (map fst (kept os' amb'))) rows"
    unfolding rows_naming_artifact_def Let_def e kept_def bare_def prod.case by (rule refl)
  then have mem: "(i, h) \<in> set rows" "how h = Full \<or> i \<in> fst ` set (kept os' amb')"
    using assms(1) by auto
  then show "(i, h) \<in> set rows" by simp
  have row: "(i, h) \<in> set (kept os' amb')" if k: "i \<in> fst ` set (kept os' amb')"
  proof -
    obtain g where g: "(i, g) \<in> set (kept os' amb')" using k by auto
    then have "(i, g) \<in> set rows" by (auto simp: kept_def bare_def split: if_splits)
    with mem(1) assms(2) have "g = h" by (meson eq_key_imp_eq_value)
    with g show ?thesis by simp
  qed
  have keptD: "how h = Bare \<and> \<not> amb' \<and> (os' \<noteq> [] \<longrightarrow> hy_agent h \<in> set os')"
    if "(i, h) \<in> set (kept os' amb')"
    using that by (auto simp: kept_def bare_def split: if_splits)
  have c: "how h = Full \<or> how h = Bare \<and> \<not> amb' \<and> (os' \<noteq> [] \<longrightarrow> hy_agent h \<in> set os')"
    using mem(2) row keptD by blast
  then show "how h \<noteq> Unnamed" by auto
  show "\<not> amb \<and> (os \<noteq> [] \<longrightarrow> hy_agent h \<in> set os)"
    if "how h = Bare" "evidence_agents (map snd rows) bd runs = (os, amb)"
    using that c e by auto
qed

lemma rows_naming_full:
  "(i, h) \<in> set rows \<Longrightarrow> how h = Full \<Longrightarrow> (i, h) \<in> set (rows_naming_artifact rows how bd runs)"
  by (cases "evidence_agents (map snd rows) bd runs") (simp add: rows_naming_artifact_def Let_def)

lemma distinct_latest_indexed: "distinct (map fst (latest_indexed rows))"
proof -
  let ?L = "latest_by (\<lambda>(i, h). hyp_key h) (enumerate 0 rows)"
  have "inj_on (fst \<circ> snd) (set ?L)"
  proof (rule inj_onI)
    fix x y
    assume x: "x \<in> set ?L" and y: "y \<in> set ?L" and eq: "(fst \<circ> snd) x = (fst \<circ> snd) y"
    have key: "hyp_key (rows ! fst (snd z)) = Some (fst z) \<and> snd (snd z) = rows ! fst (snd z)"
      if "z \<in> set ?L" for z
      using that map_of_latest_enumerate [of hyp_key rows "fst z" "fst (snd z)" "snd (snd z)"]
      by (auto simp: map_of_eq_Some_iff)
    show "x = y" using key [OF x] key [OF y] eq by (simp add: prod_eq_iff)
  qed
  moreover have "distinct ?L"
    using distinct_latest_by [of "\<lambda>(i, h). hyp_key h"] by (rule distinct_map [THEN iffD1, THEN conjunct1])
  ultimately show ?thesis by (simp add: latest_indexed_def distinct_map)
qed

lemma rejected_hyp_key [simp]:
  "hyp_key (rejected_hyp reason category now h) = hyp_key h"
  "hy_agent (rejected_hyp reason category now h) = hy_agent h"
  "hy_status (rejected_hyp reason category now h) = ''DISCARDED''"
  by (simp_all add: rejected_hyp_def hyp_key_def)

text \<open>A rejected row remembers the status it had.\<close>

lemma rejected_status_of_rejected:
  assumes "py_strip (hy_status h) = s" "s \<noteq> []" "\<And>c. c \<in> set s \<Longrightarrow> \<not> py_space c \<and> c \<noteq> CHR '':''"
  shows "rejected_status (rejected_hyp reason category now h) = s"
proof -
  have "hd (TRIAGE_REJECTED_NOTE @ s @ '':'') = CHR ''T''"
    "last (TRIAGE_REJECTED_NOTE @ s @ '':'') = CHR '':''"
    by (simp_all add: TRIAGE_REJECTED_NOTE_def)
  moreover have "\<not> py_space CHR ''T''" "\<not> py_space CHR '':''" by code_simp+
  ultimately obtain rest where "py_strip ((TRIAGE_REJECTED_NOTE @ s @ '':'') @ '' '' @ reason)
      = (TRIAGE_REJECTED_NOTE @ s @ '':'') @ rest"
    using py_strip_prefix [of "TRIAGE_REJECTED_NOTE @ s @ '':''" "'' '' @ reason"] by auto
  then have n: "py_strip (hy_note (rejected_hyp reason category now h))
      = TRIAGE_REJECTED_NOTE @ s @ CHR '':'' # rest"
    using assms(1) by (simp add: rejected_hyp_def) (metis py_strip_idem)
  have "py_upper (py_strip ''DISCARDED'') = ''DISCARDED''" by code_simp
  then show ?thesis
    using rejected_note_match [OF assms(2,3), of rest]
    unfolding rejected_status_def n rejected_hyp_key by (auto split: option.splits)
qed

lemma status_match_strip [simp]: "status_match (py_strip v) name = status_match v name"
  by (simp add: status_match_def)

subsection \<open>Properties\<close>

text \<open>
  Fact (rejection_scope). A rejection is artifact-scoped: a row it changes is the latest row of its
  hypothesis, its status names the artifact, it becomes DISCARDED, and if the bundle's owner is
  proven a row of another agent changes only when its status carries the artifact's full name.
\<close>

theorem rejection_scope:
  assumes "record_artifact_rejection st name reason category bd now = (changed, st')"
    and "i < length (st_hyps st)" "st_hyps st' ! i \<noteq> st_hyps st ! i"
  shows "length (st_hyps st') = length (st_hyps st)
    \<and> status_names_artifact (hy_status (st_hyps st ! i)) name
    \<and> hy_status (st_hyps st' ! i) = ''DISCARDED''
    \<and> (\<forall>j < length (st_hyps st). i < j \<longrightarrow> hyp_key (st_hyps st ! j) \<noteq> hyp_key (st_hyps st ! i))
    \<and> (\<forall>b. bd = Some b \<and> artifact_owner_agent (st_runs st) bd (bd_named b) \<noteq> []
          \<and> hy_agent (st_hyps st ! i) \<noteq> artifact_owner_agent (st_runs st) bd (bd_named b) \<longrightarrow>
          status_match (hy_status (st_hyps st ! i)) name = Full)"
proof -
  define sel where "sel = rows_naming_artifact (latest_indexed (st_hyps st))
    (\<lambda>h. status_match (hy_status h) name) bd (st_runs st)"
  have st': "st_hyps st' = rewrite_rows (st_hyps st) (map fst sel) (rejected_hyp reason category now)"
    using assms by (auto simp: record_artifact_rejection_def sel_def Let_def split: if_splits)
  then have "i \<in> fst ` set sel" and new: "st_hyps st' ! i = rejected_hyp reason category now (st_hyps st ! i)"
    using assms(2,3) by (auto simp: nth_rewrite_rows split: if_splits)
  then obtain h where h: "(i, h) \<in> set sel" by auto
  note d = rows_naming_artifactD [OF h [unfolded sel_def] distinct_latest_indexed]
  have hi: "h = st_hyps st ! i"
    "\<forall>j < length (st_hyps st). i < j \<longrightarrow> hyp_key (st_hyps st ! j) \<noteq> hyp_key (st_hyps st ! i)"
    using d(1) by (auto simp: latest_indexed_iff)
  have "status_match (hy_status h) name = Full"
    if "bd = Some b" "artifact_owner_agent (st_runs st) bd (bd_named b) \<noteq> []"
      "hy_agent h \<noteq> artifact_owner_agent (st_runs st) bd (bd_named b)" for b
  proof -
    have "evidence_agents (map snd (latest_indexed (st_hyps st))) bd (st_runs st)
        = ([artifact_owner_agent (st_runs st) bd (bd_named b)], False)"
      using that by (simp add: evidence_agents_def Let_def)
    then show ?thesis
      using d(2,3) that by (cases "status_match (hy_status h) name") auto
  qed
  then show ?thesis
    using d(2) hi st' new by (auto simp: status_names_artifact_def)
qed

text \<open>
  C31 (requeue_undoes_rejection). Reconsidering a rejected artifact restores what the rejection
  replaced: a hypothesis whose status carried the artifact's full name has that status (without
  surrounding blanks) again, and no rejection category.
\<close>

theorem requeue_undoes_rejection:
  assumes "record_artifact_rejection st name reason category bd now = (changed, st1)"
    and "record_artifact_reconsideration st1 name reason2 bd now2 = (changed2, st2)"
    and "artifact_status_id name \<noteq> []"
    and "(i, h) \<in> set (latest_indexed (st_hyps st))" "status_match (hy_status h) name = Full"
    and "\<forall>c \<in> set (py_strip (hy_status h)). \<not> py_space c \<and> c \<noteq> CHR '':''"
  shows "hy_status (st_hyps st1 ! i) = ''DISCARDED''
    \<and> hy_status (st_hyps st2 ! i) = py_strip (hy_status h) \<and> hy_rejected (st_hyps st2 ! i) = []
    \<and> hy_id (st_hyps st2 ! i) = hy_id h \<and> hy_agent (st_hyps st2 ! i) = hy_agent h"
proof -
  define sel1 where "sel1 = rows_naming_artifact (latest_indexed (st_hyps st))
    (\<lambda>h. status_match (hy_status h) name) bd (st_runs st)"
  have st1: "st_hyps st1 = rewrite_rows (st_hyps st) (map fst sel1) (rejected_hyp reason category now)"
    using assms(1,3) by (auto simp: record_artifact_rejection_def sel1_def Let_def)
  have i: "i < length (st_hyps st)" "h = st_hyps st ! i" "hyp_key h \<noteq> None"
    "\<forall>j < length (st_hyps st). i < j \<longrightarrow> hyp_key (st_hyps st ! j) \<noteq> hyp_key h"
    using assms(4) by (auto simp: latest_indexed_iff)
  have "(i, h) \<in> set sel1" unfolding sel1_def by (rule rows_naming_full) (use assms in simp_all)
  then have "i \<in> fst ` set sel1" by (metis fst_conv image_eqI)
  then have h1: "st_hyps st1 ! i = rejected_hyp reason category now h"
    using i by (simp add: st1 nth_rewrite_rows)
  have keys: "hyp_key (st_hyps st1 ! j) = hyp_key (st_hyps st ! j)" if "j < length (st_hyps st)" for j
    using that by (simp add: st1 nth_rewrite_rows)
  have s: "py_strip (hy_status h) \<noteq> []"
    using assms(5) by (auto simp: status_match_def Let_def split: if_splits)
  have rs: "rejected_status (st_hyps st1 ! i) = py_strip (hy_status h)"
    unfolding h1 by (rule rejected_status_of_rejected) (use s assms(6) in auto)
  have l1: "(i, st_hyps st1 ! i) \<in> set (latest_indexed (st_hyps st1))"
    using i keys by (simp add: latest_indexed_iff) (simp add: st1)
  define sel2 where "sel2 = rows_naming_artifact (latest_indexed (st_hyps st1))
    (\<lambda>h. status_match (rejected_status h) name) bd (st_runs st1)"
  have st2: "st_hyps st2 = rewrite_rows (st_hyps st1) (map fst sel2) (requeued_hyp reason2 now2)"
    using assms(2,3) by (auto simp: record_artifact_reconsideration_def sel2_def Let_def)
  have "(i, st_hyps st1 ! i) \<in> set sel2"
    unfolding sel2_def by (rule rows_naming_full [OF l1]) (simp add: rs assms(5))
  then have "i \<in> fst ` set sel2" by (metis fst_conv image_eqI)
  then have "st_hyps st2 ! i = requeued_hyp reason2 now2 (st_hyps st1 ! i)"
    using i(1) by (simp add: st2 nth_rewrite_rows st1)
  then show ?thesis
    using rs by (simp add: requeued_hyp_def h1) (simp add: rejected_hyp_def)
qed


text \<open>
  Fact (accepted_artifact_once). An accepted artifact is one conclusion: the call that records it adds
  exactly one productive conclusion, to the card of a hypothesis row, and once it is on record no
  later call for the same artifact, whatever has been appended since, adds another.
\<close>

theorem accepted_artifact_once:
  assumes "record_accepted_artifact_card st aid kind bd now = (True, st1)"
  shows "(\<exists>h \<in> set (st_hyps st). hy_card h \<noteq> [] \<and> st_hyps st1 = st_hyps st
      \<and> (\<forall>cid. get0 (card_conclusion_counts (st_claims st1)) cid =
           get0 (card_conclusion_counts (st_claims st)) cid + (if cid = hy_card h then 1 else 0)))
    \<and> (\<forall>st2 bd2 now2. set (st_claims st1) \<subseteq> set (st_claims st2) \<longrightarrow>
         record_accepted_artifact_card st2 aid kind bd2 now2 = (False, st2))"
proof -
  define artifact where "artifact = py_strip aid"
  define terminal where "terminal = py_lower (py_strip kind)"
  define rows where "rows = rows_naming_artifact (latest_indexed (st_hyps st))
    (accepted_how_named (artifact_prefix terminal) artifact) bd (st_runs st)"
  obtain m ms where m: "map snd rows = m # ms"
    using assms by (auto simp: record_accepted_artifact_card_def Let_def artifact_def [symmetric]
        terminal_def [symmetric] rows_def [symmetric] split: if_splits list.splits)
  define origin where "origin = max_by (\<lambda>h. str_or (hy_updated_at h) (hy_created_at h)) m ms"
  have st1: "st1 = st\<lparr>st_claims := st_claims st @ [accepted_claim_row origin artifact terminal now]\<rparr>"
    and guards: "artifact \<noteq> []" "artifact_prefix terminal \<noteq> []"
    using assms m
    by (auto simp: record_accepted_artifact_card_def Let_def artifact_def [symmetric]
        terminal_def [symmetric] rows_def [symmetric] origin_def [symmetric] split: if_splits)
  have "max_by f x xs \<in> set (x # xs)" for f :: "hyp \<Rightarrow> string" and x xs
    by (induction f x xs rule: max_by.induct) auto
  then have "origin \<in> set (map snd rows)" unfolding origin_def m by blast
  then obtain i where i: "(i, origin) \<in> set rows" by auto
  note d = rows_naming_artifactD [OF i [unfolded rows_def] distinct_latest_indexed]
  have origin: "origin \<in> set (st_hyps st)" "hy_card origin \<noteq> []"
    using d(1,2) by (auto simp: latest_indexed_iff accepted_how_named_def Let_def split: if_splits)
  have t: "terminal \<in> set PRODUCTIVE_TERMINAL_CARD_STATUSES"
    using guards(2) by (auto simp: artifact_prefix_def card_status_defs split: if_splits)
  have "get0 (card_conclusion_counts (st_claims st1)) cid =
      get0 (card_conclusion_counts (st_claims st)) cid + (if cid = hy_card origin then 1 else 0)" for cid
    unfolding get0_conclusion_counts st1 using t origin(2)
    by (simp add: accepted_claim_row_def claim0_def cl_st_def)
  moreover have "record_accepted_artifact_card st2 aid kind bd2 now2 = (False, st2)"
    if "set (st_claims st1) \<subseteq> set (st_claims st2)" for st2 bd2 now2
  proof -
    have "list_ex (\<lambda>r. cl_source r = ''accepted-artifact'' \<and> cl_artifact r = artifact) (st_claims st2)"
      using that unfolding st1 list_ex_iff
      by (intro bexI [of _ "accepted_claim_row origin artifact terminal now"])
        (auto simp: accepted_claim_row_def claim0_def)
    then show ?thesis
      by (simp add: record_accepted_artifact_card_def Let_def artifact_def [symmetric]
          terminal_def [symmetric] split: list.split)
  qed
  ultimately show ?thesis
    using origin by (intro conjI bexI [of _ origin]) (auto simp: st1)
qed

subsection \<open>The properties at concrete trees\<close>

definition demo_found :: hyp where
  "demo_found = hyp0\<lparr>hy_id := ''h'', hy_agent := ''1'', hy_card := ''a'', hy_hypothesis := ''x'',
     hy_status := ''FIND-001-overflow''\<rparr>"

definition demo_filed :: store where "demo_filed = store0\<lparr>st_hyps := [demo_found]\<rparr>"

definition demo_rejected :: store where
  "demo_rejected = snd (record_artifact_rejection demo_filed ''FIND-001-overflow'' ''no'' [] None 63870000000000000)"

lemma demo_rejected_changed: "st_hyps demo_rejected ! 0 \<noteq> st_hyps demo_filed ! 0"
  by code_simp

lemma demo_accepted:
  "fst (record_accepted_artifact_card demo_filed ''FIND-001-overflow'' ''find'' None 63870000000000000)"
  by code_simp

lemma demo_filed_facts:
  "artifact_status_id ''FIND-001-overflow'' \<noteq> []"
  "(0, demo_found) \<in> set (latest_indexed (st_hyps demo_filed))"
  "status_match (hy_status demo_found) ''FIND-001-overflow'' = Full"
  "list_all (\<lambda>c. \<not> py_space c \<and> c \<noteq> CHR '':'') (py_strip (hy_status demo_found))"
  by code_simp+

theorem rejection_scope_witness: "hy_status (st_hyps demo_rejected ! 0) = ''DISCARDED''"
proof -
  obtain changed where r: "record_artifact_rejection demo_filed ''FIND-001-overflow'' ''no'' [] None 63870000000000000
      = (changed, demo_rejected)"
    unfolding demo_rejected_def by (metis prod.collapse)
  have "0 < length (st_hyps demo_filed)" by (simp add: demo_filed_def store0_def)
  from rejection_scope [OF r this demo_rejected_changed] show ?thesis by blast
qed

theorem requeue_undoes_rejection_witness:
  "\<exists>st2. snd (record_artifact_reconsideration demo_rejected ''FIND-001-overflow'' ''again'' None 63870000000000000) = st2
     \<and> hy_status (st_hyps st2 ! 0) = py_strip (hy_status demo_found)"
proof -
  obtain changed where r: "record_artifact_rejection demo_filed ''FIND-001-overflow'' ''no'' [] None 63870000000000000
      = (changed, demo_rejected)"
    unfolding demo_rejected_def by (metis prod.collapse)
  obtain changed2 st2 where r2: "record_artifact_reconsideration demo_rejected ''FIND-001-overflow'' ''again''
      None 63870000000000000 = (changed2, st2)" by (metis prod.collapse)
  from requeue_undoes_rejection [OF r r2 demo_filed_facts(1,2,3)] demo_filed_facts(4) r2
  show ?thesis by (simp add: list_all_iff)
qed

theorem accepted_artifact_once_witness:
  "\<exists>st1. record_accepted_artifact_card demo_filed ''FIND-001-overflow'' ''find'' None 63870000000000000 = (True, st1)
     \<and> record_accepted_artifact_card st1 ''FIND-001-overflow'' ''find'' None 63870000000000000 = (False, st1)"
proof -
  define X where "X = record_accepted_artifact_card demo_filed ''FIND-001-overflow'' ''find'' None 63870000000000000"
  have r: "record_accepted_artifact_card demo_filed ''FIND-001-overflow'' ''find'' None 63870000000000000
      = (True, snd X)"
    using demo_accepted unfolding X_def [symmetric] by (cases X) simp
  with accepted_artifact_once [OF r] show ?thesis by blast
qed

end
