(* ===== verification/Hyps.thy ===== *)
theory Hyps
  imports Artifacts
begin

text \<open>
  Opening and closing hypotheses: \<open>add_hypothesis\<close> with its claim-on-adopt, the routing of
  crash-sibling leads, the env-blocked propagation, the resolution of artifact statuses, and
  \<open>update_hypothesis\<close>. The SHA-1 hex digest of a text is the parameter \<open>sha1\<close>; whether an agent
  has an unfinished crash report and which bundles are on disk are parameters too. The loops that
  look for a free id may run for ever when every digest is taken, so they return an option.
\<close>

datatype hyp_error = DuplicateHypothesisId | AmbiguousHypothesisUpdate | HypothesisState

subsection \<open>Identifiers\<close>

definition hyp_digest :: "(string \<Rightarrow> string) \<Rightarrow> string \<Rightarrow> string" where
  "hyp_digest sha1 seed = ''H-'' @ take 10 (sha1 seed)"

definition retry_id :: "(string \<Rightarrow> string) \<Rightarrow> string \<Rightarrow> nat \<Rightarrow> string" where
  "retry_id sha1 seed n = hyp_digest sha1 (if n = 0 then seed else seed @ '':'' @ nat_str n)"

text \<open>\<open>while hid in existing_ids: counter += 1; hid = ...\<close>\<close>

partial_function (option) fresh_id ::
  "(string \<Rightarrow> string) \<Rightarrow> string \<Rightarrow> string list \<Rightarrow> nat \<Rightarrow> string option" where
  "fresh_id sha1 seed existing counter =
     (if retry_id sha1 seed counter \<in> set existing then fresh_id sha1 seed existing (counter + 1)
      else Some (retry_id sha1 seed counter))"

declare fresh_id.simps [code]

subsection \<open>Opening a hypothesis\<close>

record hyp_args =
  ha_id :: string
  ha_agent :: string
  ha_card :: string
  ha_hypothesis :: string
  ha_file :: string
  ha_input_shape :: string
  ha_guard_gap :: string
  ha_diagnostic :: string
  ha_strategy :: string
  ha_status :: string

definition hyp_seed :: "hyp_args \<Rightarrow> int \<Rightarrow> string" where
  "hyp_seed a now = ha_agent a @ '':'' @ ha_file a @ '':'' @ ha_hypothesis a @ '':'' @ now_iso now"

definition hyp_of_args :: "hyp_args \<Rightarrow> string \<Rightarrow> int \<Rightarrow> hyp" where
  "hyp_of_args a hid now =
     hyp0\<lparr>hy_id := hid, hy_agent := ha_agent a, hy_card := ha_card a, hy_hypothesis := ha_hypothesis a,
       hy_file := ha_file a, hy_input_shape := ha_input_shape a, hy_guard_gap := ha_guard_gap a,
       hy_diagnostic := ha_diagnostic a, hy_strategy := ha_strategy a, hy_status := ha_status a,
       hy_created_at := now_iso now, hy_updated_at := now_iso now\<rparr>"

text \<open>The lease part of \<open>add_hypothesis\<close>: the row it appends to \<open>claims.jsonl\<close>, if any.\<close>

definition latest_for_card :: "claim list \<Rightarrow> string \<Rightarrow> claim option" where
  "latest_for_card claims card_id = find (\<lambda>r. cl_card r = card_id) (rev claims)"

definition adopt_lane :: "string \<Rightarrow> string" where
  "adopt_lane strategy =
     (case find (strategy_matches_pin strategy) (map fst STRATEGY_KEYWORDS) of
        Some lane \<Rightarrow> lane | None \<Rightarrow> [])"

definition adopt_claim :: "ctx \<Rightarrow> store \<Rightarrow> hyp_args \<Rightarrow> string \<Rightarrow> int \<Rightarrow> claim option" where
  "adopt_claim cx st a hid now =
     (let ttl = work_card_claim_ttl cx;
          lat = latest_for_card (st_claims st) (ha_card a);
          active_claim = claim_blocks_card lat ttl now;
          same_agent_claim = (case lat of None \<Rightarrow> False | Some r \<Rightarrow> cl_agent r = ha_agent a);
          adopted_claim = (active_claim \<and> same_agent_claim
             \<and> (case lat of None \<Rightarrow> False | Some r \<Rightarrow> cl_source r = ''add-hyp'' \<and> cl_hyp r \<noteq> []))
      in if (\<not> active_claim \<or> same_agent_claim) \<and> \<not> adopted_claim then
           (let prior_lane = (if active_claim \<and> same_agent_claim
                              then (case lat of None \<Rightarrow> [] | Some r \<Rightarrow> cl_strategy r) else [])
            in Some (claim0\<lparr>cl_card := ha_card a, cl_agent := ha_agent a, cl_status := Some ''claimed'',
                 cl_claimed_at := now_iso now, cl_expires_at := now_iso (now + ttl),
                 cl_source := ''add-hyp'', cl_hyp := hid,
                 cl_strategy := str_or prior_lane (adopt_lane (ha_strategy a)),
                 cl_file := (case find (\<lambda>c. cd_id c = ha_card a) (st_cards st) of
                               Some c \<Rightarrow> normalized_relpath (cd_file c) | None \<Rightarrow> [])\<rparr>))
         else None)"

definition new_hyp_id :: "(string \<Rightarrow> string) \<Rightarrow> store \<Rightarrow> hyp_args \<Rightarrow> int \<Rightarrow> (hyp_error + string) option" where
  "new_hyp_id sha1 st a now =
     (let existing = map hy_id (st_hyps st)
      in if ha_id a \<noteq> [] then
           (if ha_id a \<in> set existing then Some (Inl DuplicateHypothesisId) else Some (Inr (ha_id a)))
         else map_option Inr (fresh_id sha1 (hyp_seed a now) existing 0))"

definition add_hypothesis ::
  "(string \<Rightarrow> string) \<Rightarrow> ctx \<Rightarrow> store \<Rightarrow> hyp_args \<Rightarrow> int \<Rightarrow> int \<Rightarrow> (hyp_error + hyp \<times> store) option" where
  "add_hypothesis sha1 cx st a now claim_now =
     (case new_hyp_id sha1 st a now of
        None \<Rightarrow> None
      | Some (Inl e) \<Rightarrow> Some (Inl e)
      | Some (Inr hid) \<Rightarrow>
          (let row = hyp_of_args a hid now;
               st1 = st\<lparr>st_hyps := st_hyps st @ [row]\<rparr>
           in if ha_card a = [] then Some (Inr (row, st1))
              else (case adopt_claim cx st1 a hid claim_now of
                      None \<Rightarrow> Some (Inr (row, st1))
                    | Some r \<Rightarrow> Some (Inr (row, st1\<lparr>st_claims := st_claims st1 @ [r]\<rparr>)))))"

subsection \<open>Crash-sibling leads\<close>

definition env_agents :: "(string \<Rightarrow> string) \<Rightarrow> int" where
  "env_agents env = (let raw = env ''NUM_AGENTS'' in if py_isdigit raw then int (digits_nat raw) else 0)"

definition cluster_owner_number :: "string \<Rightarrow> int" where
  "cluster_owner_number crash_id =
     (let core = re_sub cluster_prefix_re True [] (py_strip crash_id);
          numbers = filter py_isdigit (py_split CHR ''-'' core)
      in if 2 \<le> length numbers then int (digits_nat (last numbers)) else 1)"

definition clamp_agent :: "int \<Rightarrow> int \<Rightarrow> int" where
  "clamp_agent num_agents agent =
     (if num_agents \<noteq> 0 \<and> \<not> (1 \<le> agent \<and> agent \<le> num_agents) then (agent - 1) mod num_agents + 1
      else agent)"

definition cluster_owner_agent :: "(string \<Rightarrow> string) \<Rightarrow> string \<Rightarrow> nat \<Rightarrow> string" where
  "cluster_owner_agent env crash_id num_agents =
     (let n = (if num_agents = 0 then env_agents env else int num_agents)
      in nat_str (nat (clamp_agent n (cluster_owner_number crash_id))))"

definition lead_surface :: "string \<Rightarrow> string \<Rightarrow> string" where
  "lead_surface file hypothesis =
     py_lower (py_strip file) @ ''::'' @ py_lower (py_join '' '' (py_words [] hypothesis))"

record lead =
  ld_file :: string
  ld_hypothesis :: string
  ld_category :: string
  ld_function :: string
  ld_line :: string

record cluster =
  cs_rows :: "hyp list"
  cs_ids :: "string list"
  cs_seen :: "string list"
  cs_load :: "(string \<times> nat) list"
  cs_assigned :: "string list"
  cs_added :: nat
  cs_skipped :: nat

text \<open>\<open>min(agents, key=load)\<close>: the first agent with the least load.\<close>

fun min_by :: "('a \<Rightarrow> 'b::linorder) \<Rightarrow> 'a \<Rightarrow> 'a list \<Rightarrow> 'a" where
  "min_by f best [] = best"
| "min_by f best (x # xs) = min_by f (if f x < f best then x else best) xs"

definition lead_path :: "lead \<Rightarrow> string" where
  "lead_path item =
     (let file = py_strip (ld_file item);
          function = py_strip (ld_function item);
          line = py_strip (ld_line item)
      in if (function \<noteq> [] \<or> line \<notin> set [[], ''0'']) \<and> count_list file CHR '':'' < 2
         then py_join '':'' (filter (\<lambda>p. p \<noteq> []) [file, function, if line \<noteq> ''0'' then line else []])
         else file)"

definition lead_category :: "lead \<Rightarrow> string" where
  "lead_category item =
     (let c = py_lower (py_strip (ld_category item))
      in if c \<in> set HYPOTHESIS_DIAGNOSTIC_CATEGORIES then c else ''state'')"

definition lead_hyp :: "string \<Rightarrow> string \<Rightarrow> string \<Rightarrow> string \<Rightarrow> lead \<Rightarrow> string \<Rightarrow> hyp" where
  "lead_hyp hid holder crash_id strategy item now =
     hyp0\<lparr>hy_id := hid, hy_agent := holder, hy_hypothesis := py_strip (ld_hypothesis item),
       hy_file := lead_path item, hy_input_shape := ''sibling of '' @ crash_id,
       hy_guard_gap := ''unknown'', hy_diagnostic := lead_category item, hy_strategy := strategy,
       hy_status := ''PENDING'', hy_created_at := now, hy_updated_at := now\<rparr>"

definition cluster_step ::
  "(string \<Rightarrow> string) \<Rightarrow> string \<Rightarrow> string \<Rightarrow> string list \<Rightarrow> string \<Rightarrow> cluster \<Rightarrow> lead option \<Rightarrow> cluster option"
where
  "cluster_step sha1 crash_id strategy agents now s item0 =
     (case item0 of
        None \<Rightarrow> Some (s\<lparr>cs_skipped := cs_skipped s + 1\<rparr>)
      | Some item \<Rightarrow>
          if py_strip (ld_file item) = [] \<or> py_strip (ld_hypothesis item) = []
          then Some (s\<lparr>cs_skipped := cs_skipped s + 1\<rparr>)
          else
            (let path = lead_path item;
                 hypothesis = py_strip (ld_hypothesis item);
                 key = lead_surface path hypothesis
             in if key \<in> set (cs_seen s) then Some (s\<lparr>cs_skipped := cs_skipped s + 1\<rparr>)
                else
                  (let holder = min_by (\<lambda>a. get0 (cs_load s) a) (hd agents) (tl agents);
                       seed = holder @ '':'' @ path @ '':'' @ hypothesis @ '':'' @ now @ '':''
                              @ nat_str (cs_added s)
                   in map_option (\<lambda>hid.
                        s\<lparr>cs_rows := cs_rows s @ [lead_hyp hid holder crash_id strategy item now],
                          cs_ids := hid # cs_ids s, cs_seen := key # cs_seen s,
                          cs_load := AList.map_entry holder Suc (cs_load s),
                          cs_assigned := cs_assigned s @ [holder], cs_added := cs_added s + 1\<rparr>)
                        (fresh_id sha1 seed (cs_ids s) 0))))"

fun cluster_loop ::
  "(string \<Rightarrow> string) \<Rightarrow> string \<Rightarrow> string \<Rightarrow> string list \<Rightarrow> string \<Rightarrow> cluster \<Rightarrow> lead option list
   \<Rightarrow> cluster option" where
  "cluster_loop sha1 crash_id strategy agents now s [] = Some s"
| "cluster_loop sha1 crash_id strategy agents now s (item # items) =
     (case cluster_step sha1 crash_id strategy agents now s item of
        None \<Rightarrow> None
      | Some s' \<Rightarrow> cluster_loop sha1 crash_id strategy agents now s' items)"

definition is_open_lead :: "hyp \<Rightarrow> bool" where
  "is_open_lead h \<longleftrightarrow> hy_card h = [] \<and> hy_status h \<in> set [''PENDING'', ''INVESTIGATING'']"

definition cluster_agents :: "string \<Rightarrow> string list \<Rightarrow> string list" where
  "cluster_agents agent eligible =
     (let agents = rev (remdups (rev ((if agent \<in> set eligible then [agent] else []) @ eligible)))
      in if agents = [] then [agent] else agents)"

definition cluster_strategy :: "hyp list \<Rightarrow> string \<Rightarrow> string \<Rightarrow> string" where
  "cluster_strategy existing crash_id strategy =
     str_or (if strategy = [] then (case crash_origin_from_hyps existing crash_id of
                                      Some h \<Rightarrow> py_strip (hy_strategy h) | None \<Rightarrow> [])
             else strategy) ''S5''"

definition cluster_start :: "hyp list \<Rightarrow> string list \<Rightarrow> cluster" where
  "cluster_start existing agents =
     \<lparr>cs_rows = [], cs_ids = map hy_id existing,
      cs_seen = map (\<lambda>h. lead_surface (hy_file h) (hy_hypothesis h))
                  (filter (\<lambda>h. is_active_hypothesis_status (hy_status h)) existing),
      cs_load = map (\<lambda>a. (a, length (filter (\<lambda>h. hy_agent h = a \<and> is_open_lead h) existing))) agents,
      cs_assigned = [], cs_added = 0, cs_skipped = 0\<rparr>"

definition add_cluster_hypotheses ::
  "(string \<Rightarrow> string) \<Rightarrow> ctx \<Rightarrow> store \<Rightarrow> string \<Rightarrow> lead option list \<Rightarrow> string \<Rightarrow> nat \<Rightarrow> string list option
   \<Rightarrow> int \<Rightarrow> (cluster \<times> store) option" where
  "add_cluster_hypotheses sha1 cx st crash_id rows strategy num_agents peers now =
     (let existing = st_hyps st;
          agent = cluster_owner_agent (cx_env cx) crash_id num_agents;
          n = (if num_agents = 0 then nat (env_agents (cx_env cx)) else num_agents);
          eligible = (case peers of None \<Rightarrow> map nat_str [1 ..< Suc n] | Some ps \<Rightarrow> ps);
          agents = cluster_agents agent eligible
      in map_option (\<lambda>s. (s, st\<lparr>st_hyps := existing @ cs_rows s\<rparr>))
           (cluster_loop sha1 crash_id (cluster_strategy existing crash_id strategy) agents (now_iso now)
              (cluster_start existing agents) (take 3 rows)))"

definition open_cardless_lead :: "store \<Rightarrow> string \<Rightarrow> hyp option" where
  "open_cardless_lead st agent =
     (case filter (\<lambda>h. hy_agent h = agent \<and> is_open_lead h) (st_hyps st) of
        [] \<Rightarrow> None
      | h # hs \<Rightarrow> Some (min_by hy_created_at h hs))"


subsection \<open>Closing a hypothesis\<close>

definition env_blocked_row :: "store \<Rightarrow> string \<Rightarrow> string \<Rightarrow> string \<Rightarrow> string \<Rightarrow> int \<Rightarrow> claim" where
  "env_blocked_row st card_id agent note_text source now =
     (let broad = (case find (\<lambda>c. cd_id c = card_id) (st_cards st) of
                     Some c \<Rightarrow> is_broad_file_card c | None \<Rightarrow> True)
      in claim0\<lparr>cl_card := card_id, cl_agent := agent,
           cl_status := Some (if broad then ''discarded'' else ''blocked''),
           cl_updated_at := now_iso now,
           cl_source := (if broad then ''env-block-route'' else source),
           cl_note := str_or note_text ''env-blocked hypothesis on this card route''\<rparr>)"

definition record_env_blocked_card ::
  "store \<Rightarrow> string \<Rightarrow> string \<Rightarrow> string \<Rightarrow> string \<Rightarrow> int \<Rightarrow> bool \<times> store" where
  "record_env_blocked_card st card_id agent note_text source now =
     (if card_id = [] then (False, st)
      else if (case map_of (latest_claims_by_card (st_claims st)) card_id of
                 Some cur \<Rightarrow> cl_st cur \<in> set TERMINAL_CARD_STATUSES | None \<Rightarrow> False) then (False, st)
      else (True, st\<lparr>st_claims := st_claims st
                     @ [env_blocked_row st card_id agent note_text source now]\<rparr>))"

text \<open>The bundle directories of a kind, by name; \<open>carries\<close> is the match of the number.\<close>

definition artifact_carries :: "string \<Rightarrow> string \<Rightarrow> bool" where
  "artifact_carries number name =
     (let rest = py_upper (if CHR ''-'' \<in> set name then drop 1 (dropWhile (\<lambda>c. c \<noteq> CHR ''-'') name) else name)
      in py_startswith number rest
         \<and> (case drop (length number) rest of
              [] \<Rightarrow> True
            | [c] \<Rightarrow> c \<in> set [CHR ''-'', CHR ''.'', CHR 0x0A]
            | c # _ \<Rightarrow> c \<in> set ''-.''))"

definition by_upper :: "art list \<Rightarrow> string \<Rightarrow> string option" where
  "by_upper bundles wanted = map_of (rev (map (\<lambda>b. (py_upper (bd_name b), bd_name b)) bundles)) (py_upper wanted)"

definition pick_bundle :: "art list \<Rightarrow> art list \<Rightarrow> string \<Rightarrow> hyp_error + string" where
  "pick_bundle own unowned suf =
     (case own of
        [b] \<Rightarrow> Inr (bd_name b @ suf)
      | [] \<Rightarrow> (case unowned of [b] \<Rightarrow> Inr (bd_name b @ suf) | _ \<Rightarrow> Inl HypothesisState)
      | _ \<Rightarrow> Inl HypothesisState)"

definition resolve_artifact_status ::
  "(string \<Rightarrow> art list) \<Rightarrow> store \<Rightarrow> string \<Rightarrow> string \<Rightarrow> hyp_error + string" where
  "resolve_artifact_status bundles st status agent =
     (case re_match ARTIFACT_STATUS_RE True (py_strip status) of
        None \<Rightarrow> Inr status
      | Some m \<Rightarrow>
          (let token = re_text m;
               suf = re_after m;
               kind = (if py_upper (re_group 1 m) = ''CRASH'' then ''crashes'' else ''findings'');
               same_kind = bundles kind
           in case by_upper same_kind token of
                Some name \<Rightarrow> Inr (name @ suf)
              | None \<Rightarrow>
                  (case by_upper same_kind (token @ ''-'' @ agent) of
                     Some name \<Rightarrow> Inr (name @ suf)
                   | None \<Rightarrow>
                       (let number = py_upper (drop 1 (dropWhile (\<lambda>c. c \<noteq> CHR ''-'') token));
                            carriers = sort_key bd_name (filter (\<lambda>b. artifact_carries number (bd_name b)) same_kind);
                            owner = (\<lambda>b. artifact_owner_agent (st_runs st) (Some b) (bd_named b));
                            own = filter (\<lambda>b. owner b = agent) carriers;
                            claimed = map (\<lambda>h. py_upper (py_strip (hy_status h)))
                                        (filter (\<lambda>h. hy_agent h \<noteq> agent) (st_hyps st));
                            unowned = filter (\<lambda>b. owner b = [] \<and> py_upper (bd_name b) \<notin> set claimed) carriers
                        in pick_bundle own unowned suf))))"

text \<open>\<open>update_hypothesis\<close>: the refusals, the one row rewritten, and the env-block propagation. The
  index of the row found stands for the row object.\<close>

definition updated_hyp :: "string \<Rightarrow> string \<Rightarrow> int \<Rightarrow> hyp \<Rightarrow> hyp" where
  "updated_hyp status note_text now h =
     h\<lparr>hy_status := status, hy_updated_at := now_iso now,
       hy_note := (if note_text \<noteq> [] then note_text else hy_note h)\<rparr>"

definition matching_rows :: "hyp list \<Rightarrow> string \<Rightarrow> string \<Rightarrow> nat list" where
  "matching_rows rows hid agent =
     map fst (filter (\<lambda>(i, h). hy_id h = hid \<and> (agent = [] \<or> hy_agent h = agent)) (enumerate 0 rows))"

definition update_hypothesis ::
  "(string \<Rightarrow> art list) \<Rightarrow> (string \<Rightarrow> bool) \<Rightarrow> store \<Rightarrow> string \<Rightarrow> string \<Rightarrow> string \<Rightarrow> string \<Rightarrow> int
   \<Rightarrow> hyp_error + hyp option \<times> store" where
  "update_hypothesis bundles unfinished st hid status note_text agent now =
     (case matching_rows (st_hyps st) hid agent of
        [] \<Rightarrow> Inr (None, st)
      | [i] \<Rightarrow>
          (let old = st_hyps st ! i in
           case resolve_artifact_status bundles st status (hy_agent old) of
             Inl e \<Rightarrow> Inl e
           | Inr resolved \<Rightarrow>
               if py_startswith ''CRASH'' (py_upper resolved) \<and> unfinished (hy_agent old)
               then Inl HypothesisState
               else
                 (let found = updated_hyp resolved note_text now old;
                      st1 = st\<lparr>st_hyps := rewrite_rows (st_hyps st) [i] (updated_hyp resolved note_text now)\<rparr>
                  in Inr (Some found,
                       if resolved = ''ENV-BLOCKED''
                       then snd (record_env_blocked_card st1 (hy_card found) (hy_agent found)
                                  (str_or note_text (hy_note found)) ''env-block-own-card'' now)
                       else st1)))
      | _ \<Rightarrow> Inl AmbiguousHypothesisUpdate)"

subsection \<open>Facts\<close>

text \<open>What the id loop returns is free, and it returns when some retry is free.\<close>

lemma fresh_id_Some:
  assumes "fresh_id sha1 seed existing n = Some hid"
  shows "hid \<notin> set existing \<and> (\<exists>m \<ge> n. hid = retry_id sha1 seed m)"
proof (rule fresh_id.raw_induct [OF _ assms])
  fix fi sha1 seed existing counter hid
  assume ih: "\<And>sha1 seed existing counter hid. fi sha1 seed existing counter = Some hid \<Longrightarrow>
      hid \<notin> set existing \<and> (\<exists>m \<ge> counter. hid = retry_id sha1 seed m)"
    and eq: "(if retry_id sha1 seed counter \<in> set existing then fi sha1 seed existing (counter + 1)
      else Some (retry_id sha1 seed counter)) = Some hid"
  show "hid \<notin> set existing \<and> (\<exists>m \<ge> counter. hid = retry_id sha1 seed m)"
  proof (cases "retry_id sha1 seed counter \<in> set existing")
    case True
    with ih eq have "hid \<notin> set existing \<and> (\<exists>m \<ge> counter + 1. hid = retry_id sha1 seed m)" by auto
    then show ?thesis by (metis Suc_eq_plus1 Suc_leD)
  next
    case False
    with eq show ?thesis by auto
  qed
qed

lemma fresh_id_defined:
  assumes "retry_id sha1 seed m \<notin> set existing" "n \<le> m"
  shows "\<exists>hid. fresh_id sha1 seed existing n = Some hid"
  using assms(2)
proof (induction n rule: inc_induct)
  case base
  show ?case by (subst fresh_id.simps) (simp add: assms(1))
next
  case (step n)
  then show ?case by (subst fresh_id.simps) auto
qed

lemma fresh_id_inj:
  assumes "inj_on (retry_id sha1 seed) {0 .. length existing}"
  shows "\<exists>hid. fresh_id sha1 seed existing 0 = Some hid"
proof -
  have "card (retry_id sha1 seed ` {0 .. length existing}) = Suc (length existing)"
    using card_image [OF assms] by simp
  moreover have "card (set existing) \<le> length existing" by (rule card_length)
  ultimately have "\<not> retry_id sha1 seed ` {0 .. length existing} \<subseteq> set existing"
    by (metis List.finite_set card_mono le_trans not_less_eq_eq)
  then obtain m where "retry_id sha1 seed m \<notin> set existing" by blast
  then show ?thesis by (rule fresh_id_defined) simp
qed


lemma new_hyp_id_fresh:
  "new_hyp_id sha1 st a now = Some (Inr hid) \<Longrightarrow> hid \<notin> set (map hy_id (st_hyps st))"
  unfolding new_hyp_id_def Let_def by (auto split: if_splits dest!: fresh_id_Some)

lemma add_hypothesisD:
  assumes "add_hypothesis sha1 cx st a now claim_now = Some (Inr (row, st'))"
  obtains hid where "new_hyp_id sha1 st a now = Some (Inr hid)" "row = hyp_of_args a hid now"
    "st_hyps st' = st_hyps st @ [row]" "st_cards st' = st_cards st" "st_runs st' = st_runs st"
    "st_notes st' = st_notes st" "st_dry st' = st_dry st"
    "st_claims st' = st_claims st @ (if ha_card a = [] then []
       else (case adopt_claim cx (st\<lparr>st_hyps := st_hyps st @ [row]\<rparr>) a hid claim_now of
               None \<Rightarrow> [] | Some r \<Rightarrow> [r]))"
  using assms unfolding add_hypothesis_def Let_def
  by (auto split: option.splits sum.splits if_splits)

lemma hyp_of_args_fields [simp]:
  "hy_id (hyp_of_args a hid now) = hid" "hy_agent (hyp_of_args a hid now) = ha_agent a"
  "hy_card (hyp_of_args a hid now) = ha_card a" "hy_status (hyp_of_args a hid now) = ha_status a"
  by (simp_all add: hyp_of_args_def hyp0_def)

lemma latest_for_card_eq:
  "cid \<noteq> [] \<Longrightarrow> latest_for_card claims cid = map_of (latest_claims_by_card claims) cid"
  unfolding latest_for_card_def latest_claims_by_card_def map_of_latest_by
  by (rule arg_cong [where f = "\<lambda>P. find P (rev claims)"]) (auto simp: fun_eq_iff)

text \<open>Adopting never appends a lease over one another agent holds.\<close>

lemma adopt_claim_SomeD:
  assumes "adopt_claim cx st a hid now = Some r"
  shows "cl_card r = ha_card a" "cl_agent r = ha_agent a" "cl_st_claimed r = ''claimed''"
    "cl_st r = ''claimed''" "cl_expires_at r = now_iso (now + work_card_claim_ttl cx)"
    "cl_claimed_at r = now_iso now" "cl_source r = ''add-hyp''"
    "\<And>q. latest_for_card (st_claims st) (ha_card a) = Some q \<Longrightarrow>
       claim_blocks_card (Some q) (work_card_claim_ttl cx) now \<Longrightarrow> cl_agent q = ha_agent a"
  using assms unfolding adopt_claim_def Let_def
  by (auto simp: claim0_def cl_st_claimed_def cl_st_def split: if_splits option.splits)

subsection \<open>Leads\<close>

lemma min_by_in: "min_by f x xs \<in> set (x # xs)"
  by (induction f x xs rule: min_by.induct) auto

lemma min_by_least: "y \<in> set (x # xs) \<Longrightarrow> f (min_by f x xs) \<le> f y"
proof (induction f x xs arbitrary: y rule: min_by.induct)
  case (2 f best x xs)
  show ?case
    using "2.IH" [of "if f x < f best then x else best"] "2.IH" [of y] "2.prems"
    by (cases "f x < f best") (auto intro: order_trans less_imp_le)
qed simp

definition hyp_surface :: "hyp \<Rightarrow> string" where
  "hyp_surface h = lead_surface (hy_file h) (hy_hypothesis h)"

definition active_surfaces :: "hyp list \<Rightarrow> string set" where
  "active_surfaces hyps = hyp_surface ` {h \<in> set hyps. is_active_hypothesis_status (hy_status h)}"

definition cluster_ok :: "hyp list \<Rightarrow> string list \<Rightarrow> nat \<Rightarrow> cluster \<Rightarrow> bool" where
  "cluster_ok existing agents k s \<longleftrightarrow>
     set (cs_ids s) = hy_id ` set existing \<union> hy_id ` set (cs_rows s)
     \<and> distinct (map hy_id (cs_rows s)) \<and> hy_id ` set (cs_rows s) \<inter> hy_id ` set existing = {}
     \<and> set (cs_seen s) = active_surfaces existing \<union> hyp_surface ` set (cs_rows s)
     \<and> distinct (map hyp_surface (cs_rows s))
     \<and> hyp_surface ` set (cs_rows s) \<inter> active_surfaces existing = {}
     \<and> (\<forall>r \<in> set (cs_rows s). is_open_lead r \<and> hy_agent r \<in> set agents)
     \<and> cs_added s = length (cs_rows s) \<and> cs_added s + cs_skipped s = k"

lemma cluster_start_ok: "cluster_ok existing agents 0 (cluster_start existing agents)"
  by (auto simp: cluster_ok_def cluster_start_def active_surfaces_def hyp_surface_def)

lemma lead_hyp_fields:
  "hy_id (lead_hyp hid holder crash strategy item now) = hid"
  "hy_agent (lead_hyp hid holder crash strategy item now) = holder"
  "hyp_surface (lead_hyp hid holder crash strategy item now)
     = lead_surface (lead_path item) (py_strip (ld_hypothesis item))"
  "is_open_lead (lead_hyp hid holder crash strategy item now)"
  by (simp_all add: lead_hyp_def hyp0_def hyp_surface_def is_open_lead_def)

lemma cluster_step_ok:
  assumes "cluster_step sha1 crash strategy agents now s item = Some s'"
    and ok: "cluster_ok existing agents k s" and ne: "agents \<noteq> []"
  shows "cluster_ok existing agents (Suc k) s'"
proof -
  have skip: "cluster_ok existing agents (Suc k) (s\<lparr>cs_skipped := cs_skipped s + 1\<rparr>)"
    using ok by (simp add: cluster_ok_def)
  show ?thesis
  proof (cases item)
    case None
    with assms(1) skip show ?thesis by (simp add: cluster_step_def)
  next
    case (Some l)
    define path hypothesis where "path = lead_path l" and "hypothesis = py_strip (ld_hypothesis l)"
    define holder where "holder = min_by (\<lambda>a. get0 (cs_load s) a) (hd agents) (tl agents)"
    define seed where "seed = holder @ '':'' @ path @ '':'' @ hypothesis @ '':'' @ now @ '':'' @ nat_str (cs_added s)"
    show ?thesis
    proof (cases "py_strip (ld_file l) = [] \<or> hypothesis = [] \<or> lead_surface path hypothesis \<in> set (cs_seen s)")
      case True
      with assms(1) skip show ?thesis
        by (auto simp: cluster_step_def Some Let_def path_def hypothesis_def split: if_splits)
    next
      case False
      then obtain hid where hid: "fresh_id sha1 seed (cs_ids s) 0 = Some hid"
        and s': "s' = s\<lparr>cs_rows := cs_rows s @ [lead_hyp hid holder crash strategy l now],
          cs_ids := hid # cs_ids s, cs_seen := lead_surface path hypothesis # cs_seen s,
          cs_load := AList.map_entry holder Suc (cs_load s),
          cs_assigned := cs_assigned s @ [holder], cs_added := cs_added s + 1\<rparr>"
        using assms(1) by (auto simp: cluster_step_def Some Let_def path_def hypothesis_def holder_def seed_def)
      have h: "hid \<notin> set (cs_ids s)" using fresh_id_Some [OF hid] by simp
      have a: "holder \<in> set agents"
        unfolding holder_def using min_by_in [of _ "hd agents" "tl agents"] ne by simp
      show ?thesis
        using ok h a False unfolding cluster_ok_def s' path_def hypothesis_def
        by (simp add: lead_hyp_fields)
    qed
  qed
qed

lemma cluster_loop_ok:
  assumes "cluster_loop sha1 crash strategy agents now s items = Some s'"
    and "cluster_ok existing agents k s" and "agents \<noteq> []"
  shows "cluster_ok existing agents (k + length items) s'"
  using assms
proof (induction items arbitrary: s k)
  case (Cons item items)
  then obtain s1 where "cluster_step sha1 crash strategy agents now s item = Some s1"
    and "cluster_loop sha1 crash strategy agents now s1 items = Some s'"
    by (auto split: option.splits)
  with Cons.IH [of s1 "Suc k"] cluster_step_ok Cons.prems show ?case by fastforce
qed simp

lemma cluster_agents_not_Nil: "cluster_agents agent eligible \<noteq> []"
  by (simp add: cluster_agents_def Let_def)

lemma add_cluster_ok:
  assumes "add_cluster_hypotheses sha1 cx st crash rows strategy n peers now = Some (s, st')"
  shows "st' = st\<lparr>st_hyps := st_hyps st @ cs_rows s\<rparr>"
    and "\<exists>agents. cluster_ok (st_hyps st) agents (min 3 (length rows)) s"
proof -
  obtain agents strat where l: "cluster_loop sha1 crash strat agents (now_iso now)
      (cluster_start (st_hyps st) agents) (take 3 rows) = Some s"
    and st': "st' = st\<lparr>st_hyps := st_hyps st @ cs_rows s\<rparr>" and ne: "agents \<noteq> []"
    using assms cluster_agents_not_Nil by (auto simp: add_cluster_hypotheses_def Let_def)
  show "st' = st\<lparr>st_hyps := st_hyps st @ cs_rows s\<rparr>" by (rule st')
  show "\<exists>agents. cluster_ok (st_hyps st) agents (min 3 (length rows)) s"
    using cluster_loop_ok [OF l cluster_start_ok ne] by (auto simp: min.commute)
qed


lemma resolve_not_artifact:
  "re_match ARTIFACT_STATUS_RE True (py_strip status) = None \<Longrightarrow>
     resolve_artifact_status bundles st status agent = Inr status"
  by (simp add: resolve_artifact_status_def)

lemma resolve_not_ambiguous:
  "resolve_artifact_status bundles st status agent \<noteq> Inl AmbiguousHypothesisUpdate"
proof -
  have "pick_bundle own unowned suf \<noteq> Inl AmbiguousHypothesisUpdate" for own unowned suf
    by (auto simp: pick_bundle_def split: list.splits)
  then show ?thesis by (simp add: resolve_artifact_status_def Let_def split: option.split)
qed

lemma matching_rows_iff:
  "i \<in> set (matching_rows rows hid agent) \<longleftrightarrow>
     i < length rows \<and> hy_id (rows ! i) = hid \<and> (agent = [] \<or> hy_agent (rows ! i) = agent)"
  unfolding matching_rows_def by (force simp: in_set_enumerate_eq)

lemma distinct_matching_rows: "distinct (matching_rows rows hid agent)"
  unfolding matching_rows_def by (simp add: distinct_map_filter)

lemma env_blocked_hyps [simp]:
  "st_hyps (snd (record_env_blocked_card st cid agent nt source now)) = st_hyps st"
  by (simp add: record_env_blocked_card_def)

subsection \<open>Properties\<close>

text \<open>
  Fact (hypothesis_ids_unique). Hypothesis ids stay unique: opening a hypothesis, with an explicit or a
  generated id, and routing a batch of crash-sibling leads keep the ids of the file distinct.
\<close>

theorem hypothesis_ids_unique:
  assumes "distinct (map hy_id (st_hyps st))"
  shows "(\<forall>row st'. add_hypothesis sha1 cx st a now claim_now = Some (Inr (row, st')) \<longrightarrow>
            distinct (map hy_id (st_hyps st')))
    \<and> (\<forall>s st'. add_cluster_hypotheses sha1 cx st crash rows strategy n peers now = Some (s, st') \<longrightarrow>
            distinct (map hy_id (st_hyps st')))"
proof (intro conjI allI impI)
  fix row st'
  assume "add_hypothesis sha1 cx st a now claim_now = Some (Inr (row, st'))"
  then obtain hid where "new_hyp_id sha1 st a now = Some (Inr hid)" "row = hyp_of_args a hid now"
    "st_hyps st' = st_hyps st @ [row]" by (rule add_hypothesisD) (rule that)
  with new_hyp_id_fresh assms show "distinct (map hy_id (st_hyps st'))" by fastforce
next
  fix s st'
  assume "add_cluster_hypotheses sha1 cx st crash rows strategy n peers now = Some (s, st')"
  note c = add_cluster_ok [OF this]
  then obtain agents where "cluster_ok (st_hyps st) agents (min 3 (length rows)) s" by blast
  with c(1) assms show "distinct (map hy_id (st_hyps st'))"
    by (auto simp: cluster_ok_def)
qed

text \<open>
  Fact (add_hypothesis_returns). \<open>add_hypothesis\<close> returns: if the digests of the seed and of its first
  retries are pairwise different, the id loop ends, and the call fails exactly when an explicit id
  is already taken.
\<close>

theorem add_hypothesis_returns:
  assumes "inj_on (retry_id sha1 (hyp_seed a now)) {0 .. length (st_hyps st)}"
  shows "\<exists>r. add_hypothesis sha1 cx st a now claim_now = Some r
    \<and> (r = Inl DuplicateHypothesisId \<longleftrightarrow> ha_id a \<noteq> [] \<and> ha_id a \<in> set (map hy_id (st_hyps st)))
    \<and> (\<forall>e. r = Inl e \<longrightarrow> e = DuplicateHypothesisId)"
proof -
  have "\<exists>hid. fresh_id sha1 (hyp_seed a now) (map hy_id (st_hyps st)) 0 = Some hid"
    by (rule fresh_id_inj) (use assms in simp)
  then show ?thesis
    by (auto simp: add_hypothesis_def new_hyp_id_def Let_def split: option.splits)
qed

text \<open>
  Fact (cluster_leads_fresh). Routing crash-sibling leads accounts for every one of the first three
  items (added or skipped), appends exactly the added ones as open cardless leads, and never opens
  a lead on a surface that an active hypothesis or another lead of the batch already has.
\<close>

theorem cluster_leads_fresh:
  assumes "add_cluster_hypotheses sha1 cx st crash rows strategy n peers now = Some (s, st')"
  shows "cs_added s + cs_skipped s = min 3 (length rows)
    \<and> st_hyps st' = st_hyps st @ cs_rows s \<and> length (cs_rows s) = cs_added s
    \<and> (\<forall>r \<in> set (cs_rows s). is_open_lead r)
    \<and> distinct (map hyp_surface (cs_rows s))
    \<and> hyp_surface ` set (cs_rows s) \<inter> active_surfaces (st_hyps st) = {}"
  using add_cluster_ok [OF assms] by (auto simp: cluster_ok_def)

text \<open>
  Fact (update_hypothesis_one_row). An update rewrites one row or none: it succeeds on a row only when
  exactly one row has the id (and the agent, if one is given), changes no other row, refuses an
  ambiguous id, and refuses a CRASH status while the row's agent has an unfinished report.
\<close>

theorem update_hypothesis_one_row:
  "(case update_hypothesis bundles unfinished st hid status nt agent now of
      Inl AmbiguousHypothesisUpdate \<Rightarrow> 2 \<le> card {i. i < length (st_hyps st)
          \<and> hy_id (st_hyps st ! i) = hid \<and> (agent = [] \<or> hy_agent (st_hyps st ! i) = agent)}
    | Inl _ \<Rightarrow> True
    | Inr (None, st') \<Rightarrow> st' = st
    | Inr (Some h, st') \<Rightarrow>
        \<exists>i < length (st_hyps st).
          {j. j < length (st_hyps st) \<and> hy_id (st_hyps st ! j) = hid
             \<and> (agent = [] \<or> hy_agent (st_hyps st ! j) = agent)} = {i}
          \<and> st_hyps st' = (st_hyps st)[i := h]
          \<and> hy_id h = hid \<and> hy_card h = hy_card (st_hyps st ! i)
          \<and> \<not> (py_startswith ''CRASH'' (py_upper (hy_status h)) \<and> unfinished (hy_agent h)))"
proof -
  let ?M = "matching_rows (st_hyps st) hid agent"
  have set_M: "set ?M = {i. i < length (st_hyps st) \<and> hy_id (st_hyps st ! i) = hid
      \<and> (agent = [] \<or> hy_agent (st_hyps st ! i) = agent)}"
    by (auto simp: matching_rows_iff)
  have two: "2 \<le> card (set ?M)" if "?M = i # j # is" for i j "is"
    using distinct_card [OF distinct_matching_rows, of "st_hyps st" hid agent] that by simp
  have rw: "rewrite_rows rows [i] f = rows[i := f (rows ! i)]" if "i < length rows" for rows i f
    using that by (intro nth_equalityI) (auto simp: nth_rewrite_rows nth_list_update)
  show ?thesis
  proof (cases ?M)
    case Nil
    then show ?thesis by (simp add: update_hypothesis_def)
  next
    case (Cons i rest)
    show ?thesis
    proof (cases rest)
      case Nil
      have i: "i < length (st_hyps st)" "hy_id (st_hyps st ! i) = hid"
        using Cons matching_rows_iff [of i "st_hyps st" hid agent] by simp_all
      have one: "{j. j < length (st_hyps st) \<and> hy_id (st_hyps st ! j) = hid
             \<and> (agent = [] \<or> hy_agent (st_hyps st ! j) = agent)} = {i}"
        using set_M Cons Nil by simp
      show ?thesis
      proof (cases "resolve_artifact_status bundles st status (hy_agent (st_hyps st ! i))")
        case (Inl e)
        with Cons Nil resolve_not_ambiguous [of bundles st status] show ?thesis
          by (cases e) (auto simp: update_hypothesis_def Let_def)
      next
        case (Inr resolved)
        define h where "h = updated_hyp resolved nt now (st_hyps st ! i)"
        define crash where "crash = (py_startswith ''CRASH'' (py_upper resolved)
          \<and> unfinished (hy_agent (st_hyps st ! i)))"
        define st1 where "st1 = st\<lparr>st_hyps := rewrite_rows (st_hyps st) [i] (updated_hyp resolved nt now)\<rparr>"
        define st' where "st' = (if resolved = ''ENV-BLOCKED''
          then snd (record_env_blocked_card st1 (hy_card h) (hy_agent h)
            (str_or nt (hy_note h)) ''env-block-own-card'' now) else st1)"
        have u: "update_hypothesis bundles unfinished st hid status nt agent now =
            (if crash then Inl HypothesisState else Inr (Some h, st'))"
          using Cons Nil Inr
          by (simp add: update_hypothesis_def Let_def h_def crash_def st1_def st'_def)
        have st': "st_hyps st' = (st_hyps st)[i := h]"
          using rw [OF i(1)] by (simp add: st'_def st1_def h_def)
        show ?thesis
        proof (cases crash)
          case True
          then show ?thesis by (simp add: u)
        next
          case False
          show ?thesis
            unfolding u if_not_P [OF False] sum.case prod.case option.case
            by (intro exI conjI) (rule i(1), rule one, rule st',
              use False i(2) in \<open>simp_all add: h_def updated_hyp_def crash_def\<close>)
        qed
      qed
    next
      case (Cons j more)
      with \<open>?M = i # rest\<close> two [of i j more] set_M show ?thesis
        by (simp add: update_hypothesis_def)
    qed
  qed
qed


subsection \<open>The properties at concrete trees\<close>

definition demo_cx :: ctx where "demo_cx = \<lparr>cx_env = (\<lambda>_. []), cx_depth = 2\<rparr>"

definition demo_args :: hyp_args where
  "demo_args = \<lparr>ha_id = ''H-1'', ha_agent = ''1'', ha_card = [], ha_hypothesis = ''x'',
     ha_file = ''src/a.c'', ha_input_shape = [], ha_guard_gap = [], ha_diagnostic = ''bounds'',
     ha_strategy = ''S7'', ha_status = ''PENDING''\<rparr>"

definition demo_lead :: lead where
  "demo_lead = \<lparr>ld_file = ''src/b.c'', ld_hypothesis = ''y'', ld_category = [], ld_function = ''f'',
     ld_line = ''3''\<rparr>"

definition demo_cluster :: "(cluster \<times> store) option" where
  "demo_cluster = add_cluster_hypotheses rev demo_cx demo_filed ''CRASH-001-1'' [Some demo_lead] ''S7'' 2 None
     63870000000000000"

lemma demo_cluster_Some: "map_option (\<lambda>(s, st'). cs_added s) demo_cluster = Some 1"
  by code_simp

theorem hypothesis_ids_unique_witness:
  "\<exists>s st'. demo_cluster = Some (s, st') \<and> distinct (map hy_id (st_hyps st'))"
proof -
  obtain s st' where c: "demo_cluster = Some (s, st')"
    using demo_cluster_Some by (cases demo_cluster) auto
  have "distinct (map hy_id (st_hyps demo_filed))" by (simp add: demo_filed_def)
  from hypothesis_ids_unique [OF this] c show ?thesis
    unfolding demo_cluster_def by blast
qed

theorem add_hypothesis_returns_witness:
  "\<exists>r. add_hypothesis rev demo_cx store0 demo_args 63870000000000000 63870000000000000 = Some r
     \<and> r \<noteq> Inl DuplicateHypothesisId"
  using add_hypothesis_returns [of rev demo_args 63870000000000000 store0 demo_cx 63870000000000000]
  by (auto simp: store0_def)

theorem cluster_leads_fresh_witness:
  "\<exists>s st'. demo_cluster = Some (s, st') \<and> cs_added s + cs_skipped s = 1
     \<and> length (st_hyps st') = 2"
proof -
  obtain s st' where c: "demo_cluster = Some (s, st')" "cs_added s = 1"
    using demo_cluster_Some by (cases demo_cluster) auto
  from cluster_leads_fresh [OF c(1) [unfolded demo_cluster_def]] c(2)
  have "cs_added s + cs_skipped s = 1 \<and> length (st_hyps st') = 2"
    by (simp add: demo_filed_def)
  with c(1) show ?thesis by blast
qed

end
