(* ===== verification/CardOps.thy ===== *)
theory CardOps
  imports Lease
begin

text \<open>
  What agents record and what the audit reads back from it: the evidence of a strategy in notes
  and concluded cards, probe runs and their durations, yield by strategy and by queue rank, notes,
  and \<open>update_card_status\<close> with its evidence gates. The SHA-1 hex digest of a text is the
  parameter \<open>sha1\<close>, whether an agent has an unfinished crash report the parameter \<open>unfinished\<close>.
  The tables are kept as numbers; the text rendering of \<open>card_yield\<close> is left out.
\<close>

subsection \<open>Evidence for a strategy\<close>

definition note_evidence :: "note_row list \<Rightarrow> string \<Rightarrow> rx \<Rightarrow> nat" where
  "note_evidence notes agent pattern =
     length (filter (\<lambda>n. (agent = [] \<or> nt_agent n = agent) \<and> re_found pattern True (nt_text n)) notes)"

text \<open>The loop over \<open>claims.jsonl\<close>: \<open>claimant\<close> by card, and the conclusions counted so far.\<close>

type_synonym lane_state = "(string \<times> (string \<times> string)) list \<times> nat"

definition lane_step :: "string \<Rightarrow> string \<Rightarrow> lane_state \<Rightarrow> claim \<Rightarrow> lane_state" where
  "lane_step agent strategy s row =
     (case s of (claimant, n) \<Rightarrow>
       (let cid = cl_card row; status = cl_st row in
        if status = ''claimed'' then
          (let owner = cl_agent row;
               (previous_owner, previous_lane) =
                 (case map_of claimant cid of None \<Rightarrow> ([], []) | Some p \<Rightarrow> p);
               lane = str_or (py_upper (py_strip (cl_strategy row)))
                        (if owner = previous_owner then previous_lane else [])
           in (AList.update cid (owner, lane) claimant, n))
        else if status \<in> set TERMINAL_CARD_STATUSES \<and> cl_source row \<noteq> ''release-stale-claims'' then
          (case map_of claimant cid of
             None \<Rightarrow> (claimant, n)
           | Some (owner, lane) \<Rightarrow>
               (AList.delete cid claimant,
                if cl_agent row = owner \<and> lane = py_upper strategy
                   \<and> (agent = [] \<or> cl_agent row = agent) then n + 1 else n))
        else (claimant, n)))"

definition lane_conclusions :: "claim list \<Rightarrow> string \<Rightarrow> string \<Rightarrow> nat" where
  "lane_conclusions claims agent strategy = snd (foldl (lane_step agent strategy) ([], 0) claims)"

definition strategy_evidence_count :: "store \<Rightarrow> string \<Rightarrow> string \<Rightarrow> nat" where
  "strategy_evidence_count st agent strategy =
     (case map_of STRATEGY_KEYWORDS (py_upper strategy) of
        None \<Rightarrow> 0
      | Some (pattern, _) \<Rightarrow>
          note_evidence (st_notes st) agent pattern + lane_conclusions (st_claims st) agent strategy)"

definition strategy_completion_threshold :: "string \<Rightarrow> nat" where
  "strategy_completion_threshold strategy =
     (case map_of STRATEGY_KEYWORDS (py_upper strategy) of None \<Rightarrow> 0 | Some (_, n) \<Rightarrow> n)"

record completion =
  sc_strategy :: string
  sc_agent :: string
  sc_evidence :: nat
  sc_threshold :: nat
  sc_complete :: bool

definition strategy_completion_status :: "store \<Rightarrow> string \<Rightarrow> string \<Rightarrow> completion" where
  "strategy_completion_status st agent strategy =
     (let threshold = strategy_completion_threshold strategy;
          evidence = strategy_evidence_count st agent strategy
      in \<lparr>sc_strategy = strategy, sc_agent = agent, sc_evidence = evidence, sc_threshold = threshold,
          sc_complete = threshold \<le> evidence\<rparr>)"

subsection \<open>Durations\<close>

text \<open>
  \<open>float(text)\<close>: blanks, a sign, decimal digits with single underscores, a fraction, an exponent,
  or one of the names of the infinities and of not-a-number; \<open>None\<close> is the \<open>ValueError\<close>. A value
  past the largest double is infinite. Between, the exact rational stands for the double.
\<close>

datatype pfloat = PFin rat | PInf | PNan

definition digit_part :: "string \<Rightarrow> bool" where
  "digit_part d \<longleftrightarrow> list_all py_isdigit (py_split CHR ''_'' d)"

definition digit_value :: "string \<Rightarrow> nat" where
  "digit_value d = digits_nat (concat (py_split CHR ''_'' d))"

definition digit_count :: "string \<Rightarrow> nat" where
  "digit_count d = length (concat (py_split CHR ''_'' d))"

definition float_exponent :: "bool \<Rightarrow> string \<Rightarrow> int option" where
  "float_exponent present e =
     (if \<not> present then Some 0
      else (case py_sign e of (sg, d) \<Rightarrow>
        if digit_part d then Some (sg * int (digit_value d)) else None))"

definition scaled :: "rat \<Rightarrow> int \<Rightarrow> rat" where
  "scaled x e = (if 0 \<le> e then x * 10 ^ nat e else x / 10 ^ nat (- e))"

definition py_float :: "string \<Rightarrow> pfloat option" where
  "py_float text =
     (case py_sign (py_lower (py_strip text)) of (sg, d) \<Rightarrow>
        if d \<in> set [''inf'', ''infinity''] then Some PInf
        else if d = ''nan'' then Some PNan
        else (case py_partition CHR ''e'' d of (mant, has_e, e) \<Rightarrow>
          (case py_partition CHR ''.'' mant of (ip, dot, fp) \<Rightarrow>
            if (ip = [] \<and> fp = []) \<or> (ip \<noteq> [] \<and> \<not> digit_part ip) \<or> (fp \<noteq> [] \<and> \<not> digit_part fp) then None
            else (case float_exponent has_e e of
              None \<Rightarrow> None
            | Some ex \<Rightarrow>
                (let x = scaled (of_int sg * (of_nat (digit_value ip)
                           + of_nat (digit_value fp) / 10 ^ digit_count fp)) ex
                 in Some (if 2 ^ 1024 - 2 ^ 970 \<le> \<bar>x\<bar> then PInf else PFin x))))))"

definition finite_duration :: "rat \<Rightarrow> rat option" where
  "finite_duration seconds = (if seconds < 0 then None else Some (py_round_to 3 seconds))"

definition run_duration_seconds :: "string \<Rightarrow> rat option" where
  "run_duration_seconds text =
     (if text = [] then None
      else (case py_float text of
              Some (PFin seconds) \<Rightarrow> finite_duration seconds
            | _ \<Rightarrow> None))"

text \<open>Reading a duration back from a row: the stored number prints and parses to itself.\<close>

definition row_duration :: "run \<Rightarrow> rat option" where
  "row_duration r = Option.bind (rn_duration r) finite_duration"

subsection \<open>Yield by strategy\<close>

record yield_bucket =
  yb_strategy :: string
  yb_runs :: nat
  yb_crash :: nat
  yb_property :: nat
  yb_clean :: nat
  yb_no_exec :: nat
  yb_other :: nat
  yb_seconds :: rat
  yb_timed :: nat

definition yield_bucket0 :: "string \<Rightarrow> yield_bucket" where
  "yield_bucket0 strategy =
     \<lparr>yb_strategy = strategy, yb_runs = 0, yb_crash = 0, yb_property = 0, yb_clean = 0,
      yb_no_exec = 0, yb_other = 0, yb_seconds = 0, yb_timed = 0\<rparr>"

definition count_verdict :: "string \<Rightarrow> yield_bucket \<Rightarrow> yield_bucket" where
  "count_verdict verdict b =
     (if verdict = ''CRASH'' then b\<lparr>yb_crash := yb_crash b + 1\<rparr>
      else if verdict = ''PROPERTY'' then b\<lparr>yb_property := yb_property b + 1\<rparr>
      else if verdict = ''CLEAN'' then b\<lparr>yb_clean := yb_clean b + 1\<rparr>
      else if verdict = ''NO_EXEC'' then b\<lparr>yb_no_exec := yb_no_exec b + 1\<rparr>
      else b\<lparr>yb_other := yb_other b + 1\<rparr>)"

definition count_run :: "run \<Rightarrow> yield_bucket \<Rightarrow> yield_bucket" where
  "count_run r b =
     (let b1 = b\<lparr>yb_runs := yb_runs b + 1\<rparr>;
          b2 = (case row_duration r of
                  None \<Rightarrow> b1
                | Some s \<Rightarrow> b1\<lparr>yb_seconds := yb_seconds b1 + s, yb_timed := yb_timed b1 + 1\<rparr>)
      in count_verdict (py_upper (rn_verdict r)) b2)"

text \<open>\<open>hyp_strategy\<close>, \<open>cards_by_id\<close>, and the strategy a run is attributed to.\<close>

definition run_strategy :: "store \<Rightarrow> run \<Rightarrow> string" where
  "run_strategy st r =
     (let by_hyp = (case map_of (latest_by (\<lambda>h. Some (hy_id h)) (st_hyps st)) (rn_hyp r) of
                      Some h \<Rightarrow> hy_strategy h | None \<Rightarrow> []);
          by_card = (case map_of (latest_by (\<lambda>c. Some (cd_id c)) (st_cards st)) (rn_card r) of
                       Some c \<Rightarrow> cd_strategy c | None \<Rightarrow> [])
      in str_or (str_or by_hyp by_card) ''(none)'')"

definition yield_buckets :: "store \<Rightarrow> (string \<times> yield_bucket) list" where
  "yield_buckets st =
     foldl (\<lambda>acc r. let s = run_strategy st r in
              AList.map_default s (count_run r (yield_bucket0 s)) (count_run r) acc) [] (st_runs st)"

record yield_row =
  yr_bucket :: yield_bucket
  yr_yield :: rat
  yr_seconds :: rat
  yr_untimed :: int
  yr_seconds_per_timed_run :: rat

definition yield_row_of :: "yield_bucket \<Rightarrow> yield_row" where
  "yield_row_of b =
     (let seconds = py_round_to 1 (yb_seconds b)
      in \<lparr>yr_bucket = b,
          yr_yield = (if yb_runs b \<noteq> 0 then py_round_to 3 (of_nat (yb_crash b) / of_nat (yb_runs b)) else 0),
          yr_seconds = seconds,
          yr_untimed = int (yb_runs b) - int (yb_timed b),
          yr_seconds_per_timed_run =
            (if yb_timed b \<noteq> 0 then py_round_to 1 (seconds / of_nat (yb_timed b)) else 0)\<rparr>)"

definition strategy_yield :: "store \<Rightarrow> yield_row list" where
  "strategy_yield st =
     sort_key (\<lambda>r. (- yr_yield r, - int (yb_runs (yr_bucket r)), yb_strategy (yr_bucket r)))
       (map (\<lambda>(s, b). yield_row_of b) (yield_buckets st))"

subsection \<open>Closing a card\<close>

datatype card_error =
    EvidenceRefused nat int nat int nat bool
  | BlockedWithoutNote
  | CrashWithoutRun
  | UnfinishedReports "string list"

definition crash_owners :: "store \<Rightarrow> string \<Rightarrow> string \<Rightarrow> string list" where
  "crash_owners st card_id agent =
     (if agent = [] then [] else [agent])
     @ map hy_agent (filter (\<lambda>h. hy_card h = card_id \<and> hy_agent h \<noteq> []) (st_hyps st))"

definition status_refusal ::
  "(string \<Rightarrow> bool) \<Rightarrow> ctx \<Rightarrow> store \<Rightarrow> string \<Rightarrow> string \<Rightarrow> string \<Rightarrow> string \<Rightarrow> card_error option" where
  "status_refusal unfinished cx st card_id status agent note_text =
     (if status \<in> set EVIDENCE_GATED_CARD_STATUSES then
        (case card_discard_requirements cx of (min_runs, min_hyps) \<Rightarrow>
         case card_discard_evidence (st_hyps st) (st_runs st) card_id of (runs, hyps, missed) \<Rightarrow>
           if min_runs \<le> int runs \<and> min_hyps \<le> int hyps then None
           else Some (EvidenceRefused runs min_runs hyps min_hyps missed
                        (card_run_count (st_runs st) card_id ''CRASH'' \<noteq> 0)))
      else if status = ''blocked'' \<and> py_strip note_text = [] then Some BlockedWithoutNote
      else if status = ''crash'' then
        (if card_run_count (st_runs st) card_id ''CRASH'' < 1 then Some CrashWithoutRun
         else
           (let blocked_owners = sort (remdups (filter unfinished (crash_owners st card_id agent)))
            in if blocked_owners \<noteq> [] then Some (UnfinishedReports blocked_owners) else None))
      else None)"

text \<open>The closer an update without \<open>--agent\<close> is charged to: the live claimant of the card.\<close>

definition closing_agent :: "ctx \<Rightarrow> store \<Rightarrow> string \<Rightarrow> string \<Rightarrow> int \<Rightarrow> string" where
  "closing_agent cx st card_id agent now =
     (if agent \<noteq> [] then agent
      else (case map_of (latest_claims_by_card (st_claims st)) card_id of
              None \<Rightarrow> []
            | Some lat \<Rightarrow> if claim_blocks_card (Some lat) (work_card_claim_ttl cx) now
                          then cl_agent lat else []))"

definition update_card_status ::
  "(string \<Rightarrow> bool) \<Rightarrow> ctx \<Rightarrow> store \<Rightarrow> string \<Rightarrow> string \<Rightarrow> string \<Rightarrow> string \<Rightarrow> int \<Rightarrow> int
   \<Rightarrow> card_error + claim \<times> store" where
  "update_card_status unfinished cx st card_id status agent note_text now row_now =
     (case status_refusal unfinished cx st card_id status agent note_text of
        Some e \<Rightarrow> Inl e
      | None \<Rightarrow>
          (let row = claim0\<lparr>cl_card := card_id, cl_agent := closing_agent cx st card_id agent now,
                       cl_status := Some status, cl_updated_at := now_iso row_now,
                       cl_note := note_text\<rparr>
           in Inr (row, st\<lparr>st_claims := st_claims st @ [row]\<rparr>)))"

text \<open>\<open>bin/state update-card\<close>: how the status argument is spelled, and the note it leaves; \<open>None\<close> is the
  refusal of an invalid status.\<close>

definition card_status_arg :: "string \<Rightarrow> string \<Rightarrow> (string \<times> string) option" where
  "card_status_arg status note_text =
     (let requested = py_strip status;
          normalized = py_lower requested;
          terminal = py_upper requested;
          allowed = [''claimed'', ''discarded'', ''crash'', ''find'', ''blocked''];
          chosen = (if py_startswith ''CRASH-'' terminal then ''crash''
                    else if py_startswith ''FIND-'' terminal then ''find''
                    else if terminal \<in> set [''ENV-BLOCKED'', ''ENV_BLOCKED''] then ''blocked''
                    else if py_startswith ''mode-incompatible'' normalized then ''blocked''
                    else if normalized = ''done'' then ''discarded''
                    else if normalized \<in> set allowed then normalized else status)
      in if chosen \<notin> set allowed then None
         else Some (chosen,
           if chosen \<in> set [''crash'', ''find''] \<and> chosen \<noteq> requested
           then (if note_text \<noteq> [] then note_text @ ''; artifact='' @ requested
                 else ''artifact='' @ requested)
           else note_text))"

subsection \<open>Runs\<close>

definition EXECUTION_FAILURE_CLASSES :: "string list" where
  "EXECUTION_FAILURE_CLASSES =
     [''loader'', ''usage'', ''input-rejected'', ''aborted'', ''unverified-exit'', ''exit'']"

definition EXECUTION_FAILURE_CLASS_RE :: rx where
  "EXECUTION_FAILURE_CLASS_RE =
     (rseq [(ralt [RBos, (rset [CSpc])]), (rstr ''class=''), (RGrp 1 (ralt [(rstr ''loader''),
     (rstr ''usage''), (rstr ''input-rejected''), (rstr ''aborted''),
     (rstr ''unverified-exit''), (rstr ''exit'')])), (RLook True (ralt [(rset [CSpc]),
     REos]))])"

definition run_execution_failure_class :: "run \<Rightarrow> string" where
  "run_execution_failure_class r =
     (if py_upper (py_strip (rn_verdict r)) \<noteq> ''EXEC_FAIL'' then []
      else
        (let explicit = py_lower (py_strip (rn_failure_class r))
         in if explicit \<in> set EXECUTION_FAILURE_CLASSES then explicit
            else (case re_search EXECUTION_FAILURE_CLASS_RE False (rn_reason r) of
                    Some m \<Rightarrow> re_group 1 m | None \<Rightarrow> [])))"

fun failure_run :: "string \<Rightarrow> nat \<Rightarrow> run list \<Rightarrow> string \<times> nat" where
  "failure_run cls n [] = (cls, n)"
| "failure_run cls n (r # rows) =
     (let current = run_execution_failure_class r
      in if current = [] \<or> cls \<noteq> [] \<and> current \<noteq> cls then (cls, n)
         else failure_run current (n + 1) rows)"

definition consecutive_execution_failure_class :: "run list \<Rightarrow> string \<times> nat" where
  "consecutive_execution_failure_class rows = failure_run [] 0 rows"

record run_args =
  ra_agent :: string
  ra_hyp :: string
  ra_card :: string
  ra_mode :: string
  ra_testcase :: string
  ra_sha1 :: string
  ra_asan_output :: string
  ra_verdict :: string
  ra_sanitizer :: string
  ra_sanitizer_runs :: string
  ra_duration :: string
  ra_reason :: string
  ra_coverage :: string
  ra_closest :: string
  ra_property :: string
  ra_duplicate_of :: "string option"
  ra_not_filed :: string

definition sanitizer_runs_of :: "string \<Rightarrow> int" where
  "sanitizer_runs_of raw =
     (if raw = [] then 1 else (case py_int raw of None \<Rightarrow> 1 | Some n \<Rightarrow> max 0 n))"

definition run_of_args :: "(string \<Rightarrow> string) \<Rightarrow> run_args \<Rightarrow> int \<Rightarrow> int \<Rightarrow> run" where
  "run_of_args sha1 a now row_now =
     (let row = run0\<lparr>
            rn_id := ''RUN-'' @ take 10 (sha1 (ra_agent a @ '':'' @ ra_testcase a @ '':'' @ now_iso now)),
            rn_agent := ra_agent a, rn_hyp := ra_hyp a, rn_card := ra_card a, rn_mode := ra_mode a,
            rn_testcase := ra_testcase a, rn_sha1 := py_lower (ra_sha1 a),
            rn_asan_output := ra_asan_output a, rn_verdict := ra_verdict a,
            rn_sanitizer := ra_sanitizer a, rn_sanitizer_runs := sanitizer_runs_of (ra_sanitizer_runs a),
            rn_created_at := now_iso row_now, rn_duration := run_duration_seconds (ra_duration a),
            rn_reason := py_strip (ra_reason a)\<rparr>
      in row\<lparr>rn_failure_class := run_execution_failure_class row,
             rn_coverage := py_upper (py_strip (ra_coverage a)), rn_closest := py_strip (ra_closest a),
             rn_property := py_lower (py_strip (ra_property a)),
             rn_duplicate_of := ra_duplicate_of a, rn_not_filed := py_strip (ra_not_filed a)\<rparr>)"

definition add_run :: "(string \<Rightarrow> string) \<Rightarrow> store \<Rightarrow> run_args \<Rightarrow> int \<Rightarrow> int \<Rightarrow> run \<times> store" where
  "add_run sha1 st a now row_now =
     (let row = run_of_args sha1 a now row_now in (row, st\<lparr>st_runs := st_runs st @ [row]\<rparr>))"

subsection \<open>Yield by queue rank\<close>

definition YIELD_BUCKETS :: "(int \<times> int option) list" where
  "YIELD_BUCKETS = [(1, Some 5), (6, Some 10), (11, Some 20), (21, Some 40), (41, None)]"

text \<open>A bucket is named by its bounds; \<open>None\<close> is \<open>unranked\<close>.\<close>

definition bucket_of :: "int \<Rightarrow> (int \<times> int option) option" where
  "bucket_of rank =
     (if rank \<le> 0 then None
      else find (\<lambda>(low, high). case high of None \<Rightarrow> True | Some h \<Rightarrow> low \<le> rank \<and> rank \<le> h) YIELD_BUCKETS)"

record rank_bucket =
  rb_claims :: nat
  rb_cards :: nat
  rb_probed :: nat
  rb_runs :: nat
  rb_diagnostics :: nat

definition rank_bucket0 :: rank_bucket where
  "rank_bucket0 = \<lparr>rb_claims = 0, rb_cards = 0, rb_probed = 0, rb_runs = 0, rb_diagnostics = 0\<rparr>"

definition is_diagnostic :: "run \<Rightarrow> bool" where
  "is_diagnostic r \<longleftrightarrow> rn_verdict r \<in> set [''CRASH'', ''PROPERTY'']"

definition runs_by_card :: "run list \<Rightarrow> (string \<times> (nat \<times> nat)) list" where
  "runs_by_card runs =
     foldl (\<lambda>acc r. if rn_card r = [] then acc
            else AList.map_default (rn_card r) (1, if is_diagnostic r then 1 else 0)
                   (\<lambda>(n, d). (n + 1, if is_diagnostic r then d + 1 else d)) acc) [] runs"

record rank_state =
  rs_buckets :: "((int \<times> int option) option \<times> rank_bucket) list"
  rs_attributed :: "string list"
  rs_sizes :: "int list"

definition rank_step ::
  "(string \<times> (nat \<times> nat)) list \<Rightarrow> rank_state \<Rightarrow> claim \<Rightarrow> rank_state" where
  "rank_step by_card s c =
     (let cid = cl_card c in
      if cid = [] then s
      else
        (let name = bucket_of (cl_rank c);
             sizes = (if cl_size c \<noteq> 0 then rs_sizes s @ [cl_size c] else rs_sizes s);
             count_card = (\<lambda>b. if cid \<in> set (rs_attributed s) then b
               else (let b1 = b\<lparr>rb_cards := rb_cards b + 1\<rparr> in
                     case map_of by_card cid of
                       None \<Rightarrow> b1
                     | Some (n, d) \<Rightarrow> b1\<lparr>rb_probed := rb_probed b1 + 1, rb_runs := rb_runs b1 + n,
                                        rb_diagnostics := rb_diagnostics b1 + d\<rparr>));
             bump = (\<lambda>b. count_card (b\<lparr>rb_claims := rb_claims b + 1\<rparr>))
         in \<lparr>rs_buckets = AList.map_default name (bump rank_bucket0) bump (rs_buckets s),
             rs_attributed = List.insert cid (rs_attributed s), rs_sizes = sizes\<rparr>))"

definition rank_scan :: "run list \<Rightarrow> claim list \<Rightarrow> rank_state" where
  "rank_scan runs claims =
     foldl (rank_step (runs_by_card runs)) \<lparr>rs_buckets = [], rs_attributed = [], rs_sizes = []\<rparr> claims"

definition per_card :: "rank_bucket \<Rightarrow> rat" where
  "per_card b = (if rb_cards b \<noteq> 0 then of_nat (rb_diagnostics b) / of_nat (rb_cards b) else 0)"

definition card_yield ::
  "store \<Rightarrow> (((int \<times> int option) option \<times> rank_bucket \<times> rat) list \<times> nat \<times> int) option" where
  "card_yield st =
     (if st_claims st = [] then None
      else
        (let s = rank_scan (st_runs st) (st_claims st);
             order = map Some YIELD_BUCKETS @ [None];
             lines = concat (map (\<lambda>name. case map_of (rs_buckets s) name of
                        None \<Rightarrow> [] | Some b \<Rightarrow> [(name, b, per_card b)]) order);
             touched = length (remdups (filter (\<lambda>cid. cid \<noteq> []) (map cl_card (st_claims st))));
             offered = foldl max 0 (rs_sizes s)
         in Some (lines, touched, offered)))"

record probe_stats =
  ps_probes :: nat
  ps_seconds :: rat
  ps_diagnostics :: nat
  ps_first :: "rat option"

definition probe_rows :: "run list \<Rightarrow> string \<Rightarrow> int \<Rightarrow> int \<Rightarrow> (int \<times> run) list" where
  "probe_rows runs agent started ended =
     concat (map (\<lambda>r. if rn_agent r \<noteq> agent then []
       else (case parse_iso_utc (rn_created_at r) of
               None \<Rightarrow> []
             | Some t \<Rightarrow> if t < started \<or> ended < t then [] else [(t, r)])) runs)"

definition probe_span_stats :: "run list \<Rightarrow> string \<Rightarrow> int \<Rightarrow> int \<Rightarrow> probe_stats" where
  "probe_span_stats runs agent started ended =
     (let rows = probe_rows runs agent started ended
      in \<lparr>ps_probes = length rows,
          ps_seconds = py_round_to 3 (foldl (\<lambda>acc (t, r). case row_duration r of
                          None \<Rightarrow> acc | Some d \<Rightarrow> acc + d) 0 rows),
          ps_diagnostics = length (filter (\<lambda>(t, r). is_diagnostic r) rows),
          ps_first = map_option (\<lambda>t. py_round_to 3 (of_int (t - started) / 1000000))
            (foldl (\<lambda>first (t, r). case first of None \<Rightarrow> Some t | Some f \<Rightarrow> if t < f then Some t else first)
               None rows)\<rparr>)"

subsection \<open>Notes\<close>

definition add_note ::
  "(string \<Rightarrow> string) \<Rightarrow> store \<Rightarrow> string \<Rightarrow> string \<Rightarrow> string \<Rightarrow> string \<Rightarrow> string \<Rightarrow> int \<Rightarrow> int
   \<Rightarrow> note_row \<times> store" where
  "add_note sha1 st agent hypothesis_id card_id kind text now row_now =
     (let row = note0\<lparr>
            nt_id := ''NOTE-'' @ take 10 (sha1 (agent @ '':'' @ hypothesis_id @ '':'' @ kind @ '':'' @ text
                       @ '':'' @ now_iso now)),
            nt_agent := agent, nt_hyp := hypothesis_id, nt_card := card_id, nt_kind := kind,
            nt_text := text, nt_created_at := now_iso row_now\<rparr>
      in (row, st\<lparr>st_notes := st_notes st @ [row]\<rparr>))"

subsection \<open>What the gates ask for\<close>

lemma gated_statuses [simp]:
  "s \<in> set EVIDENCE_GATED_CARD_STATUSES \<longleftrightarrow> s = ''done'' \<or> s = ''discarded''"
  by (auto simp: card_status_defs)

lemma card_run_count_pos:
  "0 < card_run_count runs card_id ''CRASH'' \<longleftrightarrow>
     card_id \<noteq> [] \<and> (\<exists>r \<in> set runs. rn_card r = card_id \<and> py_upper (rn_verdict r) = ''CRASH''
                        \<and> rn_not_filed r = [])"
proof -
  have "py_upper ''CRASH'' = ''CRASH''" by code_simp
  then show ?thesis
    by (auto simp: card_run_count_def Let_def filter_empty_conv)
qed

lemma crash_owners_set:
  "set (crash_owners st card_id agent) =
     {a. a \<noteq> [] \<and> (a = agent \<or> (\<exists>h \<in> set (st_hyps st). hy_card h = card_id \<and> hy_agent h = a))}"
  by (auto simp: crash_owners_def)

text \<open>
  C32 (update_card_gates). \<open>update_card_status\<close> commits a status exactly when its evidence is there,
  and then appends one row and changes nothing else. A clean close (\<open>done\<close>, \<open>discarded\<close>) needs the
  configured number of CLEAN runs that are not coverage MISSED and belong to a hypothesis of this
  card, of the configured number of distinct shapes; \<open>blocked\<close> needs a note that is not blank;
  \<open>crash\<close> needs a filed CRASH run of the card and no unfinished report of the closing agent or of
  an agent with a hypothesis on the card. The other statuses are never refused.
\<close>

theorem update_card_gates:
  "(\<exists>row. update_card_status unfinished cx st card_id status agent note_text now row_now
            = Inr (row, st\<lparr>st_claims := st_claims st @ [row]\<rparr>)
          \<and> cl_card row = card_id \<and> cl_st row = status \<and> cl_note row = note_text) =
   (if status = ''done'' \<or> status = ''discarded'' then
      (let ev = evidence_run (st_hyps st) card_id;
           hits = filter (\<lambda>r. ev r \<noteq> None \<and> py_upper (rn_coverage r) \<noteq> ''MISSED'') (st_runs st)
       in fst (card_discard_requirements cx) \<le> int (length hits)
          \<and> snd (card_discard_requirements cx) \<le> int (card (ev ` set hits)))
    else if status = ''blocked'' then py_strip note_text \<noteq> []
    else if status = ''crash'' then
      card_id \<noteq> []
      \<and> (\<exists>r \<in> set (st_runs st). rn_card r = card_id \<and> py_upper (rn_verdict r) = ''CRASH''
                                   \<and> rn_not_filed r = [])
      \<and> {a. unfinished a \<and> a \<noteq> []
            \<and> (a = agent \<or> (\<exists>h \<in> set (st_hyps st). hy_card h = card_id \<and> hy_agent h = a))} = {}
    else True)"
  (is "?L = ?R")
proof -
  have L: "?L = (status_refusal unfinished cx st card_id status agent note_text = None)"
    by (auto simp: update_card_status_def Let_def claim0_def cl_st_def split: option.splits)
  show ?thesis
  proof (cases "status = ''done'' \<or> status = ''discarded''")
    case True
    define ev where "ev = evidence_run (st_hyps st) card_id"
    define hits where
      "hits = filter (\<lambda>r. ev r \<noteq> None \<and> py_upper (rn_coverage r) \<noteq> ''MISSED'') (st_runs st)"
    have "ev ` set hits = Some ` {s. \<exists>r \<in> set (st_runs st). ev r = Some s \<and> py_upper (rn_coverage r) \<noteq> ''MISSED''}"
      by (auto simp: hits_def image_iff) metis
    then have "card (ev ` set hits) =
        card {s. \<exists>r \<in> set (st_runs st). ev r = Some s \<and> py_upper (rn_coverage r) \<noteq> ''MISSED''}"
      by (simp add: card_image)
    then have "?R = (fst (card_discard_requirements cx) \<le> int (fst (card_discard_evidence (st_hyps st) (st_runs st) card_id))
        \<and> snd (card_discard_requirements cx)
            \<le> int (fst (snd (card_discard_evidence (st_hyps st) (st_runs st) card_id))))"
      using True by (simp add: card_discard_evidence_eq Let_def ev_def hits_def)
    moreover have "status_refusal unfinished cx st card_id status agent note_text = None \<longleftrightarrow>
        fst (card_discard_requirements cx) \<le> int (fst (card_discard_evidence (st_hyps st) (st_runs st) card_id))
        \<and> snd (card_discard_requirements cx)
            \<le> int (fst (snd (card_discard_evidence (st_hyps st) (st_runs st) card_id)))"
      using True by (simp add: status_refusal_def split: prod.splits)
    ultimately show ?thesis using L by simp
  next
    case False
    have neg: "\<not> (status \<in> set EVIDENCE_GATED_CARD_STATUSES)" using False by simp
    have owners: "sort (remdups (filter unfinished (crash_owners st card_id agent))) \<noteq> [] \<longleftrightarrow>
        (\<exists>a \<in> set (crash_owners st card_id agent). unfinished a)"
      by (simp add: filter_empty_conv)
    show ?thesis
      unfolding L status_refusal_def if_not_P [OF neg] if_not_P [OF False] Let_def owners crash_owners_set
      using card_run_count_pos [of "st_runs st" card_id] by auto
  qed
qed

subsection \<open>What the yield table counts\<close>

lemma count_run_strategy [simp]: "yb_strategy (count_run r b) = yb_strategy b"
  by (simp add: count_run_def count_verdict_def Let_def split: option.splits)

definition verdict_total :: "yield_bucket \<Rightarrow> nat" where
  "verdict_total b = yb_crash b + yb_property b + yb_clean b + yb_no_exec b + yb_other b"

lemma count_run_fields:
  "yb_runs (count_run r b) = yb_runs b + 1"
  "yb_crash (count_run r b) = yb_crash b + (if py_upper (rn_verdict r) = ''CRASH'' then 1 else 0)"
  "yb_timed (count_run r b) = yb_timed b + (if row_duration r \<noteq> None then 1 else 0)"
  "verdict_total (count_run r b) = verdict_total b + 1"
  by (simp_all add: verdict_total_def count_run_def count_verdict_def Let_def split: option.splits)

lemma fold_count_run:
  "yb_strategy (foldl (\<lambda>b r. count_run r b) b rs) = yb_strategy b"
  "yb_runs (foldl (\<lambda>b r. count_run r b) b rs) = yb_runs b + length rs"
  "yb_crash (foldl (\<lambda>b r. count_run r b) b rs)
      = yb_crash b + length (filter (\<lambda>r. py_upper (rn_verdict r) = ''CRASH'') rs)"
  "yb_timed (foldl (\<lambda>b r. count_run r b) b rs)
      = yb_timed b + length (filter (\<lambda>r. row_duration r \<noteq> None) rs)"
  "verdict_total (foldl (\<lambda>b r. count_run r b) b rs) = verdict_total b + length rs"
  by (induction rs arbitrary: b) (simp_all add: count_run_fields del: not_None_eq)

lemma yield_bucketD:
  assumes "(s, b) \<in> set (yield_buckets st)"
  defines "rs \<equiv> filter (\<lambda>r. run_strategy st r = s) (st_runs st)"
  shows "yb_strategy b = s" "yb_runs b = length rs" "0 < yb_runs b"
    "yb_crash b = length (filter (\<lambda>r. py_upper (rn_verdict r) = ''CRASH'') rs)"
    "yb_timed b = length (filter (\<lambda>r. row_duration r \<noteq> None) rs)"
    "yb_crash b + yb_property b + yb_clean b + yb_no_exec b + yb_other b = yb_runs b"
proof -
  note g = group_fold [where key = "run_strategy st" and f = count_run and z = yield_bucket0
      and rows = "st_runs st"]
  have "map_of (yield_buckets st) s = Some b"
    using assms(1) g(2) by (simp add: yield_buckets_def Let_def map_of_eq_Some_iff)
  then have ex: "\<exists>r \<in> set (st_runs st). run_strategy st r = s"
    and b: "b = foldl (\<lambda>b r. count_run r b) (yield_bucket0 s) rs"
    using g(1) [of s] by (auto simp: yield_buckets_def Let_def rs_def split: if_splits)
  note f = fold_count_run [of "yield_bucket0 s" rs, folded b]
  show "yb_strategy b = s" "yb_runs b = length rs"
    "yb_crash b = length (filter (\<lambda>r. py_upper (rn_verdict r) = ''CRASH'') rs)"
    "yb_timed b = length (filter (\<lambda>r. row_duration r \<noteq> None) rs)"
    "yb_crash b + yb_property b + yb_clean b + yb_no_exec b + yb_other b = yb_runs b"
    using f by (simp_all add: yield_bucket0_def verdict_total_def)
  with ex show "0 < yb_runs b" by (auto simp: rs_def filter_empty_conv)
qed

lemma yield_buckets_sum:
  "sum_list (map (\<lambda>(s, b). yb_runs b) (yield_buckets st)) = length (st_runs st)"
proof -
  note g = group_fold [where key = "run_strategy st" and f = count_run and z = yield_bucket0
      and rows = "st_runs st"]
  have "sum_list (map (\<lambda>(s, b). yb_runs b) (yield_buckets st))
      = sum_list (map (\<lambda>s. length (filter (\<lambda>r. run_strategy st r = s) (st_runs st)))
          (map fst (yield_buckets st)))"
    by (intro arg_cong [where f = sum_list]) (auto simp: yield_bucketD(2))
  also have "\<dots> = length (st_runs st)"
    by (rule sum_list_length_filter) (use g(2,3) in \<open>simp_all add: yield_buckets_def Let_def\<close>)
  finally show ?thesis .
qed

text \<open>
  Fact (strategy_yield_accounts). \<open>strategy_yield\<close> attributes every run to one strategy and loses
  none: each strategy has one row, the runs of the rows add up to the ledger, a row's runs are the
  runs attributed to its strategy, its verdict buckets add up to its runs, its crashes are those
  with verdict CRASH, no more runs are timed than there are (so \<open>untimed_runs\<close> is not negative),
  and \<open>yield\<close> lies between 0 and 1. The rows come with the highest yield first.
\<close>

theorem strategy_yield_accounts:
  "sum_list (map (\<lambda>r. yb_runs (yr_bucket r)) (strategy_yield st)) = length (st_runs st)
   \<and> distinct (map (\<lambda>r. yb_strategy (yr_bucket r)) (strategy_yield st))
   \<and> sorted (map (\<lambda>r. - yr_yield r) (strategy_yield st))
   \<and> list_all (\<lambda>row. let b = yr_bucket row;
                         rs = filter (\<lambda>r. run_strategy st r = yb_strategy b) (st_runs st)
        in yb_runs b = length rs
           \<and> yb_crash b = length (filter (\<lambda>r. py_upper (rn_verdict r) = ''CRASH'') rs)
           \<and> yb_crash b + yb_property b + yb_clean b + yb_no_exec b + yb_other b = yb_runs b
           \<and> 0 \<le> yr_untimed row \<and> 0 \<le> yr_yield row \<and> yr_yield row \<le> 1) (strategy_yield st)"
proof (intro conjI)
  let ?rows = "map (\<lambda>(s, b). yield_row_of b) (yield_buckets st)"
  have bucket: "yr_bucket (yield_row_of b) = b" for b by (simp add: yield_row_of_def Let_def)
  show "sum_list (map (\<lambda>r. yb_runs (yr_bucket r)) (strategy_yield st)) = length (st_runs st)"
    unfolding strategy_yield_def sum_list_sort_key yield_buckets_sum [of st, symmetric]
    by (simp add: bucket comp_def case_prod_unfold)
  have "map (\<lambda>r. yb_strategy (yr_bucket r)) ?rows = map fst (yield_buckets st)"
    by (auto simp: bucket yield_bucketD(1))
  moreover have "distinct (map fst (yield_buckets st))"
    using group_fold(2) [where key = "run_strategy st" and f = count_run and z = yield_bucket0]
    by (simp add: yield_buckets_def Let_def)
  moreover have "mset (map (\<lambda>r. yb_strategy (yr_bucket r)) (strategy_yield st))
      = mset (map (\<lambda>r. yb_strategy (yr_bucket r)) ?rows)"
    by (simp only: strategy_yield_def mset_map mset_sort)
  ultimately show "distinct (map (\<lambda>r. yb_strategy (yr_bucket r)) (strategy_yield st))"
    using mset_eq_imp_distinct_iff by metis
  define key where "key = (\<lambda>r :: yield_row. (- yr_yield r, - int (yb_runs (yr_bucket r)), yb_strategy (yr_bucket r)))"
  have "sorted (map fst (map key (strategy_yield st)))"
  proof (rule sorted_map_mono)
    show "sorted (map key (strategy_yield st))" by (simp add: strategy_yield_def key_def)
  qed (auto intro!: monoI simp: less_eq_prod_def mono_on_def)
  then show "sorted (map (\<lambda>r. - yr_yield r) (strategy_yield st))" by (simp add: key_def comp_def)
  show "list_all (\<lambda>row. let b = yr_bucket row;
                         rs = filter (\<lambda>r. run_strategy st r = yb_strategy b) (st_runs st)
        in yb_runs b = length rs
           \<and> yb_crash b = length (filter (\<lambda>r. py_upper (rn_verdict r) = ''CRASH'') rs)
           \<and> yb_crash b + yb_property b + yb_clean b + yb_no_exec b + yb_other b = yb_runs b
           \<and> 0 \<le> yr_untimed row \<and> 0 \<le> yr_yield row \<and> yr_yield row \<le> 1) (strategy_yield st)"
    unfolding list_all_iff Let_def
  proof
    fix row assume "row \<in> set (strategy_yield st)"
    then obtain s b where b: "(s, b) \<in> set (yield_buckets st)" "row = yield_row_of b"
      by (auto simp: strategy_yield_def)
    note B = yield_bucketD [OF b(1)]
    have row: "yr_bucket row = b" by (simp add: b(2) bucket)
    have le: "yb_crash b \<le> yb_runs b" "yb_timed b \<le> yb_runs b"
      unfolding B(2,4,5) by (simp_all only: length_filter_le)
    have "0 \<le> yr_yield row \<and> yr_yield row \<le> 1"
      using B(3) le(1) py_round_to_bounds(1) [where a = 0 and x = "of_nat (yb_crash b) / of_nat (yb_runs b)" and n = 3]
        py_round_to_bounds(2) [where b = 1 and x = "of_nat (yb_crash b) / of_nat (yb_runs b)" and n = 3]
      by (simp add: b(2) yield_row_of_def Let_def divide_le_eq)
    moreover have "0 \<le> yr_untimed row" using le(2) by (simp add: b(2) yield_row_of_def Let_def)
    ultimately show "yb_runs (yr_bucket row)
          = length (filter (\<lambda>r. run_strategy st r = yb_strategy (yr_bucket row)) (st_runs st))
        \<and> yb_crash (yr_bucket row) = length (filter (\<lambda>r. py_upper (rn_verdict r) = ''CRASH'')
            (filter (\<lambda>r. run_strategy st r = yb_strategy (yr_bucket row)) (st_runs st)))
        \<and> yb_crash (yr_bucket row) + yb_property (yr_bucket row) + yb_clean (yr_bucket row)
            + yb_no_exec (yr_bucket row) + yb_other (yr_bucket row) = yb_runs (yr_bucket row)
        \<and> 0 \<le> yr_untimed row \<and> 0 \<le> yr_yield row \<and> yr_yield row \<le> 1"
      using B by (simp add: row)
  qed
qed


subsection \<open>What counts as evidence in a lane\<close>

definition lane_open :: "string \<Rightarrow> (string \<times> (string \<times> string)) list \<Rightarrow> string set" where
  "lane_open agent claimant =
     {cid. \<exists>owner lane. map_of claimant cid = Some (owner, lane) \<and> (agent = [] \<or> owner = agent)}"

lemma finite_lane_open [simp]: "finite (lane_open agent claimant)"
  by (rule finite_subset [of _ "fst ` set claimant"]) (auto simp: lane_open_def dest: map_of_SomeD intro: rev_image_eqI)

lemma lane_open_update:
  "lane_open agent (AList.update cid (owner, lane) claimant) =
     (if agent = [] \<or> owner = agent then insert cid (lane_open agent claimant)
      else lane_open agent claimant - {cid})"
  by (auto simp: lane_open_def update_conv split: if_splits)

lemma lane_open_delete: "lane_open agent (AList.delete cid claimant) = lane_open agent claimant - {cid}"
  by (auto simp: lane_open_def delete_conv)

text \<open>Every counted conclusion uses up one claim of the agent.\<close>

lemma lane_step_invariant:
  fixes claims :: "claim list"
  shows "(case foldl (lane_step agent strategy) ([], 0) claims of
     (claimant, n) \<Rightarrow> n + card (lane_open agent claimant)
        \<le> length (filter (\<lambda>r. cl_st r = ''claimed'' \<and> (agent = [] \<or> cl_agent r = agent)) claims)
      \<and> n \<le> length (filter (\<lambda>r. cl_st r \<in> set TERMINAL_CARD_STATUSES
              \<and> cl_source r \<noteq> ''release-stale-claims'' \<and> (agent = [] \<or> cl_agent r = agent)) claims))"
proof (induction claims rule: rev_induct)
  case Nil
  show ?case by (simp add: lane_open_def)
next
  case (snoc r claims)
  obtain m n where s: "foldl (lane_step agent strategy) ([], 0) claims = (m, n)" by fastforce
  let ?C = "length (filter (\<lambda>r. cl_st r = ''claimed'' \<and> (agent = [] \<or> cl_agent r = agent)) claims)"
  let ?T = "length (filter (\<lambda>r. cl_st r \<in> set TERMINAL_CARD_STATUSES
              \<and> cl_source r \<noteq> ''release-stale-claims'' \<and> (agent = [] \<or> cl_agent r = agent)) claims)"
  have ih: "n + card (lane_open agent m) \<le> ?C" "n \<le> ?T" using snoc by (simp_all add: s)
  consider (claimed) "cl_st r = ''claimed''"
    | (closing) p where "cl_st r \<noteq> ''claimed''" "cl_st r \<in> set TERMINAL_CARD_STATUSES"
        "cl_source r \<noteq> ''release-stale-claims''" "map_of m (cl_card r) = Some p"
    | (other) "cl_st r \<noteq> ''claimed''" "lane_step agent strategy (m, n) r = (m, n)"
  proof (cases "cl_st r = ''claimed''")
    case True
    then show thesis by (rule that(1))
  next
    case F: False
    show thesis
    proof (cases "cl_st r \<in> set TERMINAL_CARD_STATUSES \<and> cl_source r \<noteq> ''release-stale-claims''
        \<and> map_of m (cl_card r) \<noteq> None")
      case True
      with F show thesis by (auto intro: that(2))
    next
      case False
      with F show thesis by (intro that(3)) (auto simp: lane_step_def Let_def split: option.split)
    qed
  qed
  then show ?case
  proof cases
    case claimed
    obtain lane where st: "lane_step agent strategy (m, n) r
        = (AList.update (cl_card r) (cl_agent r, lane) m, n)"
      using claimed
      by (cases "case map_of m (cl_card r) of None \<Rightarrow> ([], []) | Some p \<Rightarrow> p")
        (simp add: lane_step_def Let_def)
    have "card (insert (cl_card r) (lane_open agent m)) \<le> Suc (card (lane_open agent m))"
      by (rule card_insert_le_m1) simp_all
    moreover have "card (lane_open agent m - {cl_card r}) \<le> card (lane_open agent m)"
      by (rule card_mono) auto
    ultimately show ?thesis
      using ih claimed claimed_not_terminal by (auto simp: s st lane_open_update)
  next
    case closing
    obtain owner lane where p: "p = (owner, lane)" by fastforce
    have st: "lane_step agent strategy (m, n) r = (AList.delete (cl_card r) m,
        if cl_agent r = owner \<and> lane = py_upper strategy \<and> (agent = [] \<or> cl_agent r = agent)
        then n + 1 else n)"
      using closing by (simp add: lane_step_def Let_def p)
    have le: "card (lane_open agent m - {cl_card r}) \<le> card (lane_open agent m)"
      by (rule card_mono) auto
    have lt: "Suc (card (lane_open agent m - {cl_card r})) = card (lane_open agent m)"
      if "agent = [] \<or> owner = agent"
      using that closing(4) by (intro card_Suc_Diff1 finite_lane_open) (simp add: lane_open_def p)
    show ?thesis
      using ih le lt closing by (auto simp: s st lane_open_delete)
  next
    case other
    then show ?thesis using ih by (simp add: s)
  qed
qed

text \<open>
  Fact (lane_evidence_bounded). The cards counted as concluded in a lane are backed by the ledger: an
  agent is credited with no more conclusions than it has claim rows, and with no more than it has
  written closing rows; the rows \<open>release_stale_claims\<close> writes count for nobody.
\<close>

theorem lane_evidence_bounded:
  "lane_conclusions claims agent strategy
     \<le> length (filter (\<lambda>r. cl_st r = ''claimed'' \<and> (agent = [] \<or> cl_agent r = agent)) claims)
   \<and> lane_conclusions claims agent strategy
     \<le> length (filter (\<lambda>r. cl_st r \<in> set TERMINAL_CARD_STATUSES
          \<and> cl_source r \<noteq> ''release-stale-claims'' \<and> (agent = [] \<or> cl_agent r = agent)) claims)"
  using lane_step_invariant [where agent = agent and strategy = strategy and claims = claims]
  unfolding lane_conclusions_def case_prod_beta by linarith

subsection \<open>Durations are read back\<close>

text \<open>
  Fact (duration_roundtrip). The duration \<open>add_run\<close> records is the one the statistics read back: a
  finite nonnegative number of seconds rounded to milliseconds, or unknown, never a made-up zero.
\<close>

theorem duration_roundtrip:
  "row_duration (fst (add_run sha1 st a now row_now)) = run_duration_seconds (ra_duration a)
   \<and> snd (add_run sha1 st a now row_now) = st\<lparr>st_runs := st_runs st @ [fst (add_run sha1 st a now row_now)]\<rparr>
   \<and> (run_duration_seconds (ra_duration a) \<noteq> None) =
       (\<exists>x. py_float (ra_duration a) = Some (PFin x) \<and> 0 \<le> x \<and> ra_duration a \<noteq> [])"
proof -
  have "Option.bind (finite_duration x) finite_duration = finite_duration x" for x
    using py_round_to_bounds(1) [where a = 0 and x = x and n = 3]
    by (cases "x < 0") (simp_all add: finite_duration_def not_less)
  then have "Option.bind (run_duration_seconds t) finite_duration = run_duration_seconds t" for t
    by (simp add: run_duration_seconds_def split: option.splits pfloat.splits)
  then show ?thesis
    by (auto simp: add_run_def Let_def row_duration_def run_of_args_def run_duration_seconds_def
        finite_duration_def split: if_splits option.splits pfloat.splits)
qed

subsection \<open>What the rank table counts\<close>

definition alist_sum :: "('b \<Rightarrow> nat) \<Rightarrow> ('k \<times> 'b) list \<Rightarrow> nat" where
  "alist_sum f m = sum_list (map (\<lambda>p. f (snd p)) m)"

lemma alist_sum_bump:
  assumes "\<And>b. f (h b) = f b + d" "f z = 0"
  shows "alist_sum f (AList.map_default k (h z) h m) = alist_sum f m + d"
  by (induction m) (auto simp: alist_sum_def assms)

lemma alist_sum_lookup:
  assumes "distinct ks" "distinct (map fst m)" "fst ` set m \<subseteq> set ks"
  shows "sum_list (map (\<lambda>k. case map_of m k of None \<Rightarrow> 0 | Some b \<Rightarrow> f b) ks) = alist_sum f m"
  using assms(2,3)
proof (induction m)
  case Nil
  show ?case by (simp add: alist_sum_def)
next
  case (Cons p m)
  obtain k0 b0 where p: "p = (k0, b0)" by (cases p)
  have k0: "map_of m k0 = None" "k0 \<in> set ks" using Cons.prems by (auto simp: p map_of_eq_None_iff)
  have "sum_list (map (\<lambda>k. case map_of (p # m) k of None \<Rightarrow> 0 | Some b \<Rightarrow> f b) ks)
      = sum_list (map (\<lambda>k. (if k = k0 then f b0 else 0)
          + (case map_of m k of None \<Rightarrow> 0 | Some b \<Rightarrow> f b)) ks)"
    using k0 by (intro arg_cong [where f = sum_list] map_cong) (auto simp: p)
  also have "\<dots> = f b0 + alist_sum f m"
    using Cons assms(1) k0(2) by (simp add: p sum_list_addf sum_list_distinct_conv_sum_set)
  finally show ?case by (simp add: p alist_sum_def)
qed

lemma runs_by_card_lookup:
  assumes "cid \<noteq> []"
  shows "(case map_of (runs_by_card runs) cid of None \<Rightarrow> (0, 0) | Some p \<Rightarrow> p) =
    (length (filter (\<lambda>r. rn_card r = cid) runs),
     length (filter (\<lambda>r. rn_card r = cid \<and> is_diagnostic r) runs))"
proof (induction runs rule: rev_induct)
  case Nil
  show ?case by (simp add: runs_by_card_def)
next
  case (snoc r runs)
  have s: "runs_by_card (runs @ [r]) = (if rn_card r = [] then runs_by_card runs
      else AList.map_default (rn_card r) (1, if is_diagnostic r then 1 else 0)
             (\<lambda>(n, d). (n + 1, if is_diagnostic r then d + 1 else d)) (runs_by_card runs))"
    by (simp add: runs_by_card_def)
  show ?case
    using snoc assms by (auto simp: s map_of_map_default split: option.splits prod.splits)
qed

definition new_runs :: "run list \<Rightarrow> string list \<Rightarrow> string \<Rightarrow> nat" where
  "new_runs runs attributed cid =
     (if cid \<in> set attributed then 0 else length (filter (\<lambda>r. rn_card r = cid) runs))"

lemma map_fst_map_default:
  "map fst (AList.map_default k v f m) =
     (if k \<in> set (map fst m) then map fst m else map fst m @ [k])"
  by (induction m) auto

lemma rank_step_fields:
  fixes s :: rank_state and runs :: "run list" and c :: claim
  assumes "cl_card c \<noteq> []"
  defines "s' \<equiv> rank_step (runs_by_card runs) s c"
  shows "rs_attributed s' = List.insert (cl_card c) (rs_attributed s)"
    "alist_sum rb_claims (rs_buckets s') = alist_sum rb_claims (rs_buckets s) + 1"
    "alist_sum rb_cards (rs_buckets s') = alist_sum rb_cards (rs_buckets s)
       + (if cl_card c \<in> set (rs_attributed s) then 0 else 1)"
    "alist_sum rb_runs (rs_buckets s') = alist_sum rb_runs (rs_buckets s)
       + new_runs runs (rs_attributed s) (cl_card c)"
    "map fst (rs_buckets s') = (if bucket_of (cl_rank c) \<in> set (map fst (rs_buckets s))
       then map fst (rs_buckets s) else map fst (rs_buckets s) @ [bucket_of (cl_rank c)])"
proof -
  note run = runs_by_card_lookup [OF assms(1), of runs]
  define bump where "bump b = (let b' = b\<lparr>rb_claims := rb_claims b + 1\<rparr> in
      if cl_card c \<in> set (rs_attributed s) then b'
      else (let b1 = b'\<lparr>rb_cards := rb_cards b' + 1\<rparr> in
            case map_of (runs_by_card runs) (cl_card c) of
              None \<Rightarrow> b1
            | Some (n, d) \<Rightarrow> b1\<lparr>rb_probed := rb_probed b1 + 1, rb_runs := rb_runs b1 + n,
                                rb_diagnostics := rb_diagnostics b1 + d\<rparr>))"
    for b :: rank_bucket
  have s': "rs_buckets s' = AList.map_default (bucket_of (cl_rank c)) (bump rank_bucket0) bump (rs_buckets s)"
    "rs_attributed s' = List.insert (cl_card c) (rs_attributed s)"
    using assms(1) by (simp_all add: s'_def rank_step_def Let_def bump_def [abs_def])
  have b: "rb_claims (bump b) = rb_claims b + 1"
    "rb_cards (bump b) = rb_cards b + (if cl_card c \<in> set (rs_attributed s) then 0 else 1)"
    "rb_runs (bump b) = rb_runs b + new_runs runs (rs_attributed s) (cl_card c)" for b
    using run by (auto simp: bump_def Let_def new_runs_def split: option.splits prod.splits)
  show "rs_attributed s' = List.insert (cl_card c) (rs_attributed s)" by (rule s'(2))
  show "alist_sum rb_claims (rs_buckets s') = alist_sum rb_claims (rs_buckets s) + 1"
    "alist_sum rb_cards (rs_buckets s') = alist_sum rb_cards (rs_buckets s)
       + (if cl_card c \<in> set (rs_attributed s) then 0 else 1)"
    "alist_sum rb_runs (rs_buckets s') = alist_sum rb_runs (rs_buckets s)
       + new_runs runs (rs_attributed s) (cl_card c)"
    unfolding s' by (rule alist_sum_bump; simp add: b rank_bucket0_def)+
  show "map fst (rs_buckets s') = (if bucket_of (cl_rank c) \<in> set (map fst (rs_buckets s))
       then map fst (rs_buckets s) else map fst (rs_buckets s) @ [bucket_of (cl_rank c)])"
    unfolding s' by (rule map_fst_map_default)
qed

definition yield_order :: "(int \<times> int option) option list" where
  "yield_order = map Some YIELD_BUCKETS @ [None]"

lemma distinct_yield_order: "distinct yield_order"
  by (simp add: yield_order_def YIELD_BUCKETS_def)

lemma bucket_of_in_order: "bucket_of rank \<in> set yield_order"
proof (cases "bucket_of rank")
  case None
  then show ?thesis by (simp add: yield_order_def)
next
  case (Some b)
  then have "b \<in> set YIELD_BUCKETS"
    unfolding bucket_of_def find_Some_iff by (auto simp: find_Some_iff in_set_conv_nth split: if_splits)
  then show ?thesis by (simp add: Some yield_order_def)
qed

lemma rank_scan_invariant:
  fixes claims :: "claim list" and runs :: "run list"
  shows "alist_sum rb_claims (rs_buckets (rank_scan runs claims))
       = length (filter (\<lambda>c. cl_card c \<noteq> []) claims)
     \<and> alist_sum rb_cards (rs_buckets (rank_scan runs claims)) = length (rs_attributed (rank_scan runs claims))
     \<and> alist_sum rb_runs (rs_buckets (rank_scan runs claims))
       = length (filter (\<lambda>r. rn_card r \<in> set (rs_attributed (rank_scan runs claims))) runs)
     \<and> distinct (map fst (rs_buckets (rank_scan runs claims)))
     \<and> fst ` set (rs_buckets (rank_scan runs claims)) \<subseteq> set yield_order
     \<and> distinct (rs_attributed (rank_scan runs claims))
     \<and> set (rs_attributed (rank_scan runs claims)) = cl_card ` set claims - {[]}"
proof (induction claims rule: rev_induct)
  case Nil
  show ?case by (simp add: rank_scan_def alist_sum_def)
next
  case (snoc c cs)
  define s where "s = rank_scan runs cs"
  have step: "rank_scan runs (cs @ [c]) = rank_step (runs_by_card runs) s c"
    by (simp add: rank_scan_def s_def)
  note ih = snoc [folded s_def]
  show ?case
  proof (cases "cl_card c = []")
    case True
    then have "rank_step (runs_by_card runs) s c = s" by (simp add: rank_step_def)
    with ih True show ?thesis by (auto simp: step)
  next
    case False
    note f = rank_step_fields [OF False, where runs = runs and s = s]
    let ?A = "rs_attributed s"
    have ks: "fst ` set (rs_buckets (rank_step (runs_by_card runs) s c)) \<subseteq> set yield_order
        \<and> distinct (map fst (rs_buckets (rank_step (runs_by_card runs) s c)))"
      using ih bucket_of_in_order [of "cl_rank c"] unfolding f(5) set_map [symmetric] by auto
    have new: "length (filter (\<lambda>r. rn_card r \<in> set ?A) runs) + new_runs runs ?A (cl_card c)
        = length (filter (\<lambda>r. rn_card r \<in> set (List.insert (cl_card c) ?A)) runs)"
    proof (cases "cl_card c \<in> set ?A")
      case True
      then show ?thesis by (simp add: new_runs_def List.insert_def)
    next
      case F: False
      have "length (filter (\<lambda>r. rn_card r \<in> set ?A) runs) + length (filter (\<lambda>r. rn_card r = cl_card c) runs)
          = length (filter (\<lambda>r. rn_card r \<in> set ?A \<or> rn_card r = cl_card c) runs)"
        by (rule length_filter_disj) (use F in auto)
      then show ?thesis using F by (simp add: new_runs_def disj_commute)
    qed
    show ?thesis
      unfolding step f using ih ks new False by (auto simp: List.insert_def)
  qed
qed

text \<open>
  Fact (card_yield_partition). The rank table of \<open>card_yield\<close> accounts for the ledgers once: over its
  rows the claims add up to the claim rows that name a card, the cards to the distinct cards
  touched, and the runs to the runs of those cards, so a card reclaimed at another rank is not
  counted twice. There is no table exactly when there is no claim.
\<close>

theorem card_yield_partition:
  "(case card_yield st of
      None \<Rightarrow> st_claims st = []
    | Some (lines, touched, offered) \<Rightarrow>
        sum_list (map (\<lambda>(name, b, d). rb_claims b) lines)
          = length (filter (\<lambda>c. cl_card c \<noteq> []) (st_claims st))
        \<and> sum_list (map (\<lambda>(name, b, d). rb_cards b) lines) = touched
        \<and> touched = card (cl_card ` set (st_claims st) - {[]})
        \<and> sum_list (map (\<lambda>(name, b, d). rb_runs b) lines)
          = length (filter (\<lambda>r. rn_card r \<noteq> [] \<and> rn_card r \<in> cl_card ` set (st_claims st)) (st_runs st)))"
proof (cases "st_claims st = []")
  case True
  then show ?thesis by (simp add: card_yield_def)
next
  case False
  define s where "s = rank_scan (st_runs st) (st_claims st)"
  define lines where "lines = concat (map (\<lambda>name. case map_of (rs_buckets s) name of
                        None \<Rightarrow> [] | Some b \<Rightarrow> [(name, b, per_card b)]) yield_order)"
  define touched where "touched = length (remdups (filter (\<lambda>cid. cid \<noteq> []) (map cl_card (st_claims st))))"
  have y: "card_yield st = Some (lines, touched, foldl max 0 (rs_sizes s))"
    using False by (simp add: card_yield_def Let_def s_def lines_def touched_def yield_order_def)
  note inv = rank_scan_invariant [of "st_runs st" "st_claims st", folded s_def]
  have sum: "sum_list (map (\<lambda>(name, b, d). f b) lines) = alist_sum f (rs_buckets s)" for f :: "rank_bucket \<Rightarrow> nat"
  proof -
    have "sum_list (map (\<lambda>(name, b, d). f b) (concat (map (\<lambda>name. case map_of (rs_buckets s) name of
                        None \<Rightarrow> [] | Some b \<Rightarrow> [(name, b, per_card b)]) ks)))
        = sum_list (map (\<lambda>k. case map_of (rs_buckets s) k of None \<Rightarrow> 0 | Some b \<Rightarrow> f b) ks)" for ks
      by (induction ks) (auto split: option.splits)
    then show ?thesis
      unfolding lines_def using inv by (simp add: alist_sum_lookup [OF distinct_yield_order])
  qed
  have t: "touched = card (cl_card ` set (st_claims st) - {[]})"
    unfolding touched_def length_remdups_card_conv
    by (rule arg_cong [where f = card]) auto
  have "length (rs_attributed s) = touched"
    using inv distinct_card [of "rs_attributed s"] t by simp
  moreover have "length (filter (\<lambda>r. rn_card r \<in> set (rs_attributed s)) (st_runs st))
      = length (filter (\<lambda>r. rn_card r \<noteq> [] \<and> rn_card r \<in> cl_card ` set (st_claims st)) (st_runs st))"
    using inv by (intro arg_cong [where f = length] filter_cong) auto
  ultimately show ?thesis
    unfolding y option.case prod.case sum using inv t by simp
qed

end
