(* ===== verification/QueueSteps.thy ===== *)
theory QueueSteps
  imports Claim Hyps CardOps
begin

text \<open>
  The queue as a system: agents and the harness act on one results tree in any order, each action
  atomic under the locks the code takes. \<open>queue_step\<close> has one rule per operation of the component
  theories, the clock never runs backwards, and what holds of every reachable tree is proved by
  induction over the steps. The contract between the ledger of leases and the reader of its history
  is the locale \<open>turn_log\<close>.
\<close>

subsection \<open>Histories\<close>

text \<open>A log every row of which was appended under a guard that saw the rows before it.\<close>

definition guarded :: "('r list \<Rightarrow> 'r \<Rightarrow> bool) \<Rightarrow> 'r list \<Rightarrow> bool" where
  "guarded G rows \<longleftrightarrow> (\<forall>n < length rows. G (take n rows) (rows ! n))"

lemma guarded_Nil [simp]: "guarded G []"
  by (simp add: guarded_def)

lemma guarded_snoc [simp]: "guarded G (rows @ [r]) \<longleftrightarrow> guarded G rows \<and> G rows r"
  unfolding guarded_def by (auto simp: nth_append less_Suc_eq)

lemma guarded_append: "(\<And>xs r. r \<in> set ys \<Longrightarrow> G xs r) \<Longrightarrow> guarded G rows \<Longrightarrow> guarded G (rows @ ys)"
proof (induction ys rule: rev_induct)
  case (snoc y ys)
  then have "guarded G (rows @ ys)" by simp
  with snoc.prems show ?case unfolding append_assoc [symmetric] guarded_snoc by simp
qed simp

lemma guarded_split: "guarded G (xs @ r # ys) \<Longrightarrow> G xs r"
  unfolding guarded_def by (drule spec [of _ "length xs"]) simp

lemma guarded_mono: "guarded G rows \<Longrightarrow> (\<And>xs r. G xs r \<Longrightarrow> H xs r) \<Longrightarrow> guarded H rows"
  by (simp add: guarded_def)

lemma filter_split:
  "filter P rows = ys @ zs \<Longrightarrow> \<exists>us vs. rows = us @ vs \<and> filter P us = ys \<and> filter P vs = zs"
proof (induction rows arbitrary: ys)
  case (Cons x rows)
  show ?case
  proof (cases "P x \<and> ys = []")
    case True
    with Cons.prems show ?thesis by (intro exI [of _ "[]"] exI [of _ "x # rows"]) simp
  next
    case False
    then obtain ys' where "filter P rows = ys' @ zs" "ys = (if P x then x # ys' else ys')"
      using Cons.prems by (cases "P x"; cases ys) auto
    with Cons.IH obtain us vs where "rows = us @ vs" "filter P us = ys'" "filter P vs = zs" by blast
    with \<open>ys = _\<close> show ?thesis by (intro exI [of _ "x # us"] exI [of _ vs]) simp
  qed
qed simp

text \<open>
  Turns at a resource: a log of rows in which some rows hold a resource for an owner, from a start
  until an expiry. The contract is that the latest row of a resource is the last one naming it.
\<close>

locale turn_log =
  fixes resource :: "'r \<Rightarrow> string"
    and holds :: "'r \<Rightarrow> bool"
    and owner :: "'r \<Rightarrow> string"
    and start :: "'r \<Rightarrow> int option"
    and expiry :: "'r \<Rightarrow> int option"
    and latest :: "'r list \<Rightarrow> string \<Rightarrow> 'r option"
  assumes latest_Nil: "latest [] c = None"
    and latest_snoc: "latest (rows @ [r]) c = (if resource r = c \<and> c \<noteq> [] then Some r else latest rows c)"
begin

lemma latest_filter:
  "c \<noteq> [] \<Longrightarrow> latest rows c =
     (case rev (filter (\<lambda>r. resource r = c) rows) of [] \<Rightarrow> None | r # _ \<Rightarrow> Some r)"
  by (induction rows rule: rev_induct) (simp_all add: latest_Nil latest_snoc)

lemma neighbours:
  assumes "c \<noteq> []" "filter (\<lambda>r. resource r = c) rows = us @ p # r # vs"
  shows "\<exists>xs ys. rows = xs @ r # ys \<and> latest xs c = Some p \<and> resource r = c"
proof -
  have "filter (\<lambda>r. resource r = c) rows = (us @ [p]) @ r # vs" using assms(2) by simp
  then obtain xs zs where x: "rows = xs @ zs" "filter (\<lambda>r. resource r = c) xs = us @ [p]"
    "filter (\<lambda>r. resource r = c) zs = r # vs"
    using filter_split by meson
  then obtain ys1 ys2 where y: "zs = ys1 @ r # ys2" "\<forall>u \<in> set ys1. resource u \<noteq> c" "resource r = c"
    by (auto simp: filter_eq_Cons_iff)
  have "filter (\<lambda>r. resource r = c) (xs @ ys1) = us @ [p]" using x(2) y(2) by simp
  then have "latest (xs @ ys1) c = Some p" by (simp add: latest_filter [OF assms(1)])
  with x(1) y show ?thesis by (intro exI [of _ "xs @ ys1"] exI [of _ ys2]) simp
qed

lemma first_switch:
  assumes "owner (hd rs) \<noteq> owner (last rs)" "rs \<noteq> []"
  shows "\<exists>us p r vs. rs = us @ p # r # vs \<and> owner p = owner (hd rs) \<and> owner r \<noteq> owner (hd rs)"
  using assms
proof (induction rs)
  case (Cons a rs)
  then obtain b bs where rs: "rs = b # bs" by (cases rs) auto
  show ?case
  proof (cases "owner b = owner a")
    case True
    then obtain us p r vs where "rs = us @ p # r # vs" "owner p = owner b" "owner r \<noteq> owner b"
      using Cons rs by auto
    with True show ?thesis by (intro exI [of _ "a # us"]) auto
  next
    case False
    then show ?thesis using rs by (intro exI [of _ "[]"]) auto
  qed
qed simp

text \<open>
  Between two turns of different owners at one resource, either a row of the resource gave it up, or
  a row of the first owner had run out when a row of another owner started.
\<close>

lemma handover:
  assumes turn: "\<And>xs r ys p. rows = xs @ r # ys \<Longrightarrow> latest xs (resource r) = Some p \<Longrightarrow> holds p \<Longrightarrow>
      holds r \<Longrightarrow> owner p \<noteq> owner r \<Longrightarrow> \<exists>e s. expiry p = Some e \<and> start r = Some s \<and> e \<le> s"
    and c: "c \<noteq> []" "resource a = c" "resource b = c"
    and rows: "rows = pre @ a # mid @ b # post" "owner a \<noteq> owner b"
    and held: "holds a" "holds b" "\<forall>x \<in> set mid. resource x = c \<longrightarrow> holds x"
  shows "\<exists>p r e s. p \<in> set (a # mid) \<and> r \<in> set (mid @ [b]) \<and> resource p = c \<and> resource r = c
     \<and> owner p = owner a \<and> owner r \<noteq> owner a \<and> expiry p = Some e \<and> start r = Some s \<and> e \<le> s"
proof -
  define m where "m = filter (\<lambda>r. resource r = c) mid"
  obtain us p r vs where s: "a # m @ [b] = us @ p # r # vs" "owner p = owner a" "owner r \<noteq> owner a"
    using first_switch [of "a # m @ [b]"] rows(2) by auto
  have "filter (\<lambda>r. resource r = c) rows
      = (filter (\<lambda>r. resource r = c) pre @ us) @ p # r # (vs @ filter (\<lambda>r. resource r = c) post)"
    using c s(1) by (simp add: rows(1) m_def)
  then obtain xs ys where x: "rows = xs @ r # ys" "latest xs c = Some p" "resource r = c"
    using neighbours [OF c(1)] by blast
  have "set (a # m @ [b]) = set us \<union> {p, r} \<union> set vs" by (simp only: s(1)) auto
  then have in_m: "p \<in> set (a # m @ [b])" "r \<in> set (a # m @ [b])" by auto
  have "\<forall>x \<in> set (a # m @ [b]). holds x \<and> resource x = c"
    using held c by (auto simp: m_def)
  then have h: "holds p" "holds r" "resource p = c" using in_m by blast+
  have "p \<noteq> b" "r \<noteq> a" using s(2,3) rows(2) by auto
  then have mem: "p \<in> set (a # mid)" "r \<in> set (mid @ [b])" using in_m by (auto simp: m_def)
  obtain e st where "expiry p = Some e" "start r = Some st" "e \<le> st"
    using turn [OF x(1) _ h(1,2)] x(2,3) s(2,3) by auto
  with mem h(3) x(3) s(2,3) show ?thesis by blast
qed

end

subsection \<open>The steps\<close>

text \<open>The surroundings of a run: its settings, the digest, and what is on disk.\<close>

record world =
  wd_cx :: ctx
  wd_sha1 :: "string \<Rightarrow> string"
  wd_bundles :: "string \<Rightarrow> art list"
  wd_unfinished :: "string \<Rightarrow> bool"

text \<open>
  A state is a tree and the clock. An operation reads the clock at \<open>t\<close> and stamps its rows at
  \<open>t'\<close>, not before; the stamps lie in the years \<open>datetime\<close> can hold.
\<close>

type_synonym qstate = "store \<times> int"

definition stampable :: "world \<Rightarrow> int \<Rightarrow> bool" where
  "stampable w t \<longleftrightarrow> iso_time t \<and> iso_time (t + work_card_claim_ttl (wd_cx w))"

inductive queue_step :: "world \<Rightarrow> qstate \<Rightarrow> qstate \<Rightarrow> bool" for w :: world where
  tick: "queue_step w (st, t) (st, t')"
    if "t \<le> t'"
| claim: "queue_step w (st, t) (st', t')"
    if "claim_next_card (wd_cx w) st agent mode role True strategy u ex t t' = (Some c, st')"
    and "t \<le> t'" and "stampable w t'"
| open_hyp: "queue_step w (st, t) (st', t')"
    if "add_hypothesis (wd_sha1 w) (wd_cx w) st a t t' = Some (Inr (row, st'))"
    and "t \<le> t'" and "stampable w t'"
| route: "queue_step w (st, t) (st', t)"
    if "add_cluster_hypotheses (wd_sha1 w) (wd_cx w) st crash leads strategy n peers t = Some (s, st')"
| update: "queue_step w (st, t) (st', t)"
    if "update_hypothesis (wd_bundles w) (wd_unfinished w) st hid status text_arg agent t = Inr (found, st')"
| close: "queue_step w (st, t) (st', t')"
    if "update_card_status (wd_unfinished w) (wd_cx w) st cid status agent text_arg t t' = Inr (row, st')"
    and "status \<noteq> ''claimed''" and "t \<le> t'"
| release: "queue_step w (st, t) (snd (release_stale_claims (wd_cx w) st grace t live), t)"
| reject: "queue_step w (st, t) (snd (record_artifact_rejection st name reason category bd t), t)"
| fold: "queue_step w (st, t) (snd (record_artifact_duplicate st name into reason bd t), t)"
| reconsider: "queue_step w (st, t) (snd (record_artifact_reconsideration st name reason bd t), t)"
| reconcile: "queue_step w (st, t) (snd (reconcile_artifact_hypotheses st b t), t)"
| accept: "queue_step w (st, t) (snd (record_accepted_artifact_card st name kind bd t), t)"
| execute: "queue_step w (st, t) (snd (add_run (wd_sha1 w) st ra t t'), t')"
    if "t \<le> t'"
| write_note: "queue_step w (st, t) (snd (add_note (wd_sha1 w) st agent hid cid kind text_arg t t'), t')"
    if "t \<le> t'"
| iterate: "queue_step w (st, t) (record_subsystem_iteration st subsystem productive, t)"

subsection \<open>What one step adds\<close>

definition accepted_ids :: "claim list \<Rightarrow> string list" where
  "accepted_ids claims = map cl_artifact (filter (\<lambda>r. cl_source r = ''accepted-artifact'') claims)"

lemma accepted_ids_append [simp]: "accepted_ids (xs @ ys) = accepted_ids xs @ accepted_ids ys"
  by (simp add: accepted_ids_def)

text \<open>A row that starts a lease: its stamps are whole seconds, and if another agent's claim is the
  latest row of the card, that claim has run out.\<close>

definition whole_row :: "world \<Rightarrow> claim \<Rightarrow> bool" where
  "whole_row w r \<longleftrightarrow>
     cl_st r = ''claimed'' \<longrightarrow> (\<exists>x. claim_row_expiry r (work_card_claim_ttl (wd_cx w)) = Some (whole_sec x))"

definition lease_turn :: "world \<Rightarrow> claim list \<Rightarrow> claim \<Rightarrow> bool" where
  "lease_turn w claims r \<longleftrightarrow> whole_row w r
     \<and> (\<forall>p. map_of (latest_claims_by_card claims) (cl_card r) = Some p \<longrightarrow> cl_st p = ''claimed'' \<longrightarrow>
          cl_st r = ''claimed'' \<longrightarrow> cl_agent p \<noteq> cl_agent r \<longrightarrow>
          (\<exists>e s. claim_row_expiry p (work_card_claim_ttl (wd_cx w)) = Some e
             \<and> claim_start r = Some s \<and> e \<le> s))"

lemma lease_turn_other: "cl_st r \<noteq> ''claimed'' \<Longrightarrow> lease_turn w claims r"
  by (simp add: lease_turn_def whole_row_def)

lemma whole_sec_le_iff: "whole_sec x \<le> t \<longleftrightarrow> whole_sec x \<le> whole_sec t"
proof
  assume "whole_sec x \<le> t"
  then have "whole_sec (whole_sec x) \<le> whole_sec t" by (rule whole_sec_mono)
  moreover have "whole_sec (whole_sec x) = whole_sec x" by (simp add: whole_sec_def)
  ultimately show "whole_sec x \<le> whole_sec t" by simp
qed (use whole_sec_le [of t] in linarith)

text \<open>A fresh lease, where the claims before it are whole and no other agent's lease is live.\<close>

lemma lease_turn_fresh:
  assumes "\<forall>p \<in> set claims. whole_row w p" "stampable w t'" "t \<le> t'"
    and r: "cl_claimed_at r = now_iso t'" "cl_expires_at r = now_iso (t' + work_card_claim_ttl (wd_cx w))"
    and free: "\<And>p. map_of (latest_claims_by_card claims) (cl_card r) = Some p \<Longrightarrow>
      claim_blocks_card (Some p) (work_card_claim_ttl (wd_cx w)) t \<Longrightarrow> cl_agent p = cl_agent r"
  shows "lease_turn w claims r"
  unfolding lease_turn_def
proof (intro conjI allI impI)
  show "whole_row w r"
    using assms(2) by (auto simp: whole_row_def claim_row_expiry_def r parse_iso stampable_def)
  fix p
  assume p: "map_of (latest_claims_by_card claims) (cl_card r) = Some p" "cl_st p = ''claimed''"
    and ne: "cl_agent p \<noteq> cl_agent r"
  have "p \<in> set claims" using latest_claims_SomeD [OF p(1)] by simp
  then obtain x where x: "claim_row_expiry p (work_card_claim_ttl (wd_cx w)) = Some (whole_sec x)"
    using assms(1) p(2) by (auto simp: whole_row_def)
  have "\<not> claim_blocks_card (Some p) (work_card_claim_ttl (wd_cx w)) t" using free [OF p(1)] ne by blast
  moreover have "cl_st_claimed p = ''claimed''"
    using p(2) by (simp add: cl_st_def cl_st_claimed_def split: option.splits)
  ultimately have "whole_sec x \<le> t'" using x assms(3) by (simp add: claim_blocks_card_Some)
  then have "whole_sec x \<le> whole_sec t'" by (rule whole_sec_le_iff [THEN iffD1])
  moreover have "claim_start r = Some (whole_sec t')"
    using assms(2) by (simp add: claim_start_def r parse_iso stampable_def)
  ultimately show "\<exists>e s. claim_row_expiry p (work_card_claim_ttl (wd_cx w)) = Some e
      \<and> claim_start r = Some s \<and> e \<le> s" using x by blast
qed

text \<open>The effect of a step on the two ledgers.\<close>

definition grows :: "world \<Rightarrow> store \<Rightarrow> store \<Rightarrow> bool" where
  "grows w st st' \<longleftrightarrow> (\<exists>rows ids. st_claims st' = st_claims st @ rows
     \<and> map hy_id (st_hyps st') = map hy_id (st_hyps st) @ ids
     \<and> distinct ids \<and> set ids \<inter> hy_id ` set (st_hyps st) = {}
     \<and> ((\<forall>r \<in> set rows. cl_st r \<noteq> ''claimed'')
        \<or> (\<exists>r. rows = [r] \<and> ((\<forall>p \<in> set (st_claims st). whole_row w p) \<longrightarrow> lease_turn w (st_claims st) r)))
     \<and> (accepted_ids rows = [] \<or> (\<exists>a. accepted_ids rows = [a] \<and> a \<notin> set (accepted_ids (st_claims st))))
     \<and> st_cards st' = st_cards st)"

lemma grows_refl: "st_claims st' = st_claims st \<Longrightarrow> map hy_id (st_hyps st') = map hy_id (st_hyps st) \<Longrightarrow>
    st_cards st' = st_cards st \<Longrightarrow> grows w st st'"
  unfolding grows_def by (intro exI [of _ "[]"]) (simp add: accepted_ids_def)

lemma rewrite_rows_ids:
  "(\<And>h. hy_id (f h) = hy_id h) \<Longrightarrow> map hy_id (rewrite_rows rows sel f) = map hy_id rows"
  by (intro nth_equalityI) (simp_all add: nth_rewrite_rows)

lemma grows_rows:
  assumes "st_claims st' = st_claims st @ rows" "map hy_id (st_hyps st') = map hy_id (st_hyps st)"
    "st_cards st' = st_cards st" "\<forall>r \<in> set rows. cl_st r \<noteq> ''claimed'' \<and> cl_source r \<noteq> ''accepted-artifact''"
  shows "grows w st st'"
  using assms unfolding grows_def
  by (intro exI [of _ rows] exI [of _ "[]"]) (auto simp: accepted_ids_def filter_empty_conv)

lemma grows_claim:
  assumes "claim_next_card (wd_cx w) st agent mode role True strategy u ex t t' = (Some c, st')"
    and "t \<le> t'" "stampable w t'"
  shows "grows w st st'"
proof -
  let ?sn = "claim_snapshot (wd_cx w) st agent mode strategy t"
  obtain c0 where c0: "is_candidate ?sn u c0"
    "st' = st\<lparr>st_claims := st_claims st @ [claim_row_of ?sn role t' c0]\<rparr>"
    by (rule claim_next_SomeD [OF assms(1)]) (simp add: that)
  have "lease_turn w (st_claims st) (claim_row_of ?sn role t' c0)"
    if "\<forall>p \<in> set (st_claims st). whole_row w p"
    by (rule lease_turn_fresh [OF that assms(3,2)]) (use candidate_other_lease [OF c0(1)] in simp_all)
  then show ?thesis
    unfolding grows_def
    by (intro exI [of _ "[claim_row_of ?sn role t' c0]"] exI [of _ "[]"]) (simp add: c0(2) accepted_ids_def)
qed

lemma grows_open:
  assumes "add_hypothesis (wd_sha1 w) (wd_cx w) st a t t' = Some (Inr (row, st'))"
    and "t \<le> t'" "stampable w t'"
  shows "grows w st st'"
proof -
  obtain hid where a: "new_hyp_id (wd_sha1 w) st a t = Some (Inr hid)" "row = hyp_of_args a hid t"
    "st_hyps st' = st_hyps st @ [row]" "st_cards st' = st_cards st"
    "st_claims st' = st_claims st @ (if ha_card a = [] then []
       else (case adopt_claim (wd_cx w) (st\<lparr>st_hyps := st_hyps st @ [row]\<rparr>) a hid t' of
               None \<Rightarrow> [] | Some r \<Rightarrow> [r]))"
    by (rule add_hypothesisD [OF assms(1)])
  have id: "hy_id row \<notin> hy_id ` set (st_hyps st)" using new_hyp_id_fresh [OF a(1)] by (simp add: a(2))
  show ?thesis
  proof (cases "ha_card a = [] \<or> adopt_claim (wd_cx w) (st\<lparr>st_hyps := st_hyps st @ [row]\<rparr>) a hid t' = None")
    case True
    then show ?thesis
      using a id unfolding grows_def
      by (intro exI [of _ "[]"] exI [of _ "[hy_id row]"]) (auto simp: accepted_ids_def)
  next
    case False
    then obtain r where r: "adopt_claim (wd_cx w) (st\<lparr>st_hyps := st_hyps st @ [row]\<rparr>) a hid t' = Some r"
      and ne: "ha_card a \<noteq> []" by auto
    note R = adopt_claim_SomeD [OF r]
    have "lease_turn w (st_claims st) r" if "\<forall>p \<in> set (st_claims st). whole_row w p"
      by (rule lease_turn_fresh [OF that assms(3) order_refl])
        (use R ne in \<open>simp_all add: latest_for_card_eq\<close>)
    then show ?thesis
      using a id R(7) ne r unfolding grows_def
      by (intro exI [of _ "[r]"] exI [of _ "[hy_id row]"]) (simp add: accepted_ids_def)
  qed
qed

lemma env_blocked_row_fields [simp]:
  "cl_st (env_blocked_row st cid agent text_arg source now) \<noteq> ''claimed''"
  "source \<noteq> ''accepted-artifact'' \<Longrightarrow>
     cl_source (env_blocked_row st cid agent text_arg source now) \<noteq> ''accepted-artifact''"
  by (simp_all add: env_blocked_row_def Let_def claim0_def cl_st_def)

lemma grows_update:
  assumes "update_hypothesis bundles unfinished st hid status text_arg agent t = Inr (found, st')"
  shows "grows w st st'"
proof (cases "matching_rows (st_hyps st) hid agent")
  case Nil
  with assms show ?thesis by (intro grows_refl) (auto simp: update_hypothesis_def)
next
  case (Cons i rest)
  show ?thesis
  proof (cases rest)
    case Nil
    define h where "h = st_hyps st ! i"
    obtain resolved where res: "resolve_artifact_status bundles st status (hy_agent h) = Inr resolved"
      using assms Cons Nil by (auto simp: update_hypothesis_def h_def Let_def split: sum.splits)
    define st1 where "st1 = st\<lparr>st_hyps := rewrite_rows (st_hyps st) [i] (updated_hyp resolved text_arg t)\<rparr>"
    have ids: "map hy_id (st_hyps st1) = map hy_id (st_hyps st)"
      unfolding st1_def by (simp add: rewrite_rows_ids updated_hyp_def)
    have same: "st_claims st1 = st_claims st" "st_cards st1 = st_cards st" by (simp_all add: st1_def)
    obtain cid a n where st': "st' = st1 \<or> st' = snd (record_env_blocked_card st1 cid a n ''env-block-own-card'' t)"
      using assms Cons Nil res
      by (auto simp: update_hypothesis_def h_def [symmetric] st1_def Let_def split: if_splits)
    show ?thesis
    proof (cases "st' = st1")
      case True
      then show ?thesis using ids same by (intro grows_refl) simp_all
    next
      case False
      with st' have "st' = st1\<lparr>st_claims := st_claims st1
          @ [env_blocked_row st1 cid a n ''env-block-own-card'' t]\<rparr>"
        by (auto simp: record_env_blocked_card_def split: if_splits)
      then show ?thesis using ids same by (intro grows_rows [where rows = "[_]"]) auto
    qed
  qed (use assms Cons in \<open>simp add: update_hypothesis_def\<close>)
qed

lemma grows_route:
  assumes "add_cluster_hypotheses sha1 cx st crash leads strategy n peers t = Some (s, st')"
  shows "grows w st st'"
proof -
  obtain agents k where "cluster_ok (st_hyps st) agents k s" and st': "st' = st\<lparr>st_hyps := st_hyps st @ cs_rows s\<rparr>"
    using add_cluster_ok [OF assms] by blast
  then show ?thesis
    unfolding grows_def cluster_ok_def
    by (intro exI [of _ "[]"] exI [of _ "map hy_id (cs_rows s)"]) (simp add: accepted_ids_def)
qed

lemma grows_accept: "grows w st (snd (record_accepted_artifact_card st name kind bd t))"
proof -
  let ?st' = "snd (record_accepted_artifact_card st name kind bd t)"
  consider "?st' = st" | (row) origin artifact terminal where
    "?st' = st\<lparr>st_claims := st_claims st @ [accepted_claim_row origin artifact terminal t]\<rparr>"
    "terminal = ''find'' \<or> terminal = ''crash''"
    "\<not> list_ex (\<lambda>r. cl_source r = ''accepted-artifact'' \<and> cl_artifact r = artifact) (st_claims st)"
  proof -
    define artifact terminal where "artifact = py_strip name" and "terminal = py_lower (py_strip kind)"
    show thesis
    proof (cases "artifact = [] \<or> artifact_prefix terminal = []
        \<or> \<not> py_startswith (artifact_prefix terminal) (py_upper artifact)")
      case True
      then show thesis
        by (intro that(1)) (simp add: record_accepted_artifact_card_def Let_def artifact_def terminal_def)
    next
      case guard: False
      let ?rows = "map snd (rows_naming_artifact (latest_indexed (st_hyps st))
          (accepted_how_named (artifact_prefix terminal) artifact) bd (st_runs st))"
      show thesis
      proof (cases ?rows)
        case Nil
        then show thesis
          by (intro that(1)) (simp add: record_accepted_artifact_card_def Let_def artifact_def terminal_def)
      next
        case (Cons m ms)
        define origin where "origin = max_by (\<lambda>h. str_or (hy_updated_at h) (hy_created_at h)) m ms"
        have e: "?st' = (if list_ex (\<lambda>r. cl_source r = ''accepted-artifact'' \<and> cl_artifact r = artifact) (st_claims st)
            then st else if list_ex (\<lambda>r. cl_source r \<noteq> ''accepted-artifact'' \<and> cl_card r = hy_card origin
                \<and> cl_agent r = hy_agent origin \<and> cl_st r = terminal) (st_claims st) then st
            else st\<lparr>st_claims := st_claims st @ [accepted_claim_row origin artifact terminal t]\<rparr>)"
          using guard Cons
          by (simp add: record_accepted_artifact_card_def Let_def artifact_def terminal_def origin_def)
        have "terminal = ''find'' \<or> terminal = ''crash''"
          using guard by (auto simp: artifact_prefix_def split: if_splits)
        then show thesis
          unfolding e by (cases "?st' = st") (rule that(1), assumption, rule that(2) [of origin artifact terminal],
            use e in \<open>auto split: if_splits\<close>)
      qed
    qed
  qed
  then show ?thesis
  proof cases
    case 1
    then show ?thesis by (intro grows_refl) simp_all
  next
    case row
    have "cl_st (accepted_claim_row origin artifact terminal t) = terminal"
      "accepted_ids [accepted_claim_row origin artifact terminal t] = [artifact]"
      by (simp_all add: accepted_claim_row_def claim0_def cl_st_def accepted_ids_def)
    moreover have "artifact \<notin> set (accepted_ids (st_claims st))"
      using row(3) by (auto simp: accepted_ids_def list_ex_iff)
    ultimately show ?thesis
      using row(1,2) unfolding grows_def
      by (intro exI [of _ "[accepted_claim_row origin artifact terminal t]"] exI [of _ "[]"]) auto
  qed
qed

lemma grows_release: "grows w st (snd (release_stale_claims cx st grace t live))"
proof -
  obtain rows g where rows: "snd (release_stale_claims cx st grace t live) = st\<lparr>st_claims := st_claims st @ rows\<rparr>"
    "rows = released_rows (st_claims st) (st_hyps st) (st_runs st) live g t"
    by (auto simp: release_stale_claims_def Let_def)
  have "cl_st r \<noteq> ''claimed'' \<and> cl_source r \<noteq> ''accepted-artifact''" if "r \<in> set rows" for r
  proof -
    have r: "r \<in> set (released_rows (st_claims st) (st_hyps st) (st_runs st) live g t)"
      using that rows(2) by simp
    obtain cid claim reason where
      "r = release_row (map_of (latest_terminal_claims (st_claims st)) cid) t cid claim reason"
      by (rule released_rowsD [OF r]) (rule that)
    then show ?thesis using released_not_claimed(2) [OF r] by simp
  qed
  then show ?thesis by (intro grows_rows [where rows = rows]) (simp_all add: rows(1))
qed

lemma grows_rewrites:
  "grows w st (snd (record_artifact_rejection st name reason category bd t))"
  "grows w st (snd (record_artifact_duplicate st name into reason bd t))"
  "grows w st (snd (record_artifact_reconsideration st name reason bd t))"
  "grows w st (snd (reconcile_artifact_hypotheses st b t))"
proof -
  have r: "grows w st (st\<lparr>st_hyps := rewrite_rows (st_hyps st) sel f\<rparr>)" if "\<And>h. hy_id (f h) = hy_id h" for sel f
    by (intro grows_refl) (simp_all add: rewrite_rows_ids that)
  have id: "grows w st st" by (intro grows_refl) simp_all
  show "grows w st (snd (record_artifact_rejection st name reason category bd t))"
    "grows w st (snd (record_artifact_reconsideration st name reason bd t))"
    "grows w st (snd (reconcile_artifact_hypotheses st b t))"
    by (simp_all add: record_artifact_rejection_def record_artifact_reconsideration_def
        reconcile_artifact_hypotheses_def Let_def id r rejected_hyp_def requeued_hyp_def accepted_hyp_def)
  show "grows w st (snd (record_artifact_duplicate st name into reason bd t))"
    by (auto simp: record_artifact_duplicate_def Let_def id folded_hyp_def split: prod.split intro: r)
qed

lemma step_grows: "queue_step w s s' \<Longrightarrow> grows w (fst s) (fst s') \<and> snd s \<le> snd s'"
proof (induction rule: queue_step.induct)
  case (close st cid status agent text_arg t t' row st')
  then have "st' = st\<lparr>st_claims := st_claims st @ [row]\<rparr> \<and> cl_st row = status \<and> cl_source row = []"
    by (auto simp: update_card_status_def Let_def claim0_def cl_st_def split: option.splits)
  with close show ?case by (auto intro: grows_rows [where rows = "[row]"])
next
  case (execute t t' st ra)
  then show ?case by (simp add: add_run_def Let_def grows_refl)
next
  case (write_note t t' st agent hid cid kind text_arg)
  then show ?case by (simp add: add_note_def Let_def grows_refl)
next
  case (iterate st t subsystem productive)
  then show ?case by (simp add: record_subsystem_iteration_def grows_refl)
qed (simp_all add: grows_refl grows_claim grows_open grows_route grows_update grows_release
    grows_rewrites grows_accept)

subsection \<open>Reachable trees\<close>

definition queue_inv :: "world \<Rightarrow> store \<Rightarrow> bool" where
  "queue_inv w st \<longleftrightarrow> guarded (lease_turn w) (st_claims st) \<and> distinct (map hy_id (st_hyps st))
     \<and> distinct (accepted_ids (st_claims st))"

lemma guarded_whole: "guarded (lease_turn w) claims \<Longrightarrow> \<forall>p \<in> set claims. whole_row w p"
  by (auto dest!: split_list guarded_split simp: lease_turn_def)

lemma grows_inv:
  assumes "grows w st st'" "queue_inv w st"
  shows "queue_inv w st'"
proof -
  obtain rows ids where g: "st_claims st' = st_claims st @ rows"
    "map hy_id (st_hyps st') = map hy_id (st_hyps st) @ ids"
    "distinct ids" "set ids \<inter> hy_id ` set (st_hyps st) = {}"
    "(\<forall>r \<in> set rows. cl_st r \<noteq> ''claimed'')
        \<or> (\<exists>r. rows = [r] \<and> ((\<forall>p \<in> set (st_claims st). whole_row w p) \<longrightarrow> lease_turn w (st_claims st) r))"
    "accepted_ids rows = [] \<or> (\<exists>a. accepted_ids rows = [a] \<and> a \<notin> set (accepted_ids (st_claims st)))"
    using assms(1) unfolding grows_def by blast
  note inv = assms(2) [unfolded queue_inv_def]
  have "guarded (lease_turn w) (st_claims st @ rows)"
    using g(5)
  proof
    assume "\<forall>r \<in> set rows. cl_st r \<noteq> ''claimed''"
    then show ?thesis using inv by (intro guarded_append) (auto intro: lease_turn_other)
  next
    assume "\<exists>r. rows = [r] \<and> ((\<forall>p \<in> set (st_claims st). whole_row w p) \<longrightarrow> lease_turn w (st_claims st) r)"
    then show ?thesis using inv guarded_whole by auto
  qed
  moreover have "distinct (map hy_id (st_hyps st'))" using g(2-4) inv by (auto simp: g(2))
  moreover have "distinct (accepted_ids (st_claims st @ rows))" using g(6) inv by auto
  ultimately show ?thesis by (simp add: queue_inv_def g(1))
qed

lemma reachable_inv:
  "(queue_step w)\<^sup>*\<^sup>* s s' \<Longrightarrow> queue_inv w (fst s) \<Longrightarrow> queue_inv w (fst s')"
proof (induction rule: rtranclp_induct)
  case (step s' s'')
  then show ?case using step_grows grows_inv by blast
qed simp

lemma reachable_grows:
  assumes "(queue_step w)\<^sup>*\<^sup>* s s'"
  shows "prefix (st_claims (fst s)) (st_claims (fst s')) \<and> st_cards (fst s') = st_cards (fst s)
    \<and> prefix (map hy_id (st_hyps (fst s))) (map hy_id (st_hyps (fst s'))) \<and> snd s \<le> snd s'"
  using assms
proof (induction rule: rtranclp_induct)
  case (step s' s'')
  have g: "grows w (fst s') (fst s'') \<and> snd s' \<le> snd s''" using step_grows [OF step(2)] .
  then have "prefix (st_claims (fst s')) (st_claims (fst s'')) \<and> st_cards (fst s'') = st_cards (fst s')
    \<and> prefix (map hy_id (st_hyps (fst s'))) (map hy_id (st_hyps (fst s'')))"
    unfolding grows_def by (auto simp: prefix_def)
  with step.IH g show ?case by (auto intro: prefix_order.trans)
qed simp



interpretation leases: turn_log cl_card "\<lambda>r. cl_st r = ''claimed''" cl_agent claim_start
  "\<lambda>r. claim_row_expiry r ttl" "\<lambda>claims. map_of (latest_claims_by_card claims)" for ttl
  by unfold_locales (simp add: latest_claims_by_card_def, simp add: latest_claims_snoc)


subsection \<open>A run\<close>

definition demo_world :: world where
  "demo_world = \<lparr>wd_cx = demo_ctx, wd_sha1 = id, wd_bundles = (\<lambda>_. []), wd_unfinished = (\<lambda>_. False)\<rparr>"

text \<open>Agent 1 claims the first card; when its lease has run out, agent 2 is handed the same card.\<close>

definition demo_later :: int where "demo_later = demo_time + 1801 * 1000000"

definition demo_snap2 :: snap where
  "demo_snap2 = claim_snapshot demo_ctx demo_store3 ''2'' [] [] demo_later"

definition demo_store4 :: store where
  "demo_store4 = demo_store3\<lparr>st_claims := st_claims demo_store3 @ [claim_row_of demo_snap2 [] demo_later demo_a]\<rparr>"

lemma demo_facts:
  "offered demo_snap2 [] False [] = [demo_a, demo_b]"
  "iso_time demo_time" "iso_time (demo_time + work_card_claim_ttl demo_ctx)"
  "iso_time demo_later" "iso_time (demo_later + work_card_claim_ttl demo_ctx)"
  by code_simp+

lemma demo_run: "(queue_step demo_world)\<^sup>*\<^sup>* (demo_store, demo_time) (demo_store4, demo_later)"
proof -
  have w: "wd_cx demo_world = demo_ctx" by (simp add: demo_world_def)
  have "demo_store\<lparr>st_claims := st_claims demo_store
      @ [claim_row_of (demo_snap demo_store ''1'' []) [] demo_time demo_a]\<rparr> = demo_store3"
    by (simp add: demo_store3_def demo_store_def store0_def)
  then have "claim_next_card demo_ctx demo_store ''1'' [] [] True [] False [] demo_time demo_time
      = (Some (relabelled (demo_snap demo_store ''1'' []) demo_a), demo_store3)"
    using demo_next [OF demo_offers(1), of True] by simp
  then have one: "queue_step demo_world (demo_store, demo_time) (demo_store3, demo_time)"
    by (intro queue_step.claim [where w = demo_world, unfolded w]) (simp_all add: stampable_def w demo_facts)
  have two: "queue_step demo_world (demo_store3, demo_time) (demo_store3, demo_later)"
    by (rule queue_step.tick) (simp add: demo_later_def)
  have "claim_next_card demo_ctx demo_store3 ''2'' [] [] True [] False [] demo_later demo_later
      = (Some (relabelled demo_snap2 demo_a), demo_store4)"
    using demo_facts(1) by (simp add: claim_next_card_def Let_def demo_store4_def flip: demo_snap2_def)
  then have "queue_step demo_world (demo_store3, demo_later) (demo_store4, demo_later)"
    by (intro queue_step.claim [where w = demo_world, unfolded w]) (simp_all add: stampable_def w demo_facts)
  with one two show ?thesis by (meson rtranclp.rtrancl_into_rtrancl rtranclp.rtrancl_refl)
qed





end
