(* ===== verification/Ranges.thy ===== *)
theory Ranges
  imports Prelude
begin

text \<open>
  Line ranges of the coverage ledger (\<open>lib/coverage_ledger.py\<close>): parsing, merging, intersecting and
  counting lists of \<open>(start, end)\<close> pairs, with what they denote, a set of line numbers. The
  contract between these operations and the ledger that uses them is the locale \<open>line_sets\<close>.
\<close>

type_synonym range = "int \<times> int"

subsection \<open>The operations\<close>

definition merge_step :: "range list \<Rightarrow> range \<Rightarrow> range list" where
  "merge_step merged r =
     (case r of (start, end) \<Rightarrow>
       if merged \<noteq> [] \<and> start \<le> snd (last merged) + 1
       then butlast merged @ [(fst (last merged), max (snd (last merged)) end)]
       else merged @ [(start, end)])"

definition merge_ranges :: "range list \<Rightarrow> range list" where
  "merge_ranges ranges = foldl merge_step [] (sort ranges)"

datatype range_error = NotARange string | EmptyRange string

definition parse_piece :: "string \<Rightarrow> range_error + range" where
  "parse_piece piece =
     (case py_partition CHR ''-'' piece of (start, sep, end) \<Rightarrow>
       (case py_int start of
          None \<Rightarrow> Inl (NotARange piece)
        | Some first \<Rightarrow>
            (case (if sep then py_int end else Some first) of
               None \<Rightarrow> Inl (NotARange piece)
             | Some lst \<Rightarrow> if first < 1 \<or> lst < first then Inl (EmptyRange piece) else Inr (first, lst))))"

fun parse_pieces :: "string list \<Rightarrow> range_error + range list" where
  "parse_pieces [] = Inr []"
| "parse_pieces (p # ps) =
     (if py_strip p = [] then parse_pieces ps
      else (case parse_piece (py_strip p) of
              Inl e \<Rightarrow> Inl e
            | Inr r \<Rightarrow> (case parse_pieces ps of Inl e \<Rightarrow> Inl e | Inr rs \<Rightarrow> Inr (r # rs))))"

definition parse_ranges :: "string \<Rightarrow> range_error + range list" where
  "parse_ranges text =
     (case parse_pieces (py_split CHR '','' text) of Inl e \<Rightarrow> Inl e | Inr rs \<Rightarrow> Inr (merge_ranges rs))"

definition examined_lines :: "range list \<Rightarrow> int" where
  "examined_lines ranges = sum_list (map (\<lambda>(start, end). end - start + 1) ranges)"

definition intersect_ranges :: "range list \<Rightarrow> range list \<Rightarrow> range list" where
  "intersect_ranges left right =
     merge_ranges (concat (map (\<lambda>(a_start, a_end). concat (map (\<lambda>(b_start, b_end).
        let start = max a_start b_start; end = min a_end b_end
        in if start \<le> end then [(start, end)] else []) right)) left))"

text \<open>How a list of ranges is shown to a session: \<open>", ".join(f"{s}-{e}" ...)\<close>.\<close>

definition show_range :: "range \<Rightarrow> string" where
  "show_range r = nat_str (nat (fst r)) @ ''-'' @ nat_str (nat (snd r))"

definition show_ranges :: "range list \<Rightarrow> string" where
  "show_ranges ranges = py_join '', '' (map show_range ranges)"

subsection \<open>What a list of ranges denotes\<close>

definition lines_of :: "range list \<Rightarrow> int set" where
  "lines_of ranges = (\<Union>(a, b) \<in> set ranges. {a..b})"

definition proper :: "range list \<Rightarrow> bool" where
  "proper ranges \<longleftrightarrow> list_all (\<lambda>(a, b). a \<le> b) ranges"

text \<open>Normal form: proper ranges in ascending order with a gap between neighbours.\<close>

fun apart :: "range list \<Rightarrow> bool" where
  "apart [] = True"
| "apart [(a, b)] = (a \<le> b)"
| "apart ((a, b) # (c, d) # rs) = (a \<le> b \<and> b + 1 < c \<and> apart ((c, d) # rs))"

lemma lines_of_simps [simp]:
  "lines_of [] = {}" "lines_of ((a, b) # rs) = {a..b} \<union> lines_of rs"
  "lines_of (rs @ qs) = lines_of rs \<union> lines_of qs"
  by (auto simp: lines_of_def)

lemma lines_of_cong: "set rs = set qs \<Longrightarrow> lines_of rs = lines_of qs"
  by (simp add: lines_of_def)

lemma finite_lines_of [simp]: "finite (lines_of rs)"
  by (auto simp: lines_of_def)

lemma proper_simps [simp]:
  "proper []" "proper ((a, b) # rs) \<longleftrightarrow> a \<le> b \<and> proper rs"
  "proper (rs @ qs) \<longleftrightarrow> proper rs \<and> proper qs"
  by (simp_all add: proper_def)

lemma proper_cong: "set rs = set qs \<Longrightarrow> proper rs \<longleftrightarrow> proper qs"
  by (simp add: proper_def list_all_iff)

lemma apart_proper: "apart rs \<Longrightarrow> proper rs"
  by (induction rs rule: apart.induct) auto

lemma apart_Cons:
  "apart ((a, b) # rs) \<longleftrightarrow> a \<le> b \<and> apart rs \<and> (\<forall>x \<in> lines_of rs. b + 1 < x)"
proof (induction rs arbitrary: a b)
  case (Cons r rs)
  obtain c d where r: "r = (c, d)" by (cases r)
  show ?case
    using Cons.IH [of c d] by (fastforce simp: r)
qed simp

lemma apart_snoc:
  "apart (rs @ [(c, d)]) \<longleftrightarrow> apart rs \<and> c \<le> d \<and> (\<forall>x \<in> lines_of rs. x + 1 < c)"
proof (induction rs)
  case (Cons r rs)
  obtain a b where r: "r = (a, b)" by (cases r)
  have "(\<forall>x \<in> lines_of rs \<union> {c..d}. b + 1 < x) \<longleftrightarrow> (\<forall>x \<in> lines_of rs. b + 1 < x) \<and> b + 1 < c"
    if "c \<le> d" using that by force
  moreover have "(\<forall>x \<in> {a..b} \<union> lines_of rs. x + 1 < c) \<longleftrightarrow> b + 1 < c \<and> (\<forall>x \<in> lines_of rs. x + 1 < c)"
    if "a \<le> b" using that by force
  ultimately show ?case using Cons by (auto simp: r apart_Cons)
qed simp

text \<open>Normal forms are canonical: two that denote the same lines are equal.\<close>

lemma apart_canonical: "apart rs \<Longrightarrow> apart qs \<Longrightarrow> lines_of rs = lines_of qs \<Longrightarrow> rs = qs"
proof (induction rs arbitrary: qs)
  case Nil
  then show ?case by (cases qs) (auto simp: apart_Cons)
next
  case (Cons r rs)
  obtain a b where r: "r = (a, b)" by (cases r)
  have ab: "a \<le> b" "apart rs" "\<forall>x \<in> lines_of rs. b + 1 < x" using Cons.prems(1) by (auto simp: r apart_Cons)
  then have "a \<in> lines_of qs" using Cons.prems(3) by (auto simp: r)
  then obtain q qs' where qs: "qs = q # qs'" by (cases qs) auto
  obtain c d where q: "q = (c, d)" by (cases q)
  have cd: "c \<le> d" "apart qs'" "\<forall>x \<in> lines_of qs'. d + 1 < x" using Cons.prems(2) by (auto simp: qs q apart_Cons)
  have eq: "{a..b} \<union> lines_of rs = {c..d} \<union> lines_of qs'" using Cons.prems(3) by (simp add: r qs q)
  have "a = c"
  proof -
    have "c \<in> {a..b} \<union> lines_of rs" "a \<in> {c..d} \<union> lines_of qs'" using eq ab cd by auto
    then show ?thesis using ab cd by force
  qed
  moreover have "b = d"
  proof (rule linorder_cases [of b d])
    assume "b < d"
    then have "b + 1 \<in> {a..b} \<union> lines_of rs" unfolding eq using \<open>a = c\<close> ab(1) by auto
    then show ?thesis using ab(3) by auto
  next
    assume "d < b"
    then have "d + 1 \<in> {c..d} \<union> lines_of qs'" unfolding eq [symmetric] using \<open>a = c\<close> cd(1) by auto
    then show ?thesis using cd(3) by auto
  qed
  moreover have "lines_of rs = lines_of qs'"
  proof -
    have "lines_of rs = ({a..b} \<union> lines_of rs) - {..b}" using ab by auto
    also have "\<dots> = ({c..d} \<union> lines_of qs') - {..d}" using eq \<open>b = d\<close> by simp
    also have "\<dots> = lines_of qs'" using cd by auto
    finally show ?thesis .
  qed
  ultimately show ?case using Cons.IH [OF ab(2) cd(2)] by (simp add: r q qs)
qed

subsection \<open>Merging computes the normal form\<close>

lemma merge_step_apart:
  assumes "apart m" "c \<le> d" "m = [] \<or> fst (last m) \<le> c"
  shows "apart (merge_step m (c, d)) \<and> lines_of (merge_step m (c, d)) = lines_of m \<union> {c..d}
    \<and> merge_step m (c, d) \<noteq> [] \<and> fst (last (merge_step m (c, d))) \<le> c"
proof (cases m rule: rev_cases)
  case Nil
  with assms show ?thesis by (simp add: merge_step_def)
next
  case (snoc n l)
  obtain a b where l: "l = (a, b)" by (cases l)
  have m: "apart n" "a \<le> b" "\<forall>x \<in> lines_of n. x + 1 < a" "a \<le> c"
    using assms by (auto simp: snoc l apart_snoc)
  show ?thesis
  proof (cases "c \<le> b + 1")
    case True
    have "{a..max b d} = {a..b} \<union> {c..d}" using True m assms(2) by auto
    with True m show ?thesis by (auto simp: merge_step_def snoc l apart_snoc)
  next
    case False
    then have "merge_step m (c, d) = m @ [(c, d)]" by (simp add: merge_step_def snoc l)
    moreover have "\<forall>x \<in> lines_of m. x + 1 < c" using False m by (auto simp: snoc l)
    then have "apart (m @ [(c, d)])" using assms(1,2) by (simp only: apart_snoc)
    ultimately show ?thesis by simp
  qed
qed

lemma merge_fold:
  assumes "sorted (map fst rs)" "proper rs" "apart m" "m = [] \<or> rs = [] \<or> fst (last m) \<le> fst (hd rs)"
  shows "apart (foldl merge_step m rs) \<and> lines_of (foldl merge_step m rs) = lines_of m \<union> lines_of rs"
  using assms
proof (induction rs arbitrary: m)
  case (Cons r rs)
  obtain c d where r: "r = (c, d)" by (cases r)
  note step = merge_step_apart [of m c d]
  have s: "apart (merge_step m r)" "lines_of (merge_step m r) = lines_of m \<union> {c..d}"
    "fst (last (merge_step m r)) \<le> c"
    using step Cons.prems by (auto simp: r)
  have "rs = [] \<or> fst (last (merge_step m r)) \<le> fst (hd rs)"
    using s(3) Cons.prems(1) by (cases rs) (auto simp: r)
  then show ?case
    using Cons.IH [of "merge_step m r"] s Cons.prems by (auto simp: r)
qed simp

lemma sorted_fst: "sorted rs \<Longrightarrow> sorted (map fst rs)" for rs :: "range list"
  by (induction rs) (auto simp: less_eq_prod_def)

lemma merge_ranges_normal:
  assumes "proper rs"
  shows "apart (merge_ranges rs)" "lines_of (merge_ranges rs) = lines_of rs"
proof -
  have "proper (sort rs)" "lines_of (sort rs) = lines_of rs"
    using assms proper_cong [of "sort rs" rs] lines_of_cong [of "sort rs" rs] by simp_all
  then show "apart (merge_ranges rs)" "lines_of (merge_ranges rs) = lines_of rs"
    using merge_fold [of "sort rs" "[]"] sorted_fst [of "sort rs"] by (simp_all add: merge_ranges_def)
qed

lemma merge_apart_id: "apart rs \<Longrightarrow> merge_ranges rs = rs"
  by (intro apart_canonical merge_ranges_normal apart_proper) simp_all

lemma intersect_proper:
  "proper (concat (map (\<lambda>(a_start, a_end). concat (map (\<lambda>(b_start, b_end).
        let start = max a_start b_start; end = min a_end b_end
        in if start \<le> end then [(start, end)] else []) right)) left))"
  by (auto simp: proper_def list_all_iff Let_def split: if_splits)

lemma meet_pairs:
  "lines_of (concat (map (\<lambda>(a_start, a_end). concat (map (\<lambda>(b_start, b_end).
        let start = max a_start b_start; end = min a_end b_end
        in if start \<le> end then [(start, end)] else []) right)) left))
   = lines_of left \<inter> lines_of right"
proof (induction left)
  case (Cons l left)
  obtain a b where l: "l = (a, b)" by (cases l)
  have "lines_of (concat (map (\<lambda>(b_start, b_end).
        let start = max a b_start; end = min b b_end
        in if start \<le> end then [(start, end)] else []) right)) = {a..b} \<inter> lines_of right"
  proof (induction right)
    case (Cons q right)
    obtain c d where q: "q = (c, d)" by (cases q)
    have "lines_of (let start = max a c; end = min b d in if start \<le> end then [(start, end)] else [])
        = {a..b} \<inter> {c..d}"
      by (auto simp: Let_def)
    with Cons.IH show ?case by (simp only: q list.map concat.simps prod.case lines_of_simps Int_Un_distrib)
  qed simp
  with Cons show ?case by (simp add: l Int_Un_distrib2)
qed simp

lemma intersect_ranges_normal:
  "apart (intersect_ranges left right)"
  "lines_of (intersect_ranges left right) = lines_of left \<inter> lines_of right"
proof -
  show "apart (intersect_ranges left right)"
    unfolding intersect_ranges_def by (rule merge_ranges_normal [OF intersect_proper])
  have "lines_of (intersect_ranges left right) = lines_of (concat (map (\<lambda>(a_start, a_end). concat (map (\<lambda>(b_start, b_end).
        let start = max a_start b_start; end = min a_end b_end
        in if start \<le> end then [(start, end)] else []) right)) left))"
    unfolding intersect_ranges_def by (rule merge_ranges_normal [OF intersect_proper])
  also have "\<dots> = lines_of left \<inter> lines_of right"
    by (simp only: meet_pairs)
  finally show "lines_of (intersect_ranges left right) = lines_of left \<inter> lines_of right" .
qed

lemma examined_lines_card: "apart rs \<Longrightarrow> examined_lines rs = int (card (lines_of rs))"
proof (induction rs)
  case (Cons r rs)
  obtain a b where r: "r = (a, b)" by (cases r)
  have "{a..b} \<inter> lines_of rs = {}" using Cons.prems by (force simp: r apart_Cons)
  then have "card (lines_of (r # rs)) = card {a..b} + card (lines_of rs)"
    by (simp add: r card_Un_disjoint)
  then show ?case using Cons by (simp add: r apart_Cons examined_lines_def)
qed (simp add: examined_lines_def)

subsection \<open>The contract of line sets\<close>

text \<open>
  What the ledger relies on: lists of ranges denote sets of lines, merging gives a canonical form,
  intersection is that of the sets, and counting a merged list counts its lines.
\<close>

locale line_sets =
  fixes den :: "'r list \<Rightarrow> int set"
    and valid :: "'r list \<Rightarrow> bool"
    and norm :: "'r list \<Rightarrow> bool"
    and merge :: "'r list \<Rightarrow> 'r list"
    and meet :: "'r list \<Rightarrow> 'r list \<Rightarrow> 'r list"
    and count :: "'r list \<Rightarrow> int"
  assumes den_append: "den (a @ b) = den a \<union> den b"
    and finite_den: "finite (den a)"
    and valid_append: "valid (a @ b) \<longleftrightarrow> valid a \<and> valid b"
    and norm_valid: "norm a \<Longrightarrow> valid a"
    and merge_norm: "valid a \<Longrightarrow> norm (merge a)"
    and den_merge: "valid a \<Longrightarrow> den (merge a) = den a"
    and meet_norm: "norm (meet a b)"
    and den_meet: "den (meet a b) = den a \<inter> den b"
    and count_card: "norm a \<Longrightarrow> count a = int (card (den a))"
    and canonical: "norm a \<Longrightarrow> norm b \<Longrightarrow> den a = den b \<Longrightarrow> a = b"
begin

lemma merge_same: "valid a \<Longrightarrow> valid b \<Longrightarrow> merge a = merge b \<longleftrightarrow> den a = den b"
  using canonical merge_norm den_merge by metis

lemma merge_merge: "valid a \<Longrightarrow> merge (merge a) = merge a"
  using merge_same merge_norm norm_valid den_merge by metis

lemma merge_absorb: "valid a \<Longrightarrow> valid b \<Longrightarrow> merge (merge a @ b) = merge (a @ b)"
  using merge_norm norm_valid den_merge by (subst merge_same) (auto simp: valid_append den_append)

lemma count_nonneg: "norm a \<Longrightarrow> 0 \<le> count a"
  by (simp add: count_card)

lemma count_mono: "norm a \<Longrightarrow> norm b \<Longrightarrow> den a \<subseteq> den b \<Longrightarrow> count a \<le> count b"
  by (simp add: count_card card_mono finite_den)

lemma count_merge_append: "valid a \<Longrightarrow> valid b \<Longrightarrow> count (merge a) \<le> count (merge (a @ b))"
  by (intro count_mono) (auto simp: merge_norm valid_append den_merge den_append)

text \<open>The lines of \<open>a\<close> that \<open>b\<close> does not have, counted as the report does.\<close>

lemma count_minus_meet: "norm a \<Longrightarrow> count a - count (meet a b) = int (card (den a - den b))"
proof -
  assume a: "norm a"
  have "card (den a) = card (den a \<inter> den b) + card (den a - den b)"
    using card_Int_Diff [OF finite_den] by blast
  then show ?thesis by (simp add: count_card a meet_norm den_meet)
qed

lemma count_within: "norm a \<Longrightarrow> den a \<subseteq> {1..int n} \<Longrightarrow> count a \<le> int n"
  using card_mono [of "{1..int n}" "den a"] by (simp add: count_card)

end

interpretation ranges: line_sets lines_of proper apart merge_ranges intersect_ranges examined_lines
  by unfold_locales
    (simp_all add: apart_proper merge_ranges_normal intersect_ranges_normal examined_lines_card apart_canonical)

subsection \<open>Properties\<close>

text \<open>
  C37 (merge_canonical). \<open>merge_ranges\<close> computes a canonical form: two lists of ranges merge to the
  same list exactly when they cover the same lines, so the order, overlap and repetition of receipts
  do not matter, and the lines counted on the merged list are the lines covered.
\<close>

theorem merge_canonical:
  assumes "proper rs" "proper qs"
  shows "(merge_ranges rs = merge_ranges qs) = (lines_of rs = lines_of qs)
    \<and> examined_lines (merge_ranges rs) = int (card (lines_of rs))"
  using ranges.merge_same [OF assms] ranges.count_card [OF ranges.merge_norm [OF assms(1)]]
    ranges.den_merge [OF assms(1)]
  by simp_all

theorem merge_canonical_witness:
  "merge_ranges [(5, 9), (1, 4)] = merge_ranges [(1, 9), (2, 3)]"
proof -
  have "lines_of [(5, 9), (1, 4)] = lines_of [(1, 9), (2, 3)]" by (auto simp: lines_of_def)
  then show ?thesis
    using merge_canonical [of "[(5, 9), (1, 4)]" "[(1, 9), (2, 3)]"] by simp
qed

subsection \<open>Parsing what is shown\<close>

lemma py_strip_space: "py_space c \<Longrightarrow> py_strip (c # s) = py_strip s"
  by (simp add: py_strip_def strip_by_def)

lemma py_split_join:
  "(\<forall>p \<in> set (q # ps). CHR '','' \<notin> set p) \<Longrightarrow>
     py_split CHR '','' (py_join '', '' (q # ps)) = q # map (\<lambda>p. CHR '' '' # p) ps"
proof (induction ps arbitrary: q)
  case Nil
  then show ?case by (simp add: py_split_none)
next
  case (Cons p ps)
  have "py_split CHR '','' (CHR '' '' # py_join '', '' (p # ps))
      = (CHR '' '' # p) # map (\<lambda>p. CHR '' '' # p) ps"
    using Cons.IH [of p] Cons.prems by simp
  then show ?case
    using Cons.prems py_split_append [of "CHR '',''" q] by simp
qed

lemma digits_no: "c \<in> set (nat_str n) \<Longrightarrow> py_digit c"
  using nat_str_digits [of n] by (auto simp: list_all_iff)

lemma show_range_chars: "c \<in> set (show_range r) \<Longrightarrow> py_digit c \<or> c = CHR ''-''"
  by (auto simp: show_range_def dest: digits_no)

lemma show_range_strip: "py_strip (show_range r) = show_range r" "show_range r \<noteq> []"
proof -
  show ne: "show_range r \<noteq> []" by (simp add: show_range_def)
  have "py_digit (hd (nat_str n))" "py_digit (last (nat_str n))" for n
    using nat_str_digits [of n] by (simp_all add: list_all_iff)
  then have "py_digit (hd (show_range r))" "py_digit (last (show_range r))"
    using nat_str_digits by (simp_all add: show_range_def)
  then show "py_strip (show_range r) = show_range r"
    using ne py_digit_code by (simp add: py_strip_def strip_by_id)
qed

lemma parse_show_range:
  assumes "1 \<le> a" "a \<le> b"
  shows "parse_piece (show_range (a, b)) = Inr (a, b)"
proof -
  have "CHR ''-'' \<notin> set (nat_str (nat a))" using digits_no py_digit_code by blast
  then show ?thesis
    using assms
    by (simp add: parse_piece_def show_range_def py_partition_append py_int_nat_str)
qed

lemma parse_shown_pieces:
  "list_all (\<lambda>(a, b). 1 \<le> a \<and> a \<le> b) rs \<Longrightarrow>
     parse_pieces (map show_range rs) = Inr rs
     \<and> parse_pieces (map (\<lambda>r. CHR '' '' # show_range r) rs) = Inr rs"
proof (induction rs)
  case (Cons r rs)
  obtain a b where r: "r = (a, b)" by (cases r)
  have "py_space CHR '' ''" by code_simp
  with Cons show ?case
    by (auto simp: r py_strip_space show_range_strip parse_show_range)
qed simp

text \<open>
  Fact (ranges_roundtrip). The merged ranges a card shows to a session (\<open>10-80, 90-120\<close>) are a valid
  \<open>--lines\<close> argument that reads back as the same ranges.
\<close>

theorem ranges_roundtrip:
  assumes "apart rs" "lines_of rs \<subseteq> {1..}"
  shows "parse_ranges (show_ranges rs) = Inr rs"
proof (cases rs)
  case Nil
  then show ?thesis by (simp add: parse_ranges_def show_ranges_def merge_ranges_def)
next
  case (Cons r qs)
  have ok: "list_all (\<lambda>(a, b). 1 \<le> a \<and> a \<le> b) rs"
    using apart_proper [OF assms(1)] assms(2) by (fastforce simp: proper_def list_all_iff lines_of_def)
  have "CHR '','' \<notin> set (show_range p)" for p
    using show_range_chars [of "CHR '',''" p] by (auto simp: py_digit_def)
  then have "py_split CHR '','' (show_ranges rs)
      = show_range r # map (\<lambda>p. CHR '' '' # show_range p) qs"
    unfolding show_ranges_def Cons list.map by (subst py_split_join) auto
  moreover have "parse_pieces (show_range r # map (\<lambda>p. CHR '' '' # show_range p) qs) = Inr rs"
    using ok parse_shown_pieces [of "[r]"] parse_shown_pieces [of qs]
    by (cases r) (auto simp: Cons show_range_strip parse_show_range)
  ultimately show ?thesis by (simp add: parse_ranges_def merge_apart_id assms(1))
qed

theorem ranges_roundtrip_witness: "parse_ranges (show_ranges [(10, 80), (90, 120)]) = Inr [(10, 80), (90, 120)]"
  by (rule ranges_roundtrip) simp_all

lemma parse_ranges_facts:
  "(case parse_ranges text of
      Inr rs \<Rightarrow> apart rs \<and> lines_of rs \<subseteq> {1..}
        \<and> list_all (\<lambda>p. py_strip p = [] \<or> (\<exists>r. parse_piece (py_strip p) = Inr r)) (py_split CHR '','' text)
    | Inl e \<Rightarrow> list_ex (\<lambda>p. py_strip p \<noteq> [] \<and> parse_piece (py_strip p) = Inl e) (py_split CHR '','' text))"
proof -
  have piece: "1 \<le> a \<and> a \<le> b" if "parse_piece p = Inr (a, b)" for p a b
    using that by (auto simp: parse_piece_def split: prod.splits option.splits if_splits)
  have "case parse_pieces ps of
      Inr rs \<Rightarrow> proper rs \<and> lines_of rs \<subseteq> {1..}
        \<and> list_all (\<lambda>p. py_strip p = [] \<or> (\<exists>r. parse_piece (py_strip p) = Inr r)) ps
    | Inl e \<Rightarrow> list_ex (\<lambda>p. py_strip p \<noteq> [] \<and> parse_piece (py_strip p) = Inl e) ps" for ps
  proof (induction ps)
    case (Cons p ps)
    show ?case
    proof (cases "py_strip p = [] \<or> (\<exists>e. parse_piece (py_strip p) = Inl e)")
      case True
      then show ?thesis using Cons by (auto split: sum.splits)
    next
      case False
      then obtain a b where "py_strip p \<noteq> []" "parse_piece (py_strip p) = Inr (a, b)"
        by (cases "parse_piece (py_strip p)") auto
      then show ?thesis using Cons piece by (auto split: sum.splits)
    qed
  qed simp
  from this [of "py_split CHR '','' text"] show ?thesis
    by (auto simp: parse_ranges_def merge_ranges_normal split: sum.splits)
qed

text \<open>
  Fact (parse_ranges_sound). An accepted \<open>--lines\<close> argument gives merged, nonempty ranges of lines from
  1 on; it is refused exactly when some nonblank piece between the commas is not \<open>N\<close> or \<open>N-M\<close> with
  \<open>1 \<le> N \<le> M\<close>.
\<close>

theorem parse_ranges_sound:
  "(case parse_ranges text of
      Inr rs \<Rightarrow> apart rs \<and> lines_of rs \<subseteq> {1..}
        \<and> list_all (\<lambda>p. py_strip p = [] \<or> (\<exists>r. parse_piece (py_strip p) = Inr r)) (py_split CHR '','' text)
    | Inl e \<Rightarrow> list_ex (\<lambda>p. py_strip p \<noteq> [] \<and> parse_piece (py_strip p) = Inl e) (py_split CHR '','' text))"
  by (rule parse_ranges_facts)

lemma parse_ranges_ok:
  assumes "parse_ranges text = Inr rs"
  shows "apart rs" "lines_of rs \<subseteq> {1..}"
  using parse_ranges_facts [of "text"] by (simp_all add: assms)

subsection \<open>Containment and clipping\<close>

text \<open>In a normal form, an interval is covered exactly when one range covers it.\<close>

lemma apart_covers:
  "apart rs \<Longrightarrow> s \<le> e \<Longrightarrow> (\<exists>(a, b) \<in> set rs. a \<le> s \<and> e \<le> b) \<longleftrightarrow> {s..e} \<subseteq> lines_of rs"
proof (induction rs)
  case (Cons r rs)
  obtain a b where r: "r = (a, b)" by (cases r)
  have ab: "a \<le> b" "apart rs" "\<forall>x \<in> lines_of rs. b + 1 < x" using Cons.prems by (auto simp: r apart_Cons)
  have ih: "(\<exists>(a, b) \<in> set rs. a \<le> s \<and> e \<le> b) \<longleftrightarrow> {s..e} \<subseteq> lines_of rs"
    using Cons ab by simp
  have "{s..e} \<subseteq> {a..b} \<union> lines_of rs \<longleftrightarrow> a \<le> s \<and> e \<le> b \<or> {s..e} \<subseteq> lines_of rs"
  proof
    assume sub: "{s..e} \<subseteq> {a..b} \<union> lines_of rs"
    show "a \<le> s \<and> e \<le> b \<or> {s..e} \<subseteq> lines_of rs"
    proof (cases "s \<le> b")
      case True
      then have "s \<in> {a..b}" using sub ab Cons.prems(2) by force
      moreover have "e \<le> b"
      proof (rule ccontr)
        assume "\<not> e \<le> b"
        then have "b + 1 \<in> {s..e}" using True by simp
        then have "b + 1 \<in> {a..b} \<union> lines_of rs" using sub by (rule rev_subsetD)
        then show False using ab by auto
      qed
      ultimately show ?thesis by simp
    next
      case False
      then show ?thesis using sub by auto
    qed
  qed auto
  then show ?case using ih by (auto simp: r)
qed simp

lemma apart_clip:
  assumes "apart (rs @ [(a, b)])" "a \<le> n"
  shows "apart (rs @ [(a, min b n)])" "lines_of (rs @ [(a, min b n)]) = lines_of (rs @ [(a, b)]) \<inter> {..n}"
proof -
  have "apart rs" "a \<le> b" "\<forall>x \<in> lines_of rs. x + 1 < a" using assms(1) by (auto simp: apart_snoc)
  then show "apart (rs @ [(a, min b n)])" "lines_of (rs @ [(a, min b n)]) = lines_of (rs @ [(a, b)]) \<inter> {..n}"
    using assms(2) by (auto simp: apart_snoc)
qed

end
