(* ===== verification/Coverage.thy ===== *)
theory Coverage
  imports Lease Ranges
begin

text \<open>
  The review-coverage ledger (\<open>lib/coverage_ledger.py\<close>), the call-graph reads it uses
  (\<open>lib/callgraph.py\<close>), the requested ranges of the transcripts (\<open>lib/read_ledger.py\<close>) and the id of
  a second-pass card (\<open>lib/workqueue.py\<close>). The files of the target are the parameter \<open>disk\<close>: what
  \<open>stat\<close> says of a path and its content, with \<open>None\<close> for an \<open>OSError\<close>. The SHA-1 hex digest of a
  text is the parameter \<open>sha1\<close>. The rendering to Markdown and the sweep's summary lines are left out.
\<close>

subsection \<open>State\<close>

record manifest_row =
  mf_file :: string
  mf_lines :: nat
  mf_bytes :: int
  mf_mtime :: int
  mf_ctime :: int
  mf_sha1 :: string
  mf_subsystem :: string
  mf_card :: string
  mf_offered :: bool
  mf_scope :: string

record receipt =
  rc_file :: string
  rc_ranges :: "range list"
  rc_functions :: "string list"
  rc_sha1 :: string
  rc_agent :: string
  rc_card :: string
  rc_source :: string
  rc_note :: string
  rc_at :: string

record read_row =
  rd_file :: string
  rd_sha1 :: string
  rd_ranges :: "(int \<times> int option) list"

record coverage =
  cv_manifest :: "manifest_row list"
  cv_receipts :: "receipt list"
  cv_reads :: "read_row list"

record disk_file =
  df_bytes :: int
  df_mtime :: int
  df_ctime :: int
  df_content :: "string option"

type_synonym disk = "string \<Rightarrow> disk_file option"

record graph_entry =
  ge_definitions :: "(string \<times> int \<times> int) list"
  ge_callers :: "string list"
  ge_overflow :: "string list"

record graph =
  gr_skipped :: bool
  gr_files :: "(string \<times> graph_entry) list"

subsection \<open>Files\<close>

text \<open>\<open>file_identity\<close>: the loop over chunks of 1 MiB, counting newlines, with the last byte kept to
  see a trailing partial line.\<close>

definition CHUNK :: nat where "CHUNK = 2 ^ 20"

function count_chunks :: "string \<Rightarrow> nat \<Rightarrow> char \<Rightarrow> nat" where
  "count_chunks rest lines lst =
     (if rest = [] then (if lst \<noteq> newline then lines + 1 else lines)
      else (let chunk = take CHUNK rest
            in count_chunks (drop CHUNK rest) (lines + count_list chunk newline) (last chunk)))"
  by pat_completeness auto
termination
  by (relation "measure (\<lambda>(rest, lines, lst). length rest)") (auto simp: CHUNK_def)

declare count_chunks.simps [simp del]

definition file_identity :: "(string \<Rightarrow> string) \<Rightarrow> string \<Rightarrow> nat \<times> string" where
  "file_identity sha1 content = (count_chunks content 0 newline, sha1 content)"

text \<open>Whether the source on disk is what the row describes. A row that is missing has no fields.\<close>

definition content_matches_manifest ::
  "(string \<Rightarrow> string) \<Rightarrow> disk \<Rightarrow> string \<Rightarrow> manifest_row option \<Rightarrow> bool" where
  "content_matches_manifest sha1 disk rel row =
     (case disk rel of
        None \<Rightarrow> False
      | Some f \<Rightarrow>
          (case row of
             Some r \<Rightarrow> mf_bytes r = df_bytes f \<and> mf_mtime r = df_mtime f \<and> mf_ctime r = df_ctime f
           | None \<Rightarrow> False)
          \<or> (case df_content f of
               None \<Rightarrow> False
             | Some content \<Rightarrow>
                 snd (file_identity sha1 content) = (case row of Some r \<Rightarrow> mf_sha1 r | None \<Rightarrow> [])))"

definition find_row :: "manifest_row list \<Rightarrow> string \<Rightarrow> manifest_row option" where
  "find_row manifest file = find (\<lambda>r. mf_file r = normalized_relpath file) manifest"

subsection \<open>The call graph\<close>

definition graph_entry_of :: "graph option \<Rightarrow> string \<Rightarrow> graph_entry option" where
  "graph_entry_of data file =
     (let rel = normalized_relpath file in
      if rel = [] then None
      else (case data of
              None \<Rightarrow> None
            | Some g \<Rightarrow> if gr_skipped g then None else map_of (gr_files g) rel))"

definition definitions_for :: "graph option \<Rightarrow> string \<Rightarrow> (string \<times> int \<times> int) list" where
  "definitions_for data file =
     (case graph_entry_of data file of
        None \<Rightarrow> []
      | Some e \<Rightarrow> sort_key (\<lambda>(name, start, end). (start, end, name))
                    (filter (\<lambda>(name, start, end). name \<noteq> [] \<and> 0 < start \<and> start \<le> end)
                       (ge_definitions e)))"

definition caller_files :: "graph option \<Rightarrow> string \<Rightarrow> string list" where
  "caller_files data file =
     (case graph_entry_of data file of
        None \<Rightarrow> []
      | Some e \<Rightarrow>
          rev (remdups (rev (filter (\<lambda>o_rel. o_rel \<noteq> [] \<and> o_rel \<noteq> normalized_relpath file)
            (map normalized_relpath (ge_callers e @ ge_overflow e))))))"

definition function_ranges :: "graph option \<Rightarrow> string \<Rightarrow> nat \<Rightarrow> (string \<times> int \<times> int) list" where
  "function_ranges data file lines =
     map (\<lambda>(name, start, end). (name, start, max start (min end (int lines))))
       (takeWhile (\<lambda>(name, start, end). start \<le> int lines) (definitions_for data file))"

subsection \<open>Receipts\<close>

datatype receipt_error =
    NotInManifest
  | ReviewedContentChanged
  | ChangedSinceManifest
  | BadLines range_error
  | UnknownFunctions "string list"
  | AmbiguousFunctions "string list"
  | NothingNamed
  | PastEnd int

record receipt_args =
  ea_agent :: string
  ea_file :: string
  ea_lines :: string
  ea_functions :: string
  ea_card :: string
  ea_source :: string
  ea_note :: string
  ea_sha1 :: string

text \<open>The functions named, and the ranges they resolve to.\<close>

definition named_functions :: "string \<Rightarrow> string list" where
  "named_functions functions =
     filter (\<lambda>n. n \<noteq> []) (map py_strip (py_split CHR '','' functions))"

definition resolve_functions ::
  "(string \<times> int \<times> int) list \<Rightarrow> string list \<Rightarrow> receipt_error + range list" where
  "resolve_functions known names =
     (let ranges_of = (\<lambda>name. map snd (filter (\<lambda>k. fst k = name) known));
          missing = filter (\<lambda>n. ranges_of n = []) names;
          ambiguous = filter (\<lambda>n. 1 < length (ranges_of n)) names
      in if missing \<noteq> [] then Inl (UnknownFunctions missing)
         else if ambiguous \<noteq> [] then Inl (AmbiguousFunctions ambiguous)
         else Inr (map (\<lambda>n. hd (ranges_of n)) names))"

definition clip_last :: "nat \<Rightarrow> range list \<Rightarrow> range list" where
  "clip_last lines ranges =
     butlast ranges @ [(fst (last ranges), min (snd (last ranges)) (int lines))]"

definition receipt_ranges ::
  "graph option \<Rightarrow> receipt_args \<Rightarrow> string \<Rightarrow> nat \<Rightarrow> receipt_error + range list" where
  "receipt_ranges data a rel lines =
     (case parse_ranges (ea_lines a) of
        Inl e \<Rightarrow> Inl (BadLines e)
      | Inr given \<Rightarrow>
          (let names = named_functions (ea_functions a) in
           case (if names = [] then Inr given
                 else (case resolve_functions (function_ranges data rel lines) names of
                         Inl e \<Rightarrow> Inl e
                       | Inr named \<Rightarrow> Inr (merge_ranges (given @ named)))) of
             Inl e \<Rightarrow> Inl e
           | Inr ranges \<Rightarrow>
               if ranges = [] then Inl NothingNamed
               else if int lines < fst (last ranges) then Inl (PastEnd (fst (last ranges)))
               else Inr (clip_last lines ranges)))"

definition record_receipt ::
  "(string \<Rightarrow> string) \<Rightarrow> disk \<Rightarrow> graph option \<Rightarrow> coverage \<Rightarrow> receipt_args \<Rightarrow> int
   \<Rightarrow> receipt_error + receipt \<times> coverage" where
  "record_receipt sha1 disk data cv a now =
     (let rel = normalized_relpath (ea_file a) in
      case find_row (cv_manifest cv) rel of
        None \<Rightarrow> Inl NotInManifest
      | Some row \<Rightarrow>
          if ea_sha1 a \<noteq> [] \<and> mf_sha1 row \<noteq> ea_sha1 a then Inl ReviewedContentChanged
          else if \<not> content_matches_manifest sha1 disk rel (Some row) then Inl ChangedSinceManifest
          else
            (case receipt_ranges data a rel (mf_lines row) of
               Inl e \<Rightarrow> Inl e
             | Inr ranges \<Rightarrow>
                 (let receipt = \<lparr>rc_file = rel, rc_ranges = ranges,
                        rc_functions = named_functions (ea_functions a), rc_sha1 = mf_sha1 row,
                        rc_agent = ea_agent a, rc_card = ea_card a, rc_source = ea_source a,
                        rc_note = ea_note a, rc_at = now_iso now\<rparr>
                  in Inr (receipt, cv\<lparr>cv_receipts := cv_receipts cv @ [receipt]\<rparr>))))"

subsection \<open>What was examined\<close>

definition current_sha1 :: "manifest_row list \<Rightarrow> string \<Rightarrow> string option" where
  "current_sha1 manifest rel =
     map_option mf_sha1 (map_of (latest_by (\<lambda>r. Some (mf_file r)) manifest) rel)"

definition receipt_pairs :: "coverage \<Rightarrow> bool \<Rightarrow> (string \<times> range) list" where
  "receipt_pairs cv agent_attested_only =
     concat (map (\<lambda>r.
       if agent_attested_only \<and> str_or (rc_source r) ''agent'' \<noteq> ''agent'' then []
       else if rc_file r = [] \<or> current_sha1 (cv_manifest cv) (rc_file r) \<noteq> Some (rc_sha1 r) then []
       else map (Pair (rc_file r)) (rc_ranges r)) (cv_receipts cv))"

definition collect_ranges :: "(string \<times> range) list \<Rightarrow> (string \<times> range list) list" where
  "collect_ranges pairs =
     map (\<lambda>(rel, ranges). (rel, merge_ranges ranges))
       (foldl (\<lambda>acc p. AList.map_default (fst p) ([] @ [snd p]) (\<lambda>l. l @ [snd p]) acc) [] pairs)"

definition receipt_ranges_by_file :: "coverage \<Rightarrow> bool \<Rightarrow> (string \<times> range list) list" where
  "receipt_ranges_by_file cv agent_attested_only = collect_ranges (receipt_pairs cv agent_attested_only)"

definition examined_ranges_by_file :: "coverage \<Rightarrow> (string \<times> range list) list" where
  "examined_ranges_by_file cv = receipt_ranges_by_file cv False"

definition agent_attested_ranges_by_file :: "coverage \<Rightarrow> (string \<times> range list) list" where
  "agent_attested_ranges_by_file cv = receipt_ranges_by_file cv True"

text \<open>\<open>by_file.get(rel, [])\<close>.\<close>

definition get_ranges :: "(string \<times> range list) list \<Rightarrow> string \<Rightarrow> range list" where
  "get_ranges m rel = (case map_of m rel of None \<Rightarrow> [] | Some rs \<Rightarrow> rs)"

definition examined_fraction_by_file :: "coverage \<Rightarrow> (string \<times> rat) list" where
  "examined_fraction_by_file cv =
     (let by_file = examined_ranges_by_file cv
      in foldl (\<lambda>out row.
           let ranges = get_ranges by_file (mf_file row); total = mf_lines row
           in if ranges \<noteq> [] \<and> total \<noteq> 0
              then AList.update (mf_file row)
                     (min 1 (of_int (examined_lines ranges) / of_nat total)) out
              else out) [] (cv_manifest cv))"

record file_info =
  fi_file :: string
  fi_in_manifest :: bool
  fi_lines :: nat
  fi_examined :: int
  fi_fraction :: rat
  fi_ranges :: "range list"
  fi_unexamined :: "(string \<times> int \<times> int) list"

definition within_one :: "range list \<Rightarrow> (string \<times> int \<times> int) \<Rightarrow> bool" where
  "within_one ranges f =
     (case f of (name, start, end) \<Rightarrow> list_ex (\<lambda>(rs, re). rs \<le> start \<and> end \<le> re) ranges)"

definition file_examined :: "graph option \<Rightarrow> coverage \<Rightarrow> string \<Rightarrow> file_info" where
  "file_examined data cv file =
     (let rel = normalized_relpath file;
          row = find_row (cv_manifest cv) rel;
          total = (case row of Some r \<Rightarrow> mf_lines r | None \<Rightarrow> 0);
          ranges = get_ranges (examined_ranges_by_file cv) rel;
          covered = examined_lines ranges
      in \<lparr>fi_file = rel, fi_in_manifest = (row \<noteq> None), fi_lines = total, fi_examined = covered,
          fi_fraction = (if total \<noteq> 0 then of_int covered / of_nat total else 0), fi_ranges = ranges,
          fi_unexamined = filter (\<lambda>f. \<not> within_one ranges f) (function_ranges data rel total)\<rparr>)"

subsection \<open>The second pass\<close>

definition caller_sets ::
  "(string \<Rightarrow> string) \<Rightarrow> disk \<Rightarrow> graph option \<Rightarrow> coverage \<Rightarrow> (string \<times> string list) list" where
  "caller_sets sha1 disk data cv =
     (if data = None \<or> (case data of Some g \<Rightarrow> gr_skipped g | None \<Rightarrow> False) then []
      else
        (let receipted = examined_ranges_by_file cv
         in foldl (\<lambda>out row.
              let rel = mf_file row;
                  ranges = get_ranges receipted rel;
                  definitions = function_ranges data rel (mf_lines row);
                  callers = caller_files data rel
              in if ranges = [] \<or> \<not> content_matches_manifest sha1 disk rel (Some row) then out
                 else if definitions = [] \<or> list_ex (\<lambda>d. \<not> within_one ranges d) definitions then out
                 else if callers = [] then out
                 else AList.update rel callers out) [] (cv_manifest cv)))"

definition ranked_card_id :: "(string \<Rightarrow> string) \<Rightarrow> string \<Rightarrow> string \<Rightarrow> string \<Rightarrow> string" where
  "ranked_card_id sha1 target_slug rel strategy =
     ''WORK-'' @ take 12 (sha1 (if strategy \<noteq> [] then target_slug @ '':'' @ rel @ '':'' @ strategy
                                else target_slug @ '':'' @ rel))"

definition side_sha1 ::
  "(string \<Rightarrow> string) \<Rightarrow> disk \<Rightarrow> (string \<Rightarrow> manifest_row option) \<Rightarrow> string \<Rightarrow> string" where
  "side_sha1 sha1 disk manifest_by_file path =
     (if content_matches_manifest sha1 disk path (manifest_by_file path)
      then (case manifest_by_file path of Some r \<Rightarrow> mf_sha1 r | None \<Rightarrow> [])
      else (case disk path of
              Some f \<Rightarrow> (case df_content f of Some c \<Rightarrow> snd (file_identity sha1 c) | None \<Rightarrow> [])
            | None \<Rightarrow> []))"

definition edge_card_id ::
  "(string \<Rightarrow> string) \<Rightarrow> disk \<Rightarrow> string \<Rightarrow> string \<Rightarrow> string list \<Rightarrow> (string \<Rightarrow> manifest_row option)
   \<Rightarrow> string \<times> string" where
  "edge_card_id sha1 disk target_slug rel callers manifest_by_file =
     (let identity = (''callee:'' @ (case manifest_by_file rel of Some r \<Rightarrow> mf_sha1 r | None \<Rightarrow> []))
                     # map (\<lambda>path. path @ '':'' @ side_sha1 sha1 disk manifest_by_file path) (sort callers);
          caller_set = take 12 (sha1 (py_join [newline] identity))
      in (ranked_card_id sha1 target_slug rel (''edge:callers:'' @ caller_set), caller_set))"

record edge_scope =
  es_available :: bool
  es_eligible :: nat
  es_callers :: nat
  es_sampled :: nat
  es_concluded :: nat
  es_cards :: nat
  es_uncarded :: int

definition call_edge_scope ::
  "(string \<Rightarrow> string) \<Rightarrow> disk \<Rightarrow> string \<Rightarrow> graph option \<Rightarrow> store \<Rightarrow> coverage \<Rightarrow> edge_scope" where
  "call_edge_scope sha1 disk target_slug data st cv =
     (if data = None \<or> (case data of Some g \<Rightarrow> gr_skipped g | None \<Rightarrow> False) then
        \<lparr>es_available = False, es_eligible = 0, es_callers = 0, es_sampled = 0, es_concluded = 0,
         es_cards = 0, es_uncarded = 0\<rparr>
      else
        (let sets = caller_sets sha1 disk data cv;
             manifest_by_file = map_of (latest_by (\<lambda>r. Some (mf_file r)) (cv_manifest cv));
             latest = map_of (latest_claims_by_card (st_claims st));
             claims = map (\<lambda>(rel, callers).
                        latest (fst (edge_card_id sha1 disk target_slug rel callers manifest_by_file))) sets
         in \<lparr>es_available = True, es_eligible = length sets,
             es_callers = sum_list (map (\<lambda>(rel, callers). length callers) sets),
             es_sampled = length (filter (\<lambda>c. c \<noteq> None) claims),
             es_concluded = length (filter (\<lambda>c. case c of None \<Rightarrow> False
                                | Some r \<Rightarrow> cl_st r \<in> set TERMINAL_CARD_STATUSES) claims),
             es_cards = length (remdups (map cd_id
                          (filter (\<lambda>c. cd_kind c = ''call-edge'' \<and> cd_id c \<noteq> []) (st_cards st)))),
             es_uncarded = sum_list (map (\<lambda>(rel, callers). int (length callers) - 1) sets)\<rparr>))"

subsection \<open>The manifest\<close>

definition STRATEGIES_ACTIVE :: "string list" where
  "STRATEGIES_ACTIVE = [''S1'', ''S2'', ''S3'', ''S4'', ''S5'', ''S6'', ''S7'', ''S8'']"

definition card_ids_for_file :: "(string \<Rightarrow> string) \<Rightarrow> string \<Rightarrow> string \<Rightarrow> string list" where
  "card_ids_for_file sha1 target_slug rel =
     ranked_card_id sha1 target_slug rel []
     # map (ranked_card_id sha1 target_slug rel) STRATEGIES_ACTIVE"

definition manifest_entry ::
  "(string \<Rightarrow> string) \<Rightarrow> disk \<Rightarrow> nat \<Rightarrow> string \<Rightarrow> string list \<Rightarrow> string
   \<Rightarrow> (string \<Rightarrow> manifest_row option) \<Rightarrow> string \<Rightarrow> manifest_row option" where
  "manifest_entry sha1 disk depth target_slug offered scope previous rel =
     (case disk rel of
        None \<Rightarrow> None
      | Some f \<Rightarrow>
          (let old = previous rel;
               kept = (case old of
                  None \<Rightarrow> False
                | Some o_row \<Rightarrow> mf_bytes o_row = df_bytes f \<and> mf_mtime o_row = df_mtime f
                    \<and> mf_ctime o_row = df_ctime f \<and> mf_sha1 o_row \<noteq> []);
               ident = (if kept then (case old of Some o_row \<Rightarrow> Some (mf_lines o_row, mf_sha1 o_row) | None \<Rightarrow> None)
                        else map_option (file_identity sha1) (df_content f))
           in map_option (\<lambda>(lines, digest).
                \<lparr>mf_file = rel, mf_lines = lines, mf_bytes = df_bytes f, mf_mtime = df_mtime f,
                 mf_ctime = df_ctime f, mf_sha1 = digest, mf_subsystem = subsystem_for depth rel,
                 mf_card = ranked_card_id sha1 target_slug rel [],
                 mf_offered = (rel \<in> set offered
                    \<or> (case old of Some o_row \<Rightarrow> mf_offered o_row | None \<Rightarrow> False)),
                 mf_scope = scope\<rparr>) ident))"

definition write_manifest ::
  "(string \<Rightarrow> string) \<Rightarrow> disk \<Rightarrow> nat \<Rightarrow> string \<Rightarrow> coverage \<Rightarrow> string list \<Rightarrow> string list \<Rightarrow> string
   \<Rightarrow> coverage" where
  "write_manifest sha1 disk depth target_slug cv source_paths offered scope =
     (let previous = map_of (latest_by (\<lambda>r. Some (mf_file r)) (cv_manifest cv))
      in cv\<lparr>cv_manifest := sort_key mf_file (concat (map (\<lambda>rel.
           case manifest_entry sha1 disk depth target_slug offered scope previous rel of
             None \<Rightarrow> [] | Some row \<Rightarrow> [row]) source_paths))\<rparr>)"

definition claimed_files :: "(string \<Rightarrow> string) \<Rightarrow> string \<Rightarrow> store \<Rightarrow> manifest_row list \<Rightarrow> string set" where
  "claimed_files sha1 target_slug st manifest =
     (let claimed_ids = set (map cl_card (st_claims st)) - {[]};
          named = {rel \<in> set (map (\<lambda>r. normalized_relpath (cl_file r)) (st_claims st)). rel \<noteq> []};
          by_card_file = latest_by (\<lambda>(i, rel). if rel \<noteq> [] \<and> i \<noteq> [] then Some i else None)
                           (map (\<lambda>c. (cd_id c, normalized_relpath (cd_file c))) (st_cards st))
      in if claimed_ids = {} then named
         else named
              \<union> set (map mf_file (filter (\<lambda>row. list_ex (\<lambda>i. i \<in> claimed_ids)
                   (card_ids_for_file sha1 target_slug (mf_file row))) manifest))
              \<union> snd ` set (filter (\<lambda>p. fst p \<in> claimed_ids) (map snd by_card_file)))"

subsection \<open>Requested ranges\<close>

definition clip_request :: "nat \<Rightarrow> int \<times> int option \<Rightarrow> range" where
  "clip_request lines pair =
     (case pair of (start0, end0) \<Rightarrow>
       let t = int lines;
           end1 = (case end0 of None \<Rightarrow> t | Some e \<Rightarrow> e);
           start1 = (if start0 < 0 then max 1 (t + start0 + 1) else start0);
           start = max 1 (min start1 t)
       in (start, max start (min end1 t)))"

definition requested_ranges_by_file :: "coverage \<Rightarrow> (string \<times> range list) list" where
  "requested_ranges_by_file cv =
     (let manifest = map_of (latest_by (\<lambda>r. Some (mf_file r)) (cv_manifest cv))
      in collect_ranges (concat (map (\<lambda>row.
           case manifest (rd_file row) of
             None \<Rightarrow> []
           | Some cur \<Rightarrow>
               if rd_file row = [] \<or> mf_lines cur = 0 \<or> rd_sha1 row \<noteq> mf_sha1 cur then []
               else map (\<lambda>pair. (rd_file row, clip_request (mf_lines cur) pair)) (rd_ranges row))
           (cv_reads cv))))"

subsection \<open>The report\<close>

record cov_bucket =
  cb_files :: nat
  cb_offered :: nat
  cb_claimed :: nat
  cb_requested :: nat
  cb_receipted :: nat
  cb_lines :: int
  cb_lines_requested :: int
  cb_lines_examined :: int
  cb_lines_attested :: int
  cb_lines_unrequested :: int

definition cov_bucket0 :: cov_bucket where
  "cov_bucket0 = \<lparr>cb_files = 0, cb_offered = 0, cb_claimed = 0, cb_requested = 0, cb_receipted = 0,
     cb_lines = 0, cb_lines_requested = 0, cb_lines_examined = 0, cb_lines_attested = 0,
     cb_lines_unrequested = 0\<rparr>"

text \<open>What one manifest row adds to its directory and to the totals.\<close>

definition row_stats :: "coverage \<Rightarrow> string set \<Rightarrow> manifest_row \<Rightarrow> cov_bucket" where
  "row_stats cv claimed row =
     (let rel = mf_file row; lines = int (mf_lines row);
          attested = get_ranges (agent_attested_ranges_by_file cv) rel;
          requested = get_ranges (requested_ranges_by_file cv) rel;
          examined = min lines (examined_lines (get_ranges (examined_ranges_by_file cv) rel));
          agent_examined = min lines (examined_lines attested);
          seen = min lines (examined_lines requested);
          corroborated = examined_lines (intersect_ranges attested requested)
      in \<lparr>cb_files = 1, cb_offered = of_bool (mf_offered row), cb_claimed = of_bool (rel \<in> claimed),
          cb_requested = of_bool (0 < seen), cb_receipted = of_bool (0 < examined), cb_lines = lines,
          cb_lines_requested = seen, cb_lines_examined = examined, cb_lines_attested = agent_examined,
          cb_lines_unrequested = max 0 (agent_examined - corroborated)\<rparr>)"

definition add_bucket :: "cov_bucket \<Rightarrow> cov_bucket \<Rightarrow> cov_bucket" where
  "add_bucket s b = \<lparr>cb_files = cb_files b + cb_files s, cb_offered = cb_offered b + cb_offered s,
     cb_claimed = cb_claimed b + cb_claimed s, cb_requested = cb_requested b + cb_requested s,
     cb_receipted = cb_receipted b + cb_receipted s, cb_lines = cb_lines b + cb_lines s,
     cb_lines_requested = cb_lines_requested b + cb_lines_requested s,
     cb_lines_examined = cb_lines_examined b + cb_lines_examined s,
     cb_lines_attested = cb_lines_attested b + cb_lines_attested s,
     cb_lines_unrequested = cb_lines_unrequested b + cb_lines_unrequested s\<rparr>"

record cov_report =
  rp_scope :: string
  rp_edges :: edge_scope
  rp_totals :: cov_bucket
  rp_never :: nat
  rp_untouched :: "(string \<times> nat) list"
  rp_directories :: "(string \<times> cov_bucket) list"

definition never_rows :: "coverage \<Rightarrow> string set \<Rightarrow> (string \<times> nat) list" where
  "never_rows cv claimed =
     sort_key (\<lambda>(rel, lines). (- int lines, rel))
       (map (\<lambda>row. (mf_file row, mf_lines row))
         (filter (\<lambda>row. \<not> mf_offered row \<and> mf_file row \<notin> claimed
                        \<and> cb_lines_examined (row_stats cv claimed row) = 0) (cv_manifest cv)))"

definition directory_key :: "string \<times> cov_bucket \<Rightarrow> rat \<times> nat \<times> string" where
  "directory_key p =
     (case p of (name, b) \<Rightarrow>
       (if cb_lines b \<noteq> 0 then of_int (cb_lines_examined b) / of_int (cb_lines b) else 0,
        cb_offered b + cb_claimed b, name))"

definition coverage_report ::
  "(string \<Rightarrow> string) \<Rightarrow> disk \<Rightarrow> string \<Rightarrow> graph option \<Rightarrow> store \<Rightarrow> coverage \<Rightarrow> nat \<Rightarrow> nat \<Rightarrow> cov_report" where
  "coverage_report sha1 disk target_slug data st cv depth untouched =
     (let manifest = cv_manifest cv;
          claimed = claimed_files sha1 target_slug st manifest;
          directory = (\<lambda>row. subsystem_bucket (mf_file row) (max 1 depth));
          buckets = foldl (\<lambda>acc row. AList.map_default (directory row)
                        (add_bucket (row_stats cv claimed row) cov_bucket0)
                        (add_bucket (row_stats cv claimed row)) acc) [] manifest;
          never = never_rows cv claimed
      in \<lparr>rp_scope = (if manifest \<noteq> [] \<and> list_all (\<lambda>row. mf_scope row = ''delta'') manifest then ''delta''
                      else if manifest \<noteq> [] then ''tree'' else []),
          rp_edges = call_edge_scope sha1 disk target_slug data st cv,
          rp_totals = foldl (\<lambda>b row. add_bucket (row_stats cv claimed row) b) cov_bucket0 manifest,
          rp_never = length never, rp_untouched = take untouched never,
          rp_directories = sort_key directory_key buckets\<rparr>)"

subsection \<open>Counting lines\<close>

definition line_count :: "string \<Rightarrow> nat" where
  "line_count content =
     count_list content newline + (if content \<noteq> [] \<and> last content \<noteq> newline then 1 else 0)"

lemma count_chunks_eq:
  "count_chunks rest lines lst =
     lines + count_list rest newline + (if last (lst # rest) \<noteq> newline then 1 else 0)"
proof (induction rest lines lst rule: count_chunks.induct)
  case (1 rest lines lst)
  show ?case
  proof (cases "rest = []")
    case True
    then show ?thesis by (subst count_chunks.simps) simp
  next
    case False
    have split: "rest = take CHUNK rest @ drop CHUNK rest" by simp
    have ne: "take CHUNK rest \<noteq> []" using False by (simp add: CHUNK_def)
    have "count_list rest newline
        = count_list (take CHUNK rest) newline + count_list (drop CHUNK rest) newline"
      by (metis append_take_drop_id count_list_append)
    moreover have "last (lst # rest) = last (last (take CHUNK rest) # drop CHUNK rest)"
    proof (cases "drop CHUNK rest = []")
      case True
      then show ?thesis using False by simp
    next
      case d: False
      then show ?thesis using False by (simp add: last_drop)
    qed
    ultimately show ?thesis
      using 1 [OF False refl] False by (subst count_chunks.simps) (simp add: Let_def)
  qed
qed

lemma file_identity_eq [code]: "file_identity sha1 content = (line_count content, sha1 content)"
  by (auto simp: file_identity_def line_count_def count_chunks_eq)

text \<open>
  Fact (file_identity_lines). Reading a file in chunks counts what reading it whole would: the number
  of newlines, plus one for a last line that has none; an empty file has no lines.
\<close>

theorem file_identity_lines:
  "file_identity sha1 content = (line_count content, sha1 content)"
  by (rule file_identity_eq)

subsection \<open>The ranges of a file\<close>

lemma get_ranges_collect:
  "get_ranges (collect_ranges pairs) rel = merge_ranges (map snd (filter (\<lambda>p. fst p = rel) pairs))"
proof -
  note g = group_fold [where key = fst and z = "\<lambda>_. []" and f = "\<lambda>p l. l @ [snd p]" and rows = pairs]
  have app: "foldl (\<lambda>b r. b @ [snd r]) xs ps = xs @ map snd ps" for xs and ps :: "(string \<times> range) list"
    by (induction ps arbitrary: xs) simp_all
  have "map_of (collect_ranges pairs) rel = map_option merge_ranges
      (map_of (foldl (\<lambda>acc p. AList.map_default (fst p) ([] @ [snd p]) (\<lambda>l. l @ [snd p]) acc) [] pairs) rel)"
    by (simp add: collect_ranges_def map_of_map)
  then show ?thesis
    unfolding g(1) by (auto simp: get_ranges_def app merge_ranges_def filter_empty_conv)
qed

lemma get_ranges_receipts:
  "get_ranges (receipt_ranges_by_file cv att) rel =
     merge_ranges (concat (map rc_ranges (filter (\<lambda>r. rc_file r = rel \<and> rel \<noteq> []
        \<and> current_sha1 (cv_manifest cv) rel = Some (rc_sha1 r)
        \<and> (att \<longrightarrow> str_or (rc_source r) ''agent'' = ''agent'')) (cv_receipts cv))))"
proof -
  have "map snd (filter (\<lambda>p. fst p = rel) (receipt_pairs cv att)) =
      concat (map rc_ranges (filter (\<lambda>r. rc_file r = rel \<and> rel \<noteq> []
        \<and> current_sha1 (cv_manifest cv) rel = Some (rc_sha1 r)
        \<and> (att \<longrightarrow> str_or (rc_source r) ''agent'' = ''agent'')) (cv_receipts cv)))"
  proof -
    have one: "filter (\<lambda>p. fst p = rel) (map (Pair f) rs) = (if f = rel then map (Pair f) rs else [])"
      for f and rs :: "range list"
      by (induction rs) auto
    have "map snd (filter (\<lambda>p. fst p = rel) (concat (map (\<lambda>r.
         if att \<and> str_or (rc_source r) ''agent'' \<noteq> ''agent'' then []
         else if rc_file r = [] \<or> current_sha1 m (rc_file r) \<noteq> Some (rc_sha1 r) then []
         else map (Pair (rc_file r)) (rc_ranges r)) rs)))
       = concat (map rc_ranges (filter (\<lambda>r. rc_file r = rel \<and> rel \<noteq> []
        \<and> current_sha1 m rel = Some (rc_sha1 r)
        \<and> (att \<longrightarrow> str_or (rc_source r) ''agent'' = ''agent'')) rs))" for m and rs :: "receipt list"
      by (induction rs) (auto simp: one comp_def)
    then show ?thesis unfolding receipt_pairs_def .
  qed
  then show ?thesis by (simp add: receipt_ranges_by_file_def get_ranges_collect)
qed

definition receipts_proper :: "coverage \<Rightarrow> bool" where
  "receipts_proper cv \<longleftrightarrow> list_all (\<lambda>r. proper (rc_ranges r)) (cv_receipts cv)"

lemma proper_concat: "(\<forall>rs \<in> set rss. proper rs) \<Longrightarrow> proper (concat rss)"
  by (induction rss) auto

lemma lines_of_concat: "lines_of (concat rss) = (\<Union>rs \<in> set rss. lines_of rs)"
  by (induction rss) auto

lemma receipts_normal:
  assumes "receipts_proper cv"
  shows "apart (get_ranges (receipt_ranges_by_file cv att) rel)"
    and "lines_of (get_ranges (receipt_ranges_by_file cv att) rel) =
      (\<Union>r \<in> {r \<in> set (cv_receipts cv). rc_file r = rel \<and> rel \<noteq> []
        \<and> current_sha1 (cv_manifest cv) rel = Some (rc_sha1 r)
        \<and> (att \<longrightarrow> str_or (rc_source r) ''agent'' = ''agent'')}. lines_of (rc_ranges r))"
proof -
  have p: "proper (concat (map rc_ranges (filter P (cv_receipts cv))))" for P
    using assms by (intro proper_concat) (auto simp: receipts_proper_def list_all_iff)
  show "apart (get_ranges (receipt_ranges_by_file cv att) rel)"
    unfolding get_ranges_receipts by (rule merge_ranges_normal [OF p])
  show "lines_of (get_ranges (receipt_ranges_by_file cv att) rel) =
      (\<Union>r \<in> {r \<in> set (cv_receipts cv). rc_file r = rel \<and> rel \<noteq> []
        \<and> current_sha1 (cv_manifest cv) rel = Some (rc_sha1 r)
        \<and> (att \<longrightarrow> str_or (rc_source r) ''agent'' = ''agent'')}. lines_of (rc_ranges r))"
    unfolding get_ranges_receipts merge_ranges_normal(2) [OF p] lines_of_concat by simp
qed

text \<open>
  C40 (examined_is_union). What counts as examined of a file is the union of the lines of its receipts
  on the manifest's current content, however the receipts overlap: a receipt on other content counts
  for nothing, the count of examined lines is the number of lines in that union, and the part
  attested by agents is a part of it.
\<close>

theorem examined_is_union:
  assumes "receipts_proper cv"
  shows "lines_of (get_ranges (examined_ranges_by_file cv) rel) =
      (\<Union>r \<in> {r \<in> set (cv_receipts cv). rc_file r = rel \<and> rel \<noteq> []
        \<and> current_sha1 (cv_manifest cv) rel = Some (rc_sha1 r)}. lines_of (rc_ranges r))
    \<and> examined_lines (get_ranges (examined_ranges_by_file cv) rel)
      = int (card (lines_of (get_ranges (examined_ranges_by_file cv) rel)))
    \<and> lines_of (get_ranges (agent_attested_ranges_by_file cv) rel)
      \<subseteq> lines_of (get_ranges (examined_ranges_by_file cv) rel)"
  using ranges.count_card [OF receipts_normal(1) [OF assms]] receipts_normal(2) [OF assms]
  unfolding examined_ranges_by_file_def agent_attested_ranges_by_file_def by auto

subsection \<open>Recording a receipt\<close>

lemma function_ranges_bounds:
  assumes "(name, s, e) \<in> set (function_ranges data rel n)"
  shows "1 \<le> s" "s \<le> e" "e \<le> int n"
proof -
  obtain e0 where t: "(name, s, e0) \<in> set (takeWhile (\<lambda>(name, start, end). start \<le> int n) (definitions_for data rel))"
    and e: "e = max s (min e0 (int n))"
    using assms by (auto simp: function_ranges_def)
  have "s \<le> int n" "(name, s, e0) \<in> set (definitions_for data rel)"
    using set_takeWhileD [OF t] by auto
  then have "0 < s" by (auto simp: definitions_for_def split: option.splits)
  then show "1 \<le> s" "s \<le> e" "e \<le> int n" using \<open>s \<le> int n\<close> by (auto simp: e)
qed

lemma resolve_functionsD:
  assumes "resolve_functions known names = Inr rs"
  shows "\<forall>r \<in> set rs. \<exists>name. (name, r) \<in> set known"
    and "\<forall>n \<in> set names. \<exists>r \<in> set rs. map snd (filter (\<lambda>k. fst k = n) known) = [r]"
proof -
  define of_name where "of_name n = map snd (filter (\<lambda>k. fst k = n) known)" for n
  have ne: "\<forall>n \<in> set names. of_name n \<noteq> [] \<and> length (of_name n) \<le> 1"
    and rs: "rs = map (\<lambda>n. hd (of_name n)) names"
    using assms by (auto simp: resolve_functions_def Let_def of_name_def filter_empty_conv
        not_less split: if_splits)
  have single: "of_name n = [hd (of_name n)]" if "n \<in> set names" for n
    using ne that by (cases "of_name n") auto
  then show "\<forall>n \<in> set names. \<exists>r \<in> set rs. map snd (filter (\<lambda>k. fst k = n) known) = [r]"
    using rs by (auto simp: of_name_def [symmetric])
  show "\<forall>r \<in> set rs. \<exists>name. (name, r) \<in> set known"
  proof
    fix r assume "r \<in> set rs"
    then obtain n where n: "n \<in> set names" "r = hd (of_name n)" by (auto simp: rs)
    then have "r \<in> set (of_name n)" using ne hd_in_set by metis
    then show "\<exists>name. (name, r) \<in> set known" by (auto simp: of_name_def)
  qed
qed

lemma receipt_rangesD:
  assumes "receipt_ranges data a rel n = Inr rs"
  shows "apart rs" "rs \<noteq> []" "lines_of rs \<subseteq> {1..int n}"
    and "\<forall>f \<in> set (named_functions (ea_functions a)). \<exists>s e.
           map snd (filter (\<lambda>k. fst k = f) (function_ranges data rel n)) = [(s, e)] \<and> {s..e} \<subseteq> lines_of rs"
proof -
  obtain given where g: "parse_ranges (ea_lines a) = Inr given"
    using assms by (auto simp: receipt_ranges_def split: sum.splits)
  note ok = parse_ranges_ok [OF g]
  define names where "names = named_functions (ea_functions a)"
  obtain all where all: "apart all" "lines_of all \<subseteq> {1..}" "all \<noteq> []" "fst (last all) \<le> int n"
    "rs = clip_last n all"
    "\<forall>f \<in> set names. \<exists>s e. map snd (filter (\<lambda>k. fst k = f) (function_ranges data rel n)) = [(s, e)]
        \<and> {s..e} \<subseteq> lines_of all"
  proof (cases "names = []")
    case True
    then show thesis
      using assms ok by (intro that [of given]) (auto simp: receipt_ranges_def g names_def Let_def split: if_splits)
  next
    case False
    obtain named where r: "resolve_functions (function_ranges data rel n) names = Inr named"
      using assms False by (auto simp: receipt_ranges_def g names_def Let_def split: sum.splits)
    have "proper named \<and> lines_of named \<subseteq> {1..}"
      using resolve_functionsD(1) [OF r] function_ranges_bounds [of _ _ _ data rel n]
      by (fastforce simp: proper_def list_all_iff lines_of_def)
    then have p: "proper (given @ named)" "lines_of (given @ named) \<subseteq> {1..}"
      using ok apart_proper by auto
    note m = merge_ranges_normal [OF p(1)]
    have "\<exists>s e. map snd (filter (\<lambda>k. fst k = f) (function_ranges data rel n)) = [(s, e)]
        \<and> {s..e} \<subseteq> lines_of (merge_ranges (given @ named))" if "f \<in> set names" for f
      using resolve_functionsD(2) [OF r] that unfolding m(2) by (fastforce simp: lines_of_def)
    then show thesis
      using assms False p m by (intro that [of "merge_ranges (given @ named)"])
        (auto simp: receipt_ranges_def g names_def [symmetric] r Let_def split: if_splits)
  qed
  obtain qs s e where a: "all = qs @ [(s, e)]"
    using all(3) by (metis append_butlast_last_id surj_pair)
  have rs: "rs = qs @ [(s, min e (int n))]" by (simp add: all(5) clip_last_def a)
  note clip = apart_clip [of qs s e "int n", folded a rs]
  have c: "apart rs" "lines_of rs = lines_of all \<inter> {..int n}"
    using clip all(1,4) by (simp_all add: a)
  show "apart rs" "rs \<noteq> []" by (rule c, simp add: rs)
  show "lines_of rs \<subseteq> {1..int n}" using c(2) all(2) by auto
  show "\<forall>f \<in> set (named_functions (ea_functions a)). \<exists>s e.
           map snd (filter (\<lambda>k. fst k = f) (function_ranges data rel n)) = [(s, e)] \<and> {s..e} \<subseteq> lines_of rs"
  proof
    fix f assume "f \<in> set (named_functions (ea_functions a))"
    then obtain s e where se: "map snd (filter (\<lambda>k. fst k = f) (function_ranges data rel n)) = [(s, e)]"
      "{s..e} \<subseteq> lines_of all"
      using all(6) by (auto simp: names_def)
    have "(s, e) \<in> snd ` set (function_ranges data rel n)"
      using arg_cong [OF se(1), where f = set] by auto
    then have "e \<le> int n" using function_ranges_bounds(3) by fastforce
    then have "{s..e} \<subseteq> lines_of rs" using se(2) c(2) by auto
    then show "\<exists>s e. map snd (filter (\<lambda>k. fst k = f) (function_ranges data rel n)) = [(s, e)]
        \<and> {s..e} \<subseteq> lines_of rs"
      using se(1) by (intro exI [of _ s] exI [of _ e] conjI)
  qed
qed

lemma record_receiptD:
  assumes "record_receipt sha1 disk data cv a now = Inr (r, cv')"
  obtains row where "find_row (cv_manifest cv) (normalized_relpath (ea_file a)) = Some row"
    "ea_sha1 a \<noteq> [] \<longrightarrow> mf_sha1 row = ea_sha1 a"
    "content_matches_manifest sha1 disk (normalized_relpath (ea_file a)) (Some row)"
    "receipt_ranges data a (normalized_relpath (ea_file a)) (mf_lines row) = Inr (rc_ranges r)"
    "rc_file r = normalized_relpath (ea_file a)" "rc_sha1 r = mf_sha1 row"
    "rc_functions r = named_functions (ea_functions a)" "rc_source r = ea_source a"
    "cv' = cv\<lparr>cv_receipts := cv_receipts cv @ [r]\<rparr>"
  using assms that
  by (auto simp: record_receipt_def Let_def split: option.splits if_splits sum.splits)

text \<open>
  C39 (receipt_sound). A receipt that is recorded can be checked: its file names a row of the manifest,
  the content on disk is the one the row describes (and the one the reader saw, when it says so), its
  ranges are merged, not empty and inside the file, and cover every function it names, each of which
  the parser found exactly once. Nothing but the receipt is added.
\<close>

theorem receipt_sound:
  assumes "record_receipt sha1 disk data cv a now = Inr (r, cv')"
  shows "\<exists>row \<in> set (cv_manifest cv). rc_file r = normalized_relpath (ea_file a)
     \<and> mf_file row = normalized_relpath (rc_file r) \<and> rc_sha1 r = mf_sha1 row
     \<and> ea_sha1 a \<in> {[], mf_sha1 row} \<and> content_matches_manifest sha1 disk (rc_file r) (Some row)
     \<and> apart (rc_ranges r) \<and> rc_ranges r \<noteq> [] \<and> lines_of (rc_ranges r) \<subseteq> {1..int (mf_lines row)}
     \<and> list_all (\<lambda>f. \<exists>s e. map snd (filter (\<lambda>k. fst k = f) (function_ranges data (rc_file r) (mf_lines row)))
            = [(s, e)] \<and> {s..e} \<subseteq> lines_of (rc_ranges r)) (rc_functions r)
     \<and> cv' = cv\<lparr>cv_receipts := cv_receipts cv @ [r]\<rparr>"
proof -
  obtain row where row: "find_row (cv_manifest cv) (normalized_relpath (ea_file a)) = Some row"
    "ea_sha1 a \<noteq> [] \<longrightarrow> mf_sha1 row = ea_sha1 a"
    "content_matches_manifest sha1 disk (normalized_relpath (ea_file a)) (Some row)"
    "receipt_ranges data a (normalized_relpath (ea_file a)) (mf_lines row) = Inr (rc_ranges r)"
    "rc_file r = normalized_relpath (ea_file a)" "rc_sha1 r = mf_sha1 row"
    "rc_functions r = named_functions (ea_functions a)"
    "cv' = cv\<lparr>cv_receipts := cv_receipts cv @ [r]\<rparr>"
    by (rule record_receiptD [OF assms])
  note R = receipt_rangesD [OF row(4)]
  have "row \<in> set (cv_manifest cv)" "mf_file row = normalized_relpath (normalized_relpath (ea_file a))"
    using row(1) by (auto simp: find_row_def find_Some_iff)
  then show ?thesis
    using row R by (intro bexI [of _ row]) (auto simp: list_all_iff)
qed

subsection \<open>The invariant of the ledger\<close>

text \<open>
  Every manifest row describes some content, every receipt covers lines of the content its hash names,
  and no file has two rows.
\<close>

definition row_describes :: "(string \<Rightarrow> string) \<Rightarrow> manifest_row \<Rightarrow> bool" where
  "row_describes sha1 row \<longleftrightarrow> (\<exists>content. mf_lines row = line_count content \<and> mf_sha1 row = sha1 content)"

definition receipt_within :: "(string \<Rightarrow> string) \<Rightarrow> receipt \<Rightarrow> bool" where
  "receipt_within sha1 r \<longleftrightarrow> apart (rc_ranges r)
     \<and> (\<exists>content. rc_sha1 r = sha1 content \<and> lines_of (rc_ranges r) \<subseteq> {1..int (line_count content)})"

definition coverage_ok :: "(string \<Rightarrow> string) \<Rightarrow> coverage \<Rightarrow> bool" where
  "coverage_ok sha1 cv \<longleftrightarrow> distinct (map mf_file (cv_manifest cv))
     \<and> list_all (row_describes sha1) (cv_manifest cv) \<and> list_all (receipt_within sha1) (cv_receipts cv)"

lemma coverage_ok_proper: "coverage_ok sha1 cv \<Longrightarrow> receipts_proper cv"
  by (auto simp: coverage_ok_def receipts_proper_def receipt_within_def list_all_iff apart_proper)

lemma manifest_entryD:
  assumes "manifest_entry sha1 disk depth slug offered scope previous rel = Some row"
  shows "mf_file row = rel"
    and "mf_offered row \<longleftrightarrow> rel \<in> set offered \<or> (\<exists>o_row. previous rel = Some o_row \<and> mf_offered o_row)"
    and "(\<exists>content. mf_lines row = line_count content \<and> mf_sha1 row = sha1 content)
      \<or> (\<exists>o_row. previous rel = Some o_row \<and> mf_lines row = mf_lines o_row \<and> mf_sha1 row = mf_sha1 o_row)"
proof -
  obtain f where f: "disk rel = Some f" using assms by (cases "disk rel") (auto simp: manifest_entry_def)
  define kept where "kept = (case previous rel of
                  None \<Rightarrow> False
                | Some o_row \<Rightarrow> mf_bytes o_row = df_bytes f \<and> mf_mtime o_row = df_mtime f
                    \<and> mf_ctime o_row = df_ctime f \<and> mf_sha1 o_row \<noteq> [])"
  define ident where "ident = (if kept
      then (case previous rel of Some o_row \<Rightarrow> Some (mf_lines o_row, mf_sha1 o_row) | None \<Rightarrow> None)
      else map_option (file_identity sha1) (df_content f))"
  obtain lines digest where i: "ident = Some (lines, digest)"
    and row: "mf_file row = rel" "mf_lines row = lines" "mf_sha1 row = digest"
      "mf_offered row = (rel \<in> set offered
          \<or> (case previous rel of Some o_row \<Rightarrow> mf_offered o_row | None \<Rightarrow> False))"
    using assms unfolding manifest_entry_def f option.case Let_def kept_def [symmetric]
      ident_def [symmetric] by (cases ident) auto
  show "mf_file row = rel" by (rule row)
  show "mf_offered row \<longleftrightarrow> rel \<in> set offered \<or> (\<exists>o_row. previous rel = Some o_row \<and> mf_offered o_row)"
    by (simp add: row split: option.splits)
  show "(\<exists>content. mf_lines row = line_count content \<and> mf_sha1 row = sha1 content)
      \<or> (\<exists>o_row. previous rel = Some o_row \<and> mf_lines row = mf_lines o_row \<and> mf_sha1 row = mf_sha1 o_row)"
    using i by (auto simp: row ident_def file_identity_eq split: if_splits option.splits)
qed

lemma write_manifest_rows:
  "set (cv_manifest (write_manifest sha1 disk depth slug cv paths offered scope)) =
     {row. \<exists>rel \<in> set paths. manifest_entry sha1 disk depth slug offered scope
        (map_of (latest_by (\<lambda>r. Some (mf_file r)) (cv_manifest cv))) rel = Some row}"
  by (auto simp: write_manifest_def Let_def split: option.splits)

text \<open>
  C38 (coverage_invariant). The ledger stays checkable: an empty ledger is well formed, and recording
  a receipt and rewriting the manifest over distinct paths keep every receipt inside the content its
  hash names, every row a description of some content, and one row per file.
\<close>

theorem coverage_invariant:
  assumes "coverage_ok sha1 cv"
  shows "(case record_receipt sha1 disk data cv a now of
            Inl e \<Rightarrow> True | Inr (r, cv') \<Rightarrow> coverage_ok sha1 cv')
    \<and> (distinct paths \<longrightarrow> coverage_ok sha1 (write_manifest sha1 disk depth slug cv paths offered scope))"
proof (intro conjI impI)
  show "case record_receipt sha1 disk data cv a now of
            Inl e \<Rightarrow> True | Inr (r, cv') \<Rightarrow> coverage_ok sha1 cv'"
  proof (cases "record_receipt sha1 disk data cv a now")
    case (Inr p)
    obtain r cv' where p: "p = (r, cv')" by (cases p)
    obtain row where row: "find_row (cv_manifest cv) (normalized_relpath (ea_file a)) = Some row"
      "receipt_ranges data a (normalized_relpath (ea_file a)) (mf_lines row) = Inr (rc_ranges r)"
      "rc_sha1 r = mf_sha1 row" "cv' = cv\<lparr>cv_receipts := cv_receipts cv @ [r]\<rparr>"
      by (rule record_receiptD [OF Inr [unfolded p]])
    have "row \<in> set (cv_manifest cv)" using row(1) by (auto simp: find_row_def find_Some_iff)
    then have "row_describes sha1 row" using assms by (simp add: coverage_ok_def list_all_iff)
    then have "receipt_within sha1 r"
      using receipt_rangesD [OF row(2)] row(3) by (auto simp: row_describes_def receipt_within_def)
    then show ?thesis using assms by (simp add: Inr p row(4) coverage_ok_def)
  qed simp
next
  assume d: "distinct paths"
  let ?prev = "map_of (latest_by (\<lambda>r. Some (mf_file r)) (cv_manifest cv))"
  let ?E = "\<lambda>rel. manifest_entry sha1 disk depth slug offered scope ?prev rel"
  have desc: "row_describes sha1 row" if "?E rel = Some row" for rel row
  proof -
    have "\<exists>content. mf_lines o_row = line_count content \<and> mf_sha1 o_row = sha1 content"
      if "?prev rel = Some o_row" for o_row
      using map_of_latest_by_SomeD [OF that] assms
      by (simp add: coverage_ok_def list_all_iff row_describes_def)
    then show ?thesis
      using manifest_entryD(3) [OF that] unfolding row_describes_def by metis
  qed
  have "distinct (map mf_file (concat (map (\<lambda>rel. case ?E rel of None \<Rightarrow> [] | Some row \<Rightarrow> [row]) ps)))
      \<and> mf_file ` set (concat (map (\<lambda>rel. case ?E rel of None \<Rightarrow> [] | Some row \<Rightarrow> [row]) ps)) \<subseteq> set ps"
    if "distinct ps" for ps
    using that
  proof (induction ps)
    case (Cons p ps)
    show ?case
    proof (cases "?E p")
      case None
      with Cons show ?thesis by auto
    next
      case (Some row)
      then have "mf_file row = p" by (rule manifest_entryD(1))
      with Cons Some show ?thesis by auto
    qed
  qed simp
  then have "distinct (map mf_file (cv_manifest (write_manifest sha1 disk depth slug cv paths offered scope)))"
    using d by (simp add: write_manifest_def Let_def)
  moreover have "cv_receipts (write_manifest sha1 disk depth slug cv paths offered scope) = cv_receipts cv"
    by (simp add: write_manifest_def Let_def)
  moreover have "list_all (row_describes sha1) (cv_manifest (write_manifest sha1 disk depth slug cv paths offered scope))"
    unfolding list_all_iff write_manifest_rows using desc by blast
  ultimately show "coverage_ok sha1 (write_manifest sha1 disk depth slug cv paths offered scope)"
    using assms by (simp add: coverage_ok_def)
qed

subsection \<open>What the ledger says of a file\<close>

lemma current_row:
  assumes "distinct (map mf_file manifest)" "row \<in> set manifest"
  shows "map_of (latest_by (\<lambda>r. Some (mf_file r)) manifest) (mf_file row) = Some row"
proof -
  have "find (\<lambda>r. Some (mf_file r) = Some (mf_file row)) (rev manifest) \<noteq> None"
    using assms(2) by (auto simp: find_None_iff)
  then obtain r where r: "find (\<lambda>r. Some (mf_file r) = Some (mf_file row)) (rev manifest) = Some r" by auto
  then have "r \<in> set manifest" "mf_file r = mf_file row" by (auto simp: find_Some_iff rev_nth)
  then have "r = row" using assms by (auto simp: distinct_map inj_on_def)
  with r show ?thesis by (simp add: map_of_latest_by)
qed

lemma receipts_within:
  assumes "coverage_ok sha1 cv" "row \<in> set (cv_manifest cv)"
    and "\<And>x y. sha1 x = sha1 y \<Longrightarrow> line_count x = line_count y"
  shows "lines_of (get_ranges (receipt_ranges_by_file cv att) (mf_file row)) \<subseteq> {1..int (mf_lines row)}"
proof -
  have cur: "current_sha1 (cv_manifest cv) (mf_file row) = Some (mf_sha1 row)"
    using assms(1,2) by (simp add: current_sha1_def current_row coverage_ok_def)
  obtain content where c: "mf_lines row = line_count content" "mf_sha1 row = sha1 content"
    using assms(1,2) by (auto simp: coverage_ok_def row_describes_def list_all_iff)
  have "lines_of (rc_ranges r) \<subseteq> {1..int (mf_lines row)}"
    if r: "r \<in> set (cv_receipts cv)" "rc_sha1 r = mf_sha1 row" for r
  proof -
    obtain d where d: "rc_sha1 r = sha1 d" "lines_of (rc_ranges r) \<subseteq> {1..int (line_count d)}"
      using assms(1) r(1) by (auto simp: coverage_ok_def receipt_within_def list_all_iff)
    have "line_count d = mf_lines row" using assms(3) [of d content] d(1) r(2) c by simp
    with d(2) show ?thesis by simp
  qed
  then show ?thesis
    unfolding receipts_normal(2) [OF coverage_ok_proper [OF assms(1)]] cur by (intro UN_least) simp
qed

text \<open>
  Fact (examined_within_file). On a well-formed ledger whose hash tells contents with different line
  counts apart, the examined lines of a file lie inside the file, so its examined fraction is between
  0 and 1 and the cap in \<open>examined_fraction_by_file\<close> never cuts anything.
\<close>

theorem examined_within_file:
  assumes "coverage_ok sha1 cv" "row \<in> set (cv_manifest cv)"
    and "\<And>x y. sha1 x = sha1 y \<Longrightarrow> line_count x = line_count y"
  shows "lines_of (get_ranges (examined_ranges_by_file cv) (mf_file row)) \<subseteq> {1..int (mf_lines row)}
     \<and> 0 \<le> examined_lines (get_ranges (examined_ranges_by_file cv) (mf_file row))
     \<and> examined_lines (get_ranges (examined_ranges_by_file cv) (mf_file row)) \<le> int (mf_lines row)"
  using receipts_within [OF assms, of False] receipts_normal(1) [OF coverage_ok_proper [OF assms(1)]]
    ranges.count_within ranges.count_nonneg
  unfolding examined_ranges_by_file_def by blast

text \<open>
  Fact (unexamined_functions_exact). The functions a card lists as unexamined are exactly the parsed
  functions of the file some line of which no current receipt covers: asking whether one merged range
  contains the function, as the code does, and asking whether all its lines are covered is the same.
\<close>

theorem unexamined_functions_exact:
  assumes "receipts_proper cv"
  shows "fi_unexamined (file_examined data cv file) =
    filter (\<lambda>(name, s, e). \<not> {s..e} \<subseteq> lines_of (fi_ranges (file_examined data cv file)))
      (function_ranges data (fi_file (file_examined data cv file)) (fi_lines (file_examined data cv file)))"
proof -
  define rel where "rel = normalized_relpath file"
  define n where "n = fi_lines (file_examined data cv file)"
  define rs where "rs = get_ranges (examined_ranges_by_file cv) rel"
  have fi: "fi_ranges (file_examined data cv file) = rs" "fi_file (file_examined data cv file) = rel"
    "fi_unexamined (file_examined data cv file)
      = filter (\<lambda>f. \<not> within_one rs f) (function_ranges data rel n)"
    by (simp_all add: file_examined_def Let_def rs_def rel_def n_def)
  have "apart rs" using receipts_normal(1) [OF assms] by (simp add: rs_def examined_ranges_by_file_def)
  then have "within_one rs (name, s, e) \<longleftrightarrow> {s..e} \<subseteq> lines_of rs"
    if "(name, s, e) \<in> set (function_ranges data rel n)" for name s e
    using apart_covers [of rs s e] function_ranges_bounds(2) [OF that]
    by (simp add: within_one_def list_ex_iff)
  then show ?thesis
    unfolding fi n_def [symmetric] by (auto intro!: filter_cong)
qed

text \<open>
  Fact (offered_sticky). Rewriting the manifest never forgets an offer: a file that was offered and is
  ranked again is still offered, a file of the new window is offered, and no other file is. The rows
  are in order of their paths and every row is a ranked path that could be read.
\<close>

theorem offered_sticky:
  "sorted (map mf_file (cv_manifest (write_manifest sha1 disk depth slug cv paths offered scope)))
   \<and> list_all (\<lambda>row. mf_file row \<in> set paths \<and> disk (mf_file row) \<noteq> None
        \<and> mf_offered row = (mf_file row \<in> set offered
            \<or> (\<exists>o_row. map_of (latest_by (\<lambda>r. Some (mf_file r)) (cv_manifest cv)) (mf_file row) = Some o_row
                 \<and> mf_offered o_row)))
      (cv_manifest (write_manifest sha1 disk depth slug cv paths offered scope))"
proof
  show "sorted (map mf_file (cv_manifest (write_manifest sha1 disk depth slug cv paths offered scope)))"
    by (simp add: write_manifest_def Let_def)
  show "list_all (\<lambda>row. mf_file row \<in> set paths \<and> disk (mf_file row) \<noteq> None
        \<and> mf_offered row = (mf_file row \<in> set offered
            \<or> (\<exists>o_row. map_of (latest_by (\<lambda>r. Some (mf_file r)) (cv_manifest cv)) (mf_file row) = Some o_row
                 \<and> mf_offered o_row)))
      (cv_manifest (write_manifest sha1 disk depth slug cv paths offered scope))"
    unfolding list_all_iff
  proof
    fix row
    assume "row \<in> set (cv_manifest (write_manifest sha1 disk depth slug cv paths offered scope))"
    then obtain rel where rel: "rel \<in> set paths" "manifest_entry sha1 disk depth slug offered scope
        (map_of (latest_by (\<lambda>r. Some (mf_file r)) (cv_manifest cv))) rel = Some row"
      unfolding write_manifest_rows by blast
    moreover have "disk rel \<noteq> None" using rel(2) by (cases "disk rel") (simp_all add: manifest_entry_def)
    ultimately show "mf_file row \<in> set paths \<and> disk (mf_file row) \<noteq> None
        \<and> mf_offered row = (mf_file row \<in> set offered
            \<or> (\<exists>o_row. map_of (latest_by (\<lambda>r. Some (mf_file r)) (cv_manifest cv)) (mf_file row) = Some o_row
                 \<and> mf_offered o_row))"
      using manifest_entryD(1,2) [OF rel(2)] by blast
  qed
qed

subsection \<open>The report accounts for the tree\<close>

lemma add_bucket_fields:
  "cb_files (foldl (\<lambda>b row. add_bucket (g row) b) b rows) = cb_files b + sum_list (map (\<lambda>r. cb_files (g r)) rows)"
  "cb_lines (foldl (\<lambda>b row. add_bucket (g row) b) b rows) = cb_lines b + sum_list (map (\<lambda>r. cb_lines (g r)) rows)"
  "cb_lines_examined (foldl (\<lambda>b row. add_bucket (g row) b) b rows)
     = cb_lines_examined b + sum_list (map (\<lambda>r. cb_lines_examined (g r)) rows)"
  "cb_lines_attested (foldl (\<lambda>b row. add_bucket (g row) b) b rows)
     = cb_lines_attested b + sum_list (map (\<lambda>r. cb_lines_attested (g r)) rows)"
  "cb_lines_unrequested (foldl (\<lambda>b row. add_bucket (g row) b) b rows)
     = cb_lines_unrequested b + sum_list (map (\<lambda>r. cb_lines_unrequested (g r)) rows)"
  for b :: cov_bucket
  by (induction rows arbitrary: b) (simp_all add: add_bucket_def)

lemma sum_list_split_key:
  fixes h :: "'r \<Rightarrow> int"
  assumes "distinct ks" "key ` set xs \<subseteq> set ks"
  shows "sum_list (map (\<lambda>k. sum_list (map h (filter (\<lambda>x. key x = k) xs))) ks) = sum_list (map h xs)"
  using assms(2)
proof (induction xs)
  case (Cons x xs)
  have "sum_list (map (\<lambda>k. sum_list (map h (filter (\<lambda>x. key x = k) (x # xs)))) ks)
      = sum_list (map (\<lambda>k. (if key x = k then h x else 0) + sum_list (map h (filter (\<lambda>x. key x = k) xs))) ks)"
    by (intro arg_cong [where f = sum_list] map_cong) auto
  also have "\<dots> = sum_list (map (\<lambda>k. if key x = k then h x else 0) ks) + sum_list (map h xs)"
    using Cons by (simp add: sum_list_addf)
  also have "sum_list (map (\<lambda>k. if key x = k then h x else 0) ks) = h x"
    using assms(1) Cons.prems by (simp add: sum_list_distinct_conv_sum_set)
  finally show ?case by simp
qed simp

lemma row_unrequested:
  assumes "coverage_ok sha1 cv" "row \<in> set (cv_manifest cv)"
    and "\<And>x y. sha1 x = sha1 y \<Longrightarrow> line_count x = line_count y"
  shows "cb_lines_unrequested (row_stats cv claimed row) =
    int (card (lines_of (get_ranges (agent_attested_ranges_by_file cv) (mf_file row))
               - lines_of (get_ranges (requested_ranges_by_file cv) (mf_file row))))"
proof -
  let ?a = "get_ranges (agent_attested_ranges_by_file cv) (mf_file row)"
  have "apart ?a" "lines_of ?a \<subseteq> {1..int (mf_lines row)}"
    using receipts_normal(1) [OF coverage_ok_proper [OF assms(1)]] receipts_within [OF assms]
    by (simp_all add: agent_attested_ranges_by_file_def)
  then show ?thesis
    using ranges.count_within [of ?a "mf_lines row"] ranges.count_minus_meet [of ?a]
    by (simp add: row_stats_def Let_def min_absorb2)
qed

text \<open>
  Fact (coverage_report_adds_up). The coverage report splits the tree: over its directories, which are
  distinct, the lines and the examined lines add up to the totals, and the total lines are those of
  the manifest. No more is examined than there is, and on a well-formed ledger the lines attested but
  never requested are, file by file, the attested lines no requested range reaches.
\<close>

theorem coverage_report_adds_up:
  assumes "coverage_ok sha1 cv" "\<And>x y. sha1 x = sha1 y \<Longrightarrow> line_count x = line_count y"
  shows "let rp = coverage_report sha1 disk slug data st cv depth untouched;
             attested = \<lambda>row. lines_of (get_ranges (agent_attested_ranges_by_file cv) (mf_file row));
             requested = \<lambda>row. lines_of (get_ranges (requested_ranges_by_file cv) (mf_file row))
    in distinct (map fst (rp_directories rp))
     \<and> sum_list (map (\<lambda>p. cb_lines (snd p)) (rp_directories rp)) = cb_lines (rp_totals rp)
     \<and> sum_list (map (\<lambda>p. cb_lines_examined (snd p)) (rp_directories rp)) = cb_lines_examined (rp_totals rp)
     \<and> cb_lines (rp_totals rp) = sum_list (map (\<lambda>row. int (mf_lines row)) (cv_manifest cv))
     \<and> cb_lines_examined (rp_totals rp) \<le> cb_lines (rp_totals rp)
     \<and> cb_lines_unrequested (rp_totals rp)
        = sum_list (map (\<lambda>row. int (card (attested row - requested row))) (cv_manifest cv))"
proof -
  define rp where "rp = coverage_report sha1 disk slug data st cv depth untouched"
  define claimed where "claimed = claimed_files sha1 slug st (cv_manifest cv)"
  define key where "key = (\<lambda>row :: manifest_row. subsystem_bucket (mf_file row) (max 1 depth))"
  define g where "g = row_stats cv claimed"
  define B where "B = foldl (\<lambda>acc row. AList.map_default (key row) (add_bucket (g row) cov_bucket0)
      (add_bucket (g row)) acc) [] (cv_manifest cv)"
  have rp: "rp_directories rp = sort_key directory_key B"
    "rp_totals rp = foldl (\<lambda>b row. add_bucket (g row) b) cov_bucket0 (cv_manifest cv)"
    by (simp_all add: rp_def coverage_report_def Let_def B_def key_def g_def claimed_def)
  note G = group_fold [where key = key and f = "\<lambda>row. add_bucket (g row)" and z = "\<lambda>_. cov_bucket0"
      and rows = "cv_manifest cv", folded B_def]
  have entry: "b = foldl (\<lambda>b row. add_bucket (g row) b) cov_bucket0 (filter (\<lambda>r. key r = k) (cv_manifest cv))"
    if "(k, b) \<in> set B" for k b
  proof -
    have "map_of B k = Some b" using that G(2) by simp
    then show ?thesis unfolding G(1) by (simp split: if_splits)
  qed
  have z: "cb_lines cov_bucket0 = 0" "cb_lines_examined cov_bucket0 = 0" "cb_lines_unrequested cov_bucket0 = 0"
    by (simp_all add: cov_bucket0_def)
  have sums: "sum_list (map (\<lambda>p. h (snd p)) B) = sum_list (map (\<lambda>r. h (g r)) (cv_manifest cv))"
    if h: "\<And>rows. h (foldl (\<lambda>b row. add_bucket (g row) b) cov_bucket0 rows)
        = sum_list (map (\<lambda>r. h (g r)) rows)" for h :: "cov_bucket \<Rightarrow> int"
  proof -
    have eh: "h b = sum_list (map (\<lambda>r. h (g r)) (filter (\<lambda>r. key r = k) (cv_manifest cv)))"
      if "(k, b) \<in> set B" for k b
      using arg_cong [OF entry [OF that], where f = h] h by simp
    have "sum_list (map (\<lambda>p. h (snd p)) B) = sum_list (map (\<lambda>k. sum_list (map (\<lambda>r. h (g r))
        (filter (\<lambda>r. key r = k) (cv_manifest cv)))) (map fst B))"
      by (auto intro!: arg_cong [where f = sum_list] simp: eh)
    also have "\<dots> = sum_list (map (\<lambda>r. h (g r)) (cv_manifest cv))"
      by (rule sum_list_split_key) (use G(2,3) in simp_all)
    finally show ?thesis .
  qed
  have row: "cb_lines (g r) = int (mf_lines r)" "cb_lines_examined (g r) \<le> int (mf_lines r)" for r
    by (simp_all add: g_def row_stats_def Let_def)
  have "distinct (map fst (rp_directories rp))" using G(2) by (simp add: rp)
  moreover have "sum_list (map (\<lambda>p. cb_lines (snd p)) (rp_directories rp)) = cb_lines (rp_totals rp)"
    unfolding rp sum_list_sort_key by (subst sums) (simp_all add: add_bucket_fields z)
  moreover have "sum_list (map (\<lambda>p. cb_lines_examined (snd p)) (rp_directories rp)) = cb_lines_examined (rp_totals rp)"
    unfolding rp sum_list_sort_key by (subst sums) (simp_all add: add_bucket_fields z)
  moreover have "cb_lines (rp_totals rp) = sum_list (map (\<lambda>row. int (mf_lines row)) (cv_manifest cv))"
    by (simp add: rp add_bucket_fields z row)
  moreover have "cb_lines_examined (rp_totals rp) \<le> cb_lines (rp_totals rp)"
    unfolding rp add_bucket_fields z by (simp add: sum_list_mono row)
  moreover have "cb_lines_unrequested (rp_totals rp) = sum_list (map (\<lambda>row.
      int (card (lines_of (get_ranges (agent_attested_ranges_by_file cv) (mf_file row))
               - lines_of (get_ranges (requested_ranges_by_file cv) (mf_file row))))) (cv_manifest cv))"
    unfolding rp add_bucket_fields z g_def
    using row_unrequested [OF assms(1) _ assms(2)] by (simp cong: map_cong)
  ultimately show ?thesis unfolding rp_def Let_def by blast
qed

subsection \<open>A ledger\<close>

definition demo_disk :: disk where
  "demo_disk = (\<lambda>p. if p \<in> set [''a.c'', ''./a.c''] then Some \<lparr>df_bytes = 4, df_mtime = 1, df_ctime = 1,
     df_content = Some [CHR ''x'', newline, CHR ''y'', newline]\<rparr> else None)"

definition demo_coverage :: coverage where
  "demo_coverage = write_manifest id demo_disk 2 ''t'' \<lparr>cv_manifest = [], cv_receipts = [], cv_reads = []\<rparr>
     [''a.c''] [''a.c''] ''tree''"

definition demo_receipt_args :: "string \<Rightarrow> receipt_args" where
  "demo_receipt_args file = \<lparr>ea_agent = ''1'', ea_file = file, ea_lines = ''1-2'', ea_functions = [],
     ea_card = [], ea_source = ''agent'', ea_note = [], ea_sha1 = []\<rparr>"

definition demo_recorded :: "string \<Rightarrow> receipt_error + receipt \<times> coverage" where
  "demo_recorded file =
     record_receipt id demo_disk None demo_coverage (demo_receipt_args file) 63870000000000000"

lemma demo_manifest:
  "map (\<lambda>r. (mf_file r, mf_lines r, mf_offered r)) (cv_manifest demo_coverage) = [(''a.c'', 2, True)]"
  by code_simp

lemma demo_recorded_ok:
  "(case demo_recorded ''a.c'' of Inl e \<Rightarrow> False | Inr (r, cv) \<Rightarrow>
      rc_ranges r = [(1, 2)] \<and> get_ranges (examined_ranges_by_file cv) ''a.c'' = [(1, 2)])"
  "(case demo_recorded ''.//./a.c'' of Inl e \<Rightarrow> False | Inr (r, cv) \<Rightarrow>
      rc_ranges r = [(1, 2)] \<and> rc_file r = ''./a.c'' \<and> get_ranges (examined_ranges_by_file cv) ''a.c'' = [])"
  by code_simp+

lemma demo_coverage_ok: "coverage_ok id demo_coverage"
proof -
  have "coverage_ok id \<lparr>cv_manifest = [], cv_receipts = [], cv_reads = []\<rparr>" by (simp add: coverage_ok_def)
  then have "coverage_ok id (write_manifest id demo_disk 2 ''t''
      \<lparr>cv_manifest = [], cv_receipts = [], cv_reads = []\<rparr> [''a.c''] [''a.c''] ''tree'')"
    by (simp add: coverage_ok_def write_manifest_def Let_def row_describes_def split: option.splits)
       (auto dest: manifest_entryD(3) simp: manifest_entryD(1))
  then show ?thesis by (simp add: demo_coverage_def)
qed

text \<open>
  Fact (receipt_path_not_normal). \<open>normalized_relpath\<close> is not idempotent, and the manifest lookup
  normalises a path once more than the receipt row does: a receipt for \<open>.//./a.c\<close> is accepted against
  the row of \<open>a.c\<close> (both name one file on disk) and recorded under \<open>./a.c\<close>, where it never counts
  as examined.
\<close>

theorem receipt_path_not_normal:
  "(case demo_recorded ''.//./a.c'' of
      Inl e \<Rightarrow> False
    | Inr (r, cv) \<Rightarrow> rc_ranges r = [(1, 2)] \<and> rc_file r = ''./a.c''
        \<and> map mf_file (cv_manifest cv) = [''a.c''] \<and> get_ranges (examined_ranges_by_file cv) ''a.c'' = [])"
  by code_simp

theorem receipt_sound_witness:
  "\<exists>r cv. demo_recorded ''a.c'' = Inr (r, cv) \<and> apart (rc_ranges r) \<and> lines_of (rc_ranges r) \<noteq> {}"
proof -
  obtain r cv where r: "demo_recorded ''a.c'' = Inr (r, cv)" "rc_ranges r = [(1, 2)]"
    using demo_recorded_ok(1) by (auto split: sum.splits)
  from receipt_sound [OF r(1) [unfolded demo_recorded_def]] r show ?thesis by auto
qed

theorem coverage_invariant_witness:
  "coverage_ok id (write_manifest id demo_disk 2 ''t'' demo_coverage [''a.c''] [] ''tree'')"
  using coverage_invariant [OF demo_coverage_ok] by simp

theorem examined_is_union_witness:
  "examined_lines (get_ranges (examined_ranges_by_file demo_coverage) ''a.c'')
     = int (card (lines_of (get_ranges (examined_ranges_by_file demo_coverage) ''a.c'')))"
  using examined_is_union [OF coverage_ok_proper [OF demo_coverage_ok]] by blast

theorem examined_within_file_witness:
  "\<exists>row \<in> set (cv_manifest demo_coverage). examined_lines (get_ranges (examined_ranges_by_file demo_coverage) ''a.c'') \<le> 2"
proof -
  obtain row where "row \<in> set (cv_manifest demo_coverage)" "mf_file row = ''a.c''" "mf_lines row = 2"
    using demo_manifest by (auto simp: map_eq_Cons_conv)
  with examined_within_file [OF demo_coverage_ok this(1)] show ?thesis by auto
qed

theorem unexamined_functions_exact_witness:
  "fi_unexamined (file_examined None demo_coverage ''a.c'') = []"
  unfolding unexamined_functions_exact [OF coverage_ok_proper [OF demo_coverage_ok]]
  by (simp add: function_ranges_def definitions_for_def graph_entry_of_def Let_def)

theorem coverage_report_adds_up_witness:
  "cb_lines (rp_totals (coverage_report id demo_disk ''t'' None store0 demo_coverage 2 10)) = 2"
  using coverage_report_adds_up [OF demo_coverage_ok, of demo_disk "''t''" None store0 2 10] demo_manifest
  by (auto simp: Let_def map_eq_Cons_conv)

end
