(* ===== verification/Dedup.thy ===== *)
theory Dedup
  imports Prelude
begin

text \<open>
  Clustering of findings (\<open>lib/finding_dedup.py\<close>): fingerprints, the union-find over finding ids
  with path compression, and the merge of findings that share a site or a crash state. The contract
  between the union-find and its client is the locale \<open>disjoint_ids\<close>. The extraction of crash
  frames from a report (\<open>crash_state\<close>, which delegates to \<open>lib/stack_frames.py\<close>) is the parameter
  \<open>state\<close>.
\<close>

subsection \<open>Union-find\<close>

text \<open>The dictionary \<open>parent\<close>. \<open>None\<close> is a lookup that raises \<open>KeyError\<close>, or a loop that does not end.\<close>

type_synonym parents = "(string \<times> string) list"

definition uf_init :: "string list \<Rightarrow> parents" where
  "uf_init ids = fold (\<lambda>i p. AList.update i i p) ids []"

partial_function (option) uf_root :: "parents \<Rightarrow> string \<Rightarrow> string option" where
  "uf_root p x = (case map_of p x of None \<Rightarrow> None
     | Some y \<Rightarrow> if y = x then Some x else uf_root p y)"

partial_function (option) uf_compress :: "string \<Rightarrow> parents \<Rightarrow> string \<Rightarrow> parents option" where
  "uf_compress rt p x = (case map_of p x of None \<Rightarrow> None
     | Some y \<Rightarrow> if y = rt then Some p else uf_compress rt (AList.update x rt p) y)"

declare uf_root.simps [code] uf_compress.simps [code]

definition uf_find :: "parents \<Rightarrow> string \<Rightarrow> (string \<times> parents) option" where
  "uf_find p x = (case uf_root p x of None \<Rightarrow> None
     | Some rt \<Rightarrow> map_option (Pair rt) (uf_compress rt p x))"

definition uf_union :: "parents \<Rightarrow> string \<Rightarrow> string \<Rightarrow> parents option" where
  "uf_union p a b = (case uf_find p a of None \<Rightarrow> None
     | Some (ra, p1) \<Rightarrow> (case uf_find p1 b of None \<Rightarrow> None
         | Some (rb, p2) \<Rightarrow> Some (if ra \<noteq> rb then AList.update (max ra rb) (min ra rb) p2 else p2)))"

text \<open>The loop of \<open>components\<close>, over the ids in dictionary order; the dictionary changes underneath it
  by path compression only, which keeps its keys.\<close>

fun uf_collect :: "parents \<Rightarrow> string list \<Rightarrow> (string \<times> string list) list \<Rightarrow> (string \<times> string list) list option" where
  "uf_collect p [] out = Some out"
| "uf_collect p (i # is) out = (case uf_find p i of None \<Rightarrow> None
     | Some (rt, p') \<Rightarrow> uf_collect p' is (AList.map_default rt [i] (\<lambda>ms. ms @ [i]) out))"

definition uf_components :: "parents \<Rightarrow> (string \<times> string list) list option" where
  "uf_components p = uf_collect p (map fst p) []"

fun union_all :: "('s \<Rightarrow> 'a \<Rightarrow> 'a \<Rightarrow> 's option) \<Rightarrow> 's \<Rightarrow> ('a \<times> 'a) list \<Rightarrow> 's option" where
  "union_all unite s [] = Some s"
| "union_all unite s ((a, b) # es) = (case unite s a b of None \<Rightarrow> None | Some s' \<Rightarrow> union_all unite s' es)"

subsection \<open>Clustering\<close>

record fingerprint =
  fp_id :: string
  fp_cls :: string
  fp_file :: string
  fp_line :: string
  fp_state :: "string list"

text \<open>A signature record of \<open>bin/cluster-findings\<close>, a missing field as the empty string.\<close>

record finding_row =
  fr_id :: string
  fr_class :: string
  fr_file :: string
  fr_line :: string

definition build_fingerprint :: "(string \<Rightarrow> string list) \<Rightarrow> finding_row \<Rightarrow> string \<Rightarrow> fingerprint" where
  "build_fingerprint state r report =
     \<lparr>fp_id = fr_id r, fp_cls = str_or (fr_class r) ''other'', fp_file = fr_file r,
      fp_line = fr_line r, fp_state = state report\<rparr>"

record merged =
  mg_members :: "string list"
  mg_via :: string

definition site_key :: "fingerprint \<Rightarrow> (string \<times> string \<times> string) option" where
  "site_key f = (if fp_file f \<noteq> [] \<and> fp_line f \<noteq> [] then Some (fp_cls f, fp_file f, fp_line f) else None)"

definition state_key :: "fingerprint \<Rightarrow> string list option" where
  "state_key f = (if fp_state f \<noteq> [] then Some (fp_state f) else None)"

definition fill_buckets :: "('r \<Rightarrow> 'k option) \<Rightarrow> ('r \<Rightarrow> 'v) \<Rightarrow> 'r list \<Rightarrow> ('k \<times> 'v list) list" where
  "fill_buckets key val rows = fold (\<lambda>r bs. case key r of None \<Rightarrow> bs
     | Some k \<Rightarrow> AList.map_default k [val r] (\<lambda>ms. ms @ [val r]) bs) rows []"

definition bucket_unions :: "string list \<Rightarrow> (string \<times> string) list" where
  "bucket_unions members = map (\<lambda>m. (members ! 0, m)) (drop 1 members)"

definition merge_edges :: "fingerprint list \<Rightarrow> (string \<times> string) list" where
  "merge_edges fps =
     concat (map (bucket_unions \<circ> snd) (fill_buckets site_key fp_id fps))
     @ concat (map (bucket_unions \<circ> snd) (fill_buckets state_key fp_id fps))"

definition merged_of :: "string list \<Rightarrow> merged" where
  "merged_of members = \<lparr>mg_members = sort members,
     mg_via = (if length members = 1 then ''singleton'' else ''exact-match'')\<rparr>"

definition cluster_findings :: "(string \<Rightarrow> string list) \<Rightarrow> (string \<Rightarrow> string) \<Rightarrow> finding_row list \<Rightarrow> merged list option" where
  "cluster_findings state report_texts rows =
     (let fps = map (\<lambda>r. build_fingerprint state r (report_texts (fr_id r))) rows
      in case union_all uf_union (uf_init (map fp_id fps)) (merge_edges fps) of None \<Rightarrow> None
         | Some p \<Rightarrow> map_option (\<lambda>cs. sort_key (\<lambda>c. hd (mg_members c)) (map (merged_of \<circ> snd) cs))
             (uf_components p))"

subsection \<open>The contract of a union-find\<close>

text \<open>The equivalence in which the classes of two elements are one.\<close>

definition join :: "('a \<times> 'a) set \<Rightarrow> 'a \<Rightarrow> 'a \<Rightarrow> ('a \<times> 'a) set" where
  "join R a b = R \<union> R\<inverse> `` {a} \<times> R `` {b} \<union> R\<inverse> `` {b} \<times> R `` {a}"

lemma equiv_rtrancl: "equiv A R \<Longrightarrow> R\<^sup>* \<inter> A \<times> A = R"
proof -
  assume e: "equiv A R"
  then have "R\<^sup>* = R \<union> Id" by (simp add: equiv_def trancl_id rtrancl_trancl_reflcl)
  with e show ?thesis by (auto simp: equiv_def refl_on_def dest: subsetD)
qed

lemma rtrancl_join:
  assumes "equiv A R" "a \<in> A" "b \<in> A"
  shows "(join R a b \<union> E)\<^sup>* = (R \<union> {(a, b), (b, a)} \<union> E)\<^sup>*"
proof (rule rtrancl_subset)
  have r: "(a, a) \<in> R" "(b, b) \<in> R" using assms by (auto simp: equiv_def refl_on_def)
  then show "R \<union> {(a, b), (b, a)} \<union> E \<subseteq> join R a b \<union> E" by (auto simp: join_def)
  let ?S = "(R \<union> {(a, b), (b, a)} \<union> E)\<^sup>*"
  have "(x, y) \<in> ?S" if "(x, c) \<in> R" "(c, d) \<in> {(a, b), (b, a)}" "(d, y) \<in> R" for x y c d
    using that by (blast intro: rtrancl_trans r_into_rtrancl)
  then show "join R a b \<union> E \<subseteq> ?S" by (auto simp: join_def)
qed

locale disjoint_ids =
  fixes ok :: "'s \<Rightarrow> bool"
    and elems :: "'s \<Rightarrow> 'a set"
    and same :: "'s \<Rightarrow> ('a \<times> 'a) set"
    and unite :: "'s \<Rightarrow> 'a \<Rightarrow> 'a \<Rightarrow> 's option"
  assumes same_equiv: "ok s \<Longrightarrow> equiv (elems s) (same s)"
    and unite_ok: "ok s \<Longrightarrow> a \<in> elems s \<Longrightarrow> b \<in> elems s \<Longrightarrow>
      \<exists>s'. unite s a b = Some s' \<and> ok s' \<and> elems s' = elems s \<and> same s' = join (same s) a b"
begin

lemma union_all_same:
  assumes "ok s" "set es \<subseteq> elems s \<times> elems s"
  shows "\<exists>s'. union_all unite s es = Some s' \<and> ok s' \<and> elems s' = elems s
    \<and> same s' = (same s \<union> (set es \<union> (set es)\<inverse>))\<^sup>* \<inter> elems s \<times> elems s"
  using assms
proof (induction es arbitrary: s)
  case Nil
  then show ?case by (simp add: equiv_rtrancl [OF same_equiv])
next
  case (Cons e es)
  obtain a b where e: "e = (a, b)" by fastforce
  then have ab: "a \<in> elems s" "b \<in> elems s" using Cons.prems by auto
  obtain s1 where s1: "unite s a b = Some s1" "ok s1" "elems s1 = elems s" "same s1 = join (same s) a b"
    using unite_ok [OF Cons.prems(1) ab] by blast
  then obtain s' where s': "union_all unite s1 es = Some s'" "ok s'" "elems s' = elems s"
      "same s' = (join (same s) a b \<union> (set es \<union> (set es)\<inverse>))\<^sup>* \<inter> elems s \<times> elems s"
    using Cons.IH [of s1] Cons.prems by auto
  moreover have "same s \<union> {(a, b), (b, a)} \<union> (set es \<union> (set es)\<inverse>)
      = same s \<union> (set (e # es) \<union> (set (e # es))\<inverse>)"
    by (auto simp: e)
  moreover have "union_all unite s (e # es) = union_all unite s1 es" using s1(1) by (simp add: e)
  ultimately show ?case by (simp only: rtrancl_join [OF same_equiv [OF Cons.prems(1)] ab]) blast
qed

end

subsection \<open>The union-find keeps the contract\<close>

text \<open>Parents are ids of the dictionary and never larger: the loops end, and a root is the least id of
  its component.\<close>

definition uf_ok :: "parents \<Rightarrow> bool" where
  "uf_ok p \<longleftrightarrow> distinct (map fst p) \<and> (\<forall>(x, y) \<in> set p. y \<le> x \<and> y \<in> fst ` set p)"

definition uf_same :: "parents \<Rightarrow> (string \<times> string) set" where
  "uf_same p = {(x, y). x \<in> fst ` set p \<and> y \<in> fst ` set p \<and> uf_root p x = uf_root p y}"

lemma uf_okD: "uf_ok p \<Longrightarrow> map_of p x = Some y \<Longrightarrow> y \<le> x \<and> y \<in> fst ` set p"
  by (auto simp: uf_ok_def dest: map_of_SomeD)

lemma keys_update [simp]: "x \<in> fst ` set p \<Longrightarrow> map fst (AList.update x y p) = map fst p"
  by (simp add: update_keys)

lemma keys_set: "map fst p' = map fst p \<Longrightarrow> fst ` set p' = fst ` set p"
  by (metis list.set_map)

lemma uf_ok_update:
  assumes "uf_ok p" "x \<in> fst ` set p" "y \<le> x" "y \<in> fst ` set p"
  shows "uf_ok (AList.update x y p)"
proof -
  have k: "map fst (AList.update x y p) = map fst p" using assms(2) by simp
  have "b \<le> a \<and> b \<in> fst ` set p" if "(a, b) \<in> set (AList.update x y p)" for a b
  proof -
    have "map_of (AList.update x y p) a = Some b"
      using that assms(1) by (intro map_of_is_SomeI) (simp_all only: k uf_ok_def)
    then show ?thesis using assms by (auto simp: update_conv' split: if_splits dest: uf_okD)
  qed
  then show ?thesis using assms(1) keys_set [OF k] by (auto simp: uf_ok_def k)
qed

lemma uf_root_step: "map_of p x = Some y \<Longrightarrow> uf_root p x = (if y = x then Some x else uf_root p y)"
  by (subst uf_root.simps) simp

lemma uf_induct [consumes 2, case_names root step]:
  assumes "uf_ok p" "x \<in> fst ` set p"
    and "\<And>x. map_of p x = Some x \<Longrightarrow> P x"
    and "\<And>x y. map_of p x = Some y \<Longrightarrow> y < x \<Longrightarrow> P y \<Longrightarrow> P x"
  shows "P x"
  using assms(2)
proof (induction "card {k \<in> fst ` set p. k < x}" arbitrary: x rule: less_induct)
  case less
  then obtain y where y: "map_of p x = Some y" by (metis domD dom_map_of_conv_image_fst)
  with assms(1) have le: "y \<le> x" "y \<in> fst ` set p" by (auto dest: uf_okD)
  show ?case
  proof (cases "y = x")
    case False
    with le have lt: "y < x" by simp
    then have "{k \<in> fst ` set p. k < y} \<subset> {k \<in> fst ` set p. k < x}" using le(2) by auto
    then have "P y" using less.hyps le(2) by (simp add: psubset_card_mono)
    with y lt show ?thesis by (rule assms(4))
  qed (use y assms(3) in simp)
qed

lemma uf_root_ok:
  assumes "uf_ok p" "x \<in> fst ` set p"
  shows "\<exists>r. uf_root p x = Some r \<and> map_of p r = Some r \<and> r \<le> x \<and> r \<in> fst ` set p"
  using assms
proof (induction rule: uf_induct)
  case (root x)
  then show ?case by (auto simp: uf_root_step dest: map_of_SomeD intro: rev_image_eqI)
next
  case (step x y)
  then show ?case by (auto simp: uf_root_step)
qed

text \<open>Redirecting an id to the root of its component changes no root.\<close>

lemma uf_redirect:
  assumes p: "uf_ok p" "x \<in> fst ` set p" "uf_root p x = Some r"
  shows "uf_ok (AList.update x r p)" "\<And>z. z \<in> fst ` set p \<Longrightarrow> uf_root (AList.update x r p) z = uf_root p z"
proof -
  have r: "map_of p r = Some r" "r \<le> x" "r \<in> fst ` set p" using uf_root_ok [OF p(1,2)] p(3) by auto
  then show "uf_ok (AList.update x r p)" using p by (intro uf_ok_update)
  have "map_of (AList.update x r p) r = Some r" using r by (simp add: update_conv')
  then have rr: "uf_root (AList.update x r p) r = Some r" by (simp add: uf_root_step)
  fix z
  assume "z \<in> fst ` set p"
  with p(1) show "uf_root (AList.update x r p) z = uf_root p z"
  proof (induction rule: uf_induct)
    case (root z)
    then show ?case using p(3) rr by (cases "z = x") (auto simp: uf_root_step update_conv')
  next
    case (step z y)
    show ?case
    proof (cases "z = x")
      case True
      then have "map_of (AList.update x r p) z = Some r" by (simp add: update_conv')
      then show ?thesis using rr p(3) True by (simp add: uf_root_step)
    next
      case False
      then have "map_of (AList.update x r p) z = Some y" using step by (simp add: update_conv')
      then show ?thesis using step by (simp add: uf_root_step)
    qed
  qed
qed

lemma uf_compress_ok:
  assumes "uf_ok p" "x \<in> fst ` set p" "uf_root p x = Some r"
  shows "\<exists>p'. uf_compress r p x = Some p' \<and> uf_ok p' \<and> map fst p' = map fst p
    \<and> (\<forall>z \<in> fst ` set p. uf_root p' z = uf_root p z)"
  using assms
proof (induction "card {k \<in> fst ` set p. k < x}" arbitrary: p x rule: less_induct)
  case less
  note p = less.prems
  then obtain y where y: "map_of p x = Some y" by (metis domD dom_map_of_conv_image_fst)
  with p have le: "y \<le> x" "y \<in> fst ` set p" by (auto dest: uf_okD)
  show ?case
  proof (cases "y = r")
    case True
    then show ?thesis using y p by (subst uf_compress.simps) simp
  next
    case False
    then have ne: "y \<noteq> x" using y p(3) by (auto simp: uf_root_step)
    with le have lt: "y < x" by simp
    let ?p = "AList.update x r p"
    have k: "map fst ?p = map fst p" using p(2) by simp
    note K = keys_set [OF k]
    have "{k \<in> fst ` set ?p. k < y} \<subset> {k \<in> fst ` set p. k < x}" using le(2) lt by (auto simp: K)
    then have c: "card {k \<in> fst ` set ?p. k < y} < card {k \<in> fst ` set p. k < x}"
      by (simp add: psubset_card_mono)
    have "uf_root ?p y = Some r" using uf_redirect(2) [OF p le(2)] y ne p(3) by (simp add: uf_root_step)
    then obtain p' where "uf_compress r ?p y = Some p'" "uf_ok p'" "map fst p' = map fst ?p"
        "\<forall>z \<in> fst ` set ?p. uf_root p' z = uf_root ?p z"
      using less.hyps [OF c uf_redirect(1) [OF p]] le(2) by (auto simp: K)
    moreover have "uf_compress r p x = uf_compress r ?p y" using y False by (subst uf_compress.simps) simp
    ultimately show ?thesis using uf_redirect(2) [OF p] by (auto simp: K k)
  qed
qed

lemma uf_find_ok:
  assumes "uf_ok p" "x \<in> fst ` set p"
  shows "\<exists>r p'. uf_find p x = Some (r, p') \<and> uf_root p x = Some r \<and> uf_ok p' \<and> map fst p' = map fst p
    \<and> (\<forall>z \<in> fst ` set p. uf_root p' z = uf_root p z)"
proof -
  obtain r where "uf_root p x = Some r" using uf_root_ok [OF assms] by blast
  then show ?thesis using uf_compress_ok [OF assms] by (fastforce simp: uf_find_def)
qed

text \<open>Hanging one root below a smaller one joins two components.\<close>

lemma uf_link:
  assumes p: "uf_ok p" "map_of p lo = Some lo" "map_of p hi = Some hi" "lo < hi"
  shows "uf_ok (AList.update hi lo p)"
    "\<And>z. z \<in> fst ` set p \<Longrightarrow> uf_root (AList.update hi lo p) z = (if uf_root p z = Some hi then Some lo else uf_root p z)"
proof -
  have m: "lo \<in> fst ` set p" "hi \<in> fst ` set p"
    using p(2,3) by (metis domI dom_map_of_conv_image_fst)+
  then show "uf_ok (AList.update hi lo p)" using p by (intro uf_ok_update) auto
  have "map_of (AList.update hi lo p) lo = Some lo" using p by (simp add: update_conv')
  then have l: "uf_root (AList.update hi lo p) lo = Some lo" by (simp add: uf_root_step)
  fix z
  assume "z \<in> fst ` set p"
  with p(1) show "uf_root (AList.update hi lo p) z = (if uf_root p z = Some hi then Some lo else uf_root p z)"
  proof (induction rule: uf_induct)
    case (root z)
    then show ?case using l p(3,4) by (cases "z = hi") (auto simp: uf_root_step update_conv')
  next
    case (step z y)
    then have "z \<noteq> hi" using p(3) by auto
    then have "map_of (AList.update hi lo p) z = Some y" using step(1) by (simp add: update_conv')
    then show ?case using step by (auto simp: uf_root_step)
  qed
qed

lemma uf_same_equiv: "equiv (fst ` set p) (uf_same p)"
  by (rule equivI) (auto simp: uf_same_def refl_on_def sym_def trans_def)

lemma uf_same_cong:
  "fst ` set p' = fst ` set p \<Longrightarrow> (\<And>z. z \<in> fst ` set p \<Longrightarrow> uf_root p' z = uf_root p z) \<Longrightarrow> uf_same p' = uf_same p"
  unfolding uf_same_def by (intro Collect_cong) (simp split: prod.splits cong: conj_cong)

lemma uf_union_ok:
  assumes "uf_ok p" "a \<in> fst ` set p" "b \<in> fst ` set p"
  shows "\<exists>p'. uf_union p a b = Some p' \<and> uf_ok p' \<and> map fst p' = map fst p
    \<and> uf_same p' = join (uf_same p) a b"
proof -
  obtain ra p1 where 1: "uf_find p a = Some (ra, p1)" "uf_root p a = Some ra" "uf_ok p1"
      "map fst p1 = map fst p" "\<forall>z \<in> fst ` set p. uf_root p1 z = uf_root p z"
    using uf_find_ok [OF assms(1,2)] by blast
  note K1 = keys_set [OF 1(4)]
  obtain rb p2 where 2: "uf_find p1 b = Some (rb, p2)" "uf_root p1 b = Some rb" "uf_ok p2"
      "map fst p2 = map fst p" "\<forall>z \<in> fst ` set p. uf_root p2 z = uf_root p z"
    using uf_find_ok [OF 1(3), of b] assms(3) 1(4,5) by (auto simp: K1)
  note K2 = keys_set [OF 2(4)]
  have rb: "uf_root p b = Some rb" using 2(2) 1(5) assms(3) by simp
  show ?thesis
  proof (cases "ra = rb")
    case True
    then have "uf_union p a b = Some p2" by (simp add: uf_union_def 1 2)
    moreover have "uf_same p2 = uf_same p" by (rule uf_same_cong [OF K2 bspec [OF 2(5)]])
    moreover have "join (uf_same p) a b = uf_same p"
      using True 1(2) rb by (auto simp: join_def uf_same_def)
    ultimately show ?thesis using 2 by simp
  next
    case False
    define hi lo where "hi = max ra rb" and "lo = min ra rb"
    then have cases: "lo = ra \<and> hi = rb \<or> lo = rb \<and> hi = ra" "lo < hi"
      using False by (auto simp: min_def max_def)
    have roots: "map_of p2 ra = Some ra" "map_of p2 rb = Some rb"
      using uf_root_ok [OF 2(3), of a] uf_root_ok [OF 2(3), of b] assms 1(2) rb 2(5) by (auto simp: K2)
    then have hl: "map_of p2 lo = Some lo" "map_of p2 hi = Some hi" using cases(1) by auto
    note L = uf_link [OF 2(3) hl cases(2)]
    let ?q = "AList.update hi lo p2"
    have hi: "hi \<in> fst ` set p2" using hl(2) by (metis domI dom_map_of_conv_image_fst)
    then have k: "map fst ?q = map fst p" using 2(4) by simp
    have u: "uf_union p a b = Some ?q" using False by (simp add: uf_union_def 1 2 hi_def lo_def)
    have new: "uf_root ?q z = (if uf_root p z = Some hi then Some lo else uf_root p z)"
      if "z \<in> fst ` set p" for z using L(2) [of z] bspec [OF 2(5) that] that by (simp add: K2)
    have "(x, y) \<in> uf_same ?q \<longleftrightarrow> (x, y) \<in> join (uf_same p) a b" for x y
    proof (cases "x \<in> fst ` set p \<and> y \<in> fst ` set p")
      case True
      then have "(x, y) \<in> uf_same ?q \<longleftrightarrow> uf_root ?q x = uf_root ?q y" by (simp add: uf_same_def keys_set [OF k])
      also have "\<dots> \<longleftrightarrow> uf_root p x = uf_root p y \<or> uf_root p x = Some ra \<and> uf_root p y = Some rb
          \<or> uf_root p x = Some rb \<and> uf_root p y = Some ra"
        using True cases False by (simp add: new) auto
      finally show ?thesis using True assms(2,3) by (auto simp: uf_same_def join_def 1(2) rb)
    qed (auto simp: uf_same_def join_def keys_set [OF k])
    then have "uf_same ?q = join (uf_same p) a b" by auto
    then show ?thesis using u L(1) k by blast
  qed
qed

interpretation uf: disjoint_ids uf_ok "\<lambda>p. fst ` set p" uf_same uf_union
proof unfold_locales
  fix p a b
  assume "uf_ok p" "a \<in> fst ` set p" "b \<in> fst ` set p"
  then show "\<exists>p'. uf_union p a b = Some p' \<and> uf_ok p' \<and> fst ` set p' = fst ` set p \<and> uf_same p' = join (uf_same p) a b"
    using uf_union_ok keys_set by metis
qed (rule uf_same_equiv)

subsection \<open>Buckets and components\<close>

lemma map_of_fill_buckets:
  "map_of (fill_buckets key val rows) k
     = (case filter (\<lambda>r. key r = Some k) rows of [] \<Rightarrow> None | rs \<Rightarrow> Some (map val rs))"
  unfolding fill_buckets_def
  by (induction rows rule: rev_induct) (auto simp: map_of_map_default split: option.splits list.splits)

lemma distinct_fill_buckets: "distinct (map fst (fill_buckets key val rows))"
  unfolding fill_buckets_def
  by (induction rows rule: rev_induct) (auto simp: distinct_map_default split: option.splits)

lemma in_fill_buckets:
  "(k, ms) \<in> set (fill_buckets key val rows) \<longleftrightarrow>
     ms = map val (filter (\<lambda>r. key r = Some k) rows) \<and> (\<exists>r \<in> set rows. key r = Some k)"
proof -
  have "(k, ms) \<in> set (fill_buckets key val rows) \<longleftrightarrow> map_of (fill_buckets key val rows) k = Some ms"
    using distinct_fill_buckets by (metis map_of_eq_Some_iff)
  also have "\<dots> \<longleftrightarrow> ms = map val (filter (\<lambda>r. key r = Some k) rows) \<and> filter (\<lambda>r. key r = Some k) rows \<noteq> []"
    by (simp add: map_of_fill_buckets split: list.split) blast
  finally show ?thesis by (simp add: filter_empty_conv)
qed

lemma uf_collect_buckets:
  assumes "uf_ok p" "set is \<subseteq> fst ` set p" "\<forall>z \<in> fst ` set p. uf_root p z = uf_root p0 z"
  shows "uf_collect p is (fill_buckets (uf_root p0) (\<lambda>i. i) xs) = Some (fill_buckets (uf_root p0) (\<lambda>i. i) (xs @ is))"
  using assms
proof (induction "is" arbitrary: p xs)
  case (Cons i "is")
  then obtain r p' where f: "uf_find p i = Some (r, p')" "uf_root p i = Some r" "uf_ok p'"
      "map fst p' = map fst p" "\<forall>z \<in> fst ` set p. uf_root p' z = uf_root p z"
    using uf_find_ok [of p i] by auto
  note K = keys_set [OF f(4)]
  have "uf_root p0 i = Some r" using f(2) Cons.prems by auto
  then have "AList.map_default r [i] (\<lambda>ms. ms @ [i]) (fill_buckets (uf_root p0) (\<lambda>i. i) xs)
      = fill_buckets (uf_root p0) (\<lambda>i. i) (xs @ [i])"
    by (simp add: fill_buckets_def)
  then show ?case using Cons.IH [OF f(3), of "xs @ [i]"] Cons.prems f(5) by (simp add: K f(1))
qed simp

lemma uf_components_ok: "uf_ok p \<Longrightarrow> uf_components p = Some (fill_buckets (uf_root p) (\<lambda>i. i) (map fst p))"
  using uf_collect_buckets [of p "map fst p" p "[]"] by (simp add: uf_components_def fill_buckets_def)

lemma map_of_uf_init: "map_of (uf_init ids) i = (if i \<in> set ids then Some i else None)"
  unfolding uf_init_def by (induction ids rule: rev_induct) (simp_all add: update_conv')

lemma distinct_uf_init: "distinct (map fst (uf_init ids))"
  unfolding uf_init_def by (induction ids rule: rev_induct) (simp_all add: distinct_update)

lemma keys_uf_init: "fst ` set (uf_init ids) = set ids"
  by (auto simp: map_of_uf_init simp flip: dom_map_of_conv_image_fst split: if_splits)

lemma uf_init_same: "uf_ok (uf_init ids)" "uf_same (uf_init ids) = Id_on (set ids)"
proof -
  have "map_of (uf_init ids) x = Some y" if "(x, y) \<in> set (uf_init ids)" for x y
    using that distinct_uf_init by (simp add: map_of_is_SomeI)
  then have "x = y \<and> x \<in> set ids" if "(x, y) \<in> set (uf_init ids)" for x y
    using that by (fastforce simp: map_of_uf_init split: if_splits)
  then show "uf_ok (uf_init ids)" by (auto simp: uf_ok_def distinct_uf_init keys_uf_init)
  have "uf_root (uf_init ids) x = Some x" if "x \<in> set ids" for x
    using that by (subst uf_root.simps) (simp add: map_of_uf_init)
  then show "uf_same (uf_init ids) = Id_on (set ids)" by (auto simp: uf_same_def keys_uf_init Id_on_def)
qed

subsection \<open>What the clusters are\<close>

text \<open>Two ids are linked when findings under them have one site, or one crash state.\<close>

definition linked :: "fingerprint list \<Rightarrow> (string \<times> string) set" where
  "linked fps = {(fp_id f, fp_id g) | f g. f \<in> set fps \<and> g \<in> set fps
     \<and> (site_key f \<noteq> None \<and> site_key f = site_key g \<or> state_key f \<noteq> None \<and> state_key f = state_key g)}"

text \<open>The entry of a class of ids, as the output lists it.\<close>

definition class_entry :: "string set \<Rightarrow> merged" where
  "class_entry C = \<lparr>mg_members = sorted_list_of_set C,
     mg_via = (if card C = 1 then ''singleton'' else ''exact-match'')\<rparr>"

lemma set_bucket_unions: "ms \<noteq> [] \<Longrightarrow> set (bucket_unions ms) \<subseteq> set ms \<times> set ms"
  by (auto simp: bucket_unions_def dest: in_set_dropD)

lemma bucket_unions_joins:
  assumes "x \<in> set ms" "y \<in> set ms"
  shows "(x, y) \<in> (set (bucket_unions ms) \<union> (set (bucket_unions ms))\<inverse>)\<^sup>*"
proof -
  obtain m rest where ms: "ms = m # rest" using assms by (cases ms) auto
  let ?E = "set (bucket_unions ms) \<union> (set (bucket_unions ms))\<inverse>"
  have "(m, z) \<in> ?E\<^sup>* \<and> (z, m) \<in> ?E\<^sup>*" if "z \<in> set ms" for z
    using that by (cases "z = m") (auto simp: bucket_unions_def ms)
  then show ?thesis using assms by (blast intro: rtrancl_trans)
qed

lemma merge_edges_linked: "set (merge_edges fps) \<subseteq> linked fps"
proof -
  have "(x, y) \<in> {(fp_id f, fp_id g) | f g. f \<in> set fps \<and> g \<in> set fps \<and> key f \<noteq> None \<and> key f = key g}"
    if "(k, ms) \<in> set (fill_buckets key fp_id fps)" "(x, y) \<in> set (bucket_unions ms)" for key k ms x y
  proof -
    have ne: "ms \<noteq> []" and all: "\<forall>z \<in> set ms. \<exists>f \<in> set fps. key f = Some k \<and> z = fp_id f"
      using that(1) by (auto simp: in_fill_buckets filter_empty_conv)
    have ms: "\<exists>f. f \<in> set fps \<and> key f = Some k \<and> z = fp_id f" if "z \<in> set ms" for z
      using that all by blast
    have "x \<in> set ms" "y \<in> set ms" using set_bucket_unions [OF ne] that(2) by auto
    then obtain f g where "f \<in> set fps" "key f = Some k" "x = fp_id f" "g \<in> set fps" "key g = Some k" "y = fp_id g"
      using ms by blast
    then show ?thesis by (intro CollectI exI [of _ f] exI [of _ g]) simp
  qed
  note buckets = this
  show ?thesis
  proof (rule subrelI)
    fix x y
    assume "(x, y) \<in> set (merge_edges fps)"
    then consider (site) k ms where "(k, ms) \<in> set (fill_buckets site_key fp_id fps)" "(x, y) \<in> set (bucket_unions ms)"
      | (state) k ms where "(k, ms) \<in> set (fill_buckets state_key fp_id fps)" "(x, y) \<in> set (bucket_unions ms)"
      unfolding merge_edges_def by auto
    then show "(x, y) \<in> linked fps"
    proof cases
      case site
      then show ?thesis using buckets [OF site] unfolding linked_def by blast
    next
      case state
      then show ?thesis using buckets [OF state] unfolding linked_def by blast
    qed
  qed
qed

lemma linked_merge_edges: "linked fps \<subseteq> (set (merge_edges fps) \<union> (set (merge_edges fps))\<inverse>)\<^sup>*"
proof -
  have mono: "(u, v) \<in> (M \<union> M\<inverse>)\<^sup>*" if "(u, v) \<in> (E \<union> E\<inverse>)\<^sup>*" "E \<subseteq> M"
    for E M :: "(string \<times> string) set" and u v
    using that by (meson Un_mono converse_mono rtrancl_mono subsetD)
  have b: "(fp_id f, fp_id g) \<in> (set (concat (map (bucket_unions \<circ> snd) (fill_buckets key fp_id fps)))
      \<union> (set (concat (map (bucket_unions \<circ> snd) (fill_buckets key fp_id fps))))\<inverse>)\<^sup>*"
    if "f \<in> set fps" "g \<in> set fps" "key f \<noteq> None" "key f = key g" for key f g
  proof -
    define k where "k = the (key f)"
    with that(3) have k: "key f = Some k" by simp
    let ?ms = "map fp_id (filter (\<lambda>r. key r = Some k) fps)"
    have m: "(k, ?ms) \<in> set (fill_buckets key fp_id fps)" using that(1) k by (auto simp: in_fill_buckets)
    have "(fp_id f, fp_id g) \<in> (set (bucket_unions ?ms) \<union> (set (bucket_unions ?ms))\<inverse>)\<^sup>*"
      using that k by (intro bucket_unions_joins) auto
    moreover have "set (bucket_unions ?ms)
        \<subseteq> set (concat (map (bucket_unions \<circ> snd) (fill_buckets key fp_id fps)))"
      using m by force
    ultimately show ?thesis by (rule mono)
  qed
  have "(fp_id f, fp_id g) \<in> (set (merge_edges fps) \<union> (set (merge_edges fps))\<inverse>)\<^sup>*"
    if "f \<in> set fps" "g \<in> set fps"
      "site_key f \<noteq> None \<and> site_key f = site_key g \<or> state_key f \<noteq> None \<and> state_key f = state_key g" for f g
    using that(3)
  proof
    assume key: "site_key f \<noteq> None \<and> site_key f = site_key g"
    show ?thesis
      by (rule mono [OF b [OF that(1,2) conjunct1 [OF key] conjunct2 [OF key]]]) (simp add: merge_edges_def)
  next
    assume key: "state_key f \<noteq> None \<and> state_key f = state_key g"
    show ?thesis
      by (rule mono [OF b [OF that(1,2) conjunct1 [OF key] conjunct2 [OF key]]]) (simp add: merge_edges_def)
  qed
  then show ?thesis unfolding linked_def by blast
qed

lemma merge_closure:
  "(Id_on (set (map fp_id fps)) \<union> (set (merge_edges fps) \<union> (set (merge_edges fps))\<inverse>))\<^sup>* = (linked fps)\<^sup>*"
proof -
  have "(linked fps)\<inverse> = linked fps" unfolding linked_def by (auto; metis)
  then have "set (merge_edges fps) \<union> (set (merge_edges fps))\<inverse> \<subseteq> linked fps"
    using merge_edges_linked [of fps] by blast
  then have "(set (merge_edges fps) \<union> (set (merge_edges fps))\<inverse>)\<^sup>* = (linked fps)\<^sup>*"
    by (metis linked_merge_edges rtrancl_subset)
  moreover have "(Id_on A \<union> R)\<^sup>* = R\<^sup>*" for A and R :: "(string \<times> string) set"
    by (rule rtrancl_subset) (auto simp: Id_on_def)
  ultimately show ?thesis by simp
qed

lemma linked_ids: "linked fps \<subseteq> set (map fp_id fps) \<times> set (map fp_id fps)"
  by (auto simp: linked_def)

lemma merged_of_set: "distinct ms \<Longrightarrow> merged_of ms = class_entry (set ms)"
  by (simp add: merged_of_def class_entry_def sorted_list_of_set_sort_remdups distinct_card distinct_remdups_id)

lemma components_entries:
  assumes "uf_ok p"
  shows "set (map (merged_of \<circ> snd) (fill_buckets (uf_root p) (\<lambda>i. i) (map fst p)))
    = class_entry ` (fst ` set p // uf_same p)"
proof -
  have entry: "merged_of (filter (\<lambda>i. uf_root p i = Some r) (map fst p)) = class_entry (uf_same p `` {x})"
    if "x \<in> fst ` set p" "uf_root p x = Some r" for x r
  proof -
    have s: "set (filter (\<lambda>i. uf_root p i = Some r) (map fst p)) = uf_same p `` {x}"
      using that by (auto simp: uf_same_def)
    moreover have "distinct (filter (\<lambda>i. uf_root p i = Some r) (map fst p))"
      using assms by (simp add: uf_ok_def)
    ultimately show ?thesis
      by (simp only: merged_of_set)
  qed
  show ?thesis
  proof (intro equalityI subsetI)
    fix c
    assume "c \<in> set (map (merged_of \<circ> snd) (fill_buckets (uf_root p) (\<lambda>i. i) (map fst p)))"
    then obtain r ms where c: "(r, ms) \<in> set (fill_buckets (uf_root p) (\<lambda>i. i) (map fst p))" "c = merged_of ms"
      by auto
    then obtain x where "x \<in> fst ` set p" "uf_root p x = Some r" by (auto simp: in_fill_buckets)
    moreover have "c = merged_of (filter (\<lambda>i. uf_root p i = Some r) (map fst p))"
      using c by (simp add: in_fill_buckets)
    ultimately show "c \<in> class_entry ` (fst ` set p // uf_same p)"
      by (simp add: entry quotientI)
  next
    fix c
    assume "c \<in> class_entry ` (fst ` set p // uf_same p)"
    then obtain x where x: "x \<in> fst ` set p" "c = class_entry (uf_same p `` {x})" by (auto elim!: quotientE)
    then obtain r where r: "uf_root p x = Some r" using uf_root_ok [OF assms] by blast
    with x have "(r, filter (\<lambda>i. uf_root p i = Some r) (map fst p)) \<in> set (fill_buckets (uf_root p) (\<lambda>i. i) (map fst p))"
      by (force simp: in_fill_buckets)
    moreover have "c = (merged_of \<circ> snd) (r, filter (\<lambda>i. uf_root p i = Some r) (map fst p))"
      using x r by (simp add: entry)
    ultimately show "c \<in> set (map (merged_of \<circ> snd) (fill_buckets (uf_root p) (\<lambda>i. i) (map fst p)))"
      unfolding set_map by (rule rev_image_eqI)
  qed
qed

text \<open>Entries of a partition have different first members.\<close>

lemma class_entry_hd:
  assumes "equiv A R" "finite A" "C \<in> A // R"
  shows "hd (mg_members (class_entry C)) \<in> C" "set (mg_members (class_entry C)) = C"
proof -
  have f: "finite C" "C \<noteq> {}"
    using assms by (auto simp: finite_equiv_class equiv_def in_quotient_imp_non_empty intro: finite_subset dest: in_quotient_imp_subset)
  then show s: "set (mg_members (class_entry C)) = C" by (simp add: class_entry_def)
  have "mg_members (class_entry C) \<noteq> []" using f by (simp add: class_entry_def sorted_list_of_set_eq_Nil_iff)
  then show "hd (mg_members (class_entry C)) \<in> C" using s hd_in_set by blast
qed

lemma inj_class_entry_hd:
  assumes "equiv A R" "finite A"
  shows "inj_on (\<lambda>c. hd (mg_members c)) (class_entry ` (A // R))"
proof (rule inj_onI)
  fix c d
  assume "c \<in> class_entry ` (A // R)" "d \<in> class_entry ` (A // R)" "hd (mg_members c) = hd (mg_members d)"
  then obtain C D where "C \<in> A // R" "D \<in> A // R" "c = class_entry C" "d = class_entry D"
      "hd (mg_members (class_entry C)) \<in> C \<inter> D"
    using class_entry_hd [OF assms] by auto
  then show "c = d" using quotient_disj [OF assms(1), of C D] by auto
qed

lemma bucket_roots:
  assumes "uf_ok p"
  shows "distinct (map (\<lambda>c. hd (mg_members c)) (map (merged_of \<circ> snd) (fill_buckets (uf_root p) (\<lambda>i. i) (map fst p))))"
proof -
  let ?bs = "fill_buckets (uf_root p) (\<lambda>i. i) (map fst p)"
  have hd: "uf_root p (hd (sort ms)) = Some r" if "(r, ms) \<in> set ?bs" for r ms
  proof -
    have "ms \<noteq> []" "\<forall>i \<in> set ms. uf_root p i = Some r" using that by (auto simp: in_fill_buckets filter_empty_conv)
    moreover from this(1) have "hd (sort ms) \<in> set ms" by (metis hd_in_set set_sort sort_key_const set_empty)
    ultimately show ?thesis by blast
  qed
  have "inj_on (\<lambda>b. hd (sort (snd b))) (set ?bs)"
  proof (rule inj_onI)
    fix b b'
    assume "b \<in> set ?bs" "b' \<in> set ?bs" "hd (sort (snd b)) = hd (sort (snd b'))"
    then have "fst b = fst b'" using hd [of "fst b" "snd b"] hd [of "fst b'" "snd b'"] by simp
    with \<open>b \<in> set ?bs\<close> \<open>b' \<in> set ?bs\<close> show "b = b'"
      using distinct_fill_buckets [of "uf_root p" "\<lambda>i. i" "map fst p"] by (metis eq_key_imp_eq_value prod.collapse)
  qed
  then show ?thesis
    using distinct_fill_buckets [of "uf_root p" "\<lambda>i. i" "map fst p"]
    by (simp add: distinct_map comp_def merged_of_def)
qed

lemma quotient_closure:
  assumes "L \<subseteq> A \<times> A"
  shows "A // (L\<^sup>* \<inter> A \<times> A) = A // L\<^sup>*"
proof -
  have "y \<in> A" if "(x, y) \<in> L\<^sup>*" "x \<in> A" for x y
    using that by (induction rule: rtrancl_induct) (use assms in auto)
  then show ?thesis by (auto simp: quotient_def)
qed

lemma cluster_classes_helper:
  "\<exists>cs. cluster_findings state texts rows = Some cs
     \<and> set cs = class_entry ` (fr_id ` set rows
         // (linked (map (\<lambda>r. build_fingerprint state r (texts (fr_id r))) rows))\<^sup>*)
     \<and> sorted (map (\<lambda>c. hd (mg_members c)) cs) \<and> distinct (map (\<lambda>c. hd (mg_members c)) cs)"
proof -
  let ?fps = "map (\<lambda>r. build_fingerprint state r (texts (fr_id r))) rows"
  let ?ids = "map fp_id ?fps"
  have A: "set ?ids = fr_id ` set rows" by (auto simp: build_fingerprint_def)
  have "set (merge_edges ?fps) \<subseteq> set ?ids \<times> set ?ids" using merge_edges_linked linked_ids by (rule order_trans)
  then obtain p where p: "union_all uf_union (uf_init ?ids) (merge_edges ?fps) = Some p" "uf_ok p"
      "fst ` set p = set ?ids" "uf_same p = (linked ?fps)\<^sup>* \<inter> set ?ids \<times> set ?ids"
    using uf.union_all_same [OF uf_init_same(1), of "merge_edges ?fps" ?ids]
    by (auto simp only: keys_uf_init uf_init_same merge_closure)
  let ?cs = "map (merged_of \<circ> snd) (fill_buckets (uf_root p) (\<lambda>i. i) (map fst p))"
  have "cluster_findings state texts rows = Some (sort_key (\<lambda>c. hd (mg_members c)) ?cs)"
    by (simp only: cluster_findings_def Let_def p(1) uf_components_ok [OF p(2)] option.case option.map)
  moreover have "set ?cs = class_entry ` (fr_id ` set rows // (linked ?fps)\<^sup>*)"
    by (simp only: components_entries [OF p(2)] p(3,4) quotient_closure [OF linked_ids [of ?fps], unfolded A] A)
  moreover have "distinct (map (\<lambda>c. hd (mg_members c)) (sort_key (\<lambda>c. hd (mg_members c)) ?cs))"
    using bucket_roots [OF p(2)] by (simp only: distinct_map_sort_key)
  moreover have "set (sort_key (\<lambda>c. hd (mg_members c)) ?cs) = set ?cs" by (rule set_sort)
  ultimately show ?thesis by (intro exI [of _ "sort_key (\<lambda>c. hd (mg_members c)) ?cs"])
      (simp only: sorted_sort_key)
qed

text \<open>
  C25 (cluster_classes). Clustering returns, and its entries are exactly the classes of the finest
  partition of the finding ids that keeps together every two findings with one (class, file, line)
  site or one crash state: each entry lists its class in increasing order and is a \<open>singleton\<close>
  exactly when nothing merged into it, every id is in one entry, and entries are ordered by their
  first member.
\<close>

theorem cluster_classes:
  "\<exists>cs. cluster_findings state texts rows = Some cs
     \<and> set cs = class_entry ` (fr_id ` set rows
         // (linked (map (\<lambda>r. build_fingerprint state r (texts (fr_id r))) rows))\<^sup>*)
     \<and> sorted_wrt (<) (map (\<lambda>c. hd (mg_members c)) cs)"
  using cluster_classes_helper [of state texts rows] by (simp only: strict_sorted_iff)

text \<open>
  C26 (cluster_order_independent). The clusters do not depend on the order in which findings are
  given, nor on a finding being given twice: the union-find, its path compression and the sorts
  leave no trace of the input order.
\<close>

theorem cluster_order_independent:
  assumes "set rows = set rows'"
  shows "cluster_findings state texts rows = cluster_findings state texts rows'"
proof -
  let ?fps = "\<lambda>rows. map (\<lambda>r. build_fingerprint state r (texts (fr_id r))) rows"
  have l: "linked (?fps rows) = linked (?fps rows')" by (simp add: linked_def assms)
  obtain cs where cs: "cluster_findings state texts rows = Some cs"
      "set cs = class_entry ` (fr_id ` set rows // (linked (?fps rows))\<^sup>*)"
      "sorted (map (\<lambda>c. hd (mg_members c)) cs)" "distinct (map (\<lambda>c. hd (mg_members c)) cs)"
    using cluster_classes_helper by blast
  obtain cs' where cs': "cluster_findings state texts rows' = Some cs'" "set cs' = set cs"
      "sorted (map (\<lambda>c. hd (mg_members c)) cs')" "distinct (map (\<lambda>c. hd (mg_members c)) cs')"
    using cluster_classes_helper [of state texts rows'] by (metis assms l cs(2))
  have "inj_on (\<lambda>c. hd (mg_members c)) (set cs \<union> set cs')" using cs(4) cs'(2) by (simp add: distinct_map)
  then have "cs = cs'" using cs cs' by (intro map_sorted_distinct_set_unique) auto
  with cs(1) cs'(1) show ?thesis by simp
qed

definition demo_findings :: "finding_row list" where
  "demo_findings =
     [\<lparr>fr_id = ''FIND-2'', fr_class = ''dos'', fr_file = ''a.c'', fr_line = ''7''\<rparr>,
      \<lparr>fr_id = ''FIND-1'', fr_class = ''dos'', fr_file = ''a.c'', fr_line = ''7''\<rparr>,
      \<lparr>fr_id = ''FIND-3'', fr_class = ''dos'', fr_file = ''a.c'', fr_line = []\<rparr>]"

theorem cluster_order_independent_witness:
  "cluster_findings (\<lambda>_. []) (\<lambda>_. []) (rev demo_findings) = cluster_findings (\<lambda>_. []) (\<lambda>_. []) demo_findings
   \<and> map_option (map mg_members) (cluster_findings (\<lambda>_. []) (\<lambda>_. []) demo_findings)
       = Some [[''FIND-1'', ''FIND-2''], [''FIND-3'']]"
  by (rule conjI, rule cluster_order_independent, simp, code_simp)

text \<open>
  Fact (find_least). Path compression never changes the answer: \<open>find\<close> returns the least id of the
  component whatever was compressed before, and leaves every component as it was.
\<close>

theorem find_least:
  assumes "uf_ok p" "x \<in> fst ` set p"
  shows "\<exists>p'. uf_find p x = Some (Min (uf_same p `` {x}), p') \<and> uf_ok p' \<and> map fst p' = map fst p
    \<and> uf_same p' = uf_same p"
proof -
  obtain r p' where f: "uf_find p x = Some (r, p')" "uf_root p x = Some r" "uf_ok p'" "map fst p' = map fst p"
      "\<forall>z \<in> fst ` set p. uf_root p' z = uf_root p z"
    using uf_find_ok [OF assms] by blast
  have "Min (uf_same p `` {x}) = r"
  proof (rule Min_eqI)
    show "finite (uf_same p `` {x})" by (rule finite_subset [of _ "fst ` set p"]) (auto simp: uf_same_def)
    show "r \<in> uf_same p `` {x}"
      using uf_root_ok [OF assms] f(2) assms(2) by (auto simp: uf_same_def uf_root_step)
    show "r \<le> y" if "y \<in> uf_same p `` {x}" for y
      using that uf_root_ok [OF assms(1), of y] f(2) by (auto simp: uf_same_def)
  qed
  moreover have "uf_same p' = uf_same p" by (rule uf_same_cong [OF keys_set [OF f(4)] bspec [OF f(5)]])
  ultimately show ?thesis using f by simp
qed

theorem find_least_witness:
  "\<exists>p'. uf_find [(''a'', ''a''), (''b'', ''a''), (''c'', ''b'')] ''c'' = Some (''a'', p')"
proof -
  have "uf_ok [(''a'', ''a''), (''b'', ''a''), (''c'', ''b'')]" by code_simp
  then obtain p' where f: "uf_find [(''a'', ''a''), (''b'', ''a''), (''c'', ''b'')] ''c''
      = Some (Min (uf_same [(''a'', ''a''), (''b'', ''a''), (''c'', ''b'')] `` {''c''}), p')"
    using find_least [of "[(''a'', ''a''), (''b'', ''a''), (''c'', ''b'')]" "''c''"] by auto
  have "map_option fst (uf_find [(''a'', ''a''), (''b'', ''a''), (''c'', ''b'')] ''c'') = Some ''a''" by code_simp
  with f show ?thesis by auto
qed

end
