(* ===== verification/BugClasses.thy ===== *)
theory BugClasses
  imports Prelude
begin

text \<open>
  The vocabulary of bug classes (\<open>lib/bug_classes.py\<close>): the canonical classes and their families, the
  aliases and legacy labels, and the resolution of any label to a class and a family. A label is a
  string, \<open>None\<close> as the empty one.
\<close>

subsection \<open>Tables\<close>

definition FAMILIES :: "string list" where
  "FAMILIES =
     [''memory-safety'', ''dos'', ''injection'', ''deserialization'', ''auth'', ''crypto'',
      ''info-disclosure'', ''race'', ''boundary'', ''config'', ''logic'', ''other'']"

definition DASHBOARD_CLASSES :: "(string \<times> string) list" where
  "DASHBOARD_CLASSES =
     [(''heap-buffer-overflow'', ''memory-safety''),
      (''stack-buffer-overflow'', ''memory-safety''),
      (''global-buffer-overflow'', ''memory-safety''), (''buffer-overflow'', ''memory-safety''),
      (''oob-read'', ''memory-safety''), (''oob-write'', ''memory-safety''),
      (''arbitrary-write'', ''memory-safety''), (''off-by-one'', ''memory-safety''),
      (''use-after-free'', ''memory-safety''), (''double-free'', ''memory-safety''),
      (''type-confusion'', ''memory-safety''), (''integer-overflow'', ''memory-safety''),
      (''integer-underflow'', ''memory-safety''), (''null-deref'', ''memory-safety''),
      (''segv'', ''memory-safety''), (''stack-overflow'', ''dos''),
      (''denial-of-service'', ''dos''), (''uncaught-exception'', ''dos''),
      (''sql-injection'', ''injection''), (''command-injection'', ''injection''),
      (''code-injection'', ''injection''), (''rce'', ''injection''), (''xss'', ''injection''),
      (''deserialization'', ''deserialization''), (''auth-bypass'', ''auth''),
      (''broken-access-control'', ''auth''), (''privilege-escalation'', ''auth''),
      (''idor'', ''auth''), (''session-fixation'', ''auth''), (''confused-deputy'', ''auth''),
      (''crypto-failure'', ''crypto''), (''improper-cert-validation'', ''crypto''),
      (''signature-bypass'', ''crypto''), (''info-disclosure'', ''info-disclosure''),
      (''toctou'', ''race''), (''path-traversal'', ''boundary''),
      (''symlink-following'', ''boundary''), (''arbitrary-file-write'', ''boundary''),
      (''ssrf'', ''boundary''), (''open-redirect'', ''boundary''),
      (''cors-misconfig'', ''config''), (''logic-error'', ''logic''), (''other'', ''other'')]"

definition HARNESS_CLASSES :: "(string \<times> string) list" where
  "HARNESS_CLASSES =
     [(''invalid-free'', ''memory-safety''), (''uninitialized-read'', ''memory-safety''),
      (''data-race'', ''race''), (''ssti'', ''injection''), (''xxe'', ''injection''),
      (''csrf'', ''auth''), (''prototype-pollution'', ''deserialization''),
      (''sandbox-escape'', ''boundary'')]"

definition BUG_CLASSES :: "(string \<times> string) list" where
  "BUG_CLASSES = DASHBOARD_CLASSES @ HARNESS_CLASSES"

definition ALIASES_neutral :: "(string \<times> string) list" where
  "ALIASES_neutral =
     [(''bounds'', ''buffer-overflow''), (''lifetime'', ''use-after-free''),
      (''type'', ''type-confusion''), (''size'', ''integer-overflow''),
      (''uninit'', ''uninitialized-read''), (''state'', ''memory-safety'')]"

definition ALIASES_memory :: "(string \<times> string) list" where
  "ALIASES_memory =
     [(''memory_safety'', ''memory-safety''), (''memory-safety-class'', ''memory-safety''),
      (''memory-corruption'', ''memory-safety''), (''uaf'', ''use-after-free''),
      (''heap-use-after-free'', ''use-after-free''), (''use-after-poison'', ''use-after-free''),
      (''use-after-return'', ''use-after-free''), (''use-after-scope'', ''use-after-free''),
      (''stack-use-after-return'', ''use-after-free''),
      (''stack-use-after-scope'', ''use-after-free''),
      (''dangling-pointer'', ''use-after-free''), (''oob'', ''buffer-overflow''),
      (''out-of-bounds'', ''buffer-overflow''), (''out-of-bounds-read'', ''oob-read''),
      (''out-of-bounds-write'', ''oob-write''), (''oob-access'', ''buffer-overflow''),
      (''heap-overflow'', ''heap-buffer-overflow''),
      (''stack-buffer-underflow'', ''stack-buffer-overflow''),
      (''dynamic-stack-buffer-overflow'', ''stack-buffer-overflow''),
      (''container-overflow'', ''heap-buffer-overflow''), (''wild-read'', ''oob-read''),
      (''wild-write'', ''arbitrary-write''), (''wild-pointer'', ''segv''),
      (''int-overflow'', ''integer-overflow''),
      (''signed-integer-overflow'', ''integer-overflow''),
      (''unsigned-integer-overflow'', ''integer-overflow''),
      (''integer-truncation'', ''integer-overflow''), (''size-math'', ''integer-overflow''),
      (''bad-cast'', ''type-confusion''), (''bad-free'', ''invalid-free''),
      (''allocator-mismatch'', ''invalid-free''), (''alloc-dealloc-mismatch'', ''invalid-free''),
      (''null-pointer-dereference'', ''null-deref''), (''null-pointer-deref'', ''null-deref''),
      (''null-dereference'', ''null-deref''), (''nullptr-deref'', ''null-deref''),
      (''npe'', ''null-deref''), (''segfault'', ''segv''), (''sigsegv'', ''segv''),
      (''sigbus'', ''segv''), (''bus'', ''segv''), (''bus-error'', ''segv''),
      (''alignment'', ''segv''), (''misaligned-access'', ''segv''),
      (''use-of-uninitialized-value'', ''uninitialized-read''),
      (''uninitialized-memory'', ''uninitialized-read''),
      (''uninitialized-value'', ''uninitialized-read'')]"

definition ALIASES_availability :: "(string \<times> string) list" where
  "ALIASES_availability =
     [(''dos'', ''denial-of-service''), (''denial-of-service-attack'', ''denial-of-service''),
      (''resource-exhaustion'', ''denial-of-service''),
      (''resource-amplification'', ''denial-of-service''),
      (''amplification'', ''denial-of-service''), (''algorithmic'', ''denial-of-service''),
      (''algorithmic-complexity'', ''denial-of-service''),
      (''decompression'', ''denial-of-service''),
      (''decompression-bomb'', ''denial-of-service''),
      (''hash-collision'', ''denial-of-service''), (''memory-leak'', ''denial-of-service''),
      (''oom'', ''denial-of-service''), (''out-of-memory'', ''denial-of-service''),
      (''regex-dos'', ''denial-of-service''), (''regex-complexity'', ''denial-of-service''),
      (''redos'', ''denial-of-service''), (''catastrophic-backtracking'', ''denial-of-service''),
      (''stack-exhaustion'', ''stack-overflow''), (''deep-recursion'', ''stack-overflow''),
      (''unbounded-recursion'', ''stack-overflow''),
      (''unhandled-exception'', ''uncaught-exception''), (''panic'', ''uncaught-exception''),
      (''traceback'', ''uncaught-exception'')]"

definition ALIASES_injection :: "(string \<times> string) list" where
  "ALIASES_injection =
     [(''sql'', ''sql-injection''), (''sqli'', ''sql-injection''),
      (''nosql-injection'', ''injection''), (''command'', ''command-injection''),
      (''os-command-injection'', ''command-injection''),
      (''shell-injection'', ''command-injection''),
      (''argument-injection'', ''command-injection''), (''eval-injection'', ''code-injection''),
      (''python-code'', ''code-injection''), (''code-execution'', ''rce''),
      (''arbitrary-code-execution'', ''rce''), (''remote-code-execution'', ''rce''),
      (''template-injection'', ''ssti''), (''server-side-template-injection'', ''ssti''),
      (''cross-site-scripting'', ''xss''), (''mutation-xss'', ''xss''), (''dom-xss'', ''xss''),
      (''stored-xss'', ''xss''), (''reflected-xss'', ''xss''),
      (''xml-external-entity'', ''xxe''), (''terminal'', ''injection''),
      (''terminal-escape'', ''injection''), (''header-injection'', ''injection''),
      (''crlf-injection'', ''injection''), (''log-injection'', ''injection'')]"

definition ALIASES_deserialization :: "(string \<times> string) list" where
  "ALIASES_deserialization =
     [(''unsafe-deserialization'', ''deserialization''),
      (''insecure-deserialization'', ''deserialization''), (''pickle'', ''deserialization''),
      (''object-injection'', ''deserialization'')]"

definition ALIASES_auth :: "(string \<times> string) list" where
  "ALIASES_auth =
     [(''authz'', ''auth''), (''authn'', ''auth''), (''authorization'', ''auth''),
      (''authentication'', ''auth''), (''authn-bypass'', ''auth-bypass''),
      (''authentication-bypass'', ''auth-bypass''), (''login-bypass'', ''auth-bypass''),
      (''session-hijacking'', ''auth-bypass''), (''authz-bypass'', ''broken-access-control''),
      (''authorization-bypass'', ''broken-access-control''),
      (''access-control'', ''broken-access-control''),
      (''access-control-bypass'', ''broken-access-control''),
      (''missing-authorization'', ''broken-access-control''),
      (''privesc'', ''privilege-escalation''), (''insecure-direct-object-reference'', ''idor''),
      (''cross-site-request-forgery'', ''csrf'')]"

definition ALIASES_crypto :: "(string \<times> string) list" where
  "ALIASES_crypto =
     [(''crypto-weakness'', ''crypto-failure''),
      (''cryptographic-weakness'', ''crypto-failure''), (''weak-crypto'', ''crypto-failure''),
      (''weak-hash'', ''crypto-failure''), (''weak-cipher'', ''crypto-failure''),
      (''weak-random'', ''crypto-failure''), (''insecure-random'', ''crypto-failure''),
      (''reused-iv'', ''crypto-failure''), (''nonce-reuse'', ''crypto-failure''),
      (''padding-oracle'', ''crypto-failure''),
      (''cert-validation'', ''improper-cert-validation''),
      (''certificate-validation'', ''improper-cert-validation''),
      (''tls-validation'', ''improper-cert-validation''),
      (''hostname-verification'', ''improper-cert-validation''),
      (''signature-forgery'', ''signature-bypass''),
      (''signature-verification-bypass'', ''signature-bypass''),
      (''ld-signature-bypass'', ''signature-bypass'')]"

definition ALIASES_disclosure :: "(string \<times> string) list" where
  "ALIASES_disclosure =
     [(''info_disclosure'', ''info-disclosure''), (''info-leak'', ''info-disclosure''),
      (''information-disclosure'', ''info-disclosure''),
      (''information-leak'', ''info-disclosure''), (''memory-disclosure'', ''info-disclosure''),
      (''secrets-exposure'', ''info-disclosure''), (''secret-exposure'', ''info-disclosure''),
      (''credential-leak'', ''info-disclosure''), (''credential-exposure'', ''info-disclosure''),
      (''hardcoded-credential'', ''info-disclosure''), (''pii'', ''info-disclosure''),
      (''side-channel'', ''info-disclosure''), (''timing'', ''info-disclosure''),
      (''timing-attack'', ''info-disclosure''), (''cache-timing'', ''info-disclosure'')]"

definition ALIASES_race :: "(string \<times> string) list" where
  "ALIASES_race =
     [(''race-condition'', ''toctou''), (''time-of-check'', ''toctou''),
      (''time-of-check-time-of-use'', ''toctou''), (''resource-selection'', ''toctou'')]"

definition ALIASES_boundary :: "(string \<times> string) list" where
  "ALIASES_boundary =
     [(''boundary-violation'', ''boundary''), (''directory-traversal'', ''path-traversal''),
      (''path-escape'', ''path-traversal''), (''zip-slip'', ''path-traversal''),
      (''arbitrary-file-read'', ''path-traversal''),
      (''path-traversal-read'', ''path-traversal''), (''local-file-read'', ''path-traversal''),
      (''lfi'', ''path-traversal''), (''uri-filter-bypass'', ''path-traversal''),
      (''symlink'', ''symlink-following''), (''link-following'', ''symlink-following''),
      (''path-traversal-write'', ''arbitrary-file-write''),
      (''file-write'', ''arbitrary-file-write''),
      (''arbitrary-file-delete'', ''arbitrary-file-write''),
      (''server-side-request-forgery'', ''ssrf''), (''unvalidated-redirect'', ''open-redirect''),
      (''container-escape'', ''sandbox-escape''), (''vm-escape'', ''sandbox-escape'')]"

definition ALIASES_config :: "(string \<times> string) list" where
  "ALIASES_config =
     [(''misconfiguration'', ''config''), (''permissive-default'', ''config''),
      (''cors'', ''cors-misconfig''), (''cors-misconfiguration'', ''cors-misconfig'')]"

definition ALIASES_logic :: "(string \<times> string) list" where
  "ALIASES_logic =
     [(''logic'', ''logic-error''), (''business-logic'', ''logic-error''),
      (''business-rule'', ''logic-error''), (''validation-bypass'', ''logic-error''),
      (''context-confusion'', ''logic-error''), (''resource-substitution'', ''logic-error''),
      (''identifier-truncation'', ''logic-error''), (''logic-regression'', ''logic-error''),
      (''defense-in-depth'', ''logic-error'')]"

definition ALIASES_other :: "(string \<times> string) list" where
  "ALIASES_other =
     [(''unknown'', ''other''), (''unclassified'', ''other''), (''none'', ''other''),
      (''null'', ''other'')]"

definition ALIASES :: "(string \<times> string) list" where
  "ALIASES = ALIASES_neutral @ ALIASES_memory @ ALIASES_availability @ ALIASES_injection @ ALIASES_deserialization @ ALIASES_auth @ ALIASES_crypto @ ALIASES_disclosure @ ALIASES_race @ ALIASES_boundary @ ALIASES_config @ ALIASES_logic @ ALIASES_other"

definition LEGACY_LABELS :: "(string \<times> string) list" where
  "LEGACY_LABELS =
     [(''file-write:path-traversal'', ''arbitrary-file-write''),
      (''integrity:path-traversal'', ''arbitrary-file-write''),
      (''filesystem:path-traversal-write'', ''arbitrary-file-write''),
      (''boundary:context-confusion'', ''logic-error''),
      (''boundary:resource-substitution'', ''logic-error''), (''info-disclosure:xxe'', ''xxe'')]"

subsection \<open>Resolving a label\<close>

text \<open>\<open>_TOKEN_JUNK_RE.sub("-", s)\<close>: every longest run of characters outside \<open>[a-z0-9:-]\<close> becomes one
  dash.\<close>

definition token_junk :: "char \<Rightarrow> bool" where
  "token_junk c \<longleftrightarrow> (let n = (of_char c :: nat) in
     \<not> (97 \<le> n \<and> n \<le> 122) \<and> \<not> (48 \<le> n \<and> n \<le> 57) \<and> c \<noteq> CHR '':'' \<and> c \<noteq> CHR ''-'')"

fun dash_runs :: "bool \<Rightarrow> string \<Rightarrow> string" where
  "dash_runs inside [] = []"
| "dash_runs inside (c # s) =
     (if token_junk c then (if inside then dash_runs True s else CHR ''-'' # dash_runs True s)
      else c # dash_runs False s)"

definition token :: "string \<Rightarrow> string" where
  "token raw = strip_by (\<lambda>c. c = CHR ''-'' \<or> c = CHR '':'')
     (dash_runs False (map (\<lambda>c. if c = CHR ''_'' then CHR ''-'' else c)
       (py_lower (strip_by (\<lambda>c. c = CHR 0x60) (py_strip raw)))))"

definition resolve_single :: "string \<Rightarrow> string \<times> string" where
  "resolve_single tok =
     (if tok = [] then ([], [])
      else let t = (case map_of ALIASES tok of Some v \<Rightarrow> v | None \<Rightarrow> tok)
      in case map_of BUG_CLASSES t of Some family \<Rightarrow> (t, family)
         | None \<Rightarrow> if t \<in> set FAMILIES then ([], t)
             else if py_contains ''overflow'' t then (''buffer-overflow'', ''memory-safety'')
             else ([], []))"

definition canonical_class :: "string \<Rightarrow> string" where
  "canonical_class raw =
     (let s = token raw
      in if s = [] then ''other''
         else case map_of LEGACY_LABELS s of Some v \<Rightarrow> v
         | None \<Rightarrow>
             (let (tp, _, sub) = py_partition CHR '':'' s;
                  (top_class, top_family) = (if tp = ''other'' then ([], []) else resolve_single tp);
                  (sub_class, sub_family) = resolve_single sub
              in if top_family \<noteq> [] \<and> sub_class \<noteq> [] \<and> sub_family = top_family then sub_class
                 else str_or top_class (str_or top_family (str_or sub_class (str_or sub_family ''other'')))))"

definition family_of :: "string \<Rightarrow> string" where
  "family_of raw =
     (let resolved = canonical_class raw
      in case map_of BUG_CLASSES resolved of Some family \<Rightarrow> family
         | None \<Rightarrow> if resolved \<in> set FAMILIES then resolved else ''other'')"

definition is_canonical :: "string \<Rightarrow> bool" where
  "is_canonical raw \<longleftrightarrow> map_of BUG_CLASSES (token raw) \<noteq> None"

definition menu_members :: "string \<Rightarrow> string list" where
  "menu_members family = map fst (filter (\<lambda>(name, fam). fam = family \<and> name \<noteq> ''other'') BUG_CLASSES)"

definition prompt_menu :: string where
  "prompt_menu = py_join ''; '' (map (\<lambda>family. family @ '': '' @ py_join '', '' (menu_members family))
     (filter (\<lambda>family. menu_members family \<noteq> []) FAMILIES)) @ ''; other''"

subsection \<open>What resolution returns\<close>

text \<open>The labels resolution can return: every class, and every family that is neither a class nor an
  alias.\<close>

definition pure_families :: "string list" where
  "pure_families =
     [''memory-safety'', ''injection'', ''auth'', ''crypto'', ''race'', ''boundary'', ''config'']"

definition canonical_names :: "string list" where
  "canonical_names = map fst BUG_CLASSES @ pure_families"

lemmas bug_tables = BUG_CLASSES_def DASHBOARD_CLASSES_def HARNESS_CLASSES_def FAMILIES_def
  pure_families_def canonical_names_def

text \<open>An alias table names only canonical labels, and gives no canonical label another meaning.\<close>

definition good_aliases :: "(string \<times> string) list \<Rightarrow> bool" where
  "good_aliases t \<longleftrightarrow> snd ` set t \<subseteq> set canonical_names \<and> fst ` set t \<inter> set canonical_names = {}"

lemma good_aliases_append: "good_aliases (s @ t) \<longleftrightarrow> good_aliases s \<and> good_aliases t"
  by (auto simp: good_aliases_def)

lemma good_neutral: "good_aliases ALIASES_neutral"
  by (simp add: good_aliases_def ALIASES_neutral_def bug_tables)

lemma good_memory: "good_aliases ALIASES_memory"
  by (simp add: good_aliases_def ALIASES_memory_def bug_tables)

lemma good_availability: "good_aliases ALIASES_availability"
  by (simp add: good_aliases_def ALIASES_availability_def bug_tables)

lemma good_injection: "good_aliases ALIASES_injection"
  by (simp add: good_aliases_def ALIASES_injection_def bug_tables)

lemma good_deserialization: "good_aliases ALIASES_deserialization"
  by (simp add: good_aliases_def ALIASES_deserialization_def bug_tables)

lemma good_auth: "good_aliases ALIASES_auth"
  by (simp add: good_aliases_def ALIASES_auth_def bug_tables)

lemma good_crypto: "good_aliases ALIASES_crypto"
  by (simp add: good_aliases_def ALIASES_crypto_def bug_tables)

lemma good_disclosure: "good_aliases ALIASES_disclosure"
  by (simp add: good_aliases_def ALIASES_disclosure_def bug_tables)

lemma good_race: "good_aliases ALIASES_race"
  by (simp add: good_aliases_def ALIASES_race_def bug_tables)

lemma good_boundary: "good_aliases ALIASES_boundary"
  by (simp add: good_aliases_def ALIASES_boundary_def bug_tables)

lemma good_config: "good_aliases ALIASES_config"
  by (simp add: good_aliases_def ALIASES_config_def bug_tables)

lemma good_logic: "good_aliases ALIASES_logic"
  by (simp add: good_aliases_def ALIASES_logic_def bug_tables)

lemma good_other: "good_aliases ALIASES_other"
  by (simp add: good_aliases_def ALIASES_other_def bug_tables)

lemma good_aliases: "good_aliases ALIASES"
  by (simp only: ALIASES_def good_aliases_append good_neutral good_memory good_availability good_injection good_deserialization
      good_auth good_crypto good_disclosure good_race good_boundary
      good_config good_logic good_other simp_thms)

lemma legacy_canonical: "snd ` set LEGACY_LABELS \<subseteq> set canonical_names"
  by (simp add: LEGACY_LABELS_def bug_tables)

lemma families_closed: "snd ` set BUG_CLASSES \<subseteq> set FAMILIES"
  by (simp add: bug_tables)

lemma token_names: "list_all (\<lambda>t. token t = t \<and> CHR '':'' \<notin> set t) canonical_names"
  by code_simp

lemma canonical_simps:
  "''other'' \<in> set canonical_names" "''buffer-overflow'' \<in> set canonical_names"
  "map_of BUG_CLASSES ''buffer-overflow'' = Some ''memory-safety''" "[] \<notin> set canonical_names"
  "set FAMILIES \<subseteq> set canonical_names \<union> {''dos'', ''logic''}" "set pure_families \<subseteq> set FAMILIES"
  "''other'' \<in> set FAMILIES"
  by (simp_all add: bug_tables)

lemma pure_not_class: "set pure_families \<inter> fst ` set BUG_CLASSES = {}"
  by (simp add: bug_tables)

lemma aliased_families: "map_of ALIASES ''dos'' \<noteq> None" "map_of ALIASES ''logic'' \<noteq> None"
  by (auto simp: map_of_eq_None_iff ALIASES_def ALIASES_availability_def ALIASES_logic_def)

lemma map_of_snd: "map_of m k = Some v \<Longrightarrow> v \<in> snd ` set m"
  by (force dest: map_of_SomeD)

lemma legacy_colon: "list_all (\<lambda>(k, v). CHR '':'' \<in> set k) LEGACY_LABELS"
  by code_simp

lemma canonical_split: "c \<in> set canonical_names \<longleftrightarrow> map_of BUG_CLASSES c \<noteq> None \<or> c \<in> set pure_families"
  by (auto simp: canonical_names_def map_of_eq_None_iff)

lemma resolve_single_cases:
  assumes "resolve_single t = (c, f)"
  shows "c = [] \<and> f = [] \<or> map_of BUG_CLASSES c = Some f \<or> c = [] \<and> f \<in> set pure_families"
proof (cases "t = []")
  case False
  define t' where "t' = (case map_of ALIASES t of Some v \<Rightarrow> v | None \<Rightarrow> t)"
  have "t' \<in> set canonical_names" if "t' \<in> set FAMILIES"
  proof (cases "map_of ALIASES t")
    case None
    then have "t \<noteq> ''dos'' \<and> t \<noteq> ''logic''" using aliased_families by auto
    with None that show ?thesis using canonical_simps(5) by (auto simp: t'_def)
  next
    case (Some v)
    then show ?thesis using good_aliases by (auto simp: t'_def good_aliases_def dest: map_of_snd)
  qed
  then have "t' \<in> set pure_families" if "map_of BUG_CLASSES t' = None" "t' \<in> set FAMILIES"
    using that canonical_split by auto
  with assms False canonical_simps(3) show ?thesis
    by (auto simp: resolve_single_def simp flip: t'_def split: option.splits if_splits)
qed (use assms in \<open>simp add: resolve_single_def\<close>)

lemma canonical_class_named: "canonical_class raw \<in> set canonical_names"
proof -
  obtain tp b sub where part: "py_partition CHR '':'' (token raw) = (tp, b, sub)" by (metis prod_cases3)
  obtain tc tf where top: "(if tp = ''other'' then ([], []) else resolve_single tp) = (tc, tf)" by fastforce
  obtain sc sf where sub: "resolve_single sub = (sc, sf)" by fastforce
  have t: "tc = [] \<and> tf = [] \<or> map_of BUG_CLASSES tc = Some tf \<or> tc = [] \<and> tf \<in> set pure_families"
    using top resolve_single_cases [of tp tc tf] by (auto split: if_splits)
  note s = resolve_single_cases [OF sub]
  have "str_or tc (str_or tf (str_or sc (str_or sf ''other''))) \<in> set canonical_names"
    using t s canonical_split canonical_simps(1,4) by (cases tc; cases tf; cases sc; cases sf) auto
  moreover have "sc \<in> set canonical_names" if "sc \<noteq> []" using s that canonical_split by auto
  moreover have "v \<in> set canonical_names" if "map_of LEGACY_LABELS (token raw) = Some v" for v
    using legacy_canonical that by (auto dest: map_of_snd)
  ultimately show ?thesis
    using canonical_simps(1)
    by (simp add: canonical_class_def part top sub Let_def split: option.split)
qed

lemma str_or_left [simp]: "a \<noteq> [] \<Longrightarrow> str_or a b = a"
  by (cases a) simp_all

lemma canonical_class_fixed:
  assumes "c \<in> set canonical_names"
  shows "canonical_class c = c"
proof -
  have tok: "token c = c" "CHR '':'' \<notin> set c" using assms token_names by (auto simp: list_all_iff)
  have ne: "c \<noteq> []" using assms canonical_simps(4) by auto
  have "map_of LEGACY_LABELS c = None"
    using tok(2) legacy_colon by (force simp: map_of_eq_None_iff list_all_iff)
  moreover have "dropWhile (\<lambda>x. x \<noteq> CHR '':'') c = []" "takeWhile (\<lambda>x. x \<noteq> CHR '':'') c = c"
    using tok(2) by (auto simp: dropWhile_eq_Nil_conv takeWhile_eq_all_conv)
  then have "py_partition CHR '':'' c = (c, False, [])" by (simp only: py_partition_def tok(2) drop_Nil)
  moreover have "map_of ALIASES c = None"
    using good_aliases assms by (auto simp: good_aliases_def map_of_eq_None_iff)
  ultimately show ?thesis
    using ne assms canonical_split [of c] canonical_simps(6)
    by (cases "map_of BUG_CLASSES c") (auto simp: canonical_class_def tok(1) resolve_single_def Let_def)
qed

lemma family_of_named: "family_of raw \<in> set FAMILIES"
proof (cases "map_of BUG_CLASSES (canonical_class raw)")
  case (Some f)
  then show ?thesis using families_closed by (auto simp: family_of_def dest: map_of_snd)
qed (use canonical_simps(7) in \<open>simp add: family_of_def Let_def\<close>)

text \<open>
  C36 (canonical_class_normal). Every label, however spelled, resolves to a canonical class or to a
  family: resolution is idempotent, the family is one of the listed families, and it depends on the
  resolved class only, so a mechanism label and its canonical spelling always share a cluster key.
\<close>

theorem canonical_class_normal:
  "(canonical_class raw \<in> fst ` set BUG_CLASSES \<or> canonical_class raw \<in> set FAMILIES)
   \<and> canonical_class (canonical_class raw) = canonical_class raw
   \<and> family_of raw \<in> set FAMILIES \<and> family_of (canonical_class raw) = family_of raw"
  using canonical_class_named [of raw] canonical_class_fixed [OF canonical_class_named [of raw]]
    family_of_named canonical_simps(6)
  by (auto simp: family_of_def canonical_names_def)

text \<open>
  Fact (family_pinned_by_top). A sub-label cannot move a finding to another family: when the part of a
  label before its first colon resolves, is not \<open>other\<close> and the label is not one of the six legacy
  exceptions, the finding's family is the family of that part, whatever the sub-label says.
\<close>

theorem family_pinned_by_top:
  assumes "py_partition CHR '':'' (token raw) = (tp, True, sub)" "tp \<noteq> ''other''"
    and "map_of LEGACY_LABELS (token raw) = None" "snd (resolve_single tp) \<noteq> []"
  shows "family_of raw = snd (resolve_single tp)"
proof -
  obtain tc tf where top: "resolve_single tp = (tc, tf)" by fastforce
  obtain sc sf where sub: "resolve_single sub = (sc, sf)" by fastforce
  note t = resolve_single_cases [OF top] and s = resolve_single_cases [OF sub]
  have ne: "token raw \<noteq> []" using assms(1) by (auto simp: py_partition_def)
  have fam: "tf \<noteq> []" using assms(4) top by simp
  have c: "canonical_class raw = (if sc \<noteq> [] \<and> sf = tf then sc else str_or tc tf)"
    using assms(2,3) ne fam by (cases tf; cases tc) (simp_all add: canonical_class_def assms(1) top sub)
  show ?thesis
  proof (cases "sc \<noteq> [] \<and> sf = tf")
    case True
    then have "map_of BUG_CLASSES sc = Some tf" using s by auto
    with True c show ?thesis by (simp add: family_of_def top)
  next
    case False
    then have c: "canonical_class raw = str_or tc tf" unfolding c by (rule if_not_P)
    have "map_of BUG_CLASSES [] = None" using canonical_simps(4) canonical_split by auto
    then consider "tc \<noteq> []" "map_of BUG_CLASSES tc = Some tf" | "tc = []" "tf \<in> set pure_families"
      using t fam by (cases "tc = []") auto
    then show ?thesis
    proof cases
      case 1
      then show ?thesis using c by (cases tc) (simp_all add: family_of_def top)
    next
      case 2
      then have "map_of BUG_CLASSES tf = None" using pure_not_class by (auto simp: map_of_eq_None_iff)
      with 2 c canonical_simps(6) show ?thesis by (auto simp: family_of_def top)
    qed
  qed
qed

theorem family_pinned_by_top_witness: "family_of ''Memory_Safety:stack-overflow'' = ''memory-safety''"
proof -
  have p: "py_partition CHR '':'' (token ''Memory_Safety:stack-overflow'') = (''memory-safety'', True, ''stack-overflow'')"
    by code_simp
  have "map_of LEGACY_LABELS (token ''Memory_Safety:stack-overflow'') = None" by code_simp
  moreover have "resolve_single ''memory-safety'' = ([], ''memory-safety'')" by code_simp
  ultimately show ?thesis using family_pinned_by_top [OF p] by simp
qed

end
