(* ===== verification/Quality.thy ===== *)
theory Quality
  imports Prelude
begin

text \<open>
  The quality gate of findings (\<open>lib/triage.py\<close>): votes, the payload a set of votes settles, which
  cached payload still speaks for a report, and the batched rounds in which votes are asked for. A
  vote comes from a language model and is a parameter; the two SHA-1 readings of a report, its
  identity on disk and the modification times are parameters too.
\<close>

subsection \<open>Votes and payloads\<close>

record vote =
  vt_accept :: bool
  vt_reason :: string
  vt_class :: string
  vt_severity :: string

text \<open>The cache \<open>.llm-find-quality.json\<close>. An item of its votes that is not an object with a boolean
  \<open>accept\<close> is \<open>None\<close>; a missing field is the empty string, a missing count zero.\<close>

record qcache =
  qc_version :: string
  qc_content :: string
  qc_report :: string
  qc_votes :: "vote option list"
  qc_accepts :: int
  qc_rejects :: int
  qc_accept :: "bool option"
  qc_reason :: string
  qc_class :: string
  qc_severity :: string

definition qcache0 :: qcache where
  "qcache0 = \<lparr>qc_version = [], qc_content = [], qc_report = [], qc_votes = [], qc_accepts = 0,
     qc_rejects = 0, qc_accept = None, qc_reason = [], qc_class = [], qc_severity = []\<rparr>"

text \<open>The decision version of the gate, and the semantic and raw digests of a report text.\<close>

record qenv =
  qe_version :: string
  qe_semantic :: "string \<Rightarrow> string"
  qe_raw :: "string \<Rightarrow> string"

definition valid_quality_votes :: "vote option list \<Rightarrow> int \<Rightarrow> vote list" where
  "valid_quality_votes items limit = map the (filter (\<lambda>v. v \<noteq> None) (take (nat limit) items))"

definition vote_limit :: "int \<Rightarrow> int \<Rightarrow> int" where
  "vote_limit quorum accept_quorum = max 1 (accept_quorum + quorum - 1)"

definition quality_payload :: "qenv \<Rightarrow> string \<Rightarrow> vote list \<Rightarrow> int \<Rightarrow> int \<Rightarrow> string \<Rightarrow> qcache" where
  "quality_payload env report_text votes quorum accept_quorum report_sha1 =
     (let normalized = valid_quality_votes (map Some votes) (vote_limit quorum accept_quorum);
          accepts = filter vt_accept normalized;
          rejects = filter (\<lambda>v. \<not> vt_accept v) normalized;
          payload = qcache0\<lparr>qc_version := qe_version env, qc_content := qe_semantic env report_text,
            qc_report := report_sha1, qc_votes := map Some normalized,
            qc_accepts := int (length accepts), qc_rejects := int (length rejects)\<rparr>
      in if accept_quorum \<le> int (length accepts) then
           payload\<lparr>qc_accept := Some True, qc_reason := vt_reason (last accepts),
             qc_class := vt_class (last accepts), qc_severity := vt_severity (last accepts)\<rparr>
         else if quorum \<le> int (length rejects) then
           payload\<lparr>qc_accept := Some False,
             qc_reason := str_or (vt_reason (last rejects)) ''quality gate rejected finding''\<rparr>
         else payload)"

definition quality_terminal :: "qcache \<Rightarrow> int \<Rightarrow> int \<Rightarrow> bool" where
  "quality_terminal payload quorum accept_quorum \<longleftrightarrow>
     qc_accept payload = Some True \<and> accept_quorum \<le> qc_accepts payload
     \<or> qc_accept payload = Some False \<and> quorum \<le> qc_rejects payload"

text \<open>A finding directory as the gate reads it: its report, the hashes under which the report counts
  as unchanged, the cache, and the modification times of cache and report (\<open>None\<close> when one of them
  cannot be read).\<close>

record fdir =
  fd_name :: string
  fd_pinned :: bool
  fd_report :: "string option"
  fd_sha1 :: string
  fd_identities :: "string list"
  fd_mtimes :: "(int \<times> int) option"
  fd_cache :: qcache

definition quality_cache_matches :: "qenv \<Rightarrow> fdir \<Rightarrow> string \<Rightarrow> bool" where
  "quality_cache_matches env d report_text =
     (let cache = fd_cache d
      in if qc_version cache \<noteq> qe_version env then False
         else if qc_report cache \<noteq> [] then qc_report cache \<in> set (fd_identities d)
         else if qc_content cache \<noteq> [] then
           qc_content cache \<in> {qe_semantic env report_text, qe_raw env report_text}
         else case fd_mtimes d of None \<Rightarrow> False | Some (cached, report) \<Rightarrow> report \<le> cached)"

subsection \<open>Rounds of votes\<close>

text \<open>The progress of a batch: the reports still open, the votes cast, and the caches written.\<close>

record batch =
  bt_active :: "string list"
  bt_votes :: "(string \<times> vote list) list"
  bt_written :: "(string \<times> qcache) list"

definition votes_of :: "batch \<Rightarrow> string \<Rightarrow> vote list" where
  "votes_of b d = (case map_of (bt_votes b) d of Some vs \<Rightarrow> vs | None \<Rightarrow> [])"

text \<open>The first loop: a report with a current terminal verdict leaves the batch, any other keeps the
  votes of a current cache; a stale verdict is overwritten before anything is asked.\<close>

definition batch_enter :: "qenv \<Rightarrow> int \<Rightarrow> int \<Rightarrow> fdir \<Rightarrow> batch \<Rightarrow> batch" where
  "batch_enter env quorum accept_quorum d b =
     (if fd_pinned d then b
      else case fd_report d of None \<Rightarrow> b
      | Some report_text \<Rightarrow>
          (let current = quality_cache_matches env d report_text
           in if current \<and> quality_terminal (fd_cache d) quorum accept_quorum then b
              else
                (let existing = valid_quality_votes (if current then qc_votes (fd_cache d) else [])
                       (vote_limit quorum accept_quorum);
                     payload = quality_payload env report_text existing quorum accept_quorum (fd_sha1 d);
                     terminal = quality_terminal payload quorum accept_quorum;
                     kept = valid_quality_votes (qc_votes payload) (vote_limit quorum accept_quorum)
                 in b\<lparr>bt_votes := AList.update (fd_name d) kept (bt_votes b),
                      bt_written := (if \<not> current \<or> terminal
                        then AList.update (fd_name d) payload (bt_written b) else bt_written b),
                      bt_active := (if terminal then bt_active b else bt_active b @ [fd_name d])\<rparr>)))"

definition accepts_of :: "vote list \<Rightarrow> int" where
  "accepts_of vs = int (length (filter vt_accept vs))"

definition unconditional_rounds :: "int \<Rightarrow> int \<Rightarrow> vote list \<Rightarrow> nat" where
  "unconditional_rounds quorum accept_quorum cast =
     (let accepts = accepts_of cast; rejects = int (length cast) - accepts
      in nat (max 1 (min (accept_quorum - accepts) (quorum - rejects))))"

definition record_vote ::
  "qenv \<Rightarrow> int \<Rightarrow> int \<Rightarrow> (string \<Rightarrow> fdir) \<Rightarrow> (string \<times> vote) list \<Rightarrow> string \<Rightarrow> batch \<Rightarrow> batch" where
  "record_vote env quorum accept_quorum dir by_id d b =
     (case map_of by_id d of None \<Rightarrow> b
      | Some vote \<Rightarrow>
          (let payload = quality_payload env (case fd_report (dir d) of Some t \<Rightarrow> t | None \<Rightarrow> [])
                 (votes_of b d @ [vote]) quorum accept_quorum (fd_sha1 (dir d))
           in b\<lparr>bt_written := AList.update d payload (bt_written b),
                bt_votes := AList.update d (valid_quality_votes (qc_votes payload)
                  (vote_limit quorum accept_quorum)) (bt_votes b),
                bt_active := (if quality_terminal payload quorum accept_quorum
                  then filter (\<lambda>a. a \<noteq> d) (bt_active b) else bt_active b)\<rparr>))"

definition record_round ::
  "qenv \<Rightarrow> int \<Rightarrow> int \<Rightarrow> (string \<Rightarrow> fdir) \<Rightarrow> string list \<Rightarrow> (string \<times> vote) list \<Rightarrow> batch \<Rightarrow> batch" where
  "record_round env quorum accept_quorum dir ordered by_id =
     fold (record_vote env quorum accept_quorum dir by_id) ordered"

text \<open>The rounds every open report needs whatever the earlier ones say, which are asked together.\<close>

definition joint_rounds :: "int \<Rightarrow> int \<Rightarrow> batch \<Rightarrow> string list list" where
  "joint_rounds quorum accept_quorum b =
     (let unc = (\<lambda>d. unconditional_rounds quorum accept_quorum (votes_of b d));
          total = nat (max 1 (accept_quorum + quorum - 1))
      in filter (\<lambda>ordered. ordered \<noteq> [])
           (map (\<lambda>index. sort (filter (\<lambda>d. index < unc d) (bt_active b)))
             [0..<min total (foldr max (map unc (bt_active b)) 0)]))"

text \<open>\<open>ask i ordered\<close> is the keyed answer of the model to round \<open>i\<close>, empty once the time is up;
  \<open>open_at i\<close> says that time is left before round \<open>i\<close>.\<close>

fun later_rounds ::
  "qenv \<Rightarrow> int \<Rightarrow> int \<Rightarrow> (string \<Rightarrow> fdir) \<Rightarrow> (nat \<Rightarrow> string list \<Rightarrow> (string \<times> vote) list)
     \<Rightarrow> (nat \<Rightarrow> bool) \<Rightarrow> nat list \<Rightarrow> batch \<Rightarrow> batch" where
  "later_rounds env quorum accept_quorum dir ask open_at [] b = b"
| "later_rounds env quorum accept_quorum dir ask open_at (i # rest) b =
     (if bt_active b = [] \<or> \<not> open_at i then b
      else let ordered = sort (bt_active b)
           in later_rounds env quorum accept_quorum dir ask open_at rest
                (record_round env quorum accept_quorum dir ordered (ask i ordered) b))"

definition batch_rounds ::
  "qenv \<Rightarrow> int \<Rightarrow> int \<Rightarrow> (string \<Rightarrow> fdir) \<Rightarrow> (nat \<Rightarrow> string list \<Rightarrow> (string \<times> vote) list)
     \<Rightarrow> (nat \<Rightarrow> bool) \<Rightarrow> batch \<Rightarrow> batch" where
  "batch_rounds env quorum accept_quorum dir ask open_at b =
     (let total = nat (max 1 (accept_quorum + quorum - 1));
          rounds = joint_rounds quorum accept_quorum b;
          outcomes = map (\<lambda>(i, ordered). (ordered, ask i ordered)) (List.enumerate 0 rounds);
          b' = fold (\<lambda>(ordered, by_id). record_round env quorum accept_quorum dir ordered by_id) outcomes b
      in later_rounds env quorum accept_quorum dir ask open_at [length rounds..<total] b')"

definition batch_quality_votes ::
  "qenv \<Rightarrow> int \<Rightarrow> int \<Rightarrow> fdir list \<Rightarrow> (nat \<Rightarrow> string list \<Rightarrow> (string \<times> vote) list)
     \<Rightarrow> (nat \<Rightarrow> bool) \<Rightarrow> batch" where
  "batch_quality_votes env quorum accept_quorum dirs ask open_at =
     batch_rounds env quorum accept_quorum (\<lambda>name. the (find (\<lambda>d. fd_name d = name) dirs)) ask open_at
       (fold (batch_enter env quorum accept_quorum) dirs
         \<lparr>bt_active = [], bt_votes = [], bt_written = []\<rparr>)"

subsection \<open>What a set of votes settles\<close>

definition quality_verdict :: "int \<Rightarrow> int \<Rightarrow> vote list \<Rightarrow> bool option" where
  "quality_verdict quorum accept_quorum vs =
     (if accept_quorum \<le> accepts_of vs then Some True
      else if quorum \<le> int (length vs) - accepts_of vs then Some False else None)"

lemma accepts_of_simps [simp]:
  "accepts_of [] = 0" "accepts_of (v # vs) = (if vt_accept v then 1 else 0) + accepts_of vs"
  "accepts_of (vs @ ws) = accepts_of vs + accepts_of ws"
  by (simp_all add: accepts_of_def)

lemma accepts_of_bounds: "0 \<le> accepts_of vs" "accepts_of vs \<le> int (length vs)"
  by (simp_all add: accepts_of_def)

lemma rejects_of: "int (length (filter (\<lambda>v. \<not> vt_accept v) vs)) = int (length vs) - accepts_of vs"
  using sum_length_filter_compl [of vt_accept vs] by (simp add: accepts_of_def)

lemma valid_votes_Some [simp]: "valid_quality_votes (map Some vs) limit = take (nat limit) vs"
  by (simp add: valid_quality_votes_def take_map comp_def)

lemma payload_votes [simp]:
  "qc_votes (quality_payload env t vs q aq h) = map Some (take (nat (vote_limit q aq)) vs)"
  by (simp add: quality_payload_def Let_def qcache0_def)

lemma payload_terminal:
  "quality_terminal (quality_payload env t vs q aq h) q aq
     \<longleftrightarrow> quality_verdict q aq (take (nat (vote_limit q aq)) vs) \<noteq> None"
  by (auto simp: quality_terminal_def quality_payload_def Let_def qcache0_def quality_verdict_def
      rejects_of simp flip: accepts_of_def)

lemma payload_accept:
  "qc_accept (quality_payload env t vs q aq h) = quality_verdict q aq (take (nat (vote_limit q aq)) vs)"
  by (simp add: quality_payload_def Let_def qcache0_def quality_verdict_def rejects_of flip: accepts_of_def)

lemma payload_identity:
  "qc_version (quality_payload env t vs q aq h) = qe_version env"
  "qc_content (quality_payload env t vs q aq h) = qe_semantic env t"
  "qc_report (quality_payload env t vs q aq h) = h"
  by (simp_all add: quality_payload_def Let_def qcache0_def)

text \<open>Below both quorums there is room for another vote.\<close>

lemma undecided_short:
  assumes "quality_verdict q aq vs = None" "0 < q" "0 < aq"
  shows "accepts_of vs < aq" "int (length vs) - accepts_of vs < q" "int (length vs) < vote_limit q aq"
  using assms by (auto simp: quality_verdict_def vote_limit_def split: if_splits)

lemma undecided_take:
  assumes "quality_verdict q aq vs = None" "0 < q" "0 < aq"
  shows "take (nat (vote_limit q aq)) (vs @ [v]) = vs @ [v]"
  using undecided_short(3) [OF assms] by simp

text \<open>The serial gate: one vote at a time, until the votes settle a verdict.\<close>

definition cast_one :: "int \<Rightarrow> int \<Rightarrow> vote option \<Rightarrow> vote list \<Rightarrow> vote list" where
  "cast_one q aq answer vs =
     (if quality_verdict q aq vs \<noteq> None then vs else case answer of None \<Rightarrow> vs | Some v \<Rightarrow> vs @ [v])"

definition serial_votes :: "int \<Rightarrow> int \<Rightarrow> vote option list \<Rightarrow> vote list \<Rightarrow> vote list" where
  "serial_votes q aq answers = fold (cast_one q aq) answers"

lemma serial_votes_simps [simp]:
  "serial_votes q aq [] vs = vs"
  "serial_votes q aq (a # as) vs = serial_votes q aq as (cast_one q aq a vs)"
  "serial_votes q aq (as @ bs) vs = serial_votes q aq bs (serial_votes q aq as vs)"
  by (simp_all add: serial_votes_def)

lemma serial_votes_settled: "quality_verdict q aq vs \<noteq> None \<Longrightarrow> serial_votes q aq as vs = vs"
  by (induction as) (simp_all add: cast_one_def)

lemma serial_votes_growth:
  "\<exists>ws. serial_votes q aq as vs = vs @ ws \<and> length ws \<le> length as"
proof (induction as arbitrary: vs)
  case (Cons a as)
  have "\<exists>us. cast_one q aq a vs = vs @ us \<and> length us \<le> 1"
    by (cases a) (auto simp: cast_one_def)
  then obtain us where us: "cast_one q aq a vs = vs @ us" "length us \<le> 1" by blast
  obtain ws where "serial_votes q aq as (vs @ us) = (vs @ us) @ ws" "length ws \<le> length as"
    using Cons.IH by blast
  with us show ?case by (intro exI [of _ "us @ ws"]) simp
qed simp

lemma unconditional_undecided:
  assumes "length as < unconditional_rounds q aq vs" "quality_verdict q aq vs = None" "0 < q" "0 < aq"
  shows "quality_verdict q aq (serial_votes q aq as vs) = None"
proof -
  obtain ws where ws: "serial_votes q aq as vs = vs @ ws" "length ws \<le> length as"
    using serial_votes_growth by blast
  note u = undecided_short [OF assms(2-4)]
  have "int (length ws) < min (aq - accepts_of vs) (q - (int (length vs) - accepts_of vs))"
    using assms(1) ws(2) u by (simp add: unconditional_rounds_def Let_def split: if_splits) linarith
  then show ?thesis using accepts_of_bounds [of ws] u by (simp add: ws(1) quality_verdict_def)
qed

lemma serial_votes_answered:
  assumes "list_all (\<lambda>a. a \<noteq> None) as" "quality_verdict q aq (serial_votes q aq as vs) = None"
  shows "length (serial_votes q aq as vs) = length vs + length as"
  using assms
proof (induction as arbitrary: vs)
  case (Cons a as)
  show ?case
  proof (cases "quality_verdict q aq vs = None")
    case True
    then show ?thesis using Cons by (auto simp: cast_one_def)
  next
    case False
    then show ?thesis using Cons.prems(2) serial_votes_settled [of q aq vs] by (simp add: cast_one_def)
  qed
qed simp

subsection \<open>What a round does to one report\<close>

lemma votes_of_update [simp]:
  "votes_of (b\<lparr>bt_votes := AList.update d vs (bt_votes b)\<rparr>) e = (if e = d then vs else votes_of b e)"
  by (simp add: votes_of_def update_conv')

lemma record_vote_at:
  "votes_of (record_vote env q aq dir by_id d b) e =
     (case map_of by_id d of Some v \<Rightarrow>
        if e = d then take (nat (vote_limit q aq)) (votes_of b d @ [v]) else votes_of b e
      | None \<Rightarrow> votes_of b e)"
  "set (bt_active (record_vote env q aq dir by_id d b)) =
     (case map_of by_id d of Some v \<Rightarrow>
        if quality_verdict q aq (take (nat (vote_limit q aq)) (votes_of b d @ [v])) \<noteq> None
        then set (bt_active b) - {d} else set (bt_active b)
      | None \<Rightarrow> set (bt_active b))"
  "distinct (bt_active b) \<Longrightarrow> distinct (bt_active (record_vote env q aq dir by_id d b))"
  by (auto simp: record_vote_def Let_def payload_terminal votes_of_def update_conv' simp del: take_append
      split: option.split)

lemma record_round_at:
  assumes "distinct ordered"
  shows "votes_of (record_round env q aq dir ordered by_id b) e =
      (case (if e \<in> set ordered then map_of by_id e else None) of
         Some v \<Rightarrow> take (nat (vote_limit q aq)) (votes_of b e @ [v]) | None \<Rightarrow> votes_of b e)"
    and "e \<in> set (bt_active (record_round env q aq dir ordered by_id b)) \<longleftrightarrow> e \<in> set (bt_active b)
      \<and> (case (if e \<in> set ordered then map_of by_id e else None) of
           Some v \<Rightarrow> quality_verdict q aq (take (nat (vote_limit q aq)) (votes_of b e @ [v])) = None
         | None \<Rightarrow> True)"
    and "distinct (bt_active b) \<Longrightarrow> distinct (bt_active (record_round env q aq dir ordered by_id b))"
proof -
  have "votes_of (record_round env q aq dir ordered by_id b) e =
      (case (if e \<in> set ordered then map_of by_id e else None) of
         Some v \<Rightarrow> take (nat (vote_limit q aq)) (votes_of b e @ [v]) | None \<Rightarrow> votes_of b e)
    \<and> (e \<in> set (bt_active (record_round env q aq dir ordered by_id b)) \<longleftrightarrow> e \<in> set (bt_active b)
      \<and> (case (if e \<in> set ordered then map_of by_id e else None) of
           Some v \<Rightarrow> quality_verdict q aq (take (nat (vote_limit q aq)) (votes_of b e @ [v])) = None
         | None \<Rightarrow> True))
    \<and> (distinct (bt_active b) \<longrightarrow> distinct (bt_active (record_round env q aq dir ordered by_id b)))"
    using assms
  proof (induction ordered arbitrary: b)
    case (Cons d ordered)
    let ?b = "record_vote env q aq dir by_id d b"
    have r: "record_round env q aq dir (d # ordered) by_id b = record_round env q aq dir ordered by_id ?b"
      by (simp add: record_round_def)
    show ?case
    proof (cases "e = d")
      case True
      then have "e \<notin> set ordered" using Cons.prems by simp
      then show ?thesis
        using Cons.IH [of ?b] Cons.prems True by (auto simp: r record_vote_at split: option.splits)
    next
      case False
      then show ?thesis
        using Cons.IH [of ?b] Cons.prems by (auto simp: r record_vote_at split: option.splits)
    qed
  qed (simp add: record_round_def)
  then show "votes_of (record_round env q aq dir ordered by_id b) e =
      (case (if e \<in> set ordered then map_of by_id e else None) of
         Some v \<Rightarrow> take (nat (vote_limit q aq)) (votes_of b e @ [v]) | None \<Rightarrow> votes_of b e)"
    "e \<in> set (bt_active (record_round env q aq dir ordered by_id b)) \<longleftrightarrow> e \<in> set (bt_active b)
      \<and> (case (if e \<in> set ordered then map_of by_id e else None) of
           Some v \<Rightarrow> quality_verdict q aq (take (nat (vote_limit q aq)) (votes_of b e @ [v])) = None
         | None \<Rightarrow> True)"
    "distinct (bt_active b) \<Longrightarrow> distinct (bt_active (record_round env q aq dir ordered by_id b))"
    by blast+
qed

subsection \<open>The rounds of a batch\<close>

text \<open>How far the batch is with one report: the votes a serial gate would hold after the same answers,
  and the report open exactly while they settle nothing.\<close>

definition in_step :: "int \<Rightarrow> int \<Rightarrow> batch \<Rightarrow> string \<Rightarrow> vote list \<Rightarrow> bool" where
  "in_step q aq b d vs \<longleftrightarrow> votes_of b d = vs \<and> (d \<in> set (bt_active b) \<longleftrightarrow> quality_verdict q aq vs = None)
     \<and> distinct (bt_active b)"

lemma round_in_step:
  assumes "in_step q aq b d vs" "0 < q" "0 < aq" "distinct ordered" "d \<in> set ordered"
    and "quality_verdict q aq vs = None" "map_of by_id d = answer"
  shows "in_step q aq (record_round env q aq dir ordered by_id b) d (cast_one q aq answer vs)"
  using assms undecided_take [OF assms(6,2,3)]
  by (auto simp: in_step_def record_round_at cast_one_def simp del: take_append split: option.splits)

lemma round_skips:
  assumes "in_step q aq b d vs" "distinct ordered" "d \<notin> set ordered"
  shows "in_step q aq (record_round env q aq dir ordered by_id b) d vs"
  using assms by (auto simp: in_step_def record_round_at)

lemma later_rounds_in_step:
  assumes "in_step q aq b d vs" "0 < q" "0 < aq"
    and answers: "\<And>i ordered. d \<in> set ordered \<Longrightarrow> map_of (ask i ordered) d = ans i"
  shows "in_step q aq (later_rounds env q aq dir ask (\<lambda>_. True) is b) d (serial_votes q aq (map ans is) vs)"
  using assms(1)
proof (induction "is" arbitrary: b vs)
  case (Cons i "is")
  show ?case
  proof (cases "d \<in> set (bt_active b)")
    case True
    let ?b = "record_round env q aq dir (sort (bt_active b)) (ask i (sort (bt_active b))) b"
    have u: "quality_verdict q aq vs = None" using True Cons.prems by (simp add: in_step_def)
    have "in_step q aq ?b d (cast_one q aq (ans i) vs)"
      using Cons.prems True answers [of "sort (bt_active b)" i]
      by (intro round_in_step [OF _ assms(2,3) _ _ u]) (simp_all add: in_step_def)
    then have "in_step q aq (later_rounds env q aq dir ask (\<lambda>_. True) is ?b) d
        (serial_votes q aq (map ans is) (cast_one q aq (ans i) vs))"
      by (rule Cons.IH)
    moreover have "bt_active b \<noteq> []" using True by auto
    ultimately show ?thesis by (simp add: Let_def)
  next
    case False
    then have s: "quality_verdict q aq vs \<noteq> None" using Cons.prems by (simp add: in_step_def)
    have "cast_one q aq a vs = vs" for a using s by (simp add: cast_one_def)
    moreover have "in_step q aq (later_rounds env q aq dir ask (\<lambda>_. True) is
        (record_round env q aq dir (sort (bt_active b)) (ask i (sort (bt_active b))) b)) d vs"
      using Cons.IH [OF round_skips [OF Cons.prems, of "sort (bt_active b)"]] False Cons.prems s
      by (simp add: in_step_def serial_votes_settled)
    moreover have "in_step q aq b d vs" by (rule Cons.prems)
    ultimately show ?thesis using serial_votes_settled [OF s] by (simp add: Let_def)
  qed
qed simp

definition most_rounds :: "int \<Rightarrow> int \<Rightarrow> batch \<Rightarrow> nat" where
  "most_rounds q aq b = foldr max (map (\<lambda>d. unconditional_rounds q aq (votes_of b d)) (bt_active b)) 0"

lemma foldr_max_ge: "x \<in> set xs \<Longrightarrow> x \<le> foldr max xs (0 :: nat)"
  by (induction xs) auto

lemma foldr_max_witness: "n < foldr max xs (0 :: nat) \<Longrightarrow> \<exists>x \<in> set xs. n < x"
  by (induction xs) (auto simp: less_max_iff_disj)

lemma unconditional_rounds_le: "0 < q \<Longrightarrow> 0 < aq \<Longrightarrow> int (unconditional_rounds q aq vs) \<le> max 1 (min q aq)"
  using accepts_of_bounds [of vs] by (auto simp: unconditional_rounds_def Let_def)

lemma joint_rounds_eq:
  assumes "0 < q" "0 < aq" "\<forall>d \<in> set (bt_active b). quality_verdict q aq (votes_of b d) = None"
  shows "joint_rounds q aq b = map (\<lambda>index. sort (filter (\<lambda>d. index < unconditional_rounds q aq (votes_of b d))
      (bt_active b))) [0..<most_rounds q aq b]"
    and "int (most_rounds q aq b) \<le> max 1 (min q aq)"
proof -
  note u = unconditional_rounds_le [OF assms(1,2)]
  show m: "int (most_rounds q aq b) \<le> max 1 (min q aq)"
  proof (rule ccontr)
    assume "\<not> ?thesis"
    then have "nat (max 1 (min q aq)) < most_rounds q aq b" by linarith
    then obtain d where "d \<in> set (bt_active b)" "nat (max 1 (min q aq)) < unconditional_rounds q aq (votes_of b d)"
      unfolding most_rounds_def using foldr_max_witness by fastforce
    with u [of "votes_of b d"] show False by linarith
  qed
  then have "min (nat (max 1 (aq + q - 1))) (most_rounds q aq b) = most_rounds q aq b"
    using assms(1,2) by linarith
  moreover have "filter (\<lambda>ordered. ordered \<noteq> []) (map f [0..<most_rounds q aq b]) = map f [0..<most_rounds q aq b]"
    if f: "f = (\<lambda>index. sort (filter (\<lambda>d. index < unconditional_rounds q aq (votes_of b d)) (bt_active b)))" for f
  proof -
    have "f i \<noteq> []" if "i < most_rounds q aq b" for i
      using that foldr_max_witness [of i] by (force simp: most_rounds_def f filter_empty_conv)
    then show ?thesis by (simp add: filter_id_conv)
  qed
  ultimately show "joint_rounds q aq b = map (\<lambda>index. sort (filter (\<lambda>d. index < unconditional_rounds q aq (votes_of b d))
      (bt_active b))) [0..<most_rounds q aq b]"
    by (simp add: joint_rounds_def Let_def flip: most_rounds_def)
qed

lemma joint_rounds_in_step:
  assumes "in_step q aq b d vs" "0 < q" "0 < aq" "quality_verdict q aq vs = None"
    and answers: "\<And>i ordered. d \<in> set ordered \<Longrightarrow> map_of (ask i ordered) d = ans i"
    and f: "f = (\<lambda>index. sort (filter (\<lambda>e. index < unconditional_rounds q aq (votes_of b e)) (bt_active b)))"
  shows "in_step q aq (fold (\<lambda>(ordered, by_id). record_round env q aq dir ordered by_id)
      (map (\<lambda>i. (f i, ask i (f i))) [0..<k]) b) d
    (serial_votes q aq (map ans [0..<min k (unconditional_rounds q aq vs)]) vs)"
proof (induction k)
  case (Suc k)
  let ?unc = "unconditional_rounds q aq vs"
  have d: "d \<in> set (f k) \<longleftrightarrow> k < ?unc" and dist: "distinct (f k)"
    using assms(1,4) by (auto simp: f in_step_def)
  show ?case
  proof (cases "k < ?unc")
    case True
    then have "quality_verdict q aq (serial_votes q aq (map ans [0..<k]) vs) = None"
      using assms(2-4) by (intro unconditional_undecided) simp_all
    then have "in_step q aq (record_round env q aq dir (f k) (ask k (f k))
        (fold (\<lambda>(ordered, by_id). record_round env q aq dir ordered by_id)
          (map (\<lambda>i. (f i, ask i (f i))) [0..<k]) b)) d
      (cast_one q aq (ans k) (serial_votes q aq (map ans [0..<k]) vs))"
      using Suc True d dist answers by (intro round_in_step [OF _ assms(2,3)]) simp_all
    with True show ?thesis by (simp add: min_def)
  next
    case False
    then have "min (Suc k) ?unc = min k ?unc" by simp
    then show ?thesis using round_skips [OF Suc dist] d False by simp
  qed
qed (use assms(1) in simp)

lemma batch_rounds_in_step:
  assumes "0 < q" "0 < aq" "\<forall>d \<in> set (bt_active b). quality_verdict q aq (votes_of b d) = None"
    and "distinct (bt_active b)" "d \<in> set (bt_active b)"
    and answers: "\<And>i ordered. d \<in> set ordered \<Longrightarrow> map_of (ask i ordered) d = ans i"
  shows "in_step q aq (batch_rounds env q aq dir ask (\<lambda>_. True) b) d
    (serial_votes q aq (map ans ([0..<unconditional_rounds q aq (votes_of b d)]
        @ [most_rounds q aq b..<nat (vote_limit q aq)])) (votes_of b d))"
proof -
  define f where "f = (\<lambda>index. sort (filter (\<lambda>e. index < unconditional_rounds q aq (votes_of b e)) (bt_active b)))"
  let ?vs = "votes_of b d" and ?M = "most_rounds q aq b"
  note jr = joint_rounds_eq [OF assms(1-3), folded f_def]
  have u: "unconditional_rounds q aq ?vs \<le> ?M"
    unfolding most_rounds_def using assms(5) by (intro foldr_max_ge) auto
  have s: "in_step q aq b d ?vs" using assms(3-5) by (auto simp: in_step_def)
  have outcomes: "map (\<lambda>(i, ordered). (ordered, ask i ordered)) (List.enumerate 0 (joint_rounds q aq b))
      = map (\<lambda>i. (f i, ask i (f i))) [0..<?M]"
    by (simp add: jr(1) enumerate_map_upt)
  let ?b = "fold (\<lambda>(ordered, by_id). record_round env q aq dir ordered by_id)
      (map (\<lambda>i. (f i, ask i (f i))) [0..<?M]) b"
  have v: "quality_verdict q aq ?vs = None" using assms(3,5) by blast
  have "in_step q aq ?b d (serial_votes q aq (map ans [0..<min ?M (unconditional_rounds q aq ?vs)]) ?vs)"
    by (rule joint_rounds_in_step [OF s assms(1,2) v _ f_def]) (rule answers)
  then have "in_step q aq ?b d (serial_votes q aq (map ans [0..<unconditional_rounds q aq ?vs]) ?vs)"
    using u by (simp only: min_absorb2)
  then have "in_step q aq (later_rounds env q aq dir ask (\<lambda>_. True) [?M..<nat (vote_limit q aq)] ?b) d
      (serial_votes q aq (map ans [?M..<nat (vote_limit q aq)])
        (serial_votes q aq (map ans [0..<unconditional_rounds q aq ?vs]) ?vs))"
    by (rule later_rounds_in_step [OF _ assms(1,2)]) (rule answers)
  moreover have "length (joint_rounds q aq b) = ?M" by (simp add: jr(1))
  ultimately show ?thesis by (simp add: batch_rounds_def outcomes vote_limit_def)
qed

lemma batch_rounds_settled:
  assumes "in_step q aq b d vs" "quality_verdict q aq vs \<noteq> None" "0 < q" "0 < aq"
    and "\<forall>e \<in> set (bt_active b). quality_verdict q aq (votes_of b e) = None"
    and answers: "\<And>i ordered. d \<in> set ordered \<Longrightarrow> map_of (ask i ordered) d = ans i"
  shows "in_step q aq (batch_rounds env q aq dir ask (\<lambda>_. True) b) d vs"
proof -
  define f where "f = (\<lambda>index. sort (filter (\<lambda>e. index < unconditional_rounds q aq (votes_of b e)) (bt_active b)))"
  note jr = joint_rounds_eq [OF assms(3-5), folded f_def]
  have out: "d \<notin> set (f i)" "distinct (f i)" for i using assms(1,2) by (auto simp: f_def in_step_def)
  have "in_step q aq (fold (\<lambda>(ordered, by_id). record_round env q aq dir ordered by_id)
      (map (\<lambda>i. (f i, ask i (f i))) [0..<k]) b) d vs" for k
    by (induction k) (simp_all add: assms(1) round_skips out)
  then have "in_step q aq (later_rounds env q aq dir ask (\<lambda>_. True) is
      (fold (\<lambda>(ordered, by_id). record_round env q aq dir ordered by_id)
        (map (\<lambda>i. (f i, ask i (f i))) [0..<k]) b)) d (serial_votes q aq (map ans is) vs)" for k "is"
    by (rule later_rounds_in_step [OF _ assms(3,4)]) (rule answers)
  then show ?thesis
    by (simp add: batch_rounds_def Let_def jr(1) enumerate_map_upt serial_votes_settled [OF assms(2)] comp_def)
qed

subsection \<open>Entering a batch\<close>

text \<open>The votes a report enters with: those of a cache that still speaks for it.\<close>

definition kept_votes :: "qenv \<Rightarrow> int \<Rightarrow> int \<Rightarrow> fdir \<Rightarrow> string \<Rightarrow> vote list" where
  "kept_votes env q aq d t =
     valid_quality_votes (if quality_cache_matches env d t then qc_votes (fd_cache d) else []) (vote_limit q aq)"

text \<open>The reports a batch has to see to: not pinned, present, and without a current verdict.\<close>

definition needs_votes :: "qenv \<Rightarrow> int \<Rightarrow> int \<Rightarrow> fdir \<Rightarrow> string \<Rightarrow> bool" where
  "needs_votes env q aq d t \<longleftrightarrow> \<not> fd_pinned d \<and> fd_report d = Some t
     \<and> \<not> (quality_cache_matches env d t \<and> quality_terminal (fd_cache d) q aq)"

lemma kept_votes_short [simp]: "take (nat (vote_limit q aq)) (kept_votes env q aq d t) = kept_votes env q aq d t"
proof -
  have "length (filter P (take n xs)) \<le> n" for P n and xs :: "vote option list"
    by (rule order_trans [OF length_filter_le]) simp
  then show ?thesis by (simp add: kept_votes_def valid_quality_votes_def)
qed

lemma batch_enter_at:
  assumes "needs_votes env q aq d t"
  shows "votes_of (batch_enter env q aq d b) e = (if e = fd_name d then kept_votes env q aq d t else votes_of b e)"
    and "bt_active (batch_enter env q aq d b) =
      (if quality_verdict q aq (kept_votes env q aq d t) = None then bt_active b @ [fd_name d] else bt_active b)"
proof -
  have e: "\<not> fd_pinned d" "fd_report d = Some t"
    "quality_cache_matches env d t \<Longrightarrow> \<not> quality_terminal (fd_cache d) q aq"
    using assms by (simp_all add: needs_votes_def)
  have "votes_of (batch_enter env q aq d b) e = (if e = fd_name d then kept_votes env q aq d t else votes_of b e)
    \<and> bt_active (batch_enter env q aq d b) =
      (if quality_verdict q aq (kept_votes env q aq d t) = None then bt_active b @ [fd_name d] else bt_active b)"
  proof (cases "quality_cache_matches env d t")
    case True
    then have "valid_quality_votes (qc_votes (fd_cache d)) (vote_limit q aq) = kept_votes env q aq d t"
      by (simp add: kept_votes_def)
    with True e show ?thesis
      by (simp add: batch_enter_def Let_def votes_of_def update_conv' payload_terminal)
  next
    case False
    then have "valid_quality_votes [] (vote_limit q aq) = kept_votes env q aq d t"
      by (simp add: kept_votes_def)
    with False e show ?thesis
      by (simp add: batch_enter_def Let_def votes_of_def update_conv' payload_terminal)
  qed
  then show "votes_of (batch_enter env q aq d b) e = (if e = fd_name d then kept_votes env q aq d t else votes_of b e)"
    "bt_active (batch_enter env q aq d b) =
      (if quality_verdict q aq (kept_votes env q aq d t) = None then bt_active b @ [fd_name d] else bt_active b)"
    by blast+
qed

lemma batch_enter_other: "\<forall>t. \<not> needs_votes env q aq d t \<Longrightarrow> batch_enter env q aq d b = b"
  by (auto simp: batch_enter_def needs_votes_def Let_def split: option.splits)

lemma batch_entered:
  fixes env :: qenv and q aq :: int
  assumes "distinct (map fd_name dirs)"
  defines "b \<equiv> fold (batch_enter env q aq) dirs \<lparr>bt_active = [], bt_votes = [], bt_written = []\<rparr>"
  shows "set (bt_active b) \<subseteq> fd_name ` set dirs \<and> distinct (bt_active b)
    \<and> (\<forall>d \<in> set dirs. \<forall>t. needs_votes env q aq d t \<longrightarrow> in_step q aq b (fd_name d) (kept_votes env q aq d t))
    \<and> (\<forall>e \<in> set (bt_active b). quality_verdict q aq (votes_of b e) = None)"
  using assms(1) unfolding b_def
proof (induction dirs rule: rev_induct)
  case (snoc d dirs)
  let ?b = "fold (batch_enter env q aq) dirs \<lparr>bt_active = [], bt_votes = [], bt_written = []\<rparr>"
  have IH: "set (bt_active ?b) \<subseteq> fd_name ` set dirs" "distinct (bt_active ?b)"
    "\<And>e t. e \<in> set dirs \<Longrightarrow> needs_votes env q aq e t \<Longrightarrow> in_step q aq ?b (fd_name e) (kept_votes env q aq e t)"
    "\<And>e. e \<in> set (bt_active ?b) \<Longrightarrow> quality_verdict q aq (votes_of ?b e) = None"
    and new0: "fd_name d \<notin> fd_name ` set dirs"
    using snoc by auto
  have new: "fd_name e \<noteq> fd_name d" if "e \<in> set dirs" for e using new0 that by (metis imageI)
  show ?case
  proof (cases "\<exists>t. needs_votes env q aq d t")
    case True
    then obtain t where t: "needs_votes env q aq d t" by blast
    then have u: "needs_votes env q aq d t' \<longleftrightarrow> t' = t" for t' by (auto simp: needs_votes_def)
    have fresh: "fd_name d \<notin> set (bt_active ?b)" using IH(1) new0 by blast
    note at = batch_enter_at [OF t, of ?b]
    have "in_step q aq (batch_enter env q aq d ?b) (fd_name e) (kept_votes env q aq e t')"
      if "e \<in> set (dirs @ [d])" "needs_votes env q aq e t'" for e t'
    proof (cases "e = d")
      case True
      then show ?thesis using that u fresh IH(2) by (auto simp: in_step_def at)
    next
      case False
      then show ?thesis using that IH(3) [of e t'] fresh IH(2) new [of e] by (auto simp: in_step_def at)
    qed
    moreover have "quality_verdict q aq (votes_of (batch_enter env q aq d ?b) e) = None"
      if "e \<in> set (bt_active (batch_enter env q aq d ?b))" for e
      using that IH(4) [of e] fresh by (auto simp: at split: if_splits)
    moreover have "set (bt_active (batch_enter env q aq d ?b)) \<subseteq> fd_name ` set (dirs @ [d])"
      "distinct (bt_active (batch_enter env q aq d ?b))"
      using IH(1,2) fresh by (auto simp: at)
    ultimately show ?thesis by simp
  next
    case False
    then show ?thesis using IH new batch_enter_other [of env q aq d ?b] by (auto simp: in_step_def)
  qed
qed simp

lemma batch_in_step:
  assumes "0 < q" "0 < aq" "distinct (map fd_name dirs)" "d \<in> set dirs" "needs_votes env q aq d t"
    and answers: "\<And>i ordered. fd_name d \<in> set ordered \<Longrightarrow> map_of (ask i ordered) (fd_name d) = ans i"
  shows "\<exists>m. unconditional_rounds q aq (kept_votes env q aq d t) \<le> m \<and> int m \<le> max 1 (min q aq)
    \<and> in_step q aq (batch_quality_votes env q aq dirs ask (\<lambda>_. True)) (fd_name d)
    (serial_votes q aq (map ans ([0..<unconditional_rounds q aq (kept_votes env q aq d t)]
        @ [m..<nat (vote_limit q aq)])) (kept_votes env q aq d t))"
proof -
  let ?b = "fold (batch_enter env q aq) dirs \<lparr>bt_active = [], bt_votes = [], bt_written = []\<rparr>"
  let ?vs = "kept_votes env q aq d t"
  note entered = batch_entered [OF assms(3), of env q aq]
  have open_ok: "\<forall>e \<in> set (bt_active ?b). quality_verdict q aq (votes_of ?b e) = None"
    and s: "in_step q aq ?b (fd_name d) ?vs"
    using entered assms(4,5) by auto
  show ?thesis
  proof (cases "quality_verdict q aq ?vs = None")
    case True
    then have m: "fd_name d \<in> set (bt_active ?b)" "votes_of ?b (fd_name d) = ?vs" "distinct (bt_active ?b)"
      using s by (auto simp: in_step_def)
    have "in_step q aq (batch_quality_votes env q aq dirs ask (\<lambda>_. True)) (fd_name d)
      (serial_votes q aq (map ans ([0..<unconditional_rounds q aq ?vs]
        @ [most_rounds q aq ?b..<nat (vote_limit q aq)])) ?vs)"
      using batch_rounds_in_step [OF assms(1,2) open_ok m(3,1), where ans = ans] answers m(2)
      unfolding batch_quality_votes_def by simp
    moreover have "unconditional_rounds q aq ?vs \<le> most_rounds q aq ?b"
      unfolding most_rounds_def m(2) [symmetric] using m(1) by (intro foldr_max_ge) auto
    ultimately show ?thesis using joint_rounds_eq(2) [OF assms(1,2) open_ok] by blast
  next
    case False
    have "in_step q aq (batch_quality_votes env q aq dirs ask (\<lambda>_. True)) (fd_name d) ?vs"
      unfolding batch_quality_votes_def
      by (rule batch_rounds_settled [OF s False assms(1,2) open_ok]) (rule answers)
    then show ?thesis
      using unconditional_rounds_le [OF assms(1,2)]
      by (intro exI [of _ "unconditional_rounds q aq ?vs"]) (simp only: serial_votes_settled [OF False], simp)
  qed
qed


text \<open>
  Fact (batch_decides). When every call is answered, one batch is enough: each report it has to see to
  ends with a verdict, settled by at most \<open>accept_quorum + quorum - 1\<close> votes on that report, and with
  that many votes only one of the two quorums can be reached.
\<close>

theorem batch_decides:
  assumes "0 < q" "0 < aq" "distinct (map fd_name dirs)" "d \<in> set dirs" "needs_votes env q aq d t"
    and "\<And>i ordered. fd_name d \<in> set ordered \<Longrightarrow> map_of (ask i ordered) (fd_name d) = Some (answer i)"
  shows "fd_name d \<notin> set (bt_active (batch_quality_votes env q aq dirs ask (\<lambda>_. True)))
    \<and> (let vs = votes_of (batch_quality_votes env q aq dirs ask (\<lambda>_. True)) (fd_name d)
       in quality_verdict q aq vs \<noteq> None \<and> int (length vs) \<le> vote_limit q aq
          \<and> \<not> (aq \<le> accepts_of vs \<and> q \<le> int (length vs) - accepts_of vs))"
proof -
  let ?vs = "kept_votes env q aq d t" and ?b = "batch_quality_votes env q aq dirs ask (\<lambda>_. True)"
  let ?unc = "unconditional_rounds q aq ?vs"
  obtain m where m: "?unc \<le> m" "int m \<le> max 1 (min q aq)" "in_step q aq ?b (fd_name d)
      (serial_votes q aq (map (\<lambda>i. Some (answer i)) ([0..<?unc] @ [m..<nat (vote_limit q aq)])) ?vs)"
    using batch_in_step [OF assms(1-5), of ask "\<lambda>i. Some (answer i)"] assms(6) by blast
  let ?answers = "map (\<lambda>i. Some (answer i)) ([0..<?unc] @ [m..<nat (vote_limit q aq)])"
  define ws where "ws = serial_votes q aq ?answers ?vs"
  have settled: "quality_verdict q aq ws \<noteq> None"
  proof
    assume none: "quality_verdict q aq ws = None"
    have "list_all (\<lambda>a. a \<noteq> None) ?answers" by (auto simp: list_all_iff)
    then have "length ws = length ?vs + length ?answers"
      unfolding ws_def using none [unfolded ws_def] by (rule serial_votes_answered)
    then have len: "length ws = length ?vs + (?unc + (nat (vote_limit q aq) - m))" by simp
    moreover have "quality_verdict q aq ?vs = None"
    proof (rule ccontr)
      assume "quality_verdict q aq ?vs \<noteq> None"
      then have "ws = ?vs" unfolding ws_def by (rule serial_votes_settled)
      with none \<open>quality_verdict q aq ?vs \<noteq> None\<close> show False by simp
    qed
    moreover define a where "a = accepts_of ?vs"
    moreover define r where "r = int (length ?vs) - a"
    ultimately have "a < aq" "r < q" "0 \<le> a" "0 \<le> r"
      using undecided_short [of q aq ?vs] accepts_of_bounds [of ?vs] assms(1,2) by simp_all
    moreover from this have "int ?unc = min (aq - a) (q - r)"
      by (simp add: unconditional_rounds_def Let_def r_def a_def)
    moreover have "int (length ws) < aq + q - 1"
      using undecided_short(3) [OF none assms(1,2)] assms(1,2) by (simp add: vote_limit_def)
    moreover have "int (nat (vote_limit q aq) - m) = aq + q - 1 - int m"
      using m(2) assms(1,2) by (simp add: vote_limit_def of_nat_diff le_nat_iff)
    ultimately show False using m(2) assms(1,2) len r_def by (simp add: min_def split: if_splits)
  qed
  have short: "int (length (serial_votes q aq as vs)) \<le> vote_limit q aq" if "int (length vs) \<le> vote_limit q aq" for as vs
    using that
  proof (induction as arbitrary: vs)
    case (Cons a as)
    show ?case
    proof (cases "quality_verdict q aq vs = None")
      case True
      then show ?thesis using Cons undecided_short(3) [OF True assms(1,2)] by (auto simp: cast_one_def split: option.split)
    qed (use Cons in \<open>simp add: cast_one_def\<close>)
  qed simp
  have "length ?vs \<le> nat (vote_limit q aq)" using kept_votes_short [of q aq env d t] by (metis length_take min.cobounded2)
  then have "int (length ws) \<le> vote_limit q aq" unfolding ws_def by (intro short) (simp add: vote_limit_def)
  moreover have "in_step q aq ?b (fd_name d) ws" using m(3) unfolding ws_def .
  then have "votes_of ?b (fd_name d) = ws \<and> fd_name d \<notin> set (bt_active ?b)"
    using settled by (simp add: in_step_def)
  ultimately show ?thesis using settled assms(1,2) by (auto simp: Let_def vote_limit_def)
qed

definition demo_qenv :: qenv where
  "demo_qenv = \<lparr>qe_version = ''v'', qe_semantic = id, qe_raw = id\<rparr>"

definition demo_fdir :: "string \<Rightarrow> fdir" where
  "demo_fdir name = \<lparr>fd_name = name, fd_pinned = False, fd_report = Some ''text'', fd_sha1 = [],
     fd_identities = [], fd_mtimes = None, fd_cache = qcache0\<rparr>"

definition demo_vote :: "nat \<Rightarrow> vote" where
  "demo_vote i = \<lparr>vt_accept = i \<noteq> 0, vt_reason = [], vt_class = [], vt_severity = []\<rparr>"

definition demo_ask :: "nat \<Rightarrow> string list \<Rightarrow> (string \<times> vote) list" where
  "demo_ask i ordered = map (\<lambda>d. (d, demo_vote i)) ordered"

lemma demo_ask_at: "d \<in> set ordered \<Longrightarrow> map_of (demo_ask i ordered) d = Some (demo_vote i)"
  by (induction ordered) (auto simp: demo_ask_def)

lemma demo_needs: "needs_votes demo_qenv 2 2 (demo_fdir name) ''text''"
  by (simp add: needs_votes_def demo_fdir_def quality_cache_matches_def demo_qenv_def qcache0_def)


theorem batch_decides_witness:
  "bt_active (batch_quality_votes demo_qenv 2 2 [demo_fdir ''a'', demo_fdir ''b''] demo_ask (\<lambda>_. True)) = []
   \<and> quality_verdict 2 2 (votes_of (batch_quality_votes demo_qenv 2 2 [demo_fdir ''a'', demo_fdir ''b'']
        demo_ask (\<lambda>_. True)) ''b'') \<noteq> None"
proof
  show "bt_active (batch_quality_votes demo_qenv 2 2 [demo_fdir ''a'', demo_fdir ''b''] demo_ask (\<lambda>_. True)) = []"
    by code_simp
  show "quality_verdict 2 2 (votes_of (batch_quality_votes demo_qenv 2 2 [demo_fdir ''a'', demo_fdir ''b'']
        demo_ask (\<lambda>_. True)) ''b'') \<noteq> None"
    using batch_decides [of 2 2 "[demo_fdir ''a'', demo_fdir ''b'']" "demo_fdir ''b''" demo_qenv "''text''"
        demo_ask demo_vote] demo_needs demo_ask_at
    by (auto simp: demo_fdir_def Let_def)
qed

end
