(* ===== verification/Reviews.thy ===== *)
theory Reviews
  imports PyRegex
begin

text \<open>
  Reviews of an artifact (\<open>lib/triage.py\<close>, \<open>lib/triage_validate.py\<close>): report fields, the comparison
  of the declared trigger with the threat model, source anchors, which cached review still speaks for
  a report, the facts agreeing reviewers settle, and the publication state they lead to. Reviewers
  are language models: what they wrote is the content of vote files, a parameter, like the target's
  source tree and SHA-256.
\<close>

subsection \<open>Report fields and the declared trigger\<close>

definition field_table_re :: "string \<Rightarrow> rx" where
  "field_table_re name =
     rseq [RBol, rset [CLit CHR ''|''], rstar (rset [CSpc]), rstr name, rstar (rset [CSpc]),
       rset [CLit CHR ''|''], rstar (rset [CSpc]), RGrp 1 (rplus (rnot [CLit CHR ''|'', CLit newline]))]"

definition field_label_re :: "string \<Rightarrow> rx" where
  "field_label_re name =
     rseq [RBol, rstr name, rstar (rset [CSpc]), rset [CLit CHR '':''], rstar (rset [CSpc]),
       RGrp 1 (rplus RAny), REol]"

definition report_field :: "string \<Rightarrow> string \<Rightarrow> string" where
  "report_field report_text name =
     (case re_search (field_table_re name) True report_text of
        Some hit \<Rightarrow> py_strip (re_group 1 hit)
      | None \<Rightarrow> (case re_search (field_label_re name) True report_text of
          Some hit \<Rightarrow> py_strip (re_group 1 hit) | None \<Rightarrow> []))"

definition control_aliases :: "(string \<times> string) list" where
  "control_aliases =
     [(''data'', ''bytes''), (''data-driven'', ''bytes''), (''input'', ''bytes''),
      (''call-order'', ''call-sequence''), (''call_order'', ''call-sequence''),
      (''call-seq'', ''call-sequence''), (''call_sequence'', ''call-sequence''),
      (''sequence'', ''call-sequence'')]"

definition alias_of :: "string \<Rightarrow> string" where
  "alias_of item = (case map_of control_aliases item of Some v \<Rightarrow> v | None \<Rightarrow> item)"

text \<open>\<open>raw\<close> is the argument, or the environment variable with its default.\<close>

definition trigger_attacker_controls :: "string \<Rightarrow> string list" where
  "trigger_attacker_controls raw =
     (let controls = map (\<lambda>token. alias_of (py_lower (py_strip token)))
            (filter (\<lambda>token. py_strip token \<noteq> []) (py_split CHR '','' raw))
      in if controls = [] then [''bytes''] else sort (remdups controls))"

definition required_triggers :: "string \<Rightarrow> string list" where
  "required_triggers trigger =
     concat (map (\<lambda>item. let normalized = alias_of (py_strip item)
       in if normalized = ''both'' then [''bytes'', ''call-sequence'']
          else if normalized \<noteq> [] then [normalized] else []) (py_split CHR '','' trigger))"

definition evaluate_crash_verdict :: "string \<Rightarrow> string list \<Rightarrow> string \<times> string" where
  "evaluate_crash_verdict report_text controls =
     (let contract = py_lower (report_field report_text ''Caller contract'');
          parameter = map (\<lambda>c. if c = CHR ''_'' then CHR ''-'' else c)
            (py_lower (report_field report_text ''Parameter control''));
          trigger = py_lower (report_field report_text ''Trigger source'')
      in if contract = ''violated'' \<or> parameter = ''harness-only'' then
           (''contract-flag'', ''report identifies caller-contract misuse'')
         else if contract = [] \<and> trigger = [] then
           (''incomplete'', ''report has no Caller contract or Trigger source field'')
         else
           (let accepted = map (\<lambda>item. alias_of (py_strip item)) controls;
                missing = sort (remdups (filter (\<lambda>r. r \<notin> set accepted)
                  (required_triggers (str_or trigger ''bytes''))))
            in if missing \<noteq> [] then
                 (''out-of-model'', ''trigger requires '' @ py_join '','' missing
                    @ '' outside attacker_controls='' @ py_join '','' controls)
               else (''promote'', ''trigger within attacker_controls='' @ py_join '','' controls)))"

subsection \<open>Source anchors\<close>

record anchor =
  an_path :: string
  an_line :: int
  an_symbol :: string
  an_kind :: string
  an_excerpt :: string
  an_sha256 :: string

definition ANCHOR_KINDS :: "string list" where
  "ANCHOR_KINDS = [''source'', ''contract'', ''build'']"

text \<open>\<open>s.rsplit(sep, 1)[-1]\<close> where \<open>sep\<close> occurs in \<open>s\<close>: what follows its last occurrence.\<close>

fun after_last :: "string \<Rightarrow> string \<Rightarrow> string option" where
  "after_last sep [] = None"
| "after_last sep (c # s) = (case after_last sep s of Some t \<Rightarrow> Some t
     | None \<Rightarrow> if py_startswith sep (c # s) then Some (drop (length sep) (c # s)) else None)"

definition symbol_candidates :: "string \<Rightarrow> string list" where
  "symbol_candidates symbol =
     fold (\<lambda>sep cands. cands @ concat (map (\<lambda>c. case after_last sep c of
         Some leaf \<Rightarrow> if leaf \<noteq> [] then [leaf] else [] | None \<Rightarrow> []) cands))
       [''::'', ''.'', ''#''] [symbol]"

text \<open>The source tree: a relative path that resolves to a readable file under the root, as its canonical
  relative path and its lines. An item whose line is not a number has no place in the list.\<close>

type_synonym source_tree = "string \<Rightarrow> (string \<times> string list) option"

definition verify_anchor :: "source_tree \<Rightarrow> (string \<Rightarrow> string) \<Rightarrow> anchor \<Rightarrow> anchor option" where
  "verify_anchor tree sha256 item =
     (let relative = py_strip (an_path item); excerpt = py_strip (an_excerpt item);
          symbol = py_strip (an_symbol item); kind = py_lower (py_strip (an_kind item));
          line = an_line item
      in if relative = [] \<or> excerpt = [] \<or> symbol = [] \<or> kind \<notin> set ANCHOR_KINDS \<or> line < 1 then None
         else case tree relative of None \<Rightarrow> None
         | Some (path, source_lines) \<Rightarrow>
             if int (length source_lines) < line
                \<or> py_strip (source_lines ! nat (line - 1)) \<noteq> excerpt
                \<or> \<not> list_ex (\<lambda>c. py_contains c (py_join [newline] source_lines)) (symbol_candidates symbol)
             then None
             else Some \<lparr>an_path = path, an_line = line, an_symbol = symbol, an_kind = kind,
               an_excerpt = excerpt, an_sha256 = sha256 excerpt\<rparr>)"

definition verify_source_anchors ::
  "source_tree \<Rightarrow> (string \<Rightarrow> string) \<Rightarrow> anchor list \<Rightarrow> anchor list" where
  "verify_source_anchors tree sha256 items = List.map_filter (verify_anchor tree sha256) items"

subsection \<open>Vote files\<close>

text \<open>The four facts a reviewer may assert; a missing fact is the empty string.\<close>

record review_facts =
  rf_surface :: string
  rf_carrier :: string
  rf_rejection :: string
  rf_fit :: string

definition no_facts :: review_facts where
  "no_facts = \<lparr>rf_surface = [], rf_carrier = [], rf_rejection = [], rf_fit = []\<rparr>"

definition BOUNDARY_SURFACES :: "string list" where
  "BOUNDARY_SURFACES = [''network'', ''library-api'', ''file-format'', ''cli'', ''dev-tool'', ''internal'',
     ''unknown'']"

definition REPRODUCER_CARRIERS :: "string list" where
  "REPRODUCER_CARRIERS = [''network'', ''library-api'', ''file-format'', ''cli'', ''harness'', ''runner'',
     ''unknown'']"

definition REJECTION_KINDS :: "string list" where
  "REJECTION_KINDS = [''contract-invalid'', ''unreachable'', ''nonshipping'', ''no-added-boundary'',
     ''consequence-disproved'', ''unknown'']"

definition TRIGGER_CONTROLS_FIT :: "string list" where
  "TRIGGER_CONTROLS_FIT = [''within'', ''outside'', ''unclear'']"

definition allowed_fact :: "string list \<Rightarrow> string \<Rightarrow> string" where
  "allowed_fact allowed raw = (let normalized = py_lower (py_strip raw)
     in if normalized \<in> set allowed then normalized else [])"

definition source_review_facts :: "review_facts \<Rightarrow> review_facts" where
  "source_review_facts raw =
     \<lparr>rf_surface = allowed_fact BOUNDARY_SURFACES (rf_surface raw),
      rf_carrier = allowed_fact REPRODUCER_CARRIERS (rf_carrier raw),
      rf_rejection = allowed_fact REJECTION_KINDS (rf_rejection raw),
      rf_fit = allowed_fact TRIGGER_CONTROLS_FIT (rf_fit raw)\<rparr>"

text \<open>A vote file; a missing \<open>anchors_verified\<close> is \<open>None\<close>, \<open>vf_facts\<close> is its \<open>review_facts\<close> entry, \<open>vf_own\<close> the same keys of the vote itself.\<close>

record vote_file =
  vf_sha256 :: string
  vf_content :: string
  vf_vote :: string
  vf_version :: string
  vf_priors :: "string list"
  vf_controls :: "string list"
  vf_evidence :: "string option"
  vf_revision :: string
  vf_config :: string
  vf_anchors_verified :: "bool option"
  vf_disproof :: string
  vf_anchors :: "anchor list"
  vf_facts :: review_facts
  vf_own :: review_facts

datatype slot = Primary | Second | Resolution

record evidence =
  ev_id :: "string option"
  ev_revision :: string
  ev_config :: string

text \<open>An artifact directory as the reviews see it: the vote files, whether a machine probe proved the
  byte path, the hashes under which the report counts as unchanged, and the recorded evidence.\<close>

record gate_dir =
  gd_votes :: "slot \<Rightarrow> vote_file option"
  gd_bypass :: bool
  gd_identities :: "string list"
  gd_evidence :: "evidence option"

text \<open>The versions and the threat model in force, the scope of the environment, and the source trees the
  two checks of anchors read (\<open>None\<close> when the root is not a directory).\<close>

record gate_env =
  ge_version :: string
  ge_resolution_version :: string
  ge_controls :: "string list"
  ge_revision :: string
  ge_config :: string
  ge_tree :: "source_tree option"
  ge_report_tree :: "source_tree option"
  ge_sha256 :: "string \<Rightarrow> string"

definition TRIGGER_GATE_ADVISORY_VERSIONS :: "string list" where
  "TRIGGER_GATE_ADVISORY_VERSIONS =
     [''trigger-v2-caller-buffer'', ''trigger-v3-scoped-controls'', ''trigger-v4-source-anchors'']"

definition prior_review_sha256s :: "gate_dir \<Rightarrow> slot list \<Rightarrow> string list" where
  "prior_review_sha256s d paths = map vf_sha256 (List.map_filter (gd_votes d) paths)"

definition in_scope :: "gate_env \<Rightarrow> gate_dir \<Rightarrow> vote_file \<Rightarrow> bool" where
  "in_scope env d p \<longleftrightarrow>
     vf_controls p = ge_controls env
     \<and> (case gd_evidence d of Some e \<Rightarrow> ev_id e | None \<Rightarrow> None) = vf_evidence p
     \<and> vf_revision p = str_or (case gd_evidence d of Some e \<Rightarrow> ev_revision e | None \<Rightarrow> []) (ge_revision env)
     \<and> vf_config p = str_or (case gd_evidence d of Some e \<Rightarrow> ev_config e | None \<Rightarrow> []) (ge_config env)"

definition anchored :: "gate_env \<Rightarrow> vote_file \<Rightarrow> bool" where
  "anchored env p \<longleftrightarrow> vf_anchors_verified p = Some True \<and> vf_anchors p \<noteq> []
     \<and> (case ge_tree env of None \<Rightarrow> True
        | Some tree \<Rightarrow> verify_source_anchors tree (ge_sha256 env) (vf_anchors p) = vf_anchors p)"

definition vote_with :: "gate_env \<Rightarrow> gate_dir \<Rightarrow> slot list \<Rightarrow> slot \<Rightarrow> string option" where
  "vote_with env d prior_paths s =
     (case gd_votes d s of None \<Rightarrow> None
      | Some p \<Rightarrow>
          if vf_content p \<notin> set (gd_identities d) then None
          else if vf_vote p \<notin> {''Promote'', ''Reject'', ''Uncertain''} then None
          else if vf_version p \<in> {ge_version env, ge_resolution_version env} then
            (if vf_version p = ge_resolution_version env
                \<and> (s \<noteq> Resolution \<or> prior_paths = [] \<or> vf_priors p \<noteq> prior_review_sha256s d prior_paths)
             then None
             else if \<not> in_scope env d p then None
             else if vf_vote p \<in> {''Promote'', ''Reject''} \<and> \<not> anchored env p then None
             else Some (vf_vote p))
          else if vf_version p \<in> set TRIGGER_GATE_ADVISORY_VERSIONS
                  \<and> vf_vote p \<in> {''Promote'', ''Uncertain''} then Some ''Uncertain''
          else None)"

text \<open>The two first reviews adjudicate no other, so their currency asks for no prior review.\<close>

definition cached_review :: "gate_env \<Rightarrow> gate_dir \<Rightarrow> slot \<Rightarrow> string option" where
  "cached_review env d s = vote_with env d [] s"

definition agreed_value :: "string list \<Rightarrow> nat \<Rightarrow> string" where
  "agreed_value values quorum =
     (let vs = filter (\<lambda>v. v \<noteq> []) values
      in case vs of [] \<Rightarrow> []
         | v # rest \<Rightarrow> if list_all (\<lambda>w. w = v) rest \<and> quorum \<le> length vs then v else [])"

definition unsettled_scope_fact ::
  "gate_env \<Rightarrow> (slot \<Rightarrow> string option) \<Rightarrow> gate_dir \<Rightarrow> slot list \<Rightarrow> string" where
  "unsettled_scope_fact env cached d vote_files =
     (case ge_report_tree env of None \<Rightarrow> []
      | Some tree \<Rightarrow>
          agreed_value (map (\<lambda>s. case gd_votes d s of None \<Rightarrow> []
              | Some p \<Rightarrow>
                  if cached s = Some ''Uncertain'' \<and> vf_anchors_verified p = Some True \<and> vf_anchors p \<noteq> []
                     \<and> verify_source_anchors tree (ge_sha256 env) (vf_anchors p) = vf_anchors p
                  then rf_fit (source_review_facts (vf_own p)) else []) vote_files) 1)"

definition settled_facts :: "(slot \<Rightarrow> string option) \<Rightarrow> gate_dir \<Rightarrow> slot list \<Rightarrow> review_facts list" where
  "settled_facts cached d vote_files =
     concat (map (\<lambda>s. case gd_votes d s of None \<Rightarrow> []
         | Some p \<Rightarrow> if cached s \<in> {Some ''Promote'', Some ''Reject''}
             then [source_review_facts (vf_facts p)] else []) vote_files)"

definition facts_from ::
  "gate_env \<Rightarrow> (slot \<Rightarrow> string option) \<Rightarrow> gate_dir \<Rightarrow> slot list \<Rightarrow> nat \<Rightarrow> review_facts" where
  "facts_from env cached d vote_files rejection_quorum =
     (let observed = settled_facts cached d vote_files;
          fit = agreed_value (map rf_fit observed) 1
      in \<lparr>rf_surface = agreed_value (map rf_surface observed) 1,
          rf_carrier = agreed_value (map rf_carrier observed) 1,
          rf_rejection = agreed_value (map rf_rejection observed) rejection_quorum,
          rf_fit = (if fit = [] then unsettled_scope_fact env cached d vote_files else fit)\<rparr>)"

subsection \<open>The focused resolver\<close>

definition trigger_resolution_review_names ::
  "string option \<Rightarrow> string option \<Rightarrow> string \<Rightarrow> string \<Rightarrow> slot list" where
  "trigger_resolution_review_names first_vote second_vote first_fit second_fit =
     (if first_vote = Some ''Uncertain''
         \<or> first_vote = Some ''Promote'' \<and> first_fit \<notin> {''within'', ''outside''} then [Primary]
      else if first_vote = Some ''Reject'' \<and> second_vote \<in> {Some ''Promote'', Some ''Uncertain''} then
        [Primary, Second]
      else if first_vote = Some ''Promote'' \<and> (second_vote \<in> {Some ''Reject'', Some ''Uncertain''}
                \<or> second_vote = Some ''Promote'' \<and> second_fit \<noteq> first_fit) then [Primary, Second]
      else [])"

definition trigger_resolution_sources :: "gate_env \<Rightarrow> gate_dir \<Rightarrow> slot list" where
  "trigger_resolution_sources env d =
     trigger_resolution_review_names (cached_review env d Primary) (cached_review env d Second)
       (rf_fit (facts_from env (cached_review env d) d [Primary] 1))
       (rf_fit (facts_from env (cached_review env d) d [Second] 1))"

definition cached_trigger_vote :: "gate_env \<Rightarrow> gate_dir \<Rightarrow> slot \<Rightarrow> string option" where
  "cached_trigger_vote env d s =
     (if s = Resolution then vote_with env d (trigger_resolution_sources env d) s else cached_review env d s)"

definition source_facts :: "gate_env \<Rightarrow> gate_dir \<Rightarrow> slot list \<Rightarrow> nat \<Rightarrow> review_facts" where
  "source_facts env d vote_files rejection_quorum =
     facts_from env (cached_trigger_vote env d) d vote_files rejection_quorum"

definition promote_left_scope_open :: "gate_env \<Rightarrow> gate_dir \<Rightarrow> slot \<Rightarrow> bool" where
  "promote_left_scope_open env d s \<longleftrightarrow> cached_trigger_vote env d s = Some ''Promote''
     \<and> rf_fit (source_facts env d [s] 1) \<notin> {''within'', ''outside''}"

definition trigger_publication_evidence :: "gate_env \<Rightarrow> gate_dir \<Rightarrow> string option set \<times> review_facts" where
  "trigger_publication_evidence env d =
     (let reviews = [Primary, Second];
          resolution_vote = cached_trigger_vote env d Resolution;
          agreed = source_facts env d reviews 2
      in if resolution_vote = None then (cached_trigger_vote env d ` set reviews, agreed)
         else
           (let facts = source_facts env d [Resolution] 2
            in ({resolution_vote},
                facts\<lparr>rf_surface := str_or (rf_surface agreed) (rf_surface facts),
                  rf_carrier := str_or (rf_carrier agreed) (rf_carrier facts)\<rparr>)))"

subsection \<open>Publication\<close>

definition final_publication_state ::
  "string \<Rightarrow> string option set \<Rightarrow> review_facts \<Rightarrow> bool \<Rightarrow> bool \<Rightarrow> string" where
  "final_publication_state reach_verdict trigger_votes facts direct_trigger_proof resolved =
     (if reach_verdict = ''contract-flag'' \<or> rf_rejection facts = ''no-added-boundary'' then ''not-reportable''
      else if direct_trigger_proof then ''reportable''
      else if rf_fit facts = ''outside'' then ''not-reportable''
      else if trigger_votes \<inter> {Some ''Reject'', Some ''Uncertain''} \<noteq> {} then
        (if resolved then ''unsettled'' else ''pending'')
      else if rf_fit facts = ''within'' then ''reportable''
      else if trigger_votes - {None} \<noteq> {} then (if resolved then ''unsettled'' else ''pending'')
      else if reach_verdict = ''out-of-model'' then ''not-reportable'' else ''reportable'')"

definition UNSETTLED_REJECTION_PREFIX :: string where
  "UNSETTLED_REJECTION_PREFIX = ''unsettled-scope: ''"

definition UNSETTLED_REJECTION_REASON :: string where
  "UNSETTLED_REJECTION_REASON = UNSETTLED_REJECTION_PREFIX
     @ ''source review could not place the trigger inside the declared threat model''"

definition THREAT_MODEL_REJECTION_PREFIX :: string where
  "THREAT_MODEL_REJECTION_PREFIX = ''threat-model: ''"

definition OUT_OF_SCOPE_REJECTION_PREFIX :: string where
  "OUT_OF_SCOPE_REJECTION_PREFIX = ''out-of-scope: ''"

definition publication_rejection :: "string \<Rightarrow> bool" where
  "publication_rejection reason \<longleftrightarrow> py_startswith THREAT_MODEL_REJECTION_PREFIX reason
     \<or> py_startswith UNSETTLED_REJECTION_PREFIX reason \<or> py_startswith OUT_OF_SCOPE_REJECTION_PREFIX reason"

definition publication_detail ::
  "string \<Rightarrow> string \<Rightarrow> string \<Rightarrow> review_facts \<Rightarrow> string list \<Rightarrow> bool \<Rightarrow> string" where
  "publication_detail state reach_verdict reach_detail facts attacker_controls direct_trigger_proof =
     (let controls = py_join '','' attacker_controls
      in if state = ''pending'' then ''source review did not settle whether the trigger is in the threat model''
         else if reach_verdict = ''contract-flag'' then reach_detail
         else if rf_rejection facts = ''no-added-boundary'' then ''real defect that crosses no security boundary''
         else if direct_trigger_proof then
           ''confirmed probe placed the trigger within attacker_controls='' @ controls
         else if rf_fit facts \<in> {''within'', ''outside''} then
           ''source review placed the trigger '' @ rf_fit facts @ '' attacker_controls='' @ controls
         else reach_detail)"

definition publication_rejection_reason ::
  "string \<Rightarrow> string \<Rightarrow> string \<Rightarrow> review_facts \<Rightarrow> string list \<Rightarrow> string" where
  "publication_rejection_reason state reach_verdict reach_detail facts attacker_controls =
     (if state = ''unsettled'' then UNSETTLED_REJECTION_REASON
      else THREAT_MODEL_REJECTION_PREFIX
        @ publication_detail state reach_verdict reach_detail facts attacker_controls False)"

definition trigger_out_of_scope :: "string \<Rightarrow> string \<Rightarrow> review_facts \<Rightarrow> bool" where
  "trigger_out_of_scope state reach_verdict facts \<longleftrightarrow> state = ''not-reportable''
     \<and> reach_verdict \<noteq> ''contract-flag'' \<and> rf_rejection facts \<noteq> ''no-added-boundary''"

definition DISPOSITIVE_REJECTION_KINDS :: "string list" where
  "DISPOSITIVE_REJECTION_KINDS = [''contract-invalid'', ''unreachable'', ''nonshipping'']"

definition CONSEQUENCE_REJECTION_KIND :: string where
  "CONSEQUENCE_REJECTION_KIND = ''consequence-disproved''"

definition trigger_vote_payloads :: "gate_env \<Rightarrow> gate_dir \<Rightarrow> slot list \<Rightarrow> string \<Rightarrow> review_facts list" where
  "trigger_vote_payloads env d vote_files vote =
     concat (map (\<lambda>s. case gd_votes d s of None \<Rightarrow> []
       | Some p \<Rightarrow> if cached_trigger_vote env d s = Some vote then [vf_facts p] else []) vote_files)"

definition rejection_is_dispositive :: "gate_env \<Rightarrow> gate_dir \<Rightarrow> slot list \<Rightarrow> bool \<Rightarrow> bool" where
  "rejection_is_dispositive env d vote_files allow_consequence =
     (let allowed = DISPOSITIVE_REJECTION_KINDS
            @ (if allow_consequence then [CONSEQUENCE_REJECTION_KIND] else []);
          kinds = map (\<lambda>f. rf_rejection (source_review_facts f))
            (trigger_vote_payloads env d vote_files ''Reject'')
      in 2 \<le> length kinds \<and> list_all (\<lambda>k. k \<in> set allowed) kinds)"

end
