(* ===== verification/Lanes.thy ===== *)
theory Lanes
  imports Artifacts Hyps Quality Reviews
begin

text \<open>
  The lanes of a results directory (\<open>lib/triage.py\<close>): artifacts in \<open>findings/\<close>, \<open>crashes/\<close> and their
  rejected trees, and the moves between them that triage makes: rejection, restoration, demotion. A
  move rewrites the artifact's name on a collision, annotates it, writes its receipt, keeps or retires
  the advice about unreachable routes, and carries the decision into the shared ledgers. A receipt is
  kept with what it says; whether it still describes the artifact on disk is a parameter of the gates.
\<close>

subsection \<open>Artifacts and lanes\<close>

text \<open>\<open>Duplicates\<close> is the hidden directory beside the crashes where folded bundles are kept.\<close>

datatype lane = Findings | Findings_Rejected | Crashes | Crashes_Rejected | Duplicates

definition lane_name :: "lane \<Rightarrow> string" where
  "lane_name l = (case l of Findings \<Rightarrow> ''findings'' | Findings_Rejected \<Rightarrow> ''findings-rejected''
     | Crashes \<Rightarrow> ''crashes'' | Crashes_Rejected \<Rightarrow> ''crashes-rejected''
     | Duplicates \<Rightarrow> ''.duplicates'')"

record vreceipt =
  vr_kind :: string
  vr_state :: string
  vr_detail :: string
  vr_controls :: "string list option"
  vr_facts :: review_facts

text \<open>A version-4 probe context, as \<open>bin/probe --confirm\<close> wrote it: \<open>None\<close> stands for a field that is missing or
  of another type. Whether the binary is an executable inside the target tree is read off the disk.\<close>

datatype probe_harness = No_Harness | Harness_File string | Harness_Unknown

record probe_context =
  pc_mode :: "string option"
  pc_sanitizer :: "string option"
  pc_harness :: probe_harness
  pc_args :: "string list option"
  pc_build_config :: "string option"
  pc_build_recipe :: "string option"
  pc_binary_in_target :: bool

text \<open>A crash state: sanitizer, kind of fault, and the signature frames of the use and the free stack.\<close>

type_synonym crash_state = "string \<times> string \<times> string list \<times> string list"

text \<open>The files of a crash bundle: the text of \<open>sanitizer.txt\<close> and of the primary sanitizer log found
  instead, testcase and harness, the target units the harness compiles (\<open>None\<close>: the scan could not
  run), the draft under \<open>.audit\<close>, the rendered report and script, the \<open>input.*\<close> files with whether they
  are non-empty, whether the draft is newer than the rendering, the probe context and whether it is
  verified, the status of the differential, and when the bundle was filed. What is read off stack
  frames (whose frame faulted, the crash state) is the answer of \<open>lib/stack_frames.py\<close> and \<open>bin/severity\<close>.\<close>

record bundle_files =
  bf_exact :: "string option"
  bf_primary :: "string option"
  bf_testcase :: bool
  bf_harness :: bool
  bf_own_harness :: bool
  bf_units :: "string list option"
  bf_draft :: bool
  bf_rendered :: bool
  bf_script :: bool
  bf_inputs :: "(string \<times> bool) list"
  bf_stale :: bool
  bf_context :: "probe_context option"
  bf_verified :: bool
  bf_differential :: "string option"
  bf_fault_in_target :: bool
  bf_harness_rooted :: bool
  bf_state :: "crash_state option"
  bf_filed :: "int option"

text \<open>An artifact directory: what the quality gate and the source reviews read of it, the agents'
  evidence of its bundle, \<open>rejection.md\<close>, the receipt and the sidecars triage itself writes.\<close>

record artifact =
  ar_dir :: fdir
  ar_gate :: gate_dir
  ar_named :: "string list"
  ar_digests :: "string list"
  ar_rejection :: string
  ar_receipt :: "vreceipt option"
  ar_needs_content :: bool
  ar_drop :: "(int \<times> string) option"
  ar_flagged :: bool
  ar_pending :: "string list"
  ar_pending_sig :: string
  ar_pending_count :: int
  ar_files :: bundle_files

text \<open>A line of \<open>unreachable-routes.jsonl\<close>.\<close>

record route =
  ro_sites :: "(string \<times> string \<times> int) list"
  ro_artifact :: string
  ro_lane :: string
  ro_summary :: string
  ro_kind :: string
  ro_recorded_at :: string

record results =
  rs_lanes :: "lane \<Rightarrow> (string \<times> artifact) list"
  rs_store :: store
  rs_routes :: "route list"

abbreviation lane_names :: "results \<Rightarrow> lane \<Rightarrow> string list" where
  "lane_names rs l \<equiv> map fst (rs_lanes rs l)"

definition bundle_of :: "string \<Rightarrow> artifact \<Rightarrow> art" where
  "bundle_of name a = \<lparr>bd_name = name, bd_named = ar_named a, bd_digests = ar_digests a\<rparr>"

definition report_of :: "artifact \<Rightarrow> string" where
  "report_of a = (case fd_report (ar_dir a) of Some t \<Rightarrow> t | None \<Rightarrow> [])"

definition set_artifact :: "lane \<Rightarrow> string \<Rightarrow> artifact \<Rightarrow> results \<Rightarrow> results" where
  "set_artifact l name a rs =
     rs\<lparr>rs_lanes := (rs_lanes rs)(l := AList.update name a (rs_lanes rs l))\<rparr>"

definition write_receipt :: "string \<Rightarrow> string \<Rightarrow> string \<Rightarrow> string list option \<Rightarrow> review_facts \<Rightarrow> artifact \<Rightarrow> artifact" where
  "write_receipt kind state detail controls facts a =
     a\<lparr>ar_receipt := Some \<lparr>vr_kind = kind, vr_state = state, vr_detail = detail,
        vr_controls = controls, vr_facts = facts\<rparr>\<rparr>"

subsection \<open>Names and reports\<close>

text \<open>The time stamp of a collision suffix, and the first free serial.\<close>

definition utc_stamp :: "int \<Rightarrow> string" where
  "utc_stamp now = filter (\<lambda>c. c \<notin> {CHR ''-'', CHR '':''}) (now_iso now)"

definition collision_name :: "string \<Rightarrow> string \<Rightarrow> nat \<Rightarrow> string" where
  "collision_name name stamp serial = name @ ''.'' @ stamp @ ''.'' @ nat_str serial"

partial_function (option) free_serial :: "string list \<Rightarrow> string \<Rightarrow> string \<Rightarrow> nat \<Rightarrow> string option" where
  "free_serial taken name stamp serial =
     (if collision_name name stamp serial \<notin> set taken then Some (collision_name name stamp serial)
      else free_serial taken name stamp (serial + 1))"

declare free_serial.simps [code]

definition unique_destination :: "string list \<Rightarrow> string \<Rightarrow> int \<Rightarrow> string option" where
  "unique_destination taken name now =
     (if name \<notin> set taken then Some name else free_serial taken name (utc_stamp now) 1)"

definition concern_re :: rx where
  "concern_re =
     rseq [ropt (rset [CLit newline]), rstr ''## Contract concern'', rstar (rset [CSpc]), rset [CLit newline],
       RRep False 0 None (rnot []),
       RLook True (RAlt (rseq [rset [CLit newline], ralt [rstr ''## '', rstr ''Summary:'']])
         (RLook False (rnot [])))]"

definition without_concern :: "string \<Rightarrow> string" where
  "without_concern report_text = re_sub concern_re False [] report_text"

definition set_report :: "string \<Rightarrow> artifact \<Rightarrow> artifact" where
  "set_report text a = a\<lparr>ar_dir := (ar_dir a)\<lparr>fd_report := Some text\<rparr>\<rparr>"

definition clear_contract_concern :: "artifact \<Rightarrow> artifact" where
  "clear_contract_concern a =
     (case fd_report (ar_dir a) of None \<Rightarrow> a
      | Some text \<Rightarrow>
          (let updated = without_concern text; a' = a\<lparr>ar_flagged := False\<rparr>
           in if updated \<noteq> text then set_report (py_rstrip updated @ [newline]) a' else a'))"

text \<open>\<open>rejection.md\<close>, and the reason it names.\<close>

definition annotate_rejection :: "string \<Rightarrow> string" where
  "annotate_rejection reason =
     ''# Rejected artifact'' @ [newline, newline] @ ''Reason: '' @ reason @ [newline, newline]
       @ ''The original evidence is retained for audit and can be restored after review.'' @ [newline]"

definition reason_re :: rx where
  "reason_re = rseq [RBol, rstr ''Reason:'', rstar (rset [CSpc]), RGrp 1 (rplus RAny), REol]"

definition rejection_reason :: "artifact \<Rightarrow> string" where
  "rejection_reason a = (case re_search reason_re False (ar_rejection a) of
     Some hit \<Rightarrow> py_strip (re_group 1 hit) | None \<Rightarrow> [])"

subsection \<open>Advice about unreachable routes\<close>

definition unreachable_route_summary :: "string \<Rightarrow> nat \<Rightarrow> string" where
  "unreachable_route_summary text limit =
     (let compact = py_join '' '' (py_words [] text)
      in if length compact \<le> limit then compact
         else py_rstrip (take (limit - 1) compact) @ [ELLIPSIS])"

definition route_sites :: "anchor list \<Rightarrow> (string \<times> string \<times> int) list" where
  "route_sites anchors =
     filter (\<lambda>(file, _). file \<noteq> [])
       (map (\<lambda>a. (normalized_relpath (an_path a), an_symbol a, an_line a))
         (filter (\<lambda>a. an_path a \<noteq> []) anchors))"

definition route_from :: "string \<Rightarrow> vote_file option \<Rightarrow> (string \<times> (string \<times> string \<times> int) list) option" where
  "route_from out_of_model vote =
     (case vote of None \<Rightarrow> None
      | Some p \<Rightarrow>
          (let summary = unreachable_route_summary (str_or out_of_model (vf_disproof p)) 300;
               sites = route_sites (vf_anchors p)
           in if summary = [] \<or> vf_anchors_verified p = Some False \<or> sites = [] then None
              else Some (summary, sites)))"

definition record_unreachable_route ::
  "string \<Rightarrow> lane \<Rightarrow> artifact \<Rightarrow> string \<Rightarrow> int \<Rightarrow> results \<Rightarrow> results" where
  "record_unreachable_route name l a out_of_model now rs =
     (case List.map_filter (route_from out_of_model) (map (gd_votes (ar_gate a)) [Primary, Second, Resolution]) of
        [] \<Rightarrow> rs
      | (summary, sites) # _ \<Rightarrow>
          rs\<lparr>rs_routes := rs_routes rs @ [\<lparr>ro_sites = sites, ro_artifact = name, ro_lane = lane_name l,
            ro_summary = summary, ro_kind = (if out_of_model \<noteq> [] then ''out-of-model'' else ''disproved''),
            ro_recorded_at = now_iso now\<rparr>]\<rparr>)"

definition retract_unreachable_route :: "string \<Rightarrow> lane \<Rightarrow> results \<Rightarrow> results" where
  "retract_unreachable_route name l rs =
     rs\<lparr>rs_routes := filter (\<lambda>r. \<not> (ro_lane r = lane_name l \<and> ro_artifact r = name)) (rs_routes rs)\<rparr>"

definition py_removeprefix :: "string \<Rightarrow> string \<Rightarrow> string" where
  "py_removeprefix pre s = (if py_startswith pre s then drop (length pre) s else s)"

definition out_of_model_route :: "artifact \<Rightarrow> string \<Rightarrow> string" where
  "out_of_model_route a reason =
     (let remark = py_strip (py_removeprefix THREAT_MODEL_REJECTION_PREFIX reason);
          trigger = (if fd_report (ar_dir a) = None then [] else report_field (report_of a) ''Trigger source'')
      in if trigger \<noteq> [] then remark @ '' (reported trigger source: '' @ trigger @ '')'' else remark)"

subsection \<open>Moves\<close>

definition move_artifact :: "lane \<Rightarrow> string \<Rightarrow> lane \<Rightarrow> string \<Rightarrow> artifact \<Rightarrow> results \<Rightarrow> results" where
  "move_artifact l name l' name' a rs =
     rs\<lparr>rs_lanes := (let left = (rs_lanes rs)(l := AList.delete name (rs_lanes rs l))
        in left(l' := left l' @ [(name', a\<lparr>ar_dir := (ar_dir a)\<lparr>fd_name := name'\<rparr>\<rparr>)]))\<rparr>"

definition rejected_lane :: "lane \<Rightarrow> lane" where
  "rejected_lane l = (case l of Crashes \<Rightarrow> Crashes_Rejected | Findings \<Rightarrow> Findings_Rejected | _ \<Rightarrow> l)"

definition artifact_kind :: "string \<Rightarrow> string" where
  "artifact_kind name = (if py_startswith ''CRASH-'' name then ''crash'' else ''finding'')"

definition reject_artifact ::
  "int \<Rightarrow> lane \<Rightarrow> string \<Rightarrow> string \<Rightarrow> string \<Rightarrow> bool \<Rightarrow> results \<Rightarrow> results" where
  "reject_artifact now l name reason category out_of_scope rs =
     (case map_of (rs_lanes rs l) name of None \<Rightarrow> rs
      | Some a \<Rightarrow>
          (let out_of_model = (if out_of_scope then out_of_model_route a reason else []);
               a1 = write_receipt (artifact_kind name) ''rejected'' reason None no_facts
                      ((clear_contract_concern a)\<lparr>ar_rejection := annotate_rejection reason\<rparr>)
           in case unique_destination (lane_names rs (rejected_lane l)) name now of None \<Rightarrow> rs
              | Some destination \<Rightarrow>
                  (let rs1 = move_artifact l name (rejected_lane l) destination a1 rs;
                       rs2 = (if category = UNREACHABLE_REJECTION_CATEGORY
                              then record_unreachable_route destination (rejected_lane l) a1 [] now rs1
                              else if out_of_model \<noteq> []
                              then record_unreachable_route destination (rejected_lane l) a1 out_of_model now rs1
                              else rs1)
                   in rs2\<lparr>rs_store := snd (record_artifact_rejection (rs_store rs2) name reason category
                        (Some (bundle_of destination a1)) now)\<rparr>)))"

definition active_lane :: "lane \<Rightarrow> lane" where
  "active_lane l = (case l of Crashes_Rejected \<Rightarrow> Crashes | Findings_Rejected \<Rightarrow> Findings | _ \<Rightarrow> l)"

definition restore_rejected_artifact ::
  "int \<Rightarrow> lane \<Rightarrow> string \<Rightarrow> string \<Rightarrow> string \<Rightarrow> results \<Rightarrow> results" where
  "restore_rejected_artifact now l name kind detail rs =
     (case map_of (rs_lanes rs l) name of None \<Rightarrow> rs
      | Some a \<Rightarrow>
          (case unique_destination (lane_names rs (active_lane l)) name now of None \<Rightarrow> rs
           | Some destination \<Rightarrow>
               (let a1 = write_receipt kind ''pending'' detail None no_facts (a\<lparr>ar_rejection := []\<rparr>);
                    rs1 = retract_unreachable_route name l (move_artifact l name (active_lane l) destination a1 rs)
                in rs1\<lparr>rs_store := snd (record_artifact_reconsideration (rs_store rs1) name detail
                     (Some (bundle_of destination a1)) now)\<rparr>)))"

definition clear_promotion_sidecars :: "artifact \<Rightarrow> artifact" where
  "clear_promotion_sidecars a = a\<lparr>ar_pending := [], ar_pending_sig := [], ar_pending_count := 0\<rparr>"

definition demoted_name :: "string \<Rightarrow> string" where
  "demoted_name name =
     (if py_startswith ''CRASH-'' name then ''FIND-'' @ py_removeprefix ''CRASH-'' name else ''FIND-'' @ name)"

definition demote_to_finding :: "int \<Rightarrow> string \<Rightarrow> string \<Rightarrow> results \<Rightarrow> results" where
  "demote_to_finding now name reason rs =
     (case map_of (rs_lanes rs Crashes) name of None \<Rightarrow> rs
      | Some a \<Rightarrow>
          (let a1 = (case fd_report (ar_dir a) of None \<Rightarrow> a
                 | Some text \<Rightarrow> set_report (text @ [newline] @ ''## Triage disposition'' @ [newline, newline]
                     @ ''Demoted from `crashes/`: '' @ reason @ ''.'' @ [newline]) a);
               a2 = clear_promotion_sidecars a1
           in case unique_destination (lane_names rs Findings) (demoted_name name) now of None \<Rightarrow> rs
              | Some destination \<Rightarrow> move_artifact Crashes name Findings destination a2 rs))"

subsection \<open>A free name is always found\<close>

lemma collision_name_inj: "collision_name name stamp i = collision_name name stamp j \<Longrightarrow> i = j"
proof -
  assume "collision_name name stamp i = collision_name name stamp j"
  then have "nat_str i = nat_str j" by (simp add: collision_name_def)
  then have "Some (int i) = Some (int j)" by (metis py_int_nat_str(2))
  then show "i = j" by simp
qed

lemma some_serial_free: "\<exists>k\<ge>n. collision_name name stamp k \<notin> set taken"
proof (rule ccontr)
  assume "\<not> ?thesis"
  then have "collision_name name stamp ` {n..} \<subseteq> set taken" by auto
  then have "finite (collision_name name stamp ` {n..})" by (rule finite_subset) simp
  moreover have "inj_on (collision_name name stamp) {n..}" by (rule inj_onI) (rule collision_name_inj)
  ultimately have "finite {n..}" by (rule finite_imageD)
  then show False by (simp add: infinite_Ici)
qed

lemma free_serial_from:
  assumes "collision_name name stamp k \<notin> set taken" "n \<le> k"
  shows "\<exists>d. free_serial taken name stamp n = Some d \<and> d \<notin> set taken
    \<and> (\<exists>i. d = collision_name name stamp i)"
  using assms(2)
proof (induction "k - n" arbitrary: n)
  case 0
  then have "k = n" by simp
  then show ?case using assms(1) by (subst free_serial.simps) auto
next
  case (Suc m)
  show ?case
  proof (cases "collision_name name stamp n \<in> set taken")
    case True
    have "m = k - (n + 1)" "n + 1 \<le> k" using Suc.hyps(2) by linarith+
    from Suc.hyps(1) [OF this] show ?thesis using True by (subst free_serial.simps) simp
  qed (subst free_serial.simps, auto)
qed

lemma unique_destination_total:
  obtains d where "unique_destination taken name now = Some d" "d \<notin> set taken"
    "d = name \<or> (name \<in> set taken \<and> (\<exists>i. d = collision_name name (utc_stamp now) i))"
proof (cases "name \<in> set taken")
  case True
  obtain k where "1 \<le> k" "collision_name name (utc_stamp now) k \<notin> set taken"
    using some_serial_free by blast
  then show ?thesis using free_serial_from True that by (metis unique_destination_def)
next
  case False
  then show ?thesis using that [of name] by (simp add: unique_destination_def)
qed

lemma unique_destination_free:
  "unique_destination taken name now = Some d \<Longrightarrow> d \<notin> set taken"
  using unique_destination_total [of taken name now] by (metis option.inject)

lemma unique_destination_id [simp]:
  "name \<notin> set taken \<Longrightarrow> unique_destination taken name now = Some name"
  by (simp add: unique_destination_def)

subsection \<open>Moves keep the lanes in order\<close>

text \<open>In every lane the names are distinct, and an artifact knows the name it is filed under.\<close>

definition lanes_ok :: "results \<Rightarrow> bool" where
  "lanes_ok rs \<longleftrightarrow> (\<forall>l. distinct (lane_names rs l)
     \<and> (\<forall>(n, a) \<in> set (rs_lanes rs l). fd_name (ar_dir a) = n))"

text \<open>Every route note speaks of an artifact that is still filed where the note says.\<close>

definition routes_live :: "results \<Rightarrow> bool" where
  "routes_live rs \<longleftrightarrow> (\<forall>r \<in> set (rs_routes rs). \<exists>l. ro_lane r = lane_name l
     \<and> l \<in> {Findings_Rejected, Crashes_Rejected} \<and> ro_artifact r \<in> set (lane_names rs l))"

definition artifact_count :: "results \<Rightarrow> nat" where
  "artifact_count rs = (\<Sum>l \<in> {Findings, Findings_Rejected, Crashes, Crashes_Rejected, Duplicates}.
     length (rs_lanes rs l))"

lemma lane_name_inj [simp]: "lane_name l = lane_name l' \<longleftrightarrow> l = l'"
  by (cases l; cases l') (simp_all add: lane_name_def)

lemma length_delete_distinct:
  "distinct (map fst xs) \<Longrightarrow> x \<in> set (map fst xs) \<Longrightarrow> Suc (length (AList.delete x xs)) = length xs"
  by (induction xs) (auto simp: delete_id)

lemma move_lanes:
  "rs_lanes (move_artifact l name l' name' a rs) m =
     (let left = (if m = l then AList.delete name (rs_lanes rs m) else rs_lanes rs m)
      in if m = l' then left @ [(name', a\<lparr>ar_dir := (ar_dir a)\<lparr>fd_name := name'\<rparr>\<rparr>)] else left)"
  "rs_store (move_artifact l name l' name' a rs) = rs_store rs"
  "rs_routes (move_artifact l name l' name' a rs) = rs_routes rs"
  by (simp_all add: move_artifact_def Let_def)

lemma map_fst_delete: "map fst (AList.delete name xs) = filter (\<lambda>n. n \<noteq> name) (map fst xs)"
  by (induction xs) auto

lemma set_delete: "set (AList.delete name xs) = {p \<in> set xs. fst p \<noteq> name}"
  by (auto simp: AList.delete_eq)

lemma move_ok:
  assumes "lanes_ok rs" "name' \<notin> set (lane_names rs l')"
  shows "lanes_ok (move_artifact l name l' name' a rs)"
  unfolding lanes_ok_def
proof (intro allI conjI)
  fix m
  show "distinct (lane_names (move_artifact l name l' name' a rs) m)"
    using assms by (auto simp: lanes_ok_def move_lanes Let_def map_fst_delete simp flip: set_map)
  show "\<forall>(n, a') \<in> set (rs_lanes (move_artifact l name l' name' a rs) m). fd_name (ar_dir a') = n"
    using assms by (auto simp: lanes_ok_def move_lanes Let_def set_delete)
qed

lemma move_count:
  assumes "lanes_ok rs" "map_of (rs_lanes rs l) name = Some b"
  shows "artifact_count (move_artifact l name l' name' a rs) = artifact_count rs"
proof -
  have "distinct (lane_names rs l)" using assms(1) by (simp add: lanes_ok_def)
  moreover have "name \<in> set (lane_names rs l)" using assms(2) by (force dest: map_of_SomeD)
  ultimately have "Suc (length (AList.delete name (rs_lanes rs l))) = length (rs_lanes rs l)"
    by (rule length_delete_distinct)
  then show ?thesis by (cases l; cases l') (simp_all add: artifact_count_def move_lanes)
qed

lemma move_arrives:
  "name' \<notin> set (lane_names rs l') \<Longrightarrow>
   map_of (rs_lanes (move_artifact l name l' name' a rs) l') name' =
     Some (a\<lparr>ar_dir := (ar_dir a)\<lparr>fd_name := name'\<rparr>\<rparr>)"
  by (simp add: move_lanes Let_def map_add_def map_of_eq_None_iff set_delete image_iff split: option.split)
     (force dest: map_of_SomeD simp: set_delete)

lemma move_elsewhere:
  "m \<noteq> l' \<or> n \<noteq> name' \<Longrightarrow> m \<noteq> l \<or> n \<noteq> name \<Longrightarrow>
   map_of (rs_lanes (move_artifact l name l' name' a rs) m) n = map_of (rs_lanes rs m) n"
  by (auto simp: move_lanes Let_def delete_conv' map_add_def split: option.split)

subsection \<open>No artifact is lost\<close>

definition filed_ok :: "results \<Rightarrow> bool" where
  "filed_ok rs \<longleftrightarrow> lanes_ok rs \<and> routes_live rs"

definition steady :: "results \<Rightarrow> results \<Rightarrow> bool" where
  "steady rs rs' \<longleftrightarrow> (filed_ok rs \<longrightarrow> filed_ok rs' \<and> artifact_count rs' = artifact_count rs)"

lemma steady_refl [simp, intro]: "steady rs rs"
  by (simp add: steady_def)

lemma steady_trans: "steady rs rs' \<Longrightarrow> steady rs' rs'' \<Longrightarrow> steady rs rs''"
  by (simp add: steady_def)

lemma set_artifact_lanes:
  "rs_lanes (set_artifact l name a rs) m =
     (if m = l then AList.update name a (rs_lanes rs l) else rs_lanes rs m)"
  "rs_store (set_artifact l name a rs) = rs_store rs"
  "rs_routes (set_artifact l name a rs) = rs_routes rs"
  by (simp_all add: set_artifact_def)

lemma map_fst_update:
  "x \<in> set (map fst xs) \<Longrightarrow> map fst (AList.update x v xs) = map fst xs"
  by (simp add: update_keys)

lemma set_artifact_at [simp]:
  "map_of (rs_lanes (set_artifact l name a rs) l) name = Some a"
  by (simp add: set_artifact_lanes update_conv')

lemma map_of_names: "map_of xs name = Some b \<Longrightarrow> name \<in> set (map fst xs)"
  by (force dest: map_of_SomeD)

lemma set_artifact_names:
  "map_of (rs_lanes rs l) name = Some b \<Longrightarrow> lane_names (set_artifact l name a rs) m = lane_names rs m"
  by (cases "m = l") (simp_all add: set_artifact_lanes map_fst_update [OF map_of_names])

lemma update_entries:
  "distinct (map fst xs) \<Longrightarrow> p \<in> set (AList.update x v xs) \<Longrightarrow> p = (x, v) \<or> p \<in> set xs"
  by (induction xs) (auto split: if_splits)

lemma steady_set:
  assumes "map_of (rs_lanes rs l) name = Some b" "fd_name (ar_dir a) = name"
  shows "steady rs (set_artifact l name a rs)"
  unfolding steady_def
proof
  assume ok: "filed_ok rs"
  note names = set_artifact_names [OF assms(1), of a]
  have "lanes_ok (set_artifact l name a rs)"
    unfolding lanes_ok_def names
  proof (intro allI conjI)
    fix m
    show "distinct (lane_names rs m)" using ok by (simp add: filed_ok_def lanes_ok_def)
    have old: "p \<in> set (rs_lanes rs m) \<Longrightarrow> fd_name (ar_dir (snd p)) = fst p" for p m
      using ok by (fastforce simp: filed_ok_def lanes_ok_def)
    have "fd_name (ar_dir (snd p)) = fst p" if "p \<in> set (rs_lanes (set_artifact l name a rs) m)" for p
    proof (cases "m = l")
      case True
      have "distinct (lane_names rs l)" using ok by (simp add: filed_ok_def lanes_ok_def)
      then have "p = (name, a) \<or> p \<in> set (rs_lanes rs l)"
        using update_entries [of "rs_lanes rs l" p name a] that True by (simp add: set_artifact_lanes)
      then show ?thesis using old assms(2) by auto
    qed (use that old in \<open>simp add: set_artifact_lanes\<close>)
    then show "\<forall>(n, c) \<in> set (rs_lanes (set_artifact l name a rs) m). fd_name (ar_dir c) = n" by auto
  qed
  moreover have "routes_live (set_artifact l name a rs)"
    using ok by (simp add: filed_ok_def routes_live_def names set_artifact_lanes(3))
  moreover have "length (rs_lanes (set_artifact l name a rs) m) = length (rs_lanes rs m)" for m
    using names [of m] by (metis length_map)
  then have "artifact_count (set_artifact l name a rs) = artifact_count rs"
    by (simp add: artifact_count_def)
  ultimately show "filed_ok (set_artifact l name a rs)
      \<and> artifact_count (set_artifact l name a rs) = artifact_count rs" by (simp add: filed_ok_def)
qed

text \<open>A move out of an active lane, with a note about where the artifact went.\<close>

lemma routes_move:
  assumes "routes_live rs" "l \<in> {Findings, Crashes}"
  shows "routes_live (move_artifact l name l' name' a rs)"
  using assms by (fastforce simp: routes_live_def move_lanes Let_def)

lemma routes_record:
  assumes "routes_live rs" "l \<in> {Findings_Rejected, Crashes_Rejected}" "name \<in> set (lane_names rs l)"
  shows "routes_live (record_unreachable_route name l a oom now rs)"
  using assms by (auto simp: routes_live_def record_unreachable_route_def split: list.split)

lemma record_route_lanes [simp]:
  "rs_lanes (record_unreachable_route name l a oom now rs) = rs_lanes rs"
  "rs_store (record_unreachable_route name l a oom now rs) = rs_store rs"
  by (auto simp: record_unreachable_route_def split: list.split)

lemma steady_store: "steady rs (rs'\<lparr>rs_store := st\<rparr>) = steady rs rs'"
  by (simp add: steady_def filed_ok_def lanes_ok_def routes_live_def artifact_count_def)

lemma reject_steady:
  assumes "l \<in> {Findings, Crashes}"
  shows "steady rs (reject_artifact now l name reason category oos rs)"
proof (cases "map_of (rs_lanes rs l) name")
  case (Some a)
  define a1 where "a1 = write_receipt (artifact_kind name) ''rejected'' reason None no_facts
    ((clear_contract_concern a)\<lparr>ar_rejection := annotate_rejection reason\<rparr>)"
  obtain d where d: "unique_destination (lane_names rs (rejected_lane l)) name now = Some d"
    "d \<notin> set (lane_names rs (rejected_lane l))"
    by (rule unique_destination_total)
  define rs1 where "rs1 = move_artifact l name (rejected_lane l) d a1 rs"
  have rl: "rejected_lane l \<in> {Findings_Rejected, Crashes_Rejected}"
    using assms by (auto simp: rejected_lane_def)
  have arrived: "d \<in> set (lane_names rs1 (rejected_lane l))"
    using move_arrives [OF d(2)] unfolding rs1_def by (force dest: map_of_SomeD)
  have base: "steady rs rs1"
    using move_ok [of rs d "rejected_lane l"] d(2) move_count [OF _ Some] routes_move assms
    by (simp add: steady_def filed_ok_def rs1_def)
  have noted: "steady rs1 (record_unreachable_route d (rejected_lane l) a1 o2 now rs1)" for o2
    using routes_record [OF _ rl arrived] by (simp add: steady_def filed_ok_def lanes_ok_def artifact_count_def)
  define rs2 where "rs2 = (if category = UNREACHABLE_REJECTION_CATEGORY
      then record_unreachable_route d (rejected_lane l) a1 [] now rs1
      else if (if oos then out_of_model_route a reason else []) \<noteq> []
      then record_unreachable_route d (rejected_lane l) a1 (if oos then out_of_model_route a reason else []) now rs1
      else rs1)"
  have "steady rs rs2" using base steady_trans [OF base noted] by (simp add: rs2_def)
  moreover have "reject_artifact now l name reason category oos rs = rs2\<lparr>rs_store :=
      snd (record_artifact_rejection (rs_store rs2) name reason category (Some (bundle_of d a1)) now)\<rparr>"
    by (simp add: reject_artifact_def Some d(1) Let_def a1_def rs1_def rs2_def)
  ultimately show ?thesis by (simp add: steady_store)
qed (simp add: reject_artifact_def)

lemma restore_steady:
  assumes "l \<in> {Findings_Rejected, Crashes_Rejected}"
  shows "steady rs (restore_rejected_artifact now l name kind detail rs)"
proof (cases "map_of (rs_lanes rs l) name")
  case (Some a)
  define a1 where "a1 = write_receipt kind ''pending'' detail None no_facts (a\<lparr>ar_rejection := []\<rparr>)"
  obtain d where d: "unique_destination (lane_names rs (active_lane l)) name now = Some d"
    "d \<notin> set (lane_names rs (active_lane l))"
    by (rule unique_destination_total)
  have al: "active_lane l \<in> {Findings, Crashes}" "active_lane l \<noteq> l"
    using assms by (auto simp: active_lane_def)
  define rs1 where "rs1 = move_artifact l name (active_lane l) d a1 rs"
  have "routes_live (retract_unreachable_route name l rs1)" if live: "routes_live rs"
    unfolding routes_live_def
  proof
    fix r assume r: "r \<in> set (rs_routes (retract_unreachable_route name l rs1))"
    then have "r \<in> set (rs_routes rs)" and keep: "\<not> (ro_lane r = lane_name l \<and> ro_artifact r = name)"
      by (simp_all add: retract_unreachable_route_def rs1_def move_lanes)
    then obtain m where m: "ro_lane r = lane_name m" "m \<in> {Findings_Rejected, Crashes_Rejected}"
      "ro_artifact r \<in> set (lane_names rs m)" using live unfolding routes_live_def by blast
    have "ro_artifact r \<in> set (lane_names (retract_unreachable_route name l rs1) m)"
      using m keep al by (auto simp: retract_unreachable_route_def rs1_def move_lanes Let_def set_delete image_iff)
    then show "\<exists>m. ro_lane r = lane_name m \<and> m \<in> {Findings_Rejected, Crashes_Rejected}
        \<and> ro_artifact r \<in> set (lane_names (retract_unreachable_route name l rs1) m)" using m by blast
  qed
  moreover have "lanes_ok rs1 \<and> artifact_count rs1 = artifact_count rs" if "lanes_ok rs"
    using move_ok [OF that d(2)] move_count [OF that Some] by (simp add: rs1_def)
  ultimately show ?thesis
    by (simp add: restore_rejected_artifact_def Some d(1) Let_def steady_store flip: a1_def rs1_def)
       (simp add: steady_def filed_ok_def lanes_ok_def routes_live_def artifact_count_def
         retract_unreachable_route_def)
qed (simp add: restore_rejected_artifact_def)

lemma demote_steady: "steady rs (demote_to_finding now name reason rs)"
proof (cases "map_of (rs_lanes rs Crashes) name")
  case (Some a)
  obtain d where d: "unique_destination (lane_names rs Findings) (demoted_name name) now = Some d"
    "d \<notin> set (lane_names rs Findings)"
    by (rule unique_destination_total)
  show ?thesis
    using move_ok [of rs d Findings] d move_count [OF _ Some] routes_move [of rs Crashes]
    by (simp add: demote_to_finding_def Some Let_def steady_def filed_ok_def)
qed (simp add: demote_to_finding_def)

subsection \<open>Where an artifact goes\<close>

definition rejected_artifact :: "string \<Rightarrow> string \<Rightarrow> string \<Rightarrow> artifact \<Rightarrow> artifact" where
  "rejected_artifact name destination reason a =
     (write_receipt (artifact_kind name) ''rejected'' reason None no_facts
        ((clear_contract_concern a)\<lparr>ar_rejection := annotate_rejection reason\<rparr>))
     \<lparr>ar_dir := (ar_dir (clear_contract_concern a))\<lparr>fd_name := destination\<rparr>\<rparr>"

lemma rs_lanes_store [simp]: "rs_lanes (rs\<lparr>rs_store := st\<rparr>) = rs_lanes rs"
  by simp

lemma reject_lanes:
  assumes "map_of (rs_lanes rs l) name = Some a"
    and "unique_destination (lane_names rs (rejected_lane l)) name now = Some d"
  shows "rs_lanes (reject_artifact now l name reason category oos rs) =
    rs_lanes (move_artifact l name (rejected_lane l) d (write_receipt (artifact_kind name) ''rejected'' reason
      None no_facts ((clear_contract_concern a)\<lparr>ar_rejection := annotate_rejection reason\<rparr>)) rs)"
  using assms by (simp add: reject_artifact_def Let_def)

lemma reject_arrives:
  assumes "map_of (rs_lanes rs l) name = Some a"
    and "unique_destination (lane_names rs (rejected_lane l)) name now = Some d"
  shows "map_of (rs_lanes (reject_artifact now l name reason category oos rs) (rejected_lane l)) d =
    Some (rejected_artifact name d reason a)"
  unfolding reject_lanes [OF assms] move_arrives [OF unique_destination_free [OF assms(2)]]
  by (simp add: rejected_artifact_def write_receipt_def)

lemma restore_lanes:
  assumes "map_of (rs_lanes rs l) name = Some a"
    and "unique_destination (lane_names rs (active_lane l)) name now = Some d"
  shows "rs_lanes (restore_rejected_artifact now l name kind detail rs) =
    rs_lanes (move_artifact l name (active_lane l) d (write_receipt kind ''pending'' detail None no_facts
      (a\<lparr>ar_rejection := []\<rparr>)) rs)"
  using assms by (simp add: restore_rejected_artifact_def Let_def retract_unreachable_route_def)

lemma restore_arrives:
  assumes "map_of (rs_lanes rs l) name = Some a"
    and "unique_destination (lane_names rs (active_lane l)) name now = Some d"
  shows "map_of (rs_lanes (restore_rejected_artifact now l name kind detail rs) (active_lane l)) d =
    Some ((write_receipt kind ''pending'' detail None no_facts (a\<lparr>ar_rejection := []\<rparr>))
      \<lparr>ar_dir := (ar_dir a)\<lparr>fd_name := d\<rparr>\<rparr>)"
  unfolding restore_lanes [OF assms] move_arrives [OF unique_destination_free [OF assms(2)]]
  by (simp add: write_receipt_def)

end
