(* ===== verification/Gate.thy ===== *)
theory Gate
  imports Lanes
begin

text \<open>
  The source reviews of a finding (\<open>lib/triage.py\<close>): how a reviewer is asked, and the disposition the
  votes of up to three reviewers lead to. What a reviewer writes is a parameter.
\<close>

subsection \<open>Asking a reviewer\<close>

text \<open>\<open>rv_run\<close> is the review session for a slot: its prior reviews, whether through the reachability
  lens, and the directory it reads; it says whether it ran out of time, and which vote file it left
  (\<open>None\<close>: the file is as it was).\<close>

record reviewer =
  rv_backend :: string
  rv_target_root :: bool
  rv_disabled :: bool
  rv_limited :: "slot \<Rightarrow> bool"
  rv_timeout :: "slot \<Rightarrow> int"
  rv_run :: "slot \<Rightarrow> slot list \<Rightarrow> bool \<Rightarrow> gate_dir \<Rightarrow> bool \<times> vote_file option"

definition put_vote :: "slot \<Rightarrow> vote_file option \<Rightarrow> gate_dir \<Rightarrow> gate_dir" where
  "put_vote s written d = (case written of None \<Rightarrow> d
     | Some p \<Rightarrow> d\<lparr>gd_votes := (gd_votes d)(s := Some p)\<rparr>)"

definition trigger_vote ::
  "gate_env \<Rightarrow> reviewer \<Rightarrow> string \<Rightarrow> bool \<Rightarrow> bool \<Rightarrow> slot \<Rightarrow> gate_dir \<Rightarrow> int \<times> gate_dir" where
  "trigger_vote env rv report_text resolve lens s d =
     (let cached = cached_trigger_vote env d s
      in if cached = Some ''Reject'' then (1, d)
         else if cached \<in> {Some ''Promote'', Some ''Uncertain''} then (0, d)
         else if rv_disabled rv \<or> rv_limited rv s then (2, d)
         else if report_text = [] \<or> \<not> rv_target_root rv \<or> rv_backend rv = [] then (2, d)
         else if rv_timeout rv s \<le> 0 then (2, d)
         else case rv_run rv s (if resolve then trigger_resolution_sources env d else []) lens d of
           (timed_out, written) \<Rightarrow>
             (let d' = put_vote s written d; vote = cached_trigger_vote env d' s
              in (if timed_out then 2 else if vote = Some ''Reject'' then 1
                  else if vote \<in> {Some ''Promote'', Some ''Uncertain''} then 0 else 2, d')))"

definition ask_review ::
  "gate_env \<Rightarrow> reviewer \<Rightarrow> string \<Rightarrow> bool \<Rightarrow> bool \<Rightarrow> slot \<Rightarrow> gate_dir \<Rightarrow> gate_dir" where
  "ask_review env rv report_text resolve lens s d =
     (if rv_backend rv \<noteq> [] \<and> rv_target_root rv
      then snd (trigger_vote env rv report_text resolve lens s d) else d)"

subsection \<open>The disposition of a finding\<close>

definition rejection_outcome :: "gate_env \<Rightarrow> gate_dir \<Rightarrow> slot list \<Rightarrow> string" where
  "rejection_outcome env d rejection_files =
     (let facts = source_facts env d rejection_files 2
      in if rf_rejection facts = ''no-added-boundary'' then ''not-reportable''
         else if rejection_is_dispositive env d rejection_files True then
           (if rf_rejection facts = CONSEQUENCE_REJECTION_KIND then ''rejected-consequence'' else ''rejected'')
         else ''accepted'')"

definition decisive :: "string option \<Rightarrow> bool" where
  "decisive vote \<longleftrightarrow> vote \<in> {Some ''Promote'', Some ''Reject'', Some ''Uncertain''}"

definition finding_trigger_disposition ::
  "gate_env \<Rightarrow> reviewer \<Rightarrow> string \<Rightarrow> gate_dir \<Rightarrow> string \<times> gate_dir" where
  "finding_trigger_disposition env rv report_text d =
     (if gd_bypass d then (''accepted'', d)
      else
        (let d1 = ask_review env rv report_text False False Primary d;
             vote = cached_trigger_vote env d1 Primary
         in if vote = Some ''Reject'' then
              (let d2 = ask_review env rv report_text False False Second d1;
                   second_vote = cached_trigger_vote env d2 Second
               in if second_vote \<noteq> Some ''Reject'' then
                    (if second_vote \<notin> {Some ''Promote'', Some ''Uncertain''} then (''pending'', d2)
                     else
                       (let d3 = ask_review env rv report_text True False Resolution d2;
                            resolution_vote = cached_trigger_vote env d3 Resolution
                        in if resolution_vote \<noteq> Some ''Reject'' then
                             (if resolution_vote \<in> {Some ''Promote'', Some ''Uncertain''} then ''accepted''
                              else ''pending'', d3)
                           else (rejection_outcome env d3 [Primary, Resolution], d3)))
                  else (rejection_outcome env d2 [Primary, Second], d2))
            else if vote = Some ''Promote'' \<and> \<not> promote_left_scope_open env d1 Primary then
              (let d2 = ask_review env rv report_text False True Second d1;
                   second_vote = cached_trigger_vote env d2 Second
               in if trigger_resolution_sources env d2 = [] then (''accepted'', d2)
                  else
                    (let d3 = ask_review env rv report_text True False Resolution d2;
                         resolution_vote = cached_trigger_vote env d3 Resolution
                     in if resolution_vote \<noteq> Some ''Reject'' \<or> second_vote \<noteq> Some ''Reject'' then
                          (if decisive resolution_vote then ''accepted'' else ''pending'', d3)
                        else (rejection_outcome env d3 [Second, Resolution], d3)))
            else if vote \<in> {Some ''Uncertain'', Some ''Promote''} then
              (let d2 = ask_review env rv report_text True False Resolution d1
               in (if decisive (cached_trigger_vote env d2 Resolution) then ''accepted'' else ''pending'', d2))
            else (''pending'', d1)))"

definition second_review_due :: "gate_env \<Rightarrow> gate_dir \<Rightarrow> bool" where
  "second_review_due env d \<longleftrightarrow>
     (let first = cached_trigger_vote env d Primary
      in first = Some ''Reject''
         \<or> first = Some ''Promote'' \<and> \<not> gd_bypass d \<and> \<not> promote_left_scope_open env d Primary)"

definition cached_trigger_resolution :: "gate_env \<Rightarrow> bool \<Rightarrow> gate_dir \<Rightarrow> bool" where
  "cached_trigger_resolution env second_lens d =
     (if gd_bypass d then True
      else
        (let first = cached_trigger_vote env d Primary;
             resolution = cached_trigger_vote env d Resolution
         in if first = Some ''Promote'' then
              (if promote_left_scope_open env d Primary then decisive resolution
               else if \<not> second_lens then True
               else if trigger_resolution_sources env d \<noteq> [] then decisive resolution
               else cached_trigger_vote env d Second = Some ''Promote'')
            else if first = Some ''Uncertain'' then decisive resolution
            else if first = Some ''Reject'' then
              (let second = cached_trigger_vote env d Second
               in if second = Some ''Reject'' then True
                  else if second \<in> {Some ''Promote'', Some ''Uncertain''} then decisive resolution
                  else False)
            else False))"

subsection \<open>What a current vote is\<close>

text \<open>A vote file that speaks for the report as it is, under the threat model in force, with citations
  that still hold.\<close>

definition vote_current :: "gate_env \<Rightarrow> gate_dir \<Rightarrow> slot \<Rightarrow> vote_file \<Rightarrow> bool" where
  "vote_current env d s p \<longleftrightarrow> gd_votes d s = Some p \<and> vf_content p \<in> set (gd_identities d)
     \<and> vf_version p \<in> {ge_version env, ge_resolution_version env} \<and> in_scope env d p \<and> anchored env p"

definition disproof :: "gate_env \<Rightarrow> gate_dir \<Rightarrow> string list \<Rightarrow> slot \<Rightarrow> bool" where
  "disproof env d kinds s \<longleftrightarrow> (\<exists>p. vote_current env d s p \<and> vf_vote p = ''Reject''
     \<and> rf_rejection (source_review_facts (vf_facts p)) \<in> set kinds)"

lemma vote_with_reject:
  "vote_with env d priors s = Some ''Reject'' \<Longrightarrow> \<exists>p. vote_current env d s p \<and> vf_vote p = ''Reject''"
  by (auto simp: vote_with_def vote_current_def split: option.splits if_splits)

lemma cached_reject:
  assumes "cached_trigger_vote env d s = Some ''Reject''"
  shows "\<exists>p. vote_current env d s p \<and> vf_vote p = ''Reject''"
proof -
  obtain priors where "vote_with env d priors s = Some ''Reject''"
    using assms by (auto simp: cached_trigger_vote_def cached_review_def split: if_splits)
  then show ?thesis by (rule vote_with_reject)
qed

lemma vote_with_range:
  "vote_with env d priors s = Some v \<Longrightarrow> v \<in> {''Promote'', ''Reject'', ''Uncertain''}"
  by (auto simp: vote_with_def split: option.splits if_splits)

lemma cached_range:
  "cached_trigger_vote env d s = Some v \<Longrightarrow> v \<in> {''Promote'', ''Reject'', ''Uncertain''}"
  unfolding cached_trigger_vote_def cached_review_def by (split if_splits) (auto dest: vote_with_range)

lemma decisive_iff: "decisive (cached_trigger_vote env d s) \<longleftrightarrow> cached_trigger_vote env d s \<noteq> None"
  using cached_range [of env d s] by (auto simp: decisive_def)

lemma cached_file: "cached_trigger_vote env d s = Some v \<Longrightarrow> gd_votes d s \<noteq> None"
  by (cases "gd_votes d s") (auto simp: cached_trigger_vote_def cached_review_def vote_with_def split: if_splits)

lemma dispositive_pair:
  assumes "rejection_is_dispositive env d [s, t] consequence"
  defines "kinds \<equiv> DISPOSITIVE_REJECTION_KINDS @ (if consequence then [CONSEQUENCE_REJECTION_KIND] else [])"
  shows "disproof env d kinds s \<and> disproof env d kinds t"
proof -
  have one: "u \<in> {s, t} \<Longrightarrow> cached_trigger_vote env d u = Some ''Reject''
      \<and> (\<exists>p. gd_votes d u = Some p \<and> rf_rejection (source_review_facts (vf_facts p)) \<in> set kinds)" for u
    using assms by (auto simp: rejection_is_dispositive_def trigger_vote_payloads_def Let_def
        split: option.splits if_splits)
  have "disproof env d kinds u" if "u \<in> {s, t}" for u
    using one [OF that] cached_reject [of env d u] by (auto simp: disproof_def vote_current_def)
  then show ?thesis by simp
qed

subsection \<open>What is left to a resolver\<close>

lemma facts_from_cong:
  assumes "\<And>s. s \<in> set files \<Longrightarrow> c s = c' s"
  shows "facts_from env c d files q = facts_from env c' d files q"
proof -
  have "settled_facts c d files = settled_facts c' d files"
    unfolding settled_facts_def
    by (intro arg_cong [where f = concat] map_cong refl) (auto simp: assms split: option.split)
  moreover have "unsettled_scope_fact env c d files = unsettled_scope_fact env c' d files"
    unfolding unsettled_scope_fact_def
    by (intro option.case_cong refl arg_cong2 [where f = agreed_value] map_cong)
       (auto simp: assms split: option.split)
  ultimately show ?thesis by (simp add: facts_from_def Let_def)
qed

lemma cached_first [simp]: "s \<noteq> Resolution \<Longrightarrow> cached_trigger_vote env d s = cached_review env d s"
  by (simp add: cached_trigger_vote_def)

lemma source_facts_first:
  "Resolution \<notin> set files \<Longrightarrow> source_facts env d files q = facts_from env (cached_review env d) d files q"
  unfolding source_facts_def by (rule facts_from_cong) (auto intro: cached_first)

text \<open>The sources of a resolution, once the first review is known.\<close>

lemma sources_eq:
  "trigger_resolution_sources env d = trigger_resolution_review_names (cached_trigger_vote env d Primary)
     (cached_trigger_vote env d Second) (rf_fit (source_facts env d [Primary] 1))
     (rf_fit (source_facts env d [Second] 1))"
  by (simp add: trigger_resolution_sources_def source_facts_first)

lemma sources_promoted:
  assumes "cached_trigger_vote env d Primary = Some ''Promote''" "\<not> promote_left_scope_open env d Primary"
    and "trigger_resolution_sources env d \<noteq> []"
  shows "trigger_resolution_sources env d = [Primary, Second]" "\<exists>v. cached_trigger_vote env d Second = Some v"
  using assms
  by (auto simp: sources_eq trigger_resolution_review_names_def promote_left_scope_open_def simp del: cached_first
      split: if_splits)

subsection \<open>Asking again\<close>

lemma ask_cached [simp]:
  "cached_trigger_vote env d s = Some v \<Longrightarrow> ask_review env rv body resolve lens s d = d"
  using cached_range [of env d s v] by (auto simp: ask_review_def trigger_vote_def)

lemma ask_frame:
  "gd_bypass (ask_review env rv body resolve lens s d) = gd_bypass d"
  "gd_identities (ask_review env rv body resolve lens s d) = gd_identities d"
  "gd_evidence (ask_review env rv body resolve lens s d) = gd_evidence d"
  "t \<noteq> s \<Longrightarrow> gd_votes (ask_review env rv body resolve lens s d) t = gd_votes d t"
  by (auto simp: ask_review_def trigger_vote_def put_vote_def Let_def split: prod.split option.split)

lemma ask_cached_other:
  assumes "s \<noteq> t" "s \<noteq> Resolution"
  shows "cached_trigger_vote env (ask_review env rv body resolve lens t d) s = cached_trigger_vote env d s"
  using assms
  by (simp add: cached_review_def vote_with_def ask_frame in_scope_def prior_review_sha256s_def
      cong: option.case_cong if_cong)

text \<open>Reviews change nothing of a directory but its votes.\<close>

definition same_but_votes :: "gate_dir \<Rightarrow> gate_dir \<Rightarrow> bool" where
  "same_but_votes d d' \<longleftrightarrow>
     gd_bypass d' = gd_bypass d \<and> gd_identities d' = gd_identities d \<and> gd_evidence d' = gd_evidence d"

lemma ask_same: "same_but_votes d e \<Longrightarrow> same_but_votes d (ask_review env rv body resolve lens s e)"
  by (simp add: same_but_votes_def ask_frame)

lemma same_but_refl: "same_but_votes d d"
  by (simp add: same_but_votes_def)

lemma if_same_but: "same_but_votes d x \<Longrightarrow> same_but_votes d y \<Longrightarrow> same_but_votes d (if b then x else y)"
  by simp

lemma disposition_frame:
  assumes "finding_trigger_disposition env rv body d = (r, d')"
  shows "same_but_votes d d'"
proof -
  have "same_but_votes d (snd (finding_trigger_disposition env rv body d))"
    unfolding finding_trigger_disposition_def Let_def
    by (simp only: if_distrib [of snd] snd_conv) (intro if_same_but ask_same same_but_refl)
  then show ?thesis by (simp add: assms)
qed

lemma outcome_range: "rejection_outcome env d files \<noteq> ''pending''"
  by (auto simp: rejection_outcome_def Let_def)

lemma outcome_rejected:
  assumes "rejection_outcome env d [s, t] \<in> {''rejected'', ''rejected-consequence''}"
  shows "disproof env d (DISPOSITIVE_REJECTION_KINDS @ [CONSEQUENCE_REJECTION_KIND]) s
    \<and> disproof env d (DISPOSITIVE_REJECTION_KINDS @ [CONSEQUENCE_REJECTION_KIND]) t"
  using assms dispositive_pair [of env d s t True]
  by (auto simp: rejection_outcome_def Let_def split: if_splits)

text \<open>The reviews a trigger rejection stands on.\<close>

lemma disposition_pairs:
  assumes "finding_trigger_disposition env rv body d = (r, d')"
    and "r \<in> {''rejected'', ''rejected-consequence''}"
  defines "vote \<equiv> cached_trigger_vote env d'"
  shows "vote Primary = Some ''Reject'' \<and> vote Second = Some ''Reject''
      \<and> rejection_outcome env d' [Primary, Second] = r
    \<or> vote Primary = Some ''Reject'' \<and> vote Second \<in> {Some ''Promote'', Some ''Uncertain''}
      \<and> vote Resolution = Some ''Reject'' \<and> rejection_outcome env d' [Primary, Resolution] = r
    \<or> vote Primary = Some ''Promote'' \<and> vote Second = Some ''Reject'' \<and> vote Resolution = Some ''Reject''
      \<and> \<not> promote_left_scope_open env d' Primary \<and> rejection_outcome env d' [Second, Resolution] = r"
proof -
  have open_frame: "promote_left_scope_open env (ask_review env rv body resolve lens t e) Primary
      = promote_left_scope_open env e Primary" if "t \<noteq> Primary" for resolve lens t e
    using that ask_cached_other [of Primary t env rv body resolve lens e]
    by (simp add: promote_left_scope_open_def source_facts_def facts_from_def settled_facts_def
        unsettled_scope_fact_def ask_frame cong: option.case_cong if_cong)
  define d1 where "d1 = ask_review env rv body False False Primary d"
  have nb: "\<not> gd_bypass d" using assms(1,2) by (auto simp: finding_trigger_disposition_def)
  have other: "cached_trigger_vote env (ask_review env rv body resolve lens t e) s = cached_trigger_vote env e s"
    if "s \<noteq> t" "s \<noteq> Resolution" for s t e resolve lens
    using that by (rule ask_cached_other)
  consider (reject) "cached_trigger_vote env d1 Primary = Some ''Reject''"
    | (promote) "cached_trigger_vote env d1 Primary = Some ''Promote''" "\<not> promote_left_scope_open env d1 Primary"
    | (left) "cached_trigger_vote env d1 Primary \<noteq> Some ''Reject''"
        "\<not> (cached_trigger_vote env d1 Primary = Some ''Promote'' \<and> \<not> promote_left_scope_open env d1 Primary)"
    by blast
  then show ?thesis
  proof cases
    case reject
    define d2 where "d2 = ask_review env rv body False False Second d1"
    define d3 where "d3 = ask_review env rv body True False Resolution d2"
    have P: "cached_trigger_vote env d2 Primary = Some ''Reject''" "cached_trigger_vote env d3 Primary = Some ''Reject''"
      "cached_trigger_vote env d3 Second = cached_trigger_vote env d2 Second"
      using reject by (simp_all add: d2_def d3_def other del: cached_first)
    show ?thesis
    proof (cases "cached_trigger_vote env d2 Second = Some ''Reject''")
      case True
      then have "(r, d') = (rejection_outcome env d2 [Primary, Second], d2)"
        using assms(1) reject nb unfolding finding_trigger_disposition_def Let_def d1_def [symmetric] d2_def [symmetric]
        by auto
      then show ?thesis using P True by (auto simp: vote_def simp del: cached_first)
    next
      case False
      then have "cached_trigger_vote env d2 Second \<in> {Some ''Promote'', Some ''Uncertain''}"
        "cached_trigger_vote env d3 Resolution = Some ''Reject''"
        "r = rejection_outcome env d3 [Primary, Resolution]" "d' = d3"
        using assms(1,2) reject nb unfolding finding_trigger_disposition_def Let_def d1_def [symmetric]
          d2_def [symmetric] d3_def [symmetric]
        by (auto split: if_splits)
      then show ?thesis using P by (simp add: vote_def del: cached_first)
    qed
  next
    case promote
    define d2 where "d2 = ask_review env rv body False True Second d1"
    define d3 where "d3 = ask_review env rv body True False Resolution d2"
    have P: "cached_trigger_vote env d3 Primary = Some ''Promote''"
      "cached_trigger_vote env d3 Second = cached_trigger_vote env d2 Second"
      "\<not> promote_left_scope_open env d3 Primary"
      using promote by (simp_all add: d2_def d3_def other open_frame del: cached_first)
    have "cached_trigger_vote env d2 Second = Some ''Reject''" "cached_trigger_vote env d3 Resolution = Some ''Reject''"
      "r = rejection_outcome env d3 [Second, Resolution]" "d' = d3"
      using assms(1,2) promote nb unfolding finding_trigger_disposition_def Let_def d1_def [symmetric]
        d2_def [symmetric] d3_def [symmetric]
      by (auto split: if_splits)
    then show ?thesis using P by (simp add: vote_def del: cached_first)
  next
    case left
    then show ?thesis
      using assms(1,2) nb unfolding finding_trigger_disposition_def Let_def d1_def [symmetric]
      by (auto split: if_splits)
  qed
qed


text \<open>A trigger rejection is settled: the votes it left decide the same again, whoever reviews.\<close>

lemma disposition_stable:
  assumes "finding_trigger_disposition env rv body d = (r, d')"
    and "r \<in> {''rejected'', ''rejected-consequence''}"
  shows "finding_trigger_disposition env rv' body' d' = (r, d')"
proof -
  have nb: "\<not> gd_bypass d'"
    using assms disposition_frame [OF assms(1)] by (auto simp: finding_trigger_disposition_def same_but_votes_def)
  have src: "trigger_resolution_sources env d' \<noteq> []"
    if "cached_trigger_vote env d' Primary = Some ''Promote''" "cached_trigger_vote env d' Second = Some ''Reject''"
      "\<not> promote_left_scope_open env d' Primary"
    using that by (auto simp: sources_eq trigger_resolution_review_names_def promote_left_scope_open_def
        simp del: cached_first)
  show ?thesis
    using disposition_pairs [OF assms]
  proof (elim disjE conjE)
    assume "cached_trigger_vote env d' Primary = Some ''Reject''" "cached_trigger_vote env d' Second = Some ''Reject''"
      "rejection_outcome env d' [Primary, Second] = r"
    then show ?thesis using nb by (simp add: finding_trigger_disposition_def Let_def del: cached_first)
  next
    assume "cached_trigger_vote env d' Primary = Some ''Reject''"
      "cached_trigger_vote env d' Second \<in> {Some ''Promote'', Some ''Uncertain''}"
      "cached_trigger_vote env d' Resolution = Some ''Reject''" "rejection_outcome env d' [Primary, Resolution] = r"
    then show ?thesis using nb
      by (auto simp: finding_trigger_disposition_def Let_def simp del: cached_first)
  next
    assume "cached_trigger_vote env d' Primary = Some ''Promote''" "cached_trigger_vote env d' Second = Some ''Reject''"
      "cached_trigger_vote env d' Resolution = Some ''Reject''" "\<not> promote_left_scope_open env d' Primary"
      "rejection_outcome env d' [Second, Resolution] = r"
    then show ?thesis using nb src
      by (simp add: finding_trigger_disposition_def Let_def del: cached_first)
  qed
qed

text \<open>
  C24 (cached_resolution_settles). When the vote files are complete, adjudication ends in a verdict
  that is not pending, leaves the votes as they are, and is the same whatever a reviewer would answer:
  no review is paid for twice.
\<close>

theorem cached_resolution_settles:
  assumes "cached_trigger_resolution env True d"
  shows "\<exists>r. r \<noteq> ''pending'' \<and> (\<forall>rv body. finding_trigger_disposition env rv body d = (r, d))"
proof (cases "gd_bypass d")
  case True
  then show ?thesis by (simp add: finding_trigger_disposition_def)
next
  case nb: False
  have res: "cached_trigger_vote env d Resolution = Some v \<Longrightarrow> v = ''Promote'' \<or> v = ''Reject'' \<or> v = ''Uncertain''" for v
    using cached_range by blast
  show ?thesis
  proof (cases "cached_trigger_vote env d Primary")
    case None
    then show ?thesis using assms nb by (simp add: cached_trigger_resolution_def)
  next
    case (Some first)
    then consider "first = ''Promote''" | "first = ''Reject''" | "first = ''Uncertain''"
      using cached_range by blast
    then show ?thesis
    proof cases
      case 1
      show ?thesis
      proof (cases "promote_left_scope_open env d Primary")
        case True
        then obtain r where "cached_trigger_vote env d Resolution = Some r"
          using assms nb Some 1 by (auto simp: cached_trigger_resolution_def decisive_iff)
        then show ?thesis using nb Some 1 True
          by (simp add: finding_trigger_disposition_def Let_def decisive_iff)
      next
        case settled: False
        show ?thesis
        proof (cases "trigger_resolution_sources env d = []")
          case True
          then show ?thesis using assms nb Some 1 settled
            by (auto simp: cached_trigger_resolution_def finding_trigger_disposition_def Let_def)
        next
          case False
          then obtain r where r: "cached_trigger_vote env d Resolution = Some r"
            using assms nb Some 1 settled by (auto simp: cached_trigger_resolution_def decisive_iff)
          obtain v where "cached_trigger_vote env d Second = Some v"
            using sources_promoted(2) Some 1 settled False by blast
          then show ?thesis using nb Some 1 settled False r res [OF r] outcome_range
            by (auto simp: finding_trigger_disposition_def Let_def decisive_def)
        qed
      qed
    next
      case 2
      then obtain v where v: "cached_trigger_vote env d Second = Some v"
        using assms nb Some by (auto simp: cached_trigger_resolution_def Let_def split: if_splits)
      show ?thesis
      proof (cases "v = ''Reject''")
        case True
        then show ?thesis using nb Some 2 v outcome_range
          by (simp add: finding_trigger_disposition_def Let_def)
      next
        case False
        then obtain r where r: "cached_trigger_vote env d Resolution = Some r"
          using assms nb Some 2 v by (auto simp: cached_trigger_resolution_def decisive_iff Let_def split: if_splits)
        show ?thesis using nb Some 2 v False r res [OF r] cached_range [OF v] outcome_range
          by (auto simp: finding_trigger_disposition_def Let_def)
      qed
    next
      case 3
      then obtain r where "cached_trigger_vote env d Resolution = Some r"
        using assms nb Some by (auto simp: cached_trigger_resolution_def decisive_iff)
      then show ?thesis using nb Some 3
        by (simp add: finding_trigger_disposition_def Let_def decisive_iff)
    qed
  qed
qed

subsection \<open>Concrete reviews\<close>

definition demo_env :: gate_env where
  "demo_env = \<lparr>ge_version = ''v18'', ge_resolution_version = ''r4'', ge_controls = [''bytes''], ge_revision = [],
     ge_config = [], ge_tree = None, ge_report_tree = None, ge_sha256 = (\<lambda>s. s)\<rparr>"

definition demo_ballot :: "string \<Rightarrow> string \<Rightarrow> string \<Rightarrow> vote_file" where
  "demo_ballot vote kind fit =
     \<lparr>vf_sha256 = vote, vf_content = ''c1'', vf_vote = vote, vf_version = ''v18'', vf_priors = [],
      vf_controls = [''bytes''], vf_evidence = None, vf_revision = [], vf_config = [],
      vf_anchors_verified = Some True, vf_disproof = ''length checked'',
      vf_anchors = [\<lparr>an_path = ''a.c'', an_line = 1, an_symbol = ''f'', an_kind = ''source'',
        an_excerpt = ''int f;'', an_sha256 = ''int f;''\<rparr>],
      vf_facts = \<lparr>rf_surface = [], rf_carrier = [], rf_rejection = kind, rf_fit = fit\<rparr>, vf_own = no_facts\<rparr>"

text \<open>A reviewer that answers every slot with the same vote, or none.\<close>

definition demo_reviewer :: "(slot \<Rightarrow> vote_file option) \<Rightarrow> reviewer" where
  "demo_reviewer answers =
     \<lparr>rv_backend = ''model'', rv_target_root = True, rv_disabled = False, rv_limited = (\<lambda>_. False),
      rv_timeout = (\<lambda>_. 60), rv_run = (\<lambda>s _ _ _. (False, answers s))\<rparr>"

definition demo_answers :: "string \<Rightarrow> string \<Rightarrow> string \<Rightarrow> slot \<Rightarrow> vote_file option" where
  "demo_answers first second third s =
     (let answer = (case s of Primary \<Rightarrow> first | Second \<Rightarrow> second | Resolution \<Rightarrow> third)
      in if answer = [] then None
         else Some (demo_ballot answer (if answer = ''Reject'' then ''unreachable'' else []) ''within''))"

definition demo_gate :: "(slot \<Rightarrow> vote_file option) \<Rightarrow> gate_dir" where
  "demo_gate votes = \<lparr>gd_votes = votes, gd_bypass = False, gd_identities = [''c1''], gd_evidence = None\<rparr>"

lemma demo_disposition:
  "fst (finding_trigger_disposition demo_env (demo_reviewer (demo_answers ''Reject'' ''Reject'' [])) ''r''
     (demo_gate (\<lambda>_. None))) = ''rejected''"
  by code_simp


theorem cached_resolution_settles_witness:
  "\<exists>r. r \<noteq> ''pending'' \<and> finding_trigger_disposition demo_env (demo_reviewer (\<lambda>_. None)) ''r''
     (demo_gate (demo_answers ''Promote'' ''Reject'' ''Promote'')) =
       (r, demo_gate (demo_answers ''Promote'' ''Reject'' ''Promote''))"
proof -
  have "cached_trigger_resolution demo_env True (demo_gate (demo_answers ''Promote'' ''Reject'' ''Promote''))"
    by code_simp
  from cached_resolution_settles [OF this] show ?thesis by blast
qed

end
