(* ===== verification/Finalize.thy ===== *)
theory Finalize
  imports Gate
begin

text \<open>
  What becomes of a finding (\<open>lib/triage.py\<close>): finalization with its publication state and receipt, the
  quality gate before it, and what is finished from the caches alone. The model calls that fill report
  fields, the scorer and the currency of a receipt are parameters. Reports are within the size up to
  which \<open>read_report_bounded\<close> returns them whole.
\<close>

subsection \<open>Finalization\<close>

text \<open>A pass of the gate over a finding: time, the environment of the reviews, the reviewer, the quality
  gate's environment and quorums, and what is not under \<open>src/\<close> or is a model's answer: the filling of
  report fields, whether their asks are spent, the scorer (\<open>None\<close>: it failed), the currency of a
  receipt, the \<open>i\<close>-th quality vote and whether time is left for it.\<close>

record gate_run =
  gr_now :: int
  gr_env :: gate_env
  gr_reviewer :: reviewer
  gr_quality :: qenv
  gr_quorum :: int
  gr_accept_quorum :: int
  gr_expired :: bool
  gr_fill :: "artifact \<Rightarrow> artifact"
  gr_unsettled :: "artifact \<Rightarrow> bool"
  gr_score :: "artifact \<Rightarrow> artifact option"
  gr_current :: "artifact \<Rightarrow> bool"
  gr_open :: "nat \<Rightarrow> bool"
  gr_vote :: "nat \<Rightarrow> string \<Rightarrow> vote option"

definition SECURITY_STATES :: "string list" where "SECURITY_STATES = [''reportable'']"

definition FINAL_STATES :: "string list" where "FINAL_STATES = SECURITY_STATES @ [''not-reportable'']"

text \<open>The verdict the quality gate reached is carried over the fields the harness filled in.\<close>

definition prepare_accepted_finding :: "gate_run \<Rightarrow> artifact \<Rightarrow> artifact" where
  "prepare_accepted_finding r a =
     (let a1 = (if gr_expired r then a else gr_fill r a);
          cache = fd_cache (ar_dir a1)
      in if qc_version cache = qe_version (gr_quality r) \<and> qc_accept cache = Some True
         then a1\<lparr>ar_dir := (ar_dir a1)\<lparr>fd_cache := cache\<lparr>qc_content := qe_semantic (gr_quality r) (report_of a1),
                qc_report := fd_sha1 (ar_dir a1)\<rparr>\<rparr>\<rparr>
         else a1)"

definition score_final_report ::
  "gate_run \<Rightarrow> string \<Rightarrow> string \<Rightarrow> string list \<Rightarrow> artifact \<Rightarrow> string \<times> artifact" where
  "score_final_report r kind state controls a =
     (case gr_score r a of Some scored \<Rightarrow> (state, scored)
      | None \<Rightarrow> if state \<noteq> ''not-reportable'' then (state, a)
          else (''pending'', write_receipt kind ''pending'' ''obsolete numeric severity could not be cleared''
                  (Some controls) no_facts a))"

definition record_accepted_artifact :: "int \<Rightarrow> string \<Rightarrow> string \<Rightarrow> artifact \<Rightarrow> results \<Rightarrow> results" where
  "record_accepted_artifact now name kind a rs =
     (let st = snd (reconcile_artifact_hypotheses (rs_store rs) (bundle_of name a) now)
      in rs\<lparr>rs_store := snd (record_accepted_artifact_card st name kind (Some (bundle_of name a)) now)\<rparr>)"

definition REACH_FIELDS_UNSETTLED_REASON :: string where
  "REACH_FIELDS_UNSETTLED_REASON =
     ''review could not determine the report'' @ [CHR 0x27] @ ''s caller contract or trigger source after every ask was answered''"

text \<open>What is done with a finding the disposition accepts: its state, receipt, score and ledger rows.\<close>

definition publish_finding :: "gate_run \<Rightarrow> string \<Rightarrow> artifact \<Rightarrow> results \<Rightarrow> string \<times> results" where
  "publish_finding r name a rs =
     (let env = gr_env r; controls = ge_controls env; now = gr_now r;
          (reach_verdict, reach_detail) = evaluate_crash_verdict (report_of a) controls
      in if reach_verdict = ''incomplete'' then
           (if gr_unsettled r a then
              (''rejected'', reject_artifact now Findings name
                 (UNSETTLED_REJECTION_PREFIX @ REACH_FIELDS_UNSETTLED_REASON) [] False rs)
            else (''pending'', set_artifact Findings name (write_receipt ''finding'' ''pending''
                    ''required boundary or trigger fields are incomplete'' (Some controls) no_facts a) rs))
         else
           (let (trigger_votes, facts) = trigger_publication_evidence env (ar_gate a);
                proof_ok = gd_bypass (ar_gate a);
                state = final_publication_state reach_verdict trigger_votes facts proof_ok
                  (cached_trigger_resolution env True (ar_gate a))
            in if state \<in> {''not-reportable'', ''unsettled''} then
                 (''rejected'', reject_artifact now Findings name
                    (publication_rejection_reason state reach_verdict reach_detail facts controls) []
                    (trigger_out_of_scope state reach_verdict facts) rs)
               else
                 (let a1 = write_receipt ''finding'' state
                        (publication_detail state reach_verdict reach_detail facts controls proof_ok)
                        (Some controls) facts a
                  in if state = ''pending'' then (''pending'', set_artifact Findings name a1 rs)
                     else
                       (let (state', a2) = score_final_report r ''finding'' state controls a1;
                            rs2 = set_artifact Findings name a2 rs
                        in if state' = ''pending'' then (''pending'', rs2)
                           else (''accepted'', if state' \<in> set SECURITY_STATES
                                   then record_accepted_artifact now name ''find'' a2 rs2 else rs2)))))"

definition finalize_accepted_finding ::
  "gate_run \<Rightarrow> string \<Rightarrow> bool \<Rightarrow> artifact \<Rightarrow> results \<Rightarrow> string \<times> results" where
  "finalize_accepted_finding r name prepared a rs =
     (let now = gr_now r;
          a0 = (if prepared then a else prepare_accepted_finding r a);
          (disposition, d) = finding_trigger_disposition (gr_env r) (gr_reviewer r) (report_of a0) (ar_gate a0);
          a1 = a0\<lparr>ar_gate := d\<rparr>;
          rs1 = set_artifact Findings name a1 rs
      in if disposition = ''rejected'' then
           (''rejected'', reject_artifact now Findings name
              ''trigger-provenance: triggering state not attacker-reachable''
              UNREACHABLE_REJECTION_CATEGORY False rs1)
         else if disposition = ''rejected-consequence'' then
           (''rejected'', reject_artifact now Findings name
              ''trigger-provenance: exact claimed security consequence is source-disproved'' [] False rs1)
         else if disposition = ''pending'' then
           (''pending'', set_artifact Findings name (write_receipt ''finding'' ''pending''
              ''source review is uncertain, stale, or incomplete'' None no_facts a1) rs1)
         else if disposition = ''not-reportable'' then
           (''rejected'', reject_artifact now Findings name
              (THREAT_MODEL_REJECTION_PREFIX @ ''real defect that crosses no security boundary'') [] False rs1)
         else publish_finding r name a1 rs1)"

subsection \<open>One finding\<close>

definition set_cache :: "qcache \<Rightarrow> artifact \<Rightarrow> artifact" where
  "set_cache cache a = a\<lparr>ar_dir := (ar_dir a)\<lparr>fd_cache := cache\<rparr>\<rparr>"

text \<open>The loop over quality votes; the \<open>i\<close>-th call may be refused for time or answer nothing.\<close>

function quality_loop :: "gate_run \<Rightarrow> string \<Rightarrow> string \<Rightarrow> nat \<Rightarrow> vote list \<Rightarrow> vote list" where
  "quality_loop r report_text sha1 i queued =
     (let q = gr_quorum r; aq = gr_accept_quorum r
      in if quality_terminal (quality_payload (gr_quality r) report_text queued q aq sha1) q aq
            \<or> vote_limit q aq \<le> int (length queued) \<or> \<not> gr_open r i then queued
         else case gr_vote r i report_text of None \<Rightarrow> queued
           | Some v \<Rightarrow> quality_loop r report_text sha1 (i + 1)
               (valid_quality_votes (qc_votes (quality_payload (gr_quality r) report_text (queued @ [v]) q aq sha1))
                 (vote_limit q aq)))"
  by auto

termination
proof (relation "measure (\<lambda>(r, t, h, i, queued).
    nat (vote_limit (gr_quorum r) (gr_accept_quorum r)) - length queued)", goal_cases)
  case (2 r t h i queued q aq v)
  then have "int (length queued) < vote_limit q aq" by auto
  moreover have "length (valid_quality_votes (qc_votes (quality_payload (gr_quality r) t (queued @ [v]) q aq h))
      (vote_limit q aq)) = length queued + 1"
    unfolding payload_votes valid_votes_Some using calculation by simp
  ultimately show ?case using 2(1,2) by simp
qed simp

declare quality_loop.simps [simp del]

text \<open>What the pass does with a verdict it has, or has not, on the authored report.\<close>

definition settle_quality ::
  "gate_run \<Rightarrow> string \<Rightarrow> bool \<Rightarrow> qcache \<Rightarrow> vote list \<Rightarrow> artifact \<Rightarrow> results \<Rightarrow> string \<times> results" where
  "settle_quality r name defer_trigger payload queued a rs =
     (let q = gr_quorum r; aq = gr_accept_quorum r; cleared = a\<lparr>ar_drop := None\<rparr>
      in if qc_accept payload = Some True \<and> quality_terminal payload q aq then
           (if defer_trigger then (''quality-accepted'', set_artifact Findings name cleared rs)
            else finalize_accepted_finding r name False cleared (set_artifact Findings name cleared rs))
         else if qc_accept payload = Some False \<and> quality_terminal payload q aq then
           (''rejected'', reject_artifact (gr_now r) Findings name (qc_reason payload) [] False
              (set_artifact Findings name cleared rs))
         else
           (let rejects = qc_rejects payload;
                reasons = map vt_reason (filter (\<lambda>v. \<not> vt_accept v \<and> vt_reason v \<noteq> []) (rev queued));
                a1 = (if rejects \<noteq> 0 then
                        a\<lparr>ar_drop := Some (rejects, case reasons of w # _ \<Rightarrow> w
                          | [] \<Rightarrow> ''finding quality review did not reach quorum'')\<rparr> else a)
            in (''pending'', set_artifact Findings name (write_receipt ''finding'' ''pending''
                  ''finding quality review is incomplete'' None no_facts a1) rs)))"

definition validate_pinned :: "gate_run \<Rightarrow> string \<Rightarrow> artifact \<Rightarrow> results \<Rightarrow> string \<times> results" where
  "validate_pinned r name a rs =
     (let controls = ge_controls (gr_env r);
          (reach_verdict, reach_detail) = evaluate_crash_verdict (report_of a) controls
      in if reach_verdict = ''incomplete'' then
           (''pending'', set_artifact Findings name (write_receipt ''finding'' ''pending''
              ''human override requires complete boundary fields'' (Some controls) no_facts a) rs)
         else
           (let state = final_publication_state reach_verdict {} no_facts False False;
                (state', a1) = score_final_report r ''finding'' state controls
                  (write_receipt ''finding'' state (''human override; '' @ reach_detail) (Some controls) no_facts a)
            in (if state' = ''pending'' then ''pending'' else ''accepted'', set_artifact Findings name a1 rs)))"

definition validate_authored ::
  "gate_run \<Rightarrow> string \<Rightarrow> vote option list option \<Rightarrow> bool \<Rightarrow> artifact \<Rightarrow> results \<Rightarrow> string \<times> results" where
  "validate_authored r name initial_votes defer_trigger a rs =
     (let q = gr_quorum r; aq = gr_accept_quorum r; limit = vote_limit q aq;
          report_text = report_of a; sha1 = fd_sha1 (ar_dir a); cache = fd_cache (ar_dir a);
          current = quality_cache_matches (gr_quality r) (ar_dir a) report_text
      in if current \<and> quality_terminal cache q aq \<and> qc_accept cache = Some True then
           (let cleared = a\<lparr>ar_drop := None\<rparr>
            in if defer_trigger then (''quality-accepted'', set_artifact Findings name cleared rs)
               else finalize_accepted_finding r name False cleared (set_artifact Findings name cleared rs))
         else if current \<and> quality_terminal cache q aq \<and> qc_accept cache = Some False then
           (''rejected'', reject_artifact (gr_now r) Findings name
              (str_or (qc_reason cache) ''quality gate reject'') [] False rs)
         else
           (let persisted = valid_quality_votes (if current then qc_votes cache else []) limit;
                queued0 = (case initial_votes of Some votes \<Rightarrow> valid_quality_votes votes limit | None \<Rightarrow> persisted);
                queued = (if initial_votes = None then quality_loop r report_text sha1 0 queued0 else queued0);
                payload = quality_payload (gr_quality r) report_text queued q aq sha1;
                a1 = set_cache payload a
            in settle_quality r name defer_trigger payload queued a1 (set_artifact Findings name a1 rs)))"

definition validate_one_finding ::
  "gate_run \<Rightarrow> string \<Rightarrow> vote option list option \<Rightarrow> bool \<Rightarrow> bool \<Rightarrow> results \<Rightarrow> string \<times> results" where
  "validate_one_finding r name initial_votes defer_trigger reject_missing_report rs =
     (case map_of (rs_lanes rs Findings) name of None \<Rightarrow> (''pending'', rs)
      | Some a \<Rightarrow>
          if fd_report (ar_dir a) = None then
            (if reject_missing_report then
               (''rejected'', reject_artifact (gr_now r) Findings name ''incomplete missing: missing report.md'' []
                  False (set_artifact Findings name (a\<lparr>ar_needs_content := False\<rparr>) rs))
             else (''pending'', set_artifact Findings name (write_receipt ''finding'' ''pending'' ''missing report''
                     None no_facts (a\<lparr>ar_needs_content := True\<rparr>)) rs))
          else if gr_expired r \<and> \<not> fd_pinned (ar_dir a) then
            (if gr_current r a \<and> (case ar_receipt a of Some rc \<Rightarrow> vr_state rc \<in> set FINAL_STATES | None \<Rightarrow> False)
             then (''accepted'', rs)
             else (''pending'', set_artifact Findings name (write_receipt ''finding'' ''pending''
                     ''finding validation deadline expired'' None no_facts a) rs))
          else
            (let a1 = a\<lparr>ar_needs_content := False\<rparr>; rs1 = set_artifact Findings name a1 rs
             in if fd_pinned (ar_dir a) then validate_pinned r name a1 rs1
                else validate_authored r name initial_votes defer_trigger a1 rs1))"

definition finding_ready_for_cached_finalization :: "gate_run \<Rightarrow> artifact \<Rightarrow> bool" where
  "finding_ready_for_cached_finalization r a =
     (if fd_pinned (ar_dir a) then True
      else if fd_report (ar_dir a) = None then False
      else
        (let cache = fd_cache (ar_dir a)
         in if \<not> quality_cache_matches (gr_quality r) (ar_dir a) (report_of a)
               \<or> \<not> quality_terminal cache (gr_quorum r) (gr_accept_quorum r) then False
            else if qc_accept cache = Some False then True
            else qc_accept cache = Some True
              \<and> fst (evaluate_crash_verdict (report_of a) (ge_controls (gr_env r))) \<noteq> ''incomplete''
              \<and> cached_trigger_resolution (gr_env r) True (ar_gate a)))"

subsection \<open>The gate loses no artifact\<close>

text \<open>What the harness relies on of the two calls that rewrite a report: they keep the directory's name.\<close>

definition keeps_names :: "gate_run \<Rightarrow> bool" where
  "keeps_names r \<longleftrightarrow> (\<forall>a. fd_name (ar_dir (gr_fill r a)) = fd_name (ar_dir a))
     \<and> (\<forall>a a'. gr_score r a = Some a' \<longrightarrow> fd_name (ar_dir a') = fd_name (ar_dir a))"

lemma name_simps [simp]:
  "ar_dir (write_receipt kind state detail controls facts a) = ar_dir a"
  "fd_name (ar_dir (set_cache cache a)) = fd_name (ar_dir a)"
  by (simp_all add: write_receipt_def set_cache_def)

lemma prepare_name:
  "keeps_names r \<Longrightarrow> fd_name (ar_dir (prepare_accepted_finding r a)) = fd_name (ar_dir a)"
  by (simp add: prepare_accepted_finding_def Let_def keeps_names_def)

lemma score_name:
  "keeps_names r \<Longrightarrow>
     fd_name (ar_dir (snd (score_final_report r kind state controls a))) = fd_name (ar_dir a)"
  by (auto simp: score_final_report_def keeps_names_def split: option.splits if_splits)

lemma steady_set2:
  assumes "map_of (rs_lanes rs l) name = Some b" "fd_name (ar_dir a) = name" "fd_name (ar_dir a') = name"
  shows "steady rs (set_artifact l name a' (set_artifact l name a rs))"
  using steady_trans [OF steady_set [OF assms(1,2)] steady_set [OF set_artifact_at assms(3)]] .

lemma accepted_steady: "steady rs (record_accepted_artifact now name kind a rs)"
  by (simp add: record_accepted_artifact_def Let_def steady_store)

lemma publish_steady:
  assumes "map_of (rs_lanes rs Findings) name = Some b" "fd_name (ar_dir a) = name" "keeps_names r"
  shows "steady rs (snd (publish_finding r name a rs))"
proof -
  note put = steady_set [OF assms(1)]
  show ?thesis
    by (auto simp: publish_finding_def Let_def split_beta assms(2) score_name [OF assms(3)]
        intro!: reject_steady put steady_trans [OF put accepted_steady])
qed

lemma finalize_steady:
  assumes "map_of (rs_lanes rs Findings) name = Some b" "fd_name (ar_dir a) = name" "keeps_names r"
  shows "steady rs (snd (finalize_accepted_finding r name prepared a rs))"
proof -
  let ?a0 = "if prepared then a else prepare_accepted_finding r a"
  have n0: "fd_name (ar_dir ?a0) = name" using assms prepare_name by simp
  obtain disposition d where disp:
    "finding_trigger_disposition (gr_env r) (gr_reviewer r) (report_of ?a0) (ar_gate ?a0) = (disposition, d)"
    by (cases "finding_trigger_disposition (gr_env r) (gr_reviewer r) (report_of ?a0) (ar_gate ?a0)")
  define a1 where "a1 = ?a0\<lparr>ar_gate := d\<rparr>"
  have n1: "fd_name (ar_dir a1) = name" using n0 by (simp add: a1_def)
  note put = steady_set [OF assms(1) n1]
  note go = steady_trans [OF put]
  show ?thesis
    unfolding finalize_accepted_finding_def Let_def disp prod.case a1_def [symmetric]
    by (auto simp: n1 assms(3) intro!: go reject_steady steady_set [OF set_artifact_at] publish_steady [OF set_artifact_at])
qed

lemma validate_steady:
  assumes "filed_ok rs \<Longrightarrow> keeps_names r"
  shows "steady rs (snd (validate_one_finding r name initial_votes defer_trigger reject_missing rs))"
proof (cases "map_of (rs_lanes rs Findings) name")
  case (Some a)
  show ?thesis
  proof (cases "filed_ok rs")
    case ok: True
    then have names: "fd_name (ar_dir a) = name" and keep: "keeps_names r"
      using Some assms by (auto simp: filed_ok_def lanes_ok_def dest!: map_of_SomeD)
    note put = steady_set [OF Some]
    note again = steady_set [OF set_artifact_at]
    have pinned: "steady rs1 (snd (validate_pinned r name a1 rs1))"
      if "map_of (rs_lanes rs1 Findings) name = Some b" "fd_name (ar_dir a1) = name" for rs1 a1 b
      by (auto simp: validate_pinned_def Let_def split_beta that(2) score_name [OF keep]
          intro!: steady_set [OF that(1)])
    have settle: "steady rs1 (snd (settle_quality r name later payload queued a1 rs1))"
      if "map_of (rs_lanes rs1 Findings) name = Some b" "fd_name (ar_dir a1) = name"
      for rs1 a1 b payload queued later
      by (auto simp: settle_quality_def Let_def that(2) keep intro!: steady_set [OF that(1)]
          steady_trans [OF steady_set [OF that(1)] reject_steady]
          steady_trans [OF steady_set [OF that(1)] finalize_steady [OF set_artifact_at]])
    have authored: "steady rs1 (snd (validate_authored r name initial_votes defer_trigger a1 rs1))"
      if "map_of (rs_lanes rs1 Findings) name = Some b" "fd_name (ar_dir a1) = name" for rs1 a1 b
      by (auto simp: validate_authored_def Let_def that(2) keep intro!: steady_set [OF that(1)] reject_steady
          steady_trans [OF steady_set [OF that(1)] settle [OF set_artifact_at]]
          steady_trans [OF steady_set [OF that(1)] finalize_steady [OF set_artifact_at]])
    show ?thesis
      by (auto simp: validate_one_finding_def Some Let_def names intro!: put steady_trans [OF put reject_steady] steady_trans [OF put pinned [OF set_artifact_at]]
            steady_trans [OF put authored [OF set_artifact_at]])
  qed (simp add: steady_def)
qed (simp add: validate_one_finding_def)

subsection \<open>What backs a published finding\<close>

lemma evidence_voted:
  assumes "trigger_publication_evidence env d = (votes, facts)" "cached_trigger_vote env d Primary \<noteq> None"
  shows "votes - {None} \<noteq> {}"
  using assms by (auto simp: trigger_publication_evidence_def Let_def simp del: cached_first split: if_splits)

lemma cached_promote:
  assumes "cached_trigger_vote env d s = Some ''Promote''"
  shows "\<exists>p. vote_current env d s p \<and> vf_vote p = ''Promote''"
proof -
  obtain priors where "vote_with env d priors s = Some ''Promote''"
    using assms by (auto simp: cached_trigger_vote_def cached_review_def split: if_splits)
  then show ?thesis by (auto simp: vote_with_def vote_current_def split: option.splits if_splits)
qed

lemma agreed_value_in: "agreed_value vs q \<noteq> [] \<Longrightarrow> agreed_value vs q \<in> set vs"
proof -
  have "x \<in> set vs" if "filter (\<lambda>v. v \<noteq> []) vs = x # rest" for x rest
    using that by (metis filter_is_subset list.set_intros(1) subsetD)
  then show "agreed_value vs q \<noteq> [] \<Longrightarrow> agreed_value vs q \<in> set vs"
    unfolding agreed_value_def Let_def
    by (cases "filter (\<lambda>v. v \<noteq> []) vs") (simp, simp only: list.case split: if_splits, blast)
qed

lemma settled_in:
  assumes "f \<in> set (settled_facts c d files)"
  shows "\<exists>s p. s \<in> set files \<and> gd_votes d s = Some p \<and> c s \<in> {Some ''Promote'', Some ''Reject''}
    \<and> f = source_review_facts (vf_facts p)"
proof -
  obtain s where "s \<in> set files" and f: "f \<in> set (case gd_votes d s of None \<Rightarrow> []
      | Some p \<Rightarrow> if c s \<in> {Some ''Promote'', Some ''Reject''} then [source_review_facts (vf_facts p)] else [])"
    using assms by (auto simp: settled_facts_def)
  then show ?thesis by (cases "gd_votes d s") (auto split: if_splits)
qed

lemma fit_backed:
  assumes "rf_fit (source_facts env d files q) = ''within''"
    and "\<And>s. s \<in> set files \<Longrightarrow> cached_trigger_vote env d s \<notin> {Some ''Reject'', Some ''Uncertain''}"
  shows "\<exists>s p. vote_current env d s p \<and> vf_vote p = ''Promote''
    \<and> rf_fit (source_review_facts (vf_facts p)) = ''within''"
proof -
  have "list_all (\<lambda>v. v = []) (map (\<lambda>s. case gd_votes d s of None \<Rightarrow> []
      | Some p \<Rightarrow> if cached_trigger_vote env d s = Some ''Uncertain'' \<and> vf_anchors_verified p = Some True \<and> vf_anchors p \<noteq> []
                     \<and> verify_source_anchors tree (ge_sha256 env) (vf_anchors p) = vf_anchors p
                  then rf_fit (source_review_facts (vf_own p)) else []) files)" for tree
    using assms(2) by (auto simp: list_all_iff split: option.split simp del: cached_first)
  then have "unsettled_scope_fact env (cached_trigger_vote env d) d files = []"
    unfolding unsettled_scope_fact_def
    by (auto simp: agreed_value_def list_all_iff filter_empty_conv Let_def split: option.split list.split
        dest!: arg_cong [where f = set])
  then have "agreed_value (map rf_fit (settled_facts (cached_trigger_vote env d) d files)) 1 = ''within''"
    using assms(1) by (simp add: source_facts_def facts_from_def Let_def split: if_splits)
  then obtain f where f: "f \<in> set (settled_facts (cached_trigger_vote env d) d files)" "rf_fit f = ''within''"
    using agreed_value_in [of "map rf_fit (settled_facts (cached_trigger_vote env d) d files)" 1] by auto
  obtain s p where sp: "s \<in> set files" "gd_votes d s = Some p"
    "cached_trigger_vote env d s \<in> {Some ''Promote'', Some ''Reject''}"
    "rf_fit (source_review_facts (vf_facts p)) = ''within''"
    using settled_in [OF f(1)] f(2) by blast
  then have "cached_trigger_vote env d s = Some ''Promote''" using assms(2) by auto
  with sp(2,4) cached_promote show ?thesis by (fastforce simp: vote_current_def)
qed

lemma disposition_range:
  "finding_trigger_disposition env rv body d = (r, d')
     \<Longrightarrow> r \<in> {''accepted'', ''rejected'', ''rejected-consequence'', ''pending'', ''not-reportable''}"
  unfolding finding_trigger_disposition_def rejection_outcome_def Let_def by (auto split: if_splits)

text \<open>A disposition that accepts without a machine's proof leaves a first or a resolving vote.\<close>

lemma accepted_voted:
  assumes "finding_trigger_disposition env rv body d = (''accepted'', d')" "\<not> gd_bypass d'"
  shows "cached_trigger_vote env d' Primary \<noteq> None"
proof -
  have "\<not> gd_bypass d" using assms disposition_frame unfolding same_but_votes_def by blast
  then show ?thesis
    using assms(1) unfolding finding_trigger_disposition_def Let_def
    by (auto simp: ask_cached_other simp del: cached_first split: if_splits)
qed

lemma reportable_backed:
  assumes "trigger_publication_evidence env d = (votes, facts)"
    and "final_publication_state reach votes facts False resolved = ''reportable''"
    and "votes - {None} \<noteq> {}"
  shows "\<exists>s p. vote_current env d s p \<and> vf_vote p = ''Promote''
    \<and> rf_fit (source_review_facts (vf_facts p)) = ''within''"
proof -
  have state: "votes \<inter> {Some ''Reject'', Some ''Uncertain''} = {}" "rf_fit facts = ''within'' \<or> votes - {None} = {}"
    using assms(2) by (auto simp: final_publication_state_def split: if_splits)
  show ?thesis
  proof (cases "cached_trigger_vote env d Resolution")
    case None
    then have votes: "votes = cached_trigger_vote env d ` {Primary, Second}"
      and facts: "facts = source_facts env d [Primary, Second] 2"
      using assms(1) by (auto simp: trigger_publication_evidence_def Let_def)
    have "rf_fit facts = ''within''" using state(2) assms(3) by blast
    then show ?thesis using state(1) unfolding facts
      by (intro fit_backed [of env d "[Primary, Second]" 2]) (auto simp: votes simp del: cached_first)
  next
    case (Some v)
    then have votes: "votes = {Some v}" and fit: "rf_fit facts = rf_fit (source_facts env d [Resolution] 2)"
      using assms(1) by (auto simp: trigger_publication_evidence_def Let_def)
    have "rf_fit facts = ''within''" using state(2) by (auto simp: votes)
    then show ?thesis using state(1) Some unfolding fit
      by (intro fit_backed [of env d "[Resolution]" 2]) (auto simp: votes)
  qed
qed

text \<open>The scorer rewrites a report without touching the verdict of its receipt.\<close>

definition score_keeps_verdict :: "gate_run \<Rightarrow> bool" where
  "score_keeps_verdict r \<longleftrightarrow> (\<forall>a a'. gr_score r a = Some a'
     \<longrightarrow> map_option vr_state (ar_receipt a') = map_option vr_state (ar_receipt a))"

text \<open>
  C12 (accepted_is_backed). A finding is accepted only with a receipt that says reportable, and
  only on a machine's proof of its byte path or on a current Promote that places the trigger within the
  attacker's controls.
\<close>

theorem accepted_is_backed:
  assumes "finalize_accepted_finding r name True a rs = (''accepted'', rs')" "score_keeps_verdict r"
    and "finding_trigger_disposition (gr_env r) (gr_reviewer r) (report_of a) (ar_gate a) = (disposition, d)"
  shows "\<exists>b rc. map_of (rs_lanes rs' Findings) name = Some b \<and> ar_receipt b = Some rc
    \<and> vr_state rc = ''reportable''
    \<and> (gd_bypass d \<or> (\<exists>s p. vote_current (gr_env r) d s p \<and> vf_vote p = ''Promote''
        \<and> rf_fit (source_review_facts (vf_facts p)) = ''within''))"
proof -
  define a1 where "a1 = a\<lparr>ar_gate := d\<rparr>"
  define rs1 where "rs1 = set_artifact Findings name a1 rs"
  have disp: "disposition = ''accepted''" and pub: "publish_finding r name a1 rs1 = (''accepted'', rs')"
    using assms(1) disposition_range [OF assms(3)]
    by (auto simp: finalize_accepted_finding_def Let_def assms(3) a1_def rs1_def split: if_splits)
  have gate: "ar_gate a1 = d" by (simp add: a1_def)
  obtain reach detail where ev: "evaluate_crash_verdict (report_of a1) (ge_controls (gr_env r)) = (reach, detail)"
    by fastforce
  obtain votes facts where pe: "trigger_publication_evidence (gr_env r) d = (votes, facts)" by fastforce
  define state where "state = final_publication_state reach votes facts (gd_bypass d)
    (cached_trigger_resolution (gr_env r) True d)"
  define written where "written = write_receipt ''finding'' state
    (publication_detail state reach detail facts (ge_controls (gr_env r)) (gd_bypass d))
    (Some (ge_controls (gr_env r))) facts a1"
  obtain state' a2 where sc: "score_final_report r ''finding'' state (ge_controls (gr_env r)) written = (state', a2)"
    by fastforce
  have "state \<in> {''not-reportable'', ''reportable'', ''unsettled'', ''pending''}"
    by (simp add: state_def final_publication_state_def)
  then have st: "state = ''reportable''" and st': "state' \<noteq> ''pending''"
    and rs': "rs_lanes rs' = rs_lanes (set_artifact Findings name a2 rs1)"
    using pub [unfolded publish_finding_def Let_def ev prod.case gate pe state_def [symmetric]
        written_def [symmetric] sc]
    by (auto simp: record_accepted_artifact_def split: if_splits)
  have kept: "gr_score r written = Some a2 \<Longrightarrow>
      map_option vr_state (ar_receipt a2) = map_option vr_state (ar_receipt written)"
    using assms(2) unfolding score_keeps_verdict_def by blast
  have "map_option vr_state (ar_receipt a2) = Some ''reportable''"
    using sc kept st
    by (auto simp: score_final_report_def written_def write_receipt_def split: option.splits)
  then have "ar_receipt a2 \<noteq> None \<and> vr_state (the (ar_receipt a2)) = ''reportable''"
    by auto
  moreover have "gd_bypass d \<or> (\<exists>s p. vote_current (gr_env r) d s p \<and> vf_vote p = ''Promote''
        \<and> rf_fit (source_review_facts (vf_facts p)) = ''within'')"
  proof (cases "gd_bypass d")
    case False
    from reportable_backed [OF pe st [unfolded state_def, simplified False]
        evidence_voted [OF pe accepted_voted [OF assms(3) [unfolded disp] False]]]
    show ?thesis by blast
  qed simp
  moreover have "map_of (rs_lanes rs' Findings) name = Some a2" unfolding rs' by simp
  ultimately show ?thesis by auto
qed

subsection \<open>Cached work finishes without a model\<close>

lemma publish_decided:
  assumes "cached_trigger_resolution (gr_env r) True (ar_gate a)"
    and "fst (evaluate_crash_verdict (report_of a) (ge_controls (gr_env r))) \<noteq> ''incomplete''"
  shows "fst (publish_finding r name a rs) \<in> {''accepted'', ''rejected''}"
proof -
  obtain reach detail where ev: "evaluate_crash_verdict (report_of a) (ge_controls (gr_env r)) = (reach, detail)"
    by fastforce
  have reach: "reach \<noteq> ''incomplete''" using assms(2) ev by simp
  obtain votes facts where pe: "trigger_publication_evidence (gr_env r) (ar_gate a) = (votes, facts)" by fastforce
  define state where "state = final_publication_state reach votes facts (gd_bypass (ar_gate a)) True"
  have range: "state \<in> {''reportable'', ''not-reportable'', ''unsettled''}"
    by (simp add: state_def final_publication_state_def)
  have scored: "fst (score_final_report r ''finding'' ''reportable'' c b) = ''reportable''" for c b
    by (simp add: score_final_report_def split: option.split)
  have "fst (publish_finding r name a rs) = (if state = ''reportable'' then ''accepted'' else ''rejected'')"
    using range reach
    unfolding publish_finding_def Let_def ev prod.case pe eqTrueI [OF assms(1)] state_def [symmetric]
    by (elim insertE emptyE) (simp_all add: split_beta scored)
  then show ?thesis by simp
qed

text \<open>The fields of a pass a settled finding does not read.\<close>

definition same_settings :: "gate_run \<Rightarrow> gate_run \<Rightarrow> bool" where
  "same_settings r r' \<longleftrightarrow> gr_now r = gr_now r' \<and> gr_env r = gr_env r' \<and> gr_quality r = gr_quality r'
     \<and> gr_quorum r = gr_quorum r' \<and> gr_accept_quorum r = gr_accept_quorum r' \<and> gr_expired r = gr_expired r'
     \<and> gr_fill r = gr_fill r' \<and> gr_unsettled r = gr_unsettled r' \<and> gr_score r = gr_score r'
     \<and> gr_current r = gr_current r'"


subsection \<open>Concrete runs\<close>

definition demo_files :: bundle_files where
  "demo_files =
     \<lparr>bf_exact = None, bf_primary = None, bf_testcase = True, bf_harness = False, bf_own_harness = False,
      bf_units = Some [], bf_draft = True, bf_rendered = True, bf_script = True,
      bf_inputs = [(''input.bin'', True)], bf_stale = False, bf_context = None, bf_verified = False,
      bf_differential = None, bf_fault_in_target = False, bf_harness_rooted = False, bf_state = None,
      bf_filed = None\<rparr>"

definition demo_artifact :: "string \<Rightarrow> gate_dir \<Rightarrow> artifact" where
  "demo_artifact name d =
     \<lparr>ar_dir = \<lparr>fd_name = name, fd_pinned = False,
        fd_report = Some (''Caller contract: obeyed'' @ [newline] @ ''Trigger source: bytes'' @ [newline]),
        fd_sha1 = ''s'', fd_identities = [''s''], fd_mtimes = None, fd_cache = qcache0\<rparr>,
      ar_gate = d, ar_named = [], ar_digests = [], ar_rejection = [], ar_receipt = None,
      ar_needs_content = False, ar_drop = None, ar_flagged = False, ar_pending = [], ar_pending_sig = [],
      ar_pending_count = 0, ar_files = demo_files\<rparr>"

definition demo_pass :: "reviewer \<Rightarrow> gate_run" where
  "demo_pass rv =
     \<lparr>gr_now = 0, gr_env = demo_env, gr_reviewer = rv,
      gr_quality = \<lparr>qe_version = ''q'', qe_semantic = (\<lambda>t. t), qe_raw = (\<lambda>t. t)\<rparr>,
      gr_quorum = 2, gr_accept_quorum = 2, gr_expired = False, gr_fill = (\<lambda>a. a),
      gr_unsettled = (\<lambda>_. False), gr_score = (\<lambda>a. Some a), gr_current = (\<lambda>_. False),
      gr_open = (\<lambda>_. True),
      gr_vote = (\<lambda>_ _. Some \<lparr>vt_accept = True, vt_reason = [], vt_class = [], vt_severity = []\<rparr>)\<rparr>"

definition demo_lanes :: "string \<Rightarrow> artifact \<Rightarrow> results" where
  "demo_lanes name a = \<lparr>rs_lanes = (\<lambda>l. if l = Findings then [(name, a)] else []), rs_store = store0, rs_routes = []\<rparr>"

definition demo_settled :: artifact where
  "demo_settled =
     (let a = demo_artifact ''FIND-1'' (demo_gate (demo_answers ''Promote'' ''Promote'' []))
      in set_cache (quality_payload (gr_quality (demo_pass (demo_reviewer (\<lambda>_. None)))) (report_of a)
           (replicate 2 \<lparr>vt_accept = True, vt_reason = [], vt_class = [], vt_severity = []\<rparr>) 2 2 ''s'') a)"


theorem accepted_is_backed_witness:
  "\<exists>rs' b rc. finalize_accepted_finding (demo_pass (demo_reviewer (demo_answers ''Promote'' ''Promote'' []))) ''FIND-1''
      True (demo_artifact ''FIND-1'' (demo_gate (\<lambda>_. None))) (demo_lanes ''FIND-1''
        (demo_artifact ''FIND-1'' (demo_gate (\<lambda>_. None)))) = (''accepted'', rs')
    \<and> map_of (rs_lanes rs' Findings) ''FIND-1'' = Some b \<and> ar_receipt b = Some rc \<and> vr_state rc = ''reportable''"
proof -
  let ?r = "demo_pass (demo_reviewer (demo_answers ''Promote'' ''Promote'' []))"
  let ?a = "demo_artifact ''FIND-1'' (demo_gate (\<lambda>_. None))"
  have "fst (finalize_accepted_finding ?r ''FIND-1'' True ?a (demo_lanes ''FIND-1'' ?a)) = ''accepted''"
    by code_simp
  then obtain rs' where rs': "finalize_accepted_finding ?r ''FIND-1'' True ?a (demo_lanes ''FIND-1'' ?a) = (''accepted'', rs')"
    by (metis prod.collapse)
  have "score_keeps_verdict ?r" by (simp add: score_keeps_verdict_def demo_pass_def)
  moreover obtain x d where "finding_trigger_disposition (gr_env ?r) (gr_reviewer ?r) (report_of ?a) (ar_gate ?a) = (x, d)"
    by fastforce
  ultimately show ?thesis using accepted_is_backed [OF rs'] rs' by blast
qed

end
