(* ===== verification/Requeue.thy ===== *)
theory Requeue
  imports Finalize
begin

text \<open>
  The passes that reopen rejections (\<open>lib/triage.py\<close>): a trigger rejection whose two disproofs no
  longer stand, a publication verdict whose primary review is stale, a quality rejection whose cache
  no longer speaks for the report. Each pass goes over the rejected lane in name order.
\<close>

subsection \<open>Trigger and publication rejections\<close>

definition TRIGGER_REJECTION_RE :: rx where
  "TRIGGER_REJECTION_RE = rseq [RBol, rstr ''trigger-provenance'',
     ralt [rset [CSpc], rset [CLit CHR ''(''], rset [CLit CHR '':'']]]"

definition is_trigger_rejection :: "string \<Rightarrow> bool" where
  "is_trigger_rejection reason \<longleftrightarrow> re_match TRIGGER_REJECTION_RE True reason \<noteq> None"

definition LEGACY_SAME_SITE_PREFIX :: string where
  "LEGACY_SAME_SITE_PREFIX = ''same-site:''"

definition drop_votes :: "artifact \<Rightarrow> artifact" where
  "drop_votes a = a\<lparr>ar_gate := (ar_gate a)\<lparr>gd_votes := (\<lambda>_. None)\<rparr>\<rparr>"

definition both_reject :: "gate_env \<Rightarrow> artifact \<Rightarrow> slot list \<Rightarrow> bool" where
  "both_reject env a pair \<longleftrightarrow> fd_report (ar_dir a) \<noteq> None
     \<and> map (cached_trigger_vote env (ar_gate a)) pair = [Some ''Reject'', Some ''Reject'']"

text \<open>The pairs of reviews a rejection may stand on: the first that holds two Rejects, else the first.\<close>

definition rejection_pair :: "gate_env \<Rightarrow> artifact \<Rightarrow> slot list" where
  "rejection_pair env a =
     (case find (both_reject env a) [[Primary, Second], [Primary, Resolution]] of
        Some pair \<Rightarrow> pair | None \<Rightarrow> [Primary, Second])"

definition restore_stale_one ::
  "gate_run \<Rightarrow> lane \<Rightarrow> string \<Rightarrow> string \<Rightarrow> results \<Rightarrow> bool \<times> results" where
  "restore_stale_one r l kind name rs =
     (case map_of (rs_lanes rs l) name of None \<Rightarrow> (False, rs)
      | Some a \<Rightarrow>
          (let env = gr_env r; now = gr_now r; reason = rejection_reason a;
               reported = fd_report (ar_dir a) \<noteq> None;
               requeued = ''requeued after trigger-review policy or schema change''
           in if kind = ''finding'' \<and> py_startswith LEGACY_SAME_SITE_PREFIX reason then
                (True, restore_rejected_artifact now l name kind
                   ''requeued after removal of same-site verdict sharing'' rs)
              else if publication_rejection reason then
                (if reported \<and> gd_votes (ar_gate a) Primary \<noteq> None
                    \<and> cached_trigger_vote env (ar_gate a) Primary = None
                 then (True, restore_rejected_artifact now l name kind requeued
                         (set_artifact l name (drop_votes a) rs))
                 else (False, rs))
              else if \<not> is_trigger_rejection reason then (False, rs)
              else
                (let vote_files = rejection_pair env a;
                     facts = (if reported then source_facts env (ar_gate a) vote_files 2 else no_facts)
                 in if both_reject env a vote_files
                       \<and> rejection_is_dispositive env (ar_gate a) vote_files (kind = ''finding'') then
                      (False, if gr_current r a then rs
                         else set_artifact l name (write_receipt kind ''rejected'' reason None facts a) rs)
                    else (True, restore_rejected_artifact now l name kind requeued rs))))"

text \<open>A pass over a lane: every directory with the prefix of its kind, in name order.\<close>

definition pass_names :: "string \<Rightarrow> results \<Rightarrow> lane \<Rightarrow> string list" where
  "pass_names pre rs l = sort (filter (py_startswith pre) (lane_names rs l))"

fun pass_over :: "(string \<Rightarrow> results \<Rightarrow> bool \<times> results) \<Rightarrow> string list \<Rightarrow> nat \<Rightarrow> results \<Rightarrow> nat \<times> results" where
  "pass_over step [] restored rs = (restored, rs)"
| "pass_over step (name # rest) restored rs =
     (case step name rs of (hit, rs') \<Rightarrow> pass_over step rest (if hit then restored + 1 else restored) rs')"

datatype restore_error = UnsupportedKind

definition restore_stale_kind :: "gate_run \<Rightarrow> string \<Rightarrow> results \<Rightarrow> restore_error + nat \<times> results" where
  "restore_stale_kind r kind rs =
     (if kind = ''crash'' then
        Inr (pass_over (restore_stale_one r Crashes_Rejected kind) (pass_names ''CRASH-'' rs Crashes_Rejected) 0 rs)
      else if kind = ''finding'' then
        Inr (pass_over (restore_stale_one r Findings_Rejected kind) (pass_names ''FIND-'' rs Findings_Rejected) 0 rs)
      else Inl UnsupportedKind)"

definition restore_stale_trigger_rejections :: "gate_run \<Rightarrow> results \<Rightarrow> restore_error + nat \<times> results" where
  "restore_stale_trigger_rejections r rs =
     (case restore_stale_kind r ''crash'' rs of Inl e \<Rightarrow> Inl e
      | Inr (n, rs1) \<Rightarrow> (case restore_stale_kind r ''finding'' rs1 of Inl e \<Rightarrow> Inl e
          | Inr (m, rs2) \<Rightarrow> Inr (n + m, rs2)))"

subsection \<open>Quality rejections\<close>

definition current_reject :: "gate_run \<Rightarrow> artifact \<Rightarrow> bool" where
  "current_reject r a \<longleftrightarrow> fd_report (ar_dir a) \<noteq> None
     \<and> quality_cache_matches (gr_quality r) (ar_dir a) (report_of a)
     \<and> quality_terminal (fd_cache (ar_dir a)) (gr_quorum r) (gr_accept_quorum r)
     \<and> qc_accept (fd_cache (ar_dir a)) = Some False"

definition refresh_quality_one :: "gate_run \<Rightarrow> string \<Rightarrow> results \<Rightarrow> bool \<times> results" where
  "refresh_quality_one r name rs =
     (case map_of (rs_lanes rs Findings_Rejected) name of None \<Rightarrow> (False, rs)
      | Some a \<Rightarrow>
          (let reason = rejection_reason a
           in if publication_rejection reason \<or> is_trigger_rejection reason then (False, rs)
              else if current_reject r a then
                (False, if gr_current r a then rs
                   else set_artifact Findings_Rejected name
                          (write_receipt ''finding'' ''rejected'' reason None no_facts a) rs)
              else (True, restore_rejected_artifact (gr_now r) Findings_Rejected name ''finding''
                     ''requeued because the finding-quality rejection is stale'' rs)))"

definition refresh_or_restore_quality_rejections :: "gate_run \<Rightarrow> results \<Rightarrow> nat \<times> results" where
  "refresh_or_restore_quality_rejections r rs =
     pass_over (refresh_quality_one r) (pass_names ''FIND-'' rs Findings_Rejected) 0 rs"

definition clear_legacy_same_site_receipt :: "artifact \<Rightarrow> artifact" where
  "clear_legacy_same_site_receipt a =
     (case ar_receipt a of Some rc \<Rightarrow>
        if py_startswith LEGACY_SAME_SITE_PREFIX (vr_detail rc) then a\<lparr>ar_receipt := None\<rparr> else a
      | None \<Rightarrow> a)"

definition clear_legacy_same_site_receipts :: "results \<Rightarrow> nat \<times> results" where
  "clear_legacy_same_site_receipts rs =
     (let mine = (\<lambda>(n, a). py_startswith ''FIND-'' n \<and> clear_legacy_same_site_receipt a \<noteq> a)
      in (length (filter mine (rs_lanes rs Findings)),
          rs\<lparr>rs_lanes := (rs_lanes rs)(Findings := map (\<lambda>(n, a).
            (n, if mine (n, a) then clear_legacy_same_site_receipt a else a)) (rs_lanes rs Findings))\<rparr>))"

subsection \<open>Passes lose no artifact\<close>

locale lane_pass =
  fixes step :: "string \<Rightarrow> results \<Rightarrow> bool \<times> results"
  assumes step_steady: "steady rs (snd (step name rs))"
begin

lemma pass_steady: "steady rs (snd (pass_over step names n rs))"
proof (induction names arbitrary: n rs)
  case (Cons name names)
  have "steady rs (snd (step name rs))" by (rule step_steady)
  then show ?case using Cons.IH by (auto split: prod.splits intro: steady_trans)
qed simp

lemma pass_count: "fst (pass_over step names n rs) \<le> n + length names"
proof (induction names arbitrary: n rs)
  case (Cons name names)
  obtain hit rs' where "step name rs = (hit, rs')" by fastforce
  with Cons.IH [of "if hit then n + 1 else n" rs'] show ?case by (simp split: if_splits)
qed simp

end

lemma restore_one_steady:
  assumes "l \<in> {Findings_Rejected, Crashes_Rejected}"
  shows "steady rs (snd (restore_stale_one r l kind name rs))"
proof (cases "map_of (rs_lanes rs l) name")
  case (Some a)
  show ?thesis
  proof (cases "filed_ok rs")
    case True
    then have names: "fd_name (ar_dir a) = name"
      using Some by (auto simp: filed_ok_def lanes_ok_def dest!: map_of_SomeD)
    note put = steady_set [OF Some] and moved = restore_steady [OF assms]
    show ?thesis
      by (auto simp: restore_stale_one_def Some Let_def names drop_votes_def
          intro!: moved put steady_trans [OF put moved])
  qed (simp add: steady_def)
qed (simp add: restore_stale_one_def)

lemma refresh_one_steady: "steady rs (snd (refresh_quality_one r name rs))"
proof (cases "map_of (rs_lanes rs Findings_Rejected) name")
  case (Some a)
  show ?thesis
  proof (cases "filed_ok rs")
    case True
    then have names: "fd_name (ar_dir a) = name"
      using Some by (auto simp: filed_ok_def lanes_ok_def dest!: map_of_SomeD)
    show ?thesis
      by (auto simp: refresh_quality_one_def Some Let_def names intro!: restore_steady steady_set [OF Some])
  qed (simp add: steady_def)
qed (simp add: refresh_quality_one_def)

interpretation stale_crashes: lane_pass "restore_stale_one r Crashes_Rejected kind" for r kind
  by unfold_locales (rule restore_one_steady, simp)

interpretation stale_findings: lane_pass "restore_stale_one r Findings_Rejected kind" for r kind
  by unfold_locales (rule restore_one_steady, simp)

interpretation stale_quality: lane_pass "refresh_quality_one r" for r
  by unfold_locales (rule refresh_one_steady)

lemma restore_pass_steady:
  "restore_stale_trigger_rejections r rs = Inr (n, rs') \<Longrightarrow> steady rs rs'"
proof -
  define one where "one = pass_over (restore_stale_one r Crashes_Rejected ''crash'')
    (pass_names ''CRASH-'' rs Crashes_Rejected) 0 rs"
  define two where "two = pass_over (restore_stale_one r Findings_Rejected ''finding'')
    (pass_names ''FIND-'' (snd one) Findings_Rejected) 0 (snd one)"
  assume "restore_stale_trigger_rejections r rs = Inr (n, rs')"
  then have "rs' = snd two"
    by (simp add: restore_stale_trigger_rejections_def restore_stale_kind_def split_beta
        flip: one_def two_def)
  moreover have "steady rs (snd one)" unfolding one_def by (rule stale_crashes.pass_steady)
  moreover have "steady (snd one) (snd two)" unfolding two_def by (rule stale_findings.pass_steady)
  ultimately show "steady rs rs'" using steady_trans by blast
qed

text \<open>Both kinds are supported: the pass over both lanes raises no error.\<close>

lemma restore_pass_total: "\<exists>n rs'. restore_stale_trigger_rejections r rs = Inr (n, rs')"
  by (auto simp: restore_stale_trigger_rejections_def restore_stale_kind_def split: prod.splits)

lemma clear_receipts_steady: "steady rs (snd (clear_legacy_same_site_receipts rs))"
proof -
  let ?rs' = "snd (clear_legacy_same_site_receipts rs)"
  define f where "f = (\<lambda>(n, a). (n, if py_startswith ''FIND-'' n \<and> clear_legacy_same_site_receipt a \<noteq> a
    then clear_legacy_same_site_receipt a else a))"
  have lanes: "rs_lanes ?rs' l = (if l = Findings then map f (rs_lanes rs l) else rs_lanes rs l)" for l
    by (simp add: clear_legacy_same_site_receipts_def f_def Let_def split_beta)
  have f: "fst (f p) = fst p" "ar_dir (snd (f p)) = ar_dir (snd p)" for p
    by (auto simp: f_def clear_legacy_same_site_receipt_def split: prod.split option.split)
  have names: "lane_names ?rs' l = lane_names rs l" for l
    by (simp add: lanes f comp_def)
  have count: "length (rs_lanes ?rs' l) = length (rs_lanes rs l)" for l by (simp add: lanes)
  have kept: "fd_name (ar_dir (snd p)) = fst p"
    if ok: "lanes_ok rs" and p: "p \<in> set (rs_lanes ?rs' l)" for l p
  proof -
    have "p \<in> set (rs_lanes rs l) \<or> p \<in> f ` set (rs_lanes rs l)" using p by (simp add: lanes split: if_splits)
    then obtain q where q0: "q \<in> set (rs_lanes rs l)" "p = q \<or> p = f q" by blast
    then have q: "q \<in> set (rs_lanes rs l)" "fst p = fst q" "ar_dir (snd p) = ar_dir (snd q)"
      using f [of q] by auto
    then have "fd_name (ar_dir (snd q)) = fst q" using ok by (fastforce simp: lanes_ok_def)
    then show ?thesis by (simp add: q)
  qed
  have "lanes_ok ?rs'" if "lanes_ok rs"
    using kept [OF that] that by (fastforce simp: lanes_ok_def names)
  moreover have "rs_routes ?rs' = rs_routes rs"
    by (simp add: clear_legacy_same_site_receipts_def Let_def)
  ultimately show ?thesis
    unfolding steady_def filed_ok_def routes_live_def artifact_count_def names count by simp
qed

subsection \<open>Which trigger rejections stand\<close>

abbreviation unreachable_reason :: string where
  "unreachable_reason \<equiv> ''trigger-provenance: triggering state not attacker-reachable''"

abbreviation consequence_reason :: string where
  "consequence_reason \<equiv> ''trigger-provenance: exact claimed security consequence is source-disproved''"

lemma hit_reason_none:
  "c \<noteq> CHR ''R'' \<Longrightarrow> hit_at reason_re False pre (c # cs) = None"
  "d \<noteq> newline \<Longrightarrow> hit_at reason_re False (d # pre) cs = None"
  by (simp_all add: hit_at_def reason_re_def set_ok_def split: list.split)

lemma hit_reason:
  assumes "newline \<notin> set reason" "reason \<noteq> []" "\<not> py_space (hd reason)"
  shows "\<exists>h. hit_at reason_re False (newline # pre) (''Reason: '' @ reason @ newline # rest) = Some h
    \<and> re_group 1 h = reason"
proof -
  let ?s = "''Reason: '' @ reason @ newline # rest"
  let ?pre1 = "rev ''Reason:'' @ newline # pre"
  have seq: "rxm (RSeq a b) ic st = concat (map (rxm b ic) (rxm a ic st))" for a b ic st by simp
  have lit: "rxm (rstr ''Reason:'') False (newline # pre, ?s, []) = [(?pre1, CHR '' '' # reason @ newline # rest, [])]"
    using rxm_rstr [of "''Reason:''" False "newline # pre" "CHR '' '' # reason @ newline # rest" "[]"] by simp
  have tw: "takeWhile (set_ok False False [CSpc]) (CHR '' '' # reason @ newline # rest) = '' ''"
    using assms(2,3) by (cases reason) (simp_all add: set_ok_def, code_simp)
  have spc: "rxm (rstar (rset [CSpc])) False (?pre1, CHR '' '' # reason @ newline # rest, []) =
      [(CHR '' '' # ?pre1, reason @ newline # rest, []), (?pre1, CHR '' '' # reason @ newline # rest, [])]"
    unfolding rxm_class tw by (simp add: upt_rec)
  have any: "rxm (rplus RAny) False (CHR '' '' # ?pre1, reason @ newline # rest, []) =
      rev (map (\<lambda>n. (rev (take n (reason @ newline # rest)) @ CHR '' '' # ?pre1, drop n (reason @ newline # rest), []))
        [1 ..< Suc (length reason)])"
  proof -
    have "takeWhile (\<lambda>c. c \<noteq> newline) (reason @ newline # rest) = reason"
      using assms(1) by (induction reason) auto
    moreover have "rx_rep (rxm RAny False) True (1 + length (reason @ newline # rest) + 1) 1 None
        (CHR '' '' # ?pre1, reason @ newline # rest, []) =
      (if True then rev else id) (map (\<lambda>n. (rev (take n (reason @ newline # rest)) @ CHR '' '' # ?pre1,
          drop n (reason @ newline # rest), []))
        [1 ..< Suc (length (takeWhile (\<lambda>c. c \<noteq> newline) (reason @ newline # rest)))])"
      by (rule rx_rep_class) simp_all
    ultimately show ?thesis by (simp only: rxm.simps(6) fst_conv snd_conv if_True)
  qed
  have last: "[1 ..< Suc (length reason)] = [1 ..< length reason] @ [length reason]"
    using assms(2) by (cases reason) simp_all
  define tl where "tl = concat (map (rxm (RSeq (RGrp 1 (rplus RAny)) REol) False)
      [(?pre1, CHR '' '' # reason @ newline # rest, [])])"
  have "\<exists>more. rxm (RSeq (RGrp 1 (rplus RAny)) REol) False (CHR '' '' # ?pre1, reason @ newline # rest, []) =
      (rev reason @ CHR '' '' # ?pre1, newline # rest, [(1, reason)]) # more"
    unfolding seq rxm.simps(7) any last by simp
  then obtain more where more: "rxm (RSeq (RGrp 1 (rplus RAny)) REol) False (CHR '' '' # ?pre1, reason @ newline # rest, []) =
      (rev reason @ CHR '' '' # ?pre1, newline # rest, [(1, reason)]) # more" by blast
  have "rxm reason_re False (newline # pre, ?s, []) =
      (rev reason @ CHR '' '' # ?pre1, newline # rest, [(1, reason)]) # more @ tl"
    unfolding reason_re_def rseq.simps seq [of RBol] seq [of "rstr ''Reason:''"]
      seq [of "rstar (rset [CSpc])"]
    using lit spc more by (simp add: tl_def del: rstr.simps rxm.simps(6))
  then show ?thesis by (simp add: hit_at_def re_group_def)
qed

lemma reason_read_back:
  assumes "ar_rejection a = annotate_rejection reason"
    and "newline \<notin> set reason" "reason \<noteq> []" "\<not> py_space (hd reason)"
  shows "rejection_reason a = py_strip reason"
proof -
  define rest where "rest = newline # ''The original evidence is retained for audit and can be restored after review.'' @ [newline]"
  obtain h where h: "hit_at reason_re False (newline # newline # rev ''# Rejected artifact'')
      (''Reason: '' @ reason @ newline # rest) = Some h" "re_group 1 h = reason"
    using hit_reason [OF assms(2-4)] by blast
  have "annotate_rejection reason = ''# Rejected artifact'' @ newline # newline # (''Reason: '' @ reason @ newline # rest)"
    by (simp add: annotate_rejection_def rest_def)
  moreover have "re_search reason_re False (''# Rejected artifact'' @ newline # newline
      # (''Reason: '' @ reason @ newline # rest)) = Some h"
    using h(1) by (simp add: re_search_def hit_reason_none)
  ultimately show ?thesis using h(2) by (simp add: rejection_reason_def assms(1))
qed

lemma trigger_reasons:
  assumes "reason \<in> {unreachable_reason, consequence_reason}"
  shows "\<not> py_startswith LEGACY_SAME_SITE_PREFIX reason" "\<not> publication_rejection reason"
    "is_trigger_rejection reason"
proof -
  have "\<not> py_startswith LEGACY_SAME_SITE_PREFIX unreachable_reason \<and> \<not> publication_rejection unreachable_reason
      \<and> is_trigger_rejection unreachable_reason"
    by code_simp
  moreover have "\<not> py_startswith LEGACY_SAME_SITE_PREFIX consequence_reason
      \<and> \<not> publication_rejection consequence_reason \<and> is_trigger_rejection consequence_reason"
    by code_simp
  ultimately show "\<not> py_startswith LEGACY_SAME_SITE_PREFIX reason" "\<not> publication_rejection reason"
    "is_trigger_rejection reason" using assms by auto
qed

lemma clear_concern_frame [simp]:
  "ar_gate (clear_contract_concern a) = ar_gate a"
  "fd_report (ar_dir (clear_contract_concern a)) = None \<longleftrightarrow> fd_report (ar_dir a) = None"
  by (auto simp: clear_contract_concern_def set_report_def Let_def split: option.split)

lemma rejected_artifact_frame [simp]:
  "ar_gate (rejected_artifact name d reason a) = ar_gate a"
  "ar_rejection (rejected_artifact name d reason a) = annotate_rejection reason"
  "fd_report (ar_dir (rejected_artifact name d reason a)) = None \<longleftrightarrow> fd_report (ar_dir a) = None"
  by (simp_all add: rejected_artifact_def write_receipt_def)

lemma trigger_reason_read:
  assumes "reason \<in> {unreachable_reason, consequence_reason}"
  shows "rejection_reason (rejected_artifact name d reason a) = reason"
proof -
  have "newline \<notin> set reason" "reason \<noteq> []" "\<not> py_space (hd reason)" "py_strip reason = reason"
    using assms by (auto, code_simp+)
  then show ?thesis using reason_read_back [OF rejected_artifact_frame(2)] by simp
qed

text \<open>What the pass over a trigger rejection decides.\<close>

lemma restore_decides:
  assumes "map_of (rs_lanes rs Findings_Rejected) name = Some (rejected_artifact n d reason a)"
    and "reason \<in> {unreachable_reason, consequence_reason}" "fd_report (ar_dir a) \<noteq> None"
    and pair: "pair = rejection_pair (gr_env r) (rejected_artifact n d reason a)"
  shows "restore_stale_one r Findings_Rejected ''finding'' name rs =
    (if both_reject (gr_env r) (rejected_artifact n d reason a) pair
        \<and> rejection_is_dispositive (gr_env r) (ar_gate a) pair True
     then (False, if gr_current r (rejected_artifact n d reason a) then rs
       else set_artifact Findings_Rejected name (write_receipt ''finding'' ''rejected'' reason None
         (source_facts (gr_env r) (ar_gate a) pair 2) (rejected_artifact n d reason a)) rs)
     else (True, restore_rejected_artifact (gr_now r) Findings_Rejected name ''finding''
       ''requeued after trigger-review policy or schema change'' rs))"
  using assms trigger_reasons [OF assms(2)]
  by (simp add: restore_stale_one_def trigger_reason_read Let_def)

lemma outcome_dispositive:
  "rejection_outcome env d files \<in> {''rejected'', ''rejected-consequence''}
     \<Longrightarrow> rejection_is_dispositive env d files True"
  by (auto simp: rejection_outcome_def Let_def split: if_splits)

text \<open>The rejection of a finding whose disposition is a trigger rejection.\<close>

definition trigger_reason :: "string \<Rightarrow> string" where
  "trigger_reason disposition = (if disposition = ''rejected'' then unreachable_reason else consequence_reason)"

lemma finalize_rejected:
  assumes "map_of (rs_lanes rs Findings) name = Some b"
    and "finding_trigger_disposition (gr_env r) (gr_reviewer r) (report_of a) (ar_gate a) = (disposition, d)"
    and "disposition \<in> {''rejected'', ''rejected-consequence''}"
    and "unique_destination (lane_names rs Findings_Rejected) name (gr_now r) = Some dest"
  shows "\<exists>rs1. finalize_accepted_finding r name True a rs = (''rejected'', rs1)
    \<and> map_of (rs_lanes rs1 Findings_Rejected) dest =
        Some (rejected_artifact name dest (trigger_reason disposition) (a\<lparr>ar_gate := d\<rparr>))
    \<and> name \<notin> set (lane_names rs1 Findings)"
proof -
  let ?rs0 = "set_artifact Findings name (a\<lparr>ar_gate := d\<rparr>) rs"
  have dest: "unique_destination (lane_names ?rs0 (rejected_lane Findings)) name (gr_now r) = Some dest"
    using assms(4) by (simp add: rejected_lane_def set_artifact_lanes)
  note there = reject_arrives [OF set_artifact_at dest] and lanes = reject_lanes [OF set_artifact_at dest]
  have gone: "name \<notin> set (lane_names (reject_artifact (gr_now r) Findings name reason category oos ?rs0) Findings)"
    for reason category oos
    unfolding lanes by (auto simp: move_lanes rejected_lane_def set_delete)
  show ?thesis
    using assms(3) there gone
    unfolding finalize_accepted_finding_def Let_def assms(2) if_True prod.case
    by (auto simp: trigger_reason_def rejected_lane_def)
qed

text \<open>
  Fact (trigger_rejection_reopened). After a finding is rejected by its source reviews the
  requeue pass, under the same settings, leaves the rejection alone when the first review was one of
  the two disproofs, and reopens it when the first review was a Promote, which the second reviewer and
  the resolver refuted: that pair of reviews is missing from the pairs the pass looks at.
\<close>

theorem trigger_rejection_reopened:
  assumes "map_of (rs_lanes rs Findings) name = Some a" "fd_report (ar_dir a) \<noteq> None"
    and "finding_trigger_disposition (gr_env r) (gr_reviewer r) (report_of a) (ar_gate a) = (disposition, d)"
    and "disposition \<in> {''rejected'', ''rejected-consequence''}"
  shows "\<exists>rs1 dest. finalize_accepted_finding r name True a rs = (''rejected'', rs1)
    \<and> dest \<in> set (lane_names rs1 Findings_Rejected)
    \<and> (fst (restore_stale_one r Findings_Rejected ''finding'' dest rs1)
        \<longleftrightarrow> cached_trigger_vote (gr_env r) d Primary = Some ''Promote'')"
proof -
  obtain dest where dest: "unique_destination (lane_names rs Findings_Rejected) name (gr_now r) = Some dest"
    by (rule unique_destination_total)
  let ?a1 = "rejected_artifact name dest (trigger_reason disposition) (a\<lparr>ar_gate := d\<rparr>)"
  obtain rs1 where fin: "finalize_accepted_finding r name True a rs = (''rejected'', rs1)"
    and there: "map_of (rs_lanes rs1 Findings_Rejected) dest = Some ?a1"
    using finalize_rejected [OF assms(1,3,4) dest] by blast
  have tr: "trigger_reason disposition \<in> {unreachable_reason, consequence_reason}"
    by (simp add: trigger_reason_def)
  have rep: "fd_report (ar_dir (a\<lparr>ar_gate := d\<rparr>)) \<noteq> None" using assms(2) by simp
  note decide = restore_decides [OF there tr rep refl, of r]
  have "fst (restore_stale_one r Findings_Rejected ''finding'' dest rs1)
      \<longleftrightarrow> cached_trigger_vote (gr_env r) d Primary = Some ''Promote''"
    using disposition_pairs [OF assms(3,4)] outcome_dispositive assms(2,4)
    by (fastforce simp: decide rejection_pair_def both_reject_def simp del: cached_first)
  then show ?thesis using fin map_of_names [OF there] by blast
qed

text \<open>One round of the gate over a finding: finalization, then the requeue pass over what it rejected.\<close>

definition gate_round :: "gate_run \<Rightarrow> string \<Rightarrow> results \<Rightarrow> results" where
  "gate_round r name rs =
     (case map_of (rs_lanes rs Findings) name of None \<Rightarrow> rs
      | Some a \<Rightarrow> snd (restore_stale_one r Findings_Rejected ''finding'' name
          (snd (finalize_accepted_finding r name True a rs))))"

definition bounces :: "gate_run \<Rightarrow> string \<Rightarrow> string \<Rightarrow> gate_dir \<Rightarrow> results \<Rightarrow> bool" where
  "bounces r name disposition d rs \<longleftrightarrow> name \<notin> set (lane_names rs Findings_Rejected)
     \<and> (\<exists>a. map_of (rs_lanes rs Findings) name = Some a \<and> fd_report (ar_dir a) \<noteq> None
        \<and> finding_trigger_disposition (gr_env r) (gr_reviewer r) (report_of a) (ar_gate a) = (disposition, d))"

lemma restored_lanes:
  assumes "map_of (rs_lanes rs Findings_Rejected) name = Some a" "name \<notin> set (lane_names rs Findings)"
  shows "map_of (rs_lanes (restore_rejected_artifact now Findings_Rejected name kind detail rs) Findings) name =
      Some ((write_receipt kind ''pending'' detail None no_facts (a\<lparr>ar_rejection := []\<rparr>))
        \<lparr>ar_dir := (ar_dir a)\<lparr>fd_name := name\<rparr>\<rparr>)"
    and "name \<notin> set (lane_names (restore_rejected_artifact now Findings_Rejected name kind detail rs) Findings_Rejected)"
proof -
  have dest: "unique_destination (lane_names rs (active_lane Findings_Rejected)) name now = Some name"
    using assms(2) by (simp add: active_lane_def)
  show "map_of (rs_lanes (restore_rejected_artifact now Findings_Rejected name kind detail rs) Findings) name =
      Some ((write_receipt kind ''pending'' detail None no_facts (a\<lparr>ar_rejection := []\<rparr>))
        \<lparr>ar_dir := (ar_dir a)\<lparr>fd_name := name\<rparr>\<rparr>)"
    using restore_arrives [OF assms(1) dest] by (simp add: active_lane_def)
  show "name \<notin> set (lane_names (restore_rejected_artifact now Findings_Rejected name kind detail rs) Findings_Rejected)"
    unfolding restore_lanes [OF assms(1) dest] by (auto simp: move_lanes active_lane_def set_delete)
qed

lemma bounce_once:
  assumes "bounces r name disposition d rs" "disposition \<in> {''rejected'', ''rejected-consequence''}"
    and promoted: "cached_trigger_vote (gr_env r) d Primary = Some ''Promote''"
  shows "\<exists>b. map_of (rs_lanes (gate_round r name rs) Findings) name = Some b \<and> ar_gate b = d
    \<and> bounces r name disposition d (gate_round r name rs)"
proof -
  obtain a where a: "map_of (rs_lanes rs Findings) name = Some a" "fd_report (ar_dir a) \<noteq> None"
    "finding_trigger_disposition (gr_env r) (gr_reviewer r) (report_of a) (ar_gate a) = (disposition, d)"
    and free: "name \<notin> set (lane_names rs Findings_Rejected)" using assms(1) by (auto simp: bounces_def)
  let ?a1 = "rejected_artifact name name (trigger_reason disposition) (a\<lparr>ar_gate := d\<rparr>)"
  obtain rs1 where fin: "finalize_accepted_finding r name True a rs = (''rejected'', rs1)"
    and there: "map_of (rs_lanes rs1 Findings_Rejected) name = Some ?a1"
    and gone: "name \<notin> set (lane_names rs1 Findings)"
    using finalize_rejected [OF a(1,3) assms(2), of name] free by (auto simp del: set_map)
  have tr: "trigger_reason disposition \<in> {unreachable_reason, consequence_reason}"
    by (simp add: trigger_reason_def)
  have rep: "fd_report (ar_dir (a\<lparr>ar_gate := d\<rparr>)) \<noteq> None" using a(2) by simp
  define rs2 where "rs2 = restore_rejected_artifact (gr_now r) Findings_Rejected name ''finding''
    ''requeued after trigger-review policy or schema change'' rs1"
  have round: "gate_round r name rs = rs2"
    using restore_decides [OF there tr rep refl, of r] promoted
    by (simp add: gate_round_def a(1) fin rejection_pair_def both_reject_def rs2_def)
  let ?b = "(write_receipt ''finding'' ''pending''
      ''requeued after trigger-review policy or schema change'' None no_facts (?a1\<lparr>ar_rejection := []\<rparr>))
    \<lparr>ar_dir := (ar_dir ?a1)\<lparr>fd_name := name\<rparr>\<rparr>"
  define b where "b = ?b"
  have returned: "map_of (rs_lanes rs2 Findings) name = Some b" "name \<notin> set (lane_names rs2 Findings_Rejected)"
    unfolding rs2_def b_def using restored_lanes [OF there gone] by blast+
  have b: "ar_gate b = d" "fd_report (ar_dir b) \<noteq> None"
    using a(2) by (simp_all add: b_def write_receipt_def)
  have "finding_trigger_disposition (gr_env r) (gr_reviewer r) (report_of b) (ar_gate b) = (disposition, d)"
    unfolding b by (rule disposition_stable [OF a(3) assms(2)])
  with returned b show ?thesis unfolding round bounces_def by blast
qed

text \<open>
  C22 (second_disproof_bounces). Such a finding never settles: in every later round it is
  rejected again on the same votes and reopened again.
\<close>

theorem second_disproof_bounces:
  assumes "map_of (rs_lanes rs Findings) name = Some a" "fd_report (ar_dir a) \<noteq> None"
    and "name \<notin> set (lane_names rs Findings_Rejected)"
    and "finding_trigger_disposition (gr_env r) (gr_reviewer r) (report_of a) (ar_gate a) = (disposition, d)"
    and "disposition \<in> {''rejected'', ''rejected-consequence''}"
    and "cached_trigger_vote (gr_env r) d Primary = Some ''Promote''"
  shows "\<exists>b. map_of (rs_lanes ((gate_round r name ^^ Suc n) rs) Findings) name = Some b \<and> ar_gate b = d
    \<and> fst (finalize_accepted_finding r name True b ((gate_round r name ^^ Suc n) rs)) = ''rejected''"
proof -
  have start: "bounces r name disposition d rs" using assms(1-4) by (auto simp: bounces_def)
  have always: "bounces r name disposition d ((gate_round r name ^^ k) rs)" for k
    by (induction k) (use start bounce_once [OF _ assms(5,6)] in auto)
  obtain b where b: "map_of (rs_lanes ((gate_round r name ^^ Suc n) rs) Findings) name = Some b" "ar_gate b = d"
    using bounce_once [OF always [of n] assms(5,6)] by auto
  obtain c where c: "map_of (rs_lanes ((gate_round r name ^^ Suc n) rs) Findings) name = Some c"
    "finding_trigger_disposition (gr_env r) (gr_reviewer r) (report_of c) (ar_gate c) = (disposition, d)"
    using always [of "Suc n"] unfolding bounces_def by blast
  obtain dest where "unique_destination (lane_names ((gate_round r name ^^ Suc n) rs) Findings_Rejected) name (gr_now r) = Some dest"
    by (rule unique_destination_total)
  from finalize_rejected [OF c assms(5) this] b c(1) show ?thesis by auto
qed

subsection \<open>Concrete runs\<close>

abbreviation split_answers :: "slot \<Rightarrow> vote_file option" where
  "split_answers \<equiv> demo_answers ''Promote'' ''Reject'' ''Reject''"

abbreviation split_finding :: artifact where
  "split_finding \<equiv> demo_artifact ''FIND-1'' (demo_gate split_answers)"

lemma split_disposition:
  "finding_trigger_disposition demo_env (demo_reviewer split_answers) (report_of split_finding)
     (ar_gate split_finding) = (''rejected'', demo_gate split_answers)"
proof -
  have "cached_trigger_resolution demo_env True (demo_gate split_answers)" by code_simp
  from cached_resolution_settles [OF this] obtain s
    where s: "\<forall>rv body. finding_trigger_disposition demo_env rv body (demo_gate split_answers) =
      (s, demo_gate split_answers)" by blast
  have "fst (finding_trigger_disposition demo_env (demo_reviewer split_answers) ''r'' (demo_gate split_answers)) = ''rejected''"
    by code_simp
  then have "s = ''rejected''" using s by simp
  then show ?thesis using s by (simp add: demo_artifact_def)
qed

theorem trigger_rejection_reopened_witness:
  "\<exists>rs1 dest. finalize_accepted_finding (demo_pass (demo_reviewer split_answers)) ''FIND-1'' True split_finding
      (demo_lanes ''FIND-1'' split_finding) = (''rejected'', rs1)
    \<and> fst (restore_stale_one (demo_pass (demo_reviewer split_answers)) Findings_Rejected ''finding'' dest rs1)"
proof -
  let ?r = "demo_pass (demo_reviewer split_answers)"
  have "map_of (rs_lanes (demo_lanes ''FIND-1'' split_finding) Findings) ''FIND-1'' = Some split_finding"
    "fd_report (ar_dir split_finding) \<noteq> None"
    "finding_trigger_disposition (gr_env ?r) (gr_reviewer ?r) (report_of split_finding) (ar_gate split_finding)
      = (''rejected'', demo_gate split_answers)"
    using split_disposition by (simp_all add: demo_lanes_def demo_pass_def demo_artifact_def)
  moreover have "cached_trigger_vote (gr_env ?r) (demo_gate split_answers) Primary = Some ''Promote''"
    by code_simp
  ultimately show ?thesis using trigger_rejection_reopened by blast
qed

theorem second_disproof_bounces_witness:
  "\<exists>b. map_of (rs_lanes ((gate_round (demo_pass (demo_reviewer split_answers)) ''FIND-1'' ^^ Suc 7)
      (demo_lanes ''FIND-1'' split_finding)) Findings) ''FIND-1'' = Some b \<and> ar_gate b = demo_gate split_answers"
proof -
  let ?r = "demo_pass (demo_reviewer split_answers)"
  have "map_of (rs_lanes (demo_lanes ''FIND-1'' split_finding) Findings) ''FIND-1'' = Some split_finding"
    "fd_report (ar_dir split_finding) \<noteq> None"
    "''FIND-1'' \<notin> set (lane_names (demo_lanes ''FIND-1'' split_finding) Findings_Rejected)"
    "finding_trigger_disposition (gr_env ?r) (gr_reviewer ?r) (report_of split_finding) (ar_gate split_finding)
      = (''rejected'', demo_gate split_answers)"
    using split_disposition by (simp_all add: demo_lanes_def demo_pass_def demo_artifact_def)
  moreover have "cached_trigger_vote (gr_env ?r) (demo_gate split_answers) Primary = Some ''Promote''"
    by code_simp
  ultimately show ?thesis using second_disproof_bounces by blast
qed

end
