(* ===== verification/Diagnostics.thy ===== *)
theory Diagnostics
  imports PyRegex
begin

text \<open>
  What a sanitizer or a language runtime said about a crash: the patterns of \<open>lib/triage.py\<close>,
  \<open>lib/stack_frames.py\<close> and \<open>lib/verdict.py\<close>, and the classification of a diagnostic they lead to. Each
  pattern is the syntax tree \<open>re\<close> parses it to; \<open>^\<close> and \<open>$\<close> are those of its MULTILINE flag.
\<close>

subsection \<open>Patterns\<close>

text \<open>The diagnostics of \<open>lib/triage.py\<close>, and those of a language runtime without a sanitizer.\<close>

definition DIAGNOSTIC_re :: rx where
  "DIAGNOSTIC_re =
     ralt [rseq [rstr ''ERROR: '', ralt [rstr ''AddressSanitizer'',
       rstr ''HWAddressSanitizer'', rstr ''UndefinedBehaviorSanitizer'']],
       rseq [rstr ''SUMMARY: '', ralt [rstr ''AddressSanitizer'', rstr ''HWAddressSanitizer'',
       rstr ''UndefinedBehaviorSanitizer'']], rseq [rstr ''WARNING: '',
       ralt [rstr ''ThreadSanitizer'', rstr ''MemorySanitizer''], rstr '':''],
       rseq [rstr ''SUMMARY: '', ralt [rstr ''ThreadSanitizer'', rstr ''MemorySanitizer''],
       rstr '':''], rseq [RBol, rstr ''WARNING: DATA RACE'', REol],
       rstr ''UndefinedBehaviorSanitizer:'', rseq [RBol, rstr ''fatal error: checkptr:''],
       rseq [RBol, rnot [CSpc], rstar RAny, rstr '':'', rplus (rset [CDig]), rstr '':'',
       rplus (rset [CDig]), rstr '': runtime error:'']]"

definition RUNTIME_DIAGNOSTIC_re :: rx where
  "RUNTIME_DIAGNOSTIC_re =
     ralt [rstr ''panic: runtime error:'', rseq [rstr ''fatal error: '',
       ralt [rstr ''stack overflow'', rstr ''out of memory'', rstr ''concurrent map'']],
       rseq [RBol, rstr ''goroutine '', rplus (rset [CDig]), rstr '' [''], rseq [RBol,
       rstr [CHR ''t'', CHR ''h'', CHR ''r'', CHR ''e'', CHR ''a'', CHR ''d'', CHR '' '',
       CHR 0x27], rstar (rnot [CLit (CHR 0x27)]), rstr [CHR 0x27], ropt (rseq [rstr '' ('',
       rstar (rnot [CLit (CHR '')'')]), rstr '')'']), rstr '' panicked at''],
       rstr ''fatal runtime error:'', rseq [RBol, rstr ''Exception in thread''],
       rseq [rstr ''java.lang.'', ralt [rstr ''OutOfMemoryError'', rstr ''StackOverflowError'',
       rstr ''NullPointerException'', rstr ''IndexOutOfBoundsException'', rstr ''VerifyError'',
       rstr ''ClassCastException'']], rseq [RBol, rstr ''Fatal Python error:''], rseq [RBol,
       rstr ''Traceback (most recent call last):''], rseq [RBol, rstr ''[BUG]''], rseq [RBol,
       rnot [CLit (CHR '' ''), CLit (CHR 0x0A)], rstar RAny, rstr '':'', rplus (rset [CDig]),
       rstr '':in '', rplus RAny, rstr '': '', rstar RAny, rstr '' ('',
       rstar (rseq [rset [CRng (CHR ''A'') (CHR ''Z'')], rstar (rset [CWrd]), rstr ''::'']),
       rset [CRng (CHR ''A'') (CHR ''Z'')], rstar (rset [CWrd]), rstr ''E'',
       ralt [rstr ''rror'', rstr ''xception''], rstr '')'', REol], rstr ''(NoMemoryError)'',
       rstr ''SystemStackError'', rstr ''stack level too deep'', rseq [RBol,
       rstr ''FATAL ERROR:'', rstar RAny, ralt [rstr ''heap out of memory'',
       rstr ''Allocation failed'']], rstr ''RangeError: Maximum call stack'', rseq [RBol,
       rstr ''PHP Fatal error:''], rseq [RBol, rstr ''Fatal error:''], rseq [RBol,
       rstr ''Uncaught '', rplus (rset [CWrd]), rstr ''Error:'']]"

definition OTHER_MEMORY_SAFETY_re :: rx where
  "OTHER_MEMORY_SAFETY_re =
     ralt [rseq [rstr ''WARNING: ThreadSanitizer: '', ralt [rstr ''data race'',
       rstr ''heap-use-after-free'']],
       rstr ''WARNING: MemorySanitizer: use-of-uninitialized-value'',
       rseq [ralt [rstr ''ERROR'', rstr ''SUMMARY''],
       rstr '': HWAddressSanitizer: tag-mismatch''], rseq [RBol, rstr ''WARNING: DATA RACE'',
       REol], rseq [RBol, rstr ''fatal error: checkptr:''],
       rseq [rstr ''SEGV on unknown address 0x'', rstar (rstr ''0''),
       rset [CRng (CHR ''1'') (CHR ''9''), CRng (CHR ''a'') (CHR ''f''),
       CRng (CHR ''A'') (CHR ''F'')], RRep True 3 None (rset [CRng (CHR ''0'') (CHR ''9''),
       CRng (CHR ''a'') (CHR ''f''), CRng (CHR ''A'') (CHR ''F'')])],
       rseq [rstr ''SCARINESS: '', rplus (rset [CDig]), rstr '' (wild-addr'']]"

definition UBSAN_REPORT_re :: rx where
  "UBSAN_REPORT_re =
     ralt [rstr ''UndefinedBehaviorSanitizer'', rseq [RBol, rnot [CSpc], rstar RAny,
       rstr '':'', rplus (rset [CDig]), rstr '':'', rplus (rset [CDig]),
       rstr '': runtime error:'']]"

text \<open>Ignores letter case.\<close>

definition UBSAN_SECURITY_re :: rx where
  "UBSAN_SECURITY_re =
     ralt [rstr ''through pointer to incorrect function type'',
       rstr ''out of bounds for type'', rstr ''with insufficient space for an object of type'',
       rstr ''variable length array bound evaluates to non-positive value'',
       rstr ''does not point to an object of type'']"

definition DEBUG_ASSERT_re :: rx where
  "DEBUG_ASSERT_re =
     ralt [rseq [RBol, rstr ''Assertion failed:''], rstr ''__assert_rtn'',
       rstr ''__assert_fail'', rseq [RBol, rstar (rset [CSpc]), rstr ''#'',
       rplus (rset [CDig]), rstr '' '', rstar RAny, rstr '' in '',
       rset [CRng (CHR ''A'') (CHR ''Z'')], rstar (rset [CRng (CHR ''A'') (CHR ''Z''),
       CRng (CHR ''0'') (CHR ''9''), CLit (CHR ''_'')]), ralt [rstr ''ASSERT'',
       rstr ''CHECK''], RWordB True]]"

definition ABORT_SIGNAL_re :: rx where
  "ABORT_SIGNAL_re =
     ralt [rstr ''AddressSanitizer: ABRT'', rstr ''SIGABRT'']"

definition AUTO_REJECT :: "(rx \<times> string) list" where
  "AUTO_REJECT =
     [((ralt [rstr ''Hint: address points to the zero page'', rseq [rstr ''SCARINESS: '',
       rplus (rset [CDig]), rstr '' (null-deref)''], rseq [rstr ''SEGV on unknown address 0x'',
       rplus (rstr ''0''), ralt [rnot [CRng (CHR ''0'') (CHR ''9''),
       CRng (CHR ''a'') (CHR ''f''), CRng (CHR ''A'') (CHR ''F'')], REos]]]), ''null-deref''),
       ((rseq [rstr ''AddressSanitizer: stack-overflow'', ralt [rstr '' '', REos]]),
       ''stack exhaustion''), ((ralt [rseq [rstr ''AddressSanitizer: '',
       ralt [rstr ''allocation-size-too-big'', rstr ''out-of-memory'']],
       rstr ''AddressSanitizer failed to allocate'', rseq [rstr ''requested allocation size '',
       rstar RAny, rstr '' exceeds maximum''], rseq [rstr ''rss limit ex'',
       ralt [rstr ''hausted'', rstr ''ceeded'']]]), ''resource exhaustion''),
       ((ralt [rseq [ralt [RBol, rset [CLit (CHR '']''), CLit (CHR ''[''), CSpc,
       CLit (CHR '':''), CLit (CHR ''>'')]], rstr ''Hit MOZ_CRASH(''], rseq [RBol,
       rstr ''Assertion failure:''], rstr ''###!!! ASSERTION:'']),
       ''intentional assertion crash''), ((ralt [rseq [RBol, rstr [CHR ''t'', CHR ''h'',
       CHR ''r'', CHR ''e'', CHR ''a'', CHR ''d'', CHR '' '', CHR 0x27],
       rstar (rnot [CLit (CHR 0x27)]), rstr [CHR 0x27], ropt (rseq [rstr '' ('',
       rstar (rnot [CLit (CHR '')'')]), rstr '')'']), rstr '' panicked at ''],
       rseq [RWordB True, rstr ''RustMozCrash'', RWordB True]]), ''runtime panic'')]"

definition ABORT_LINE_re :: rx where
  "ABORT_LINE_re =
     ralt [rstr ''SIGABRT'', rseq [RBol, rstr ''abort()''], rseq [rstr ''libsystem_kernel'',
       rstar RAny, rstr ''__pthread_kill'']]"

definition SKELETON_MARKER_re :: rx where
  "SKELETON_MARKER_re =
     rseq [RBol, rstr ''_TODO (agent):'']"

text \<open>The shared signature of \<open>lib/stack_frames.py\<close>, its memory-corruption classes, and the fault report of
  the Go runtime.\<close>

definition SANITIZER_SIGNATURE_RE :: rx where
  "SANITIZER_SIGNATURE_RE =
     ralt [rseq [rstr ''ERROR: '', ralt [rstr ''AddressSanitizer'',
       rstr ''HWAddressSanitizer'', rstr ''UndefinedBehaviorSanitizer'']],
       rseq [rstr ''SUMMARY: '', ralt [rstr ''AddressSanitizer'', rstr ''HWAddressSanitizer'',
       rstr ''UndefinedBehaviorSanitizer'']], rseq [rstr ''WARNING: '',
       ralt [rstr ''ThreadSanitizer'', rstr ''MemorySanitizer''], rstr '':''],
       rseq [rstr ''SUMMARY: '', ralt [rstr ''ThreadSanitizer'', rstr ''MemorySanitizer''],
       rstr '':''], rseq [RBol, rstr ''WARNING: DATA RACE'', REol],
       rstr ''UndefinedBehaviorSanitizer:'', rseq [RBol, rnot [CSpc], rstar RAny, rstr '':'',
       rplus (rset [CDig]), rstr '':'', rplus (rset [CDig]), rstr '': runtime error:'']]"

definition MEMORY_SAFETY_CLASS_RE :: rx where
  "MEMORY_SAFETY_CLASS_RE =
     rseq [RBol, rstar (rset [CLit (CHR '' ''), CLit (CHR 0x09)]), ropt (rseq [rstr ''=='',
       rplus (rset [CDig]), rstr ''=='']), ralt [rstr ''ERROR'', rstr ''SUMMARY''], rstr '':'',
       rplus (rset [CSpc]), rstr ''AddressSanitizer:'', rplus (rset [CSpc]),
       RGrp 1 (ralt [rstr ''heap-buffer-overflow'', rstr ''stack-buffer-overflow'',
       rstr ''stack-buffer-underflow'', rstr ''global-buffer-overflow'',
       rstr ''dynamic-stack-buffer-overflow'', rstr ''heap-use-after-free'',
       rstr ''use-after-free'', rstr ''stack-use-after-return'',
       rstr ''stack-use-after-scope'', rstr ''use-after-poison'', rstr ''container-overflow'',
       rstr ''intra-object-overflow'', rstr ''alloc-dealloc-mismatch'', rstr ''double-free'',
       rstr ''bad-free'', rstr ''free-size-mismatch'', rstr ''new-delete-type-mismatch'',
       rstr ''negative-size-param'', rstr ''calloc-overflow'', rstr ''reallocarray-overflow'',
       rstr ''pvalloc-overflow'', rstr ''invalid-pointer-pair'',
       rseq [rplus (rset [CRng (CHR ''a'') (CHR ''z'')]), rstr ''-param-overlap'']]),
       RWordB True]"

definition GO_FATAL_FAULT_RE :: rx where
  "GO_FATAL_FAULT_RE =
     rseq [RBol, rstr ''unexpected fault address 0x'',
       RGrp 1 (rplus (rset [CRng (CHR ''0'') (CHR ''9''), CRng (CHR ''a'') (CHR ''f''),
       CRng (CHR ''A'') (CHR ''F'')])), rstar (rset [CLit (CHR '' ''), CLit (CHR 0x09),
       CLit (CHR 0x0D)]), rstr [CHR 0x0A], RBol, rstr ''fatal error: fault'',
       rstar (rset [CLit (CHR '' ''), CLit (CHR 0x09), CLit (CHR 0x0D)]), rstr [CHR 0x0A],
       RBol, rstr ''[signal SIG'', ralt [rstr ''SEGV'', rstr ''BUS''], rstr '':'',
       rstar (rnot [CLit (CHR 0x0A)]), RWordB True, rstr ''addr=0x'',
       RGrp 2 (rplus (rset [CRng (CHR ''0'') (CHR ''9''), CRng (CHR ''a'') (CHR ''f''),
       CRng (CHR ''A'') (CHR ''F'')])), RWordB True]"

subsection \<open>Every match\<close>

text \<open>\<open>re.finditer\<close> for a pattern that consumes text: the matches from left to right, none overlapping.\<close>

fun hits_from :: "nat \<Rightarrow> rx \<Rightarrow> bool \<Rightarrow> string \<Rightarrow> string \<Rightarrow> re_hit list" where
  "hits_from 0 r ic pre suf = []"
| "hits_from (Suc k) r ic pre suf =
     (case suf of [] \<Rightarrow> []
      | c # cs \<Rightarrow>
        (case hit_at r ic pre suf of
           Some h \<Rightarrow>
             if re_text h = [] then hits_from k r ic (c # pre) cs
             else h # hits_from k r ic (rev (re_text h) @ pre) (re_after h)
         | None \<Rightarrow> hits_from k r ic (c # pre) cs))"

definition re_finditer :: "rx \<Rightarrow> bool \<Rightarrow> string \<Rightarrow> re_hit list" where
  "re_finditer r ic s = hits_from (length s) r ic [] s"

text \<open>\<open>int(digits, 16)\<close>.\<close>

definition hex_digit :: "char \<Rightarrow> nat" where
  "hex_digit c = (let n = of_char (lower_char c) :: nat in if 97 \<le> n then n - 87 else n - 48)"

definition hex_value :: "string \<Rightarrow> nat" where
  "hex_value digits = fold (\<lambda>c v. 16 * v + hex_digit c) digits 0"

subsection \<open>Classification\<close>

definition memory_safety_class :: "string \<Rightarrow> string option" where
  "memory_safety_class report = map_option (re_group 1) (re_search MEMORY_SAFETY_CLASS_RE False report)"

text \<open>The strongest fault address that the runtime printed twice alike.\<close>

definition stronger_fault :: "re_hit \<Rightarrow> nat option \<Rightarrow> nat option" where
  "stronger_fault hit found =
     (let address = hex_value (re_group 1 hit)
      in if address = hex_value (re_group 2 hit)
         then Some (case found of Some best \<Rightarrow> max best address | None \<Rightarrow> address) else found)"

definition go_fatal_fault_address :: "string \<Rightarrow> nat option" where
  "go_fatal_fault_address report = fold stronger_fault (re_finditer GO_FATAL_FAULT_RE False report) None"

definition go_memory_fault :: "string \<Rightarrow> bool" where
  "go_memory_fault report \<longleftrightarrow>
     (case go_fatal_fault_address report of Some address \<Rightarrow> 0x1000 \<le> address | None \<Rightarrow> False)"

definition ubsan_class :: "string \<Rightarrow> string" where
  "ubsan_class report =
     (if \<not> re_found UBSAN_REPORT_re False report then []
      else if re_found UBSAN_SECURITY_re True report then ''security'' else ''nonsecurity'')"

definition has_memory_safety_signal :: "string \<Rightarrow> bool" where
  "has_memory_safety_signal report \<longleftrightarrow>
     memory_safety_class report \<noteq> None \<or> re_found OTHER_MEMORY_SAFETY_re False report
     \<or> go_memory_fault report \<or> ubsan_class report = ''security''"

definition has_valid_diagnostic :: "string \<Rightarrow> bool \<Rightarrow> bool" where
  "has_valid_diagnostic report findings_only \<longleftrightarrow>
     (if re_found DIAGNOSTIC_re False report \<or> go_fatal_fault_address report \<noteq> None then True
      else findings_only \<and> re_found RUNTIME_DIAGNOSTIC_re False report)"

definition runtime_only_diagnostic :: "string \<Rightarrow> bool \<Rightarrow> bool" where
  "runtime_only_diagnostic report findings_only \<longleftrightarrow>
     findings_only \<and> re_found RUNTIME_DIAGNOSTIC_re False report \<and> \<not> re_found DIAGNOSTIC_re False report"

text \<open>The reason a diagnostic is discarded for, or nothing.\<close>

definition autodiscard_reason :: "string \<Rightarrow> string" where
  "autodiscard_reason report =
     (if memory_safety_class report \<noteq> None \<or> re_found OTHER_MEMORY_SAFETY_re False report
         \<or> go_memory_fault report \<or> ubsan_class report = ''security'' then []
      else if go_fatal_fault_address report \<noteq> None then ''null-deref''
      else if re_found DEBUG_ASSERT_re False report \<and> re_found ABORT_SIGNAL_re False report
      then ''debug assertion abort''
      else
        (case filter (\<lambda>(pattern, _). re_found pattern False report) AUTO_REJECT of
           (_, reason) # _ \<Rightarrow> reason
         | [] \<Rightarrow> if re_found ABORT_LINE_re False report \<and> \<not> re_found DIAGNOSTIC_re False report
                 then ''abort without sanitizer diagnostic'' else []))"

definition has_sanitizer_diagnostic :: "string \<Rightarrow> bool" where
  "has_sanitizer_diagnostic report = re_found SANITIZER_SIGNATURE_RE False report"

subsection \<open>Two gates\<close>

definition CHECKPTR_re :: rx where
  "CHECKPTR_re = rseq [RBol, rstr ''fatal error: checkptr:'']"

lemma DIAGNOSTIC_parts:
  "re_found DIAGNOSTIC_re False report \<longleftrightarrow> has_sanitizer_diagnostic report \<or> re_found CHECKPTR_re False report"
  unfolding DIAGNOSTIC_re_def has_sanitizer_diagnostic_def SANITIZER_SIGNATURE_RE_def CHECKPTR_re_def re_found_ralt
  by (simp only: list.set bex_simps insert_iff) blast

lemma checkptr_signal: "re_found CHECKPTR_re False report \<Longrightarrow> has_memory_safety_signal report"
  unfolding has_memory_safety_signal_def OTHER_MEMORY_SAFETY_re_def CHECKPTR_re_def re_found_ralt by simp

lemma signal_kept: "has_memory_safety_signal report \<Longrightarrow> autodiscard_reason report = []"
  by (simp add: autodiscard_reason_def has_memory_safety_signal_def)

text \<open>The gate of triage accepts what the shared signature accepts, and two reports of the Go runtime more.\<close>

definition demo_checkptr :: string where
  "demo_checkptr = ''fatal error: checkptr: converted pointer'' @ [newline]"

lemma demo_checkptr_unsigned: "\<not> has_sanitizer_diagnostic demo_checkptr"
  by code_simp

text \<open>
  C28 (diagnostic_gates_differ). Triage accepts as the proof of a crash what the shared signature of
  sanitizer diagnostics accepts, and beyond it the checkptr and fault reports of the Go runtime. A
  checkptr report alone is therefore a crash triage promotes, with a memory-safety signal and no
  reason to discard it, and one the signature (which counts confirmed crashes) does not see.
\<close>

theorem diagnostic_gates_differ:
  "(has_valid_diagnostic report False \<longleftrightarrow> has_sanitizer_diagnostic report
      \<or> re_found CHECKPTR_re False report \<or> go_fatal_fault_address report \<noteq> None)
   \<and> has_valid_diagnostic demo_checkptr False \<and> has_memory_safety_signal demo_checkptr
   \<and> autodiscard_reason demo_checkptr = [] \<and> \<not> has_sanitizer_diagnostic demo_checkptr"
proof -
  have found: "re_found CHECKPTR_re False demo_checkptr"
    unfolding CHECKPTR_re_def demo_checkptr_def
    using re_found_line_start [of "''fatal error: checkptr:''" False "'' converted pointer'' @ [newline]"]
    by simp
  then have signal: "has_memory_safety_signal demo_checkptr" by (rule checkptr_signal)
  then have "autodiscard_reason demo_checkptr = []" by (rule signal_kept)
  with signal found demo_checkptr_unsigned show ?thesis by (simp add: has_valid_diagnostic_def DIAGNOSTIC_parts)
qed

theorem diagnostic_gates_differ_witness:
  "has_valid_diagnostic demo_checkptr False \<and> \<not> has_sanitizer_diagnostic demo_checkptr"
  using diagnostic_gates_differ [of demo_checkptr] by blast

end
