(* ===== verification/Identity.thy ===== *)
theory Identity
  imports Lanes
begin

text \<open>
  The identity of a report (\<open>lib/report_identity.py\<close>): what is left of its text once the annotations of
  the harness are taken out and tables are brought into one shape. Votes and quality verdicts are kept
  for as long as this text does not change, so a mechanical edit must not move it. The contract-concern
  section that triage writes and takes out again (\<open>lib/triage.py\<close>) is such an edit.
\<close>

subsection \<open>Patterns\<close>

definition REPORT_NAMES :: "string list" where
  "REPORT_NAMES = [''report.md'', ''description.md'', ''analysis.md'', ''README.md'']"

definition PLACEHOLDER_FIELD_VALUES :: "string list" where
  "PLACEHOLDER_FIELD_VALUES = [[], ''-'', [EM_DASH], ''?'', ''tbd'', ''unknown / not assessed'']"

definition CLUSTER_STAMP_PLACEHOLDER :: string where
  "CLUSTER_STAMP_PLACEHOLDER = ''(set by bin/cluster-crashes)''"

definition field_value_is_placeholder :: "string \<Rightarrow> string \<Rightarrow> bool" where
  "field_value_is_placeholder field value \<longleftrightarrow>
     (let normalized = py_lower (py_strip value); label = py_lower (py_strip field)
      in normalized \<in> set PLACEHOLDER_FIELD_VALUES
         \<or> (normalized = ''unspecified'' \<and> label \<noteq> ''caller contract'')
         \<or> (label = ''cluster'' \<and> normalized = py_lower CLUSTER_STAMP_PLACEHOLDER))"

text \<open>Ignores letter case.\<close>

definition FIELDS_HEADER_RE :: rx where
  "FIELDS_HEADER_RE =
     rseq [RBos, rstar (rset [CSpc]), rstr ''|'', rstar (rset [CSpc]), rstr ''field'', rstar (rset [CSpc]),
       rstr ''|'', rstar (rset [CSpc]), rstr ''value'', rstar (rset [CSpc]), rstr ''|'', rstar (rset [CSpc]), REos]"

definition FIELDS_SEPARATOR_RE :: rx where
  "FIELDS_SEPARATOR_RE =
     rseq [RBos, rstar (rset [CSpc]), ropt (rstr ''|''), rstar (rset [CSpc]), ropt (rstr '':''),
       rplus (rstr ''-''), ropt (rstr '':''), rstar (rset [CSpc]),
       rplus (RGrp 1 (rseq [rstr ''|'', rstar (rset [CSpc]), ropt (rstr '':''), rplus (rstr ''-''),
         ropt (rstr '':''), rstar (rset [CSpc])])),
       ropt (rstr ''|''), rstar (rset [CSpc]), REos]"

definition is_fields_table_header :: "string \<Rightarrow> string \<Rightarrow> bool" where
  "is_fields_table_header line following \<longleftrightarrow>
     re_match FIELDS_HEADER_RE True line \<noteq> None \<and> re_match FIELDS_SEPARATOR_RE False following \<noteq> None"

definition CONTRACT_CONCERN_HEADING :: string where
  "CONTRACT_CONCERN_HEADING = ''## Contract concern''"

definition SEVERITY_RATIONALE_HEADING :: string where
  "SEVERITY_RATIONALE_HEADING = ''## Severity rationale''"

definition SECTION_BOUNDARY_PREFIXES :: "string list" where
  "SECTION_BOUNDARY_PREFIXES = [''## '', ''Summary:'']"

definition GENERATED_SECTIONS :: "string list" where
  "GENERATED_SECTIONS = [CONTRACT_CONCERN_HEADING, ''## Patch'', SEVERITY_RATIONALE_HEADING]"

definition is_boundary :: "string \<Rightarrow> bool" where
  "is_boundary line \<longleftrightarrow> list_ex (\<lambda>p. py_startswith p line) SECTION_BOUNDARY_PREFIXES"

definition CODE_FENCE_RE :: rx where
  "CODE_FENCE_RE =
     rseq [RBos, rstar (rset [CSpc]),
       RGrp 1 (ralt [RRep True 3 None (rstr [CHR 0x60]), RRep True 3 None (rstr ''~'')])]"

definition TABLE_ROW_RE :: rx where
  "TABLE_ROW_RE =
     rseq [RBos, rstar (rset [CSpc]), rstr ''|'', rstar RAny, rstr ''|'', rstar (rset [CSpc]), REos]"

definition marker_name :: "citem list" where
  "marker_name = [CRng (CHR ''A'') (CHR ''Z''), CRng (CHR ''a'') (CHR ''z''), CRng (CHR ''0'') (CHR ''9''),
     CLit (CHR ''_''), CLit (CHR ''-'')]"

text \<open>\<open>fullmatch\<close> asks for the end of the text after the match.\<close>

definition ENRICH_OPEN_RE :: rx where
  "ENRICH_OPEN_RE = rseq [rstr ''<!-- enrich:'', rplus (rset marker_name), rstr '' -->'', RLook False (rnot [])]"

definition ENRICH_CLOSE_RE :: rx where
  "ENRICH_CLOSE_RE = rseq [rstr ''<!-- /enrich:'', rplus (rset marker_name), rstr '' -->'', RLook False (rnot [])]"

definition generated_label :: rx where
  "generated_label = ralt [rstr ''Cluster'', rstr ''Dedup frames'', rstr ''Dedup key'', rstr ''Severity'']"

definition GENERATED_LINE_RE :: rx where
  "GENERATED_LINE_RE =
     rseq [RBos, ralt [rseq [generated_label, rstr '':''],
       rseq [rstr ''|'', rstar (rset [CSpc]), generated_label, rstar (rset [CSpc]), rstr ''|''],
       rseq [rset [CLit (CHR ''-''), CLit (CHR ''*'')], rstar (rset [CSpc]), rstr ''**Severity**:'']]]"

subsection \<open>Code fences\<close>

definition fence_char :: "string \<Rightarrow> char option" where
  "fence_char line = map_option (\<lambda>m. hd (re_group 1 m)) (re_match CODE_FENCE_RE False line)"

fun fence_mask :: "char option \<Rightarrow> string list \<Rightarrow> bool list" where
  "fence_mask fence [] = []"
| "fence_mask fence (line # lines) =
     (fence \<noteq> None \<or> fence_char line \<noteq> None)
       # fence_mask (case fence_char line of None \<Rightarrow> fence
           | Some c \<Rightarrow> if fence = None then Some c else if fence = Some c then None else fence) lines"

definition code_fence_mask :: "string list \<Rightarrow> bool list" where
  "code_fence_mask lines = fence_mask None lines"

subsection \<open>Tables\<close>

definition is_table_row :: "string \<Rightarrow> bool" where
  "is_table_row line \<longleftrightarrow> re_match TABLE_ROW_RE False line \<noteq> None"

definition row_cells :: "string \<Rightarrow> string list" where
  "row_cells line = map py_strip (py_split CHR ''|'' (drop 1 (butlast (py_strip line))))"

text \<open>The last column of a row that holds something, counting from one.\<close>

definition last_filled :: "string list \<Rightarrow> nat" where
  "last_filled cells = length (dropWhile (\<lambda>cell. cell = []) (rev cells))"

text \<open>\<open>body_rows\<close>: the rows of a table but its separator, which is the second.\<close>

definition body_rows :: "string list list \<Rightarrow> string list list" where
  "body_rows rows = take 1 rows @ drop 2 rows"

definition table_columns :: "string list list \<Rightarrow> nat" where
  "table_columns rows =
     (let columns = foldr max (map last_filled (body_rows rows)) 0
      in if columns \<noteq> 0 then columns else foldr max (map length rows) 0)"

definition separator_cell :: "string \<Rightarrow> string" where
  "separator_cell cell =
     (if py_startswith '':'' cell then '':'' else []) @ ''---'' @ (if py_endswith '':'' cell then '':'' else [])"

definition fit_cells :: "nat option \<Rightarrow> string \<Rightarrow> string list \<Rightarrow> string list" where
  "fit_cells columns filler cells =
     (case columns of None \<Rightarrow> cells | Some n \<Rightarrow> take n (cells @ replicate n filler))"

definition show_row :: "string list \<Rightarrow> string" where
  "show_row cells = ''|'' @ py_join ''|'' cells @ ''|''"

definition canonical_row :: "nat option \<Rightarrow> nat \<times> string list \<Rightarrow> string" where
  "canonical_row columns = (\<lambda>(position, cells).
     show_row (if position = 1 then fit_cells columns ''---'' (map separator_cell cells)
       else fit_cells columns [] cells))"

definition canonical_rows :: "bool \<Rightarrow> string list list \<Rightarrow> string list" where
  "canonical_rows trim_padding rows =
     map (canonical_row (if trim_padding then Some (table_columns rows) else None)) (List.enumerate 0 rows)"

text \<open>The fence the line is in, if any, then the lines.\<close>

function canonicalize_tables :: "bool \<Rightarrow> char option \<Rightarrow> string list \<Rightarrow> string list" where
  "canonicalize_tables trim_padding fence [] = []"
| "canonicalize_tables trim_padding fence (line # lines) =
     (case fence of
        Some c \<Rightarrow> line # canonicalize_tables trim_padding (if fence_char line = Some c then None else Some c) lines
      | None \<Rightarrow>
          (case fence_char line of
             Some c \<Rightarrow> line # canonicalize_tables trim_padding (Some c) lines
           | None \<Rightarrow>
               if is_table_row line
                  \<and> re_match FIELDS_SEPARATOR_RE False (case lines of [] \<Rightarrow> [] | f # _ \<Rightarrow> f) \<noteq> None then
                 canonical_rows trim_padding (map row_cells (takeWhile is_table_row (line # lines)))
                   @ canonicalize_tables trim_padding None (dropWhile is_table_row (line # lines))
               else line # canonicalize_tables trim_padding None lines))"
  by pat_completeness auto

termination
  by (relation "measure (\<lambda>(trim_padding, fence, lines). length lines)")
     (auto intro: le_imp_less_Suc length_dropWhile_le)

subsection \<open>The semantic text\<close>

text \<open>Where a scan stands: inside an enrichment, inside a code fence, inside a generated section.\<close>

type_synonym scan = "bool \<times> char option \<times> bool"

text \<open>Whether a line is kept, and where the scan stands after it.\<close>

definition scan_line :: "bool \<Rightarrow> scan \<Rightarrow> string \<Rightarrow> bool \<times> scan" where
  "scan_line strip_enrich_fenced_code = (\<lambda>(enrich_fence, code_fence, skipped) line.
     (let normalized = py_rstrip line; fence = fence_char line;
          kept = (\<not> skipped \<and> (\<not> enrich_fence \<or> \<not> strip_enrich_fenced_code) \<and> normalized \<noteq> [])
      in case code_fence of
           Some c \<Rightarrow> (kept, enrich_fence, if fence = Some c then None else Some c, skipped)
         | None \<Rightarrow>
             (case fence of
                Some c \<Rightarrow> (kept, enrich_fence, Some c, skipped)
              | None \<Rightarrow>
                  if re_match ENRICH_OPEN_RE False normalized \<noteq> None then (False, True, None, skipped)
                  else if re_match ENRICH_CLOSE_RE False normalized \<noteq> None then (False, False, None, skipped)
                  else if enrich_fence then (False, True, None, skipped)
                  else
                    (let skipping = (skipped \<and> \<not> is_boundary normalized)
                     in if skipping then (False, False, None, True)
                        else if normalized \<in> set GENERATED_SECTIONS then (False, False, None, True)
                        else if re_match GENERATED_LINE_RE False line \<noteq> None then (False, False, None, False)
                        else (normalized \<noteq> [], False, None, False)))))"

primrec semantic_lines :: "bool \<Rightarrow> scan \<Rightarrow> string list \<Rightarrow> string list" where
  "semantic_lines b st [] = []"
| "semantic_lines b st (line # lines) =
     (case scan_line b st line of (kept, st') \<Rightarrow> (if kept then [line] else []) @ semantic_lines b st' lines)"

definition scan_start :: scan where "scan_start = (False, None, False)"

definition semantic_text :: "bool \<Rightarrow> bool \<Rightarrow> bool \<Rightarrow> string \<Rightarrow> string" where
  "semantic_text canonical strip_enrich_fenced_code trim_table_padding report =
     (let stripped = semantic_lines strip_enrich_fenced_code scan_start (py_splitlines report);
          final = (if canonical then canonicalize_tables trim_table_padding None stripped else stripped)
      in py_join [newline] final @ (if final \<noteq> [] then [newline] else []))"

definition semantic_report_text :: "string \<Rightarrow> string" where
  "semantic_report_text report = semantic_text True True True report"

definition semantic_text_sha1 :: "(string \<Rightarrow> string) \<Rightarrow> string \<Rightarrow> string" where
  "semantic_text_sha1 sha1 report = sha1 (semantic_report_text report)"

definition legacy_semantic_text_sha1 :: "(string \<Rightarrow> string) \<Rightarrow> string \<Rightarrow> string" where
  "legacy_semantic_text_sha1 sha1 report = sha1 (semantic_text False True True report)"

definition legacy_padded_table_semantic_text_sha1 :: "(string \<Rightarrow> string) \<Rightarrow> string \<Rightarrow> string" where
  "legacy_padded_table_semantic_text_sha1 sha1 report = sha1 (semantic_text True True False report)"

definition legacy_enrich_semantic_text_sha1 :: "(string \<Rightarrow> string) \<Rightarrow> bool \<Rightarrow> string \<Rightarrow> string" where
  "legacy_enrich_semantic_text_sha1 sha1 canonical report = sha1 (semantic_text canonical False False report)"

text \<open>The hashes under which votes on this text may have been filed, now or by earlier versions.\<close>

definition text_sha1_candidates :: "(string \<Rightarrow> string) \<Rightarrow> string \<Rightarrow> string set" where
  "text_sha1_candidates sha1 report =
     {semantic_text_sha1 sha1 report, legacy_semantic_text_sha1 sha1 report,
      legacy_padded_table_semantic_text_sha1 sha1 report,
      legacy_enrich_semantic_text_sha1 sha1 True report, legacy_enrich_semantic_text_sha1 sha1 False report}"

text \<open>The directory as its children with whether each is a file.\<close>

definition exact_child_files :: "(string \<times> bool) list \<Rightarrow> string list \<Rightarrow> string list" where
  "exact_child_files children names = filter (\<lambda>name. map_of children name = Some True) names"

definition find_report :: "(string \<times> bool) list \<Rightarrow> string option" where
  "find_report children =
     (case exact_child_files children REPORT_NAMES of [] \<Rightarrow> None | name # _ \<Rightarrow> Some name)"

definition quality_cache_matches_report :: "(string \<Rightarrow> string) \<Rightarrow> string option \<Rightarrow> string \<Rightarrow> bool" where
  "quality_cache_matches_report sha1 report cached_sha1 \<longleftrightarrow>
     (if cached_sha1 = [] then True
      else case report of None \<Rightarrow> False | Some t \<Rightarrow> cached_sha1 \<in> text_sha1_candidates sha1 t)"

subsection \<open>The title\<close>

definition id_chars :: "citem list" where
  "id_chars = [CWrd, CLit (CHR ''.''), CLit (CHR ''-'')]"

definition H1_TITLE_RE :: rx where
  "H1_TITLE_RE =
     rseq [RBos, rstr ''#'', rstar (rset [CSpc]),
       ropt (rseq [ropt (rstr ''/''), RRep False 0 None (rset [CWrd, CLit (CHR ''/''), CLit (CHR ''.''), CLit (CHR ''-'')]),
         rplus (rset [CRng (CHR ''A'') (CHR ''Z'')]), rstr ''-'', rplus (rset id_chars), rstar (rset [CSpc]),
         rset [CLit (CHR '':''), CLit EM_DASH, CLit EN_DASH, CLit (CHR ''-'')], rstar (rset [CSpc])]),
       RGrp 1 (RRep False 1 None RAny), rstar (rset [CSpc]), REos]"

definition ID_ONLY_RE :: rx where
  "ID_ONLY_RE =
     rseq [RBos, ropt (rstr ''/''), RRep False 0 None (rset [CWrd, CLit (CHR ''/''), CLit (CHR ''.''), CLit (CHR ''-'')]),
       ralt [rstr ''CRASH'', rstr ''FIND''], rstr ''-'', rplus (rset id_chars), REos]"

definition H1_LINE_RE :: rx where
  "H1_LINE_RE = rseq [RBos, RRep True 0 (Some 3) (rstr '' ''), rstr ''# '']"

text \<open>Ignores letter case.\<close>

definition SUMMARY_HEADING_RE :: rx where
  "SUMMARY_HEADING_RE =
     rseq [RBos, ralt [rseq [rstr ''##'', rplus (rset [CSpc]), rstr ''Summary'', rstar (rset [CSpc])],
       rseq [rstr ''Summary:'', rstar (rset [CSpc])]], REos]"

definition SENTENCE_END_RE :: rx where
  "SENTENCE_END_RE =
     rseq [RBos, RGrp 1 (rseq [RRep False 1 None RAny, rset [CLit (CHR ''.''), CLit (CHR ''!''), CLit (CHR ''?'')]]),
       ralt [rset [CSpc], REos]]"

definition clip_text :: "string \<Rightarrow> nat \<Rightarrow> string" where
  "clip_text s limit = (if length s \<le> limit then s else py_rstrip (take (limit - 1) s) @ [ELLIPSIS])"

text \<open>\<open>Inl\<close> is the title a heading gives; \<open>Inr\<close> the paragraph found under the summary.\<close>

fun title_scan :: "nat \<Rightarrow> bool \<Rightarrow> bool \<Rightarrow> string list \<Rightarrow> (string \<times> bool) list \<Rightarrow> string + string list" where
  "title_scan limit in_summary in_enrich paragraph [] = Inr paragraph"
| "title_scan limit in_summary in_enrich paragraph ((line, fenced) # rest) =
     (let stripped = py_strip line
      in if fenced then title_scan limit in_summary in_enrich paragraph rest
         else if re_match ENRICH_OPEN_RE False stripped \<noteq> None then title_scan limit in_summary True paragraph rest
         else if re_match ENRICH_CLOSE_RE False stripped \<noteq> None then title_scan limit in_summary False paragraph rest
         else if in_enrich then title_scan limit in_summary in_enrich paragraph rest
         else if re_match H1_LINE_RE False line \<noteq> None then
           (let title = py_strip (case re_match H1_TITLE_RE False stripped of
                  Some m \<Rightarrow> re_group 1 m | None \<Rightarrow> drop 2 stripped)
            in if title \<noteq> [] \<and> re_match ID_ONLY_RE False title = None then Inl (clip_text title limit)
               else title_scan limit in_summary in_enrich paragraph rest)
         else if re_match SUMMARY_HEADING_RE True stripped \<noteq> None then title_scan limit True in_enrich paragraph rest
         else if \<not> in_summary then title_scan limit in_summary in_enrich paragraph rest
         else if stripped \<noteq> [] \<and> \<not> is_boundary stripped then
           title_scan limit in_summary in_enrich (paragraph @ [stripped]) rest
         else if paragraph \<noteq> [] \<or> is_boundary stripped then Inr paragraph
         else title_scan limit in_summary in_enrich paragraph rest)"

definition report_title :: "string \<Rightarrow> nat \<Rightarrow> string" where
  "report_title report limit =
     (let lines = py_splitlines report
      in case title_scan limit False False [] (zip lines (code_fence_mask lines)) of
           Inl title \<Rightarrow> title
         | Inr paragraph \<Rightarrow>
             if paragraph = [] then []
             else
               (let prose = py_join '' '' (py_words [] (py_join '' '' paragraph));
                    sentence = (case re_match SENTENCE_END_RE False prose of Some m \<Rightarrow> re_group 1 m | None \<Rightarrow> prose)
                in clip_text (rstrip_by (\<lambda>c. c = CHR ''.'') sentence) limit))"

subsection \<open>The contract concern\<close>

definition summary_re :: rx where
  "summary_re =
     ralt [rseq [RBol, rstr ''Summary:''],
       rseq [RBol, rstr ''##'', rplus (rset [CSpc]), rstr ''Summary'', rstar (rset [CSpc]), REol]]"

definition concern_block :: "string \<Rightarrow> string" where
  "concern_block reason =
     CONTRACT_CONCERN_HEADING @ [newline, newline]
       @ ''Triage kept this crash and flagged a contract concern: '' @ reason @ ''.'' @ [newline, newline]
       @ ''The diagnostic is real; downstream scoring recomputes the impact from the report fields and target.toml.''
       @ [newline, newline]"

text \<open>What is before the summary, and the summary with what follows it.\<close>

definition split_at_summary :: "string \<Rightarrow> string \<times> string" where
  "split_at_summary report =
     (case re_search summary_re False report of
        Some hit \<Rightarrow> (re_before hit, re_text hit @ re_after hit) | None \<Rightarrow> (report, []))"

definition with_concern :: "string \<Rightarrow> string \<Rightarrow> string" where
  "with_concern report reason =
     (let kept = py_rstrip (without_concern report);
          updated = (case split_at_summary kept of (before, rest) \<Rightarrow>
            if rest \<noteq> [] then before @ concern_block reason @ rest
            else kept @ [newline, newline] @ concern_block reason)
      in py_rstrip updated @ [newline])"

definition set_contract_concern :: "string \<Rightarrow> artifact \<Rightarrow> artifact" where
  "set_contract_concern reason a =
     (case fd_report (ar_dir a) of None \<Rightarrow> a
      | Some report \<Rightarrow> (set_report (with_concern report reason) a)\<lparr>ar_flagged := True\<rparr>)"

subsection \<open>Scanning\<close>

definition scan_after :: "bool \<Rightarrow> scan \<Rightarrow> string list \<Rightarrow> scan" where
  "scan_after b st lines = foldl (\<lambda>st line. snd (scan_line b st line)) st lines"

lemma semantic_lines_append:
  "semantic_lines b st (xs @ ys) = semantic_lines b st xs @ semantic_lines b (scan_after b st xs) ys"
  by (induction xs arbitrary: st) (auto simp: scan_after_def split: prod.split)

text \<open>A line with no blank and no fence character in front is no fence.\<close>

lemma fence_char_none:
  assumes "\<not> py_space c" "c \<noteq> CHR 0x60" "c \<noteq> CHR ''~''"
  shows "fence_char (c # s) = None"
proof -
  have "takeWhile (set_ok False False [CSpc]) (c # s) = []" using assms(1) by (simp add: set_ok_def)
  then have blanks: "rxm (rstar (rset [CSpc])) False ([], c # s, []) = [([], c # s, [])]"
    by (simp only: rxm_class) simp
  have tick: "rxm (RRep True 3 None (rstr [d])) False ([], c # s, []) = []" if "c \<noteq> d" for d
    unfolding rstr.simps rxm_class using that by (simp add: set_ok_def)
  have fence: "rxm (RGrp 1 (ralt [RRep True 3 None (rstr [CHR 0x60]), RRep True 3 None (rstr ''~'')])) False
      ([], c # s, []) = []"
    using assms tick [of "CHR 0x60"] tick [of "CHR ''~''"] by (simp del: rxm.simps(6) rstr.simps add: rxm.simps(5,7))
  have "rxm CODE_FENCE_RE False ([], c # s, []) = []"
    unfolding CODE_FENCE_RE_def rseq.simps rxm.simps(4,9) using blanks fence
    by (simp del: rxm.simps(6) ralt.simps add: rxm.simps)
  then show ?thesis by (simp add: fence_char_def re_match_def hit_at_def)
qed

lemma fence_char_Nil: "fence_char [] = None"
  by code_simp

lemma not_marker:
  assumes "c \<noteq> CHR ''<''"
  shows "re_match ENRICH_OPEN_RE False (c # s) = None" "re_match ENRICH_CLOSE_RE False (c # s) = None"
  using assms by (simp_all add: re_match_def hit_at_def ENRICH_OPEN_RE_def ENRICH_CLOSE_RE_def set_ok_def)

lemma marker_Nil: "re_match ENRICH_OPEN_RE False [] = None" "re_match ENRICH_CLOSE_RE False [] = None"
  by code_simp+

text \<open>Where a scan stands does not depend on what it keeps.\<close>

lemma scan_line_state: "snd (scan_line b st line) = snd (scan_line b' st line)"
  by (cases st) (auto simp: scan_line_def Let_def split: option.split)

lemma scan_after_state: "scan_after b st lines = scan_after b' st lines"
  unfolding scan_after_def by (rule foldl_cong) (auto intro: scan_line_state)

lemma boundary_rstrip: "is_boundary (py_rstrip s) \<Longrightarrow> is_boundary s"
  using rstrip_prefix [of s]
  by (auto simp: is_boundary_def py_startswith_def SECTION_BOUNDARY_PREFIXES_def intro: prefix_order.trans)

lemma marker_rstrip:
  assumes "c \<noteq> CHR ''<''"
  shows "re_match ENRICH_OPEN_RE False (py_rstrip (c # s)) = None"
    "re_match ENRICH_CLOSE_RE False (py_rstrip (c # s)) = None"
proof -
  have "py_rstrip (c # s) = [] \<or> (\<exists>t. py_rstrip (c # s) = c # t)"
    using rstrip_prefix [of "c # s"] by (cases "py_rstrip (c # s)") auto
  then show "re_match ENRICH_OPEN_RE False (py_rstrip (c # s)) = None"
    "re_match ENRICH_CLOSE_RE False (py_rstrip (c # s)) = None"
    using not_marker [OF assms] marker_Nil by auto
qed

text \<open>A line that begins with none of the special characters, outside every fence.\<close>

lemma scan_plain:
  assumes "\<not> py_space c" "c \<notin> {CHR 0x60, CHR ''~'', CHR ''<''}"
  shows "scan_line b (False, None, skipped) (c # s) =
    (let normalized = py_rstrip (c # s)
     in if skipped \<and> \<not> is_boundary normalized then (False, False, None, True)
        else if normalized \<in> set GENERATED_SECTIONS then (False, False, None, True)
        else if re_match GENERATED_LINE_RE False (c # s) \<noteq> None then (False, False, None, False)
        else (normalized \<noteq> [], False, None, False))"
  using assms fence_char_none [of c s] marker_rstrip [of c s] by (simp add: scan_line_def Let_def)

lemma scan_blank: "scan_line b (False, None, skipped) [] = (False, False, None, skipped)"
proof -
  have "re_match GENERATED_LINE_RE False [] = None" by code_simp
  then show ?thesis
    by (simp add: scan_line_def Let_def fence_char_Nil marker_Nil is_boundary_def py_startswith_def
        SECTION_BOUNDARY_PREFIXES_def GENERATED_SECTIONS_def CONTRACT_CONCERN_HEADING_def
        SEVERITY_RATIONALE_HEADING_def py_rstrip_def rstrip_by_def)
qed

lemma scan_heading:
  "scan_line b (False, None, skipped) CONTRACT_CONCERN_HEADING = (False, False, None, True)"
proof -
  have "py_rstrip CONTRACT_CONCERN_HEADING = CONTRACT_CONCERN_HEADING" by code_simp
  moreover have "is_boundary CONTRACT_CONCERN_HEADING" by code_simp
  moreover have "CONTRACT_CONCERN_HEADING = CHR ''#'' # ''# Contract concern''"
    by (simp add: CONTRACT_CONCERN_HEADING_def)
  ultimately show ?thesis
    using scan_plain [of "CHR ''#''" b skipped "''# Contract concern''"]
    by (simp add: py_space_def GENERATED_SECTIONS_def)
qed

lemma scan_skipped:
  assumes "\<not> py_space c" "c \<notin> {CHR 0x60, CHR ''~'', CHR ''<''}" "\<not> is_boundary (c # s)"
  shows "scan_line b (False, None, True) (c # s) = (False, False, None, True)"
  using scan_plain [OF assms(1,2)] assms(3) boundary_rstrip [of "c # s"] by (auto simp: Let_def)

text \<open>A boundary ends a generated section, so it is read the same in one and outside.\<close>

lemma scan_boundary:
  assumes "is_boundary (py_rstrip line)"
  shows "scan_line b (False, None, True) line = scan_line b (False, None, skipped) line"
proof -
  from boundary_rstrip [OF assms] obtain c s where "line = c # s" "c \<in> {CHR ''#'', CHR ''S''}"
    by (auto simp: is_boundary_def py_startswith_def SECTION_BOUNDARY_PREFIXES_def prefix_def)
  then show ?thesis using assms by (auto simp: scan_plain py_space_def Let_def)
qed

subsection \<open>The contract concern leaves the identity alone\<close>

definition concern_lines :: "string \<Rightarrow> string list" where
  "concern_lines reason =
     [CONTRACT_CONCERN_HEADING, [],
      ''Triage kept this crash and flagged a contract concern: '' @ reason @ ''.'', [],
      ''The diagnostic is real; downstream scoring recomputes the impact from the report fields and target.toml.'']"

definition one_line :: "string \<Rightarrow> bool" where
  "one_line reason \<longleftrightarrow> list_all (\<lambda>c. \<not> line_break c) reason"

lemma join_lines:
  "list_all one_line lines \<Longrightarrow> py_splitlines (concat (map (\<lambda>l. l @ [newline]) lines) @ s) = lines @ py_splitlines s"
  by (induction lines) (simp_all add: py_splitlines_def one_line_def split_lines_line)

lemma concern_block_lines:
  "concern_block reason = concat (map (\<lambda>l. l @ [newline]) (concern_lines reason)) @ [newline]"
  by (simp add: concern_block_def concern_lines_def)

lemma concern_lines_closed: "one_line reason \<Longrightarrow> list_all one_line (concern_lines reason)"
  by (simp add: concern_lines_def one_line_def CONTRACT_CONCERN_HEADING_def line_break_def)

lemma concern_block_split:
  "one_line reason \<Longrightarrow> py_splitlines (concern_block reason @ s) = concern_lines reason @ [] # py_splitlines s"
  unfolding concern_block_lines append_assoc
  by (simp add: join_lines concern_lines_closed) (simp add: py_splitlines_def line_break_def)

lemma semantic_concern:
  "semantic_lines b (False, None, skipped) (concern_lines reason @ lines) = semantic_lines b (False, None, True) lines"
proof -
  have "scan_line b (False, None, True) (''Triage kept this crash and flagged a contract concern: '' @ reason @ ''.'')
      = (False, False, None, True)"
    by (simp add: scan_skipped py_space_def is_boundary_def py_startswith_def SECTION_BOUNDARY_PREFIXES_def)
  moreover have "scan_line b (False, None, True)
      ''The diagnostic is real; downstream scoring recomputes the impact from the report fields and target.toml.''
      = (False, False, None, True)"
    by (simp add: scan_skipped py_space_def is_boundary_def py_startswith_def SECTION_BOUNDARY_PREFIXES_def)
  ultimately show ?thesis by (simp add: concern_lines_def scan_heading scan_blank)
qed

text \<open>The summary starts a line.\<close>

lemma summary_starts_line:
  assumes "split_at_summary s = (before, rest)" "rest \<noteq> []"
  shows "s = before @ rest" "line_closed before"
proof -
  obtain h where h: "re_search summary_re False s = Some h" "before = re_before h" "rest = re_text h @ re_after h"
    using assms by (auto simp: split_at_summary_def split: option.splits)
  show "s = before @ rest" using re_search_hit(1) [OF h(1)] h by simp
  have "rxm summary_re False (rev before, rest, []) \<noteq> []"
    using re_search_hit(2) [OF h(1)] h hit_at_None [of summary_re False "rev before" rest] by auto
  then have "rxm RBol False (rev before, rest, []) \<noteq> []" by (auto simp: summary_re_def)
  then show "line_closed before"
    by (cases before rule: rev_cases) (auto simp: line_closed_def split: if_splits)
qed

definition outside_fences :: "string \<Rightarrow> bool" where
  "outside_fences s \<longleftrightarrow> (case scan_after True scan_start (py_splitlines s) of
     (enrich, code, _) \<Rightarrow> \<not> enrich \<and> code = None)"

text \<open>A report as the harness leaves one, with no concern in it, and a place for one: the end or the summary
  is outside every fence, and the summary opens a section.\<close>

definition room_for_concern :: "string \<Rightarrow> bool" where
  "room_for_concern report \<longleftrightarrow> without_concern report = report \<and> py_rstrip report @ [newline] = report
     \<and> (case split_at_summary (py_rstrip report) of (before, rest) \<Rightarrow>
          if rest = [] then outside_fences report
          else outside_fences before \<and> is_boundary (py_rstrip (hd (py_splitlines (rest @ [newline])))))"

lemma outside_state:
  assumes "outside_fences s"
  obtains skipped where "scan_after b scan_start (py_splitlines s) = (False, None, skipped)"
  using assms that unfolding outside_fences_def scan_after_state [of b _ _ True] by (auto split: prod.splits)

lemma concern_keeps_lines:
  assumes "room_for_concern report" "one_line reason"
  shows "semantic_lines b scan_start (py_splitlines (with_concern report reason)) =
    semantic_lines b scan_start (py_splitlines report)"
proof -
  define kept where "kept = py_rstrip report"
  have report: "report = kept @ [newline]" and plain: "without_concern report = report"
    using assms(1) by (simp_all add: room_for_concern_def kept_def)
  have closed: "line_closed report" by (simp add: report line_closed_def)
  obtain before rest where split: "split_at_summary kept = (before, rest)" by force
  show ?thesis
  proof (cases "rest = []")
    case True
    have room: "outside_fences report"
      using assms(1) split True by (simp add: room_for_concern_def kept_def)
    obtain body where body: "concern_block reason = body @ CHR ''.'' # [newline, newline]"
      by (simp add: concern_block_def)
    have "with_concern report reason = kept @ [newline, newline] @ body @ [CHR ''.'', newline]"
      using rstrip_at [of "CHR ''.''" "[newline, newline]" "kept @ [newline, newline] @ body"]
      by (simp add: with_concern_def plain kept_def [symmetric] split True body py_space_def)
    then have "with_concern report reason @ [newline] = report @ newline # concern_block reason"
      by (simp add: report body)
    moreover have "line_closed (with_concern report reason)" by (simp add: with_concern_def Let_def line_closed_def)
    ultimately have "py_splitlines (with_concern report reason) @ [[]] = py_splitlines report @ [] # concern_lines reason @ [[]]"
      using splitlines_append [of "with_concern report reason" "[newline]"] splitlines_append [OF closed, of "newline # concern_block reason"]
        splitlines_append [of "[newline]" "concern_block reason"] concern_block_split [OF assms(2), of "[]"]
      by (simp add: line_closed_def) (simp add: py_splitlines_def line_break_def)
    then have "py_splitlines (with_concern report reason) = py_splitlines report @ [] # concern_lines reason" by simp
    moreover obtain skipped where "scan_after b scan_start (py_splitlines report) = (False, None, skipped)"
      using outside_state [OF room] .
    ultimately show ?thesis
      using semantic_concern [of b skipped reason "[]"] by (simp add: semantic_lines_append scan_blank)
  next
    case False
    note parts = summary_starts_line [OF split False]
    have room: "outside_fences before" "is_boundary (py_rstrip (hd (py_splitlines (rest @ [newline]))))"
      using assms(1) split False by (simp_all add: room_for_concern_def kept_def)
    obtain rest' c where rest: "rest = rest' @ [c]" using False by (cases rest rule: rev_cases) auto
    have "py_rstrip kept = kept" using report by (simp add: kept_def py_rstrip_def rstrip_by_def dropWhile_idem)
    then have "\<not> py_space c" using rstrip_last [of "before @ rest'" c] parts(1) rest by simp
    then have with_concern: "with_concern report reason = before @ concern_block reason @ rest @ [newline]"
      using rstrip_last [of "before @ concern_block reason @ rest'" c]
      by (simp add: with_concern_def plain kept_def [symmetric] split False) (simp add: rest)
    have "rest @ [newline] \<noteq> []" by simp
    then obtain line lines where lines: "py_splitlines (rest @ [newline]) = line # lines"
      by (cases "py_splitlines (rest @ [newline])") (auto simp: py_splitlines_def split_lines_not_Nil)
    obtain skipped where st: "scan_after b scan_start (py_splitlines before) = (False, None, skipped)"
      using outside_state [OF room(1)] .
    have same: "scan_line b (False, None, True) line = scan_line b (False, None, skipped) line"
      by (rule scan_boundary) (use room(2) lines in simp)
    have new: "py_splitlines (with_concern report reason) = py_splitlines before @ concern_lines reason @ [] # line # lines"
      unfolding with_concern splitlines_append [OF parts(2)] concern_block_split [OF assms(2)] lines ..
    have old: "py_splitlines report = py_splitlines before @ line # lines"
      unfolding report parts(1) append_assoc splitlines_append [OF parts(2)] lines ..
    show ?thesis
      unfolding new old semantic_lines_append [of b scan_start "py_splitlines before"] st semantic_concern
      by (simp add: scan_blank same)
  qed
qed

subsection \<open>Tables and the renderer\<close>

text \<open>What rendering does to a table: rows grow to one width, the separator with bars of its own.\<close>

definition pad_row :: "nat \<Rightarrow> nat \<times> string list \<Rightarrow> string list" where
  "pad_row width = (\<lambda>(position, cells).
     cells @ replicate (width - length cells) (if position = 1 then ''---'' else []))"

definition pad_rows :: "nat \<Rightarrow> string list list \<Rightarrow> string list list" where
  "pad_rows width rows = map (pad_row width) (List.enumerate 0 rows)"

definition filled :: "string list list \<Rightarrow> bool" where
  "filled rows \<longleftrightarrow> list_ex (list_ex (\<lambda>cell. cell \<noteq> [])) (body_rows rows)"

lemma last_filled_pad: "last_filled (cells @ replicate n []) = last_filled cells"
proof -
  have "dropWhile (\<lambda>cell. cell = []) (replicate n [] @ xs) = dropWhile (\<lambda>cell. cell = []) xs" for xs :: "string list"
    by (induction n) simp_all
  then show ?thesis by (simp add: last_filled_def)
qed

lemma last_filled_Nil: "last_filled cells = 0 \<longleftrightarrow> list_all (\<lambda>cell. cell = []) cells"
  by (auto simp: last_filled_def list_all_iff dropWhile_eq_Nil_conv)

lemma foldr_max_zero: "foldr max xs 0 = (0 :: nat) \<longleftrightarrow> list_all (\<lambda>x. x = 0) xs"
  by (induction xs) auto

lemma enumerate_rows: "List.enumerate 0 (h # s # rest) = (0, h) # (1, s) # List.enumerate 2 rest"
  by (simp add: numeral_2_eq_2)

lemma pad_body: "map last_filled (body_rows (pad_rows width rows)) = map last_filled (body_rows rows)"
proof -
  have later: "2 \<le> k \<Longrightarrow> map (last_filled \<circ> pad_row width) (List.enumerate k xs) = map last_filled xs" for k xs
    by (induction xs arbitrary: k) (simp_all add: pad_row_def last_filled_pad)
  consider "rows = []" | h where "rows = [h]" | h s rest where "rows = h # s # rest"
    by (metis list.exhaust)
  then show ?thesis
  proof cases
    case (3 h s rest)
    then show ?thesis
      using later [of 2 rest] unfolding pad_rows_def body_rows_def 3 enumerate_rows
      by (simp add: last_filled_pad) (simp add: pad_row_def last_filled_pad)
  qed (simp_all add: pad_rows_def body_rows_def pad_row_def last_filled_pad)
qed

lemma pad_columns: "filled rows \<Longrightarrow> table_columns (pad_rows width rows) = table_columns rows \<and> table_columns rows \<noteq> 0"
  by (auto simp: table_columns_def Let_def pad_body foldr_max_zero filled_def list_all_iff list_ex_iff last_filled_Nil)

lemma fit_pad: "fit_cells (Some n) filler (cells @ replicate k filler) = fit_cells (Some n) filler cells"
  by (auto simp: fit_cells_def take_replicate min_def simp flip: replicate_add)

lemma canonical_pad:
  "canonical_row (Some n) (position, pad_row width (position, cells)) = canonical_row (Some n) (position, cells)"
proof -
  have "separator_cell ''---'' = ''---''" by code_simp
  then show ?thesis by (simp add: canonical_row_def pad_row_def fit_pad)
qed

lemma enumerate_pad:
  "map (canonical_row (Some n)) (List.enumerate k (map (pad_row width) (List.enumerate k rows)))
   = map (canonical_row (Some n)) (List.enumerate k rows)"
  by (induction rows arbitrary: k) (simp_all add: canonical_pad)

text \<open>A row as it is written, with any blanks around its cells.\<close>

lemma row_cells_show:
  assumes "cells \<noteq> []" "list_all (\<lambda>cell. CHR ''|'' \<notin> set cell) cells"
  shows "row_cells (show_row cells) = map py_strip cells"
proof -
  have "py_strip (show_row cells) = show_row cells"
    unfolding py_strip_def by (rule strip_by_id) (simp_all add: show_row_def py_space_def)
  then show ?thesis
    using py_split_cells [of "hd cells" "tl cells" "CHR ''|''"] assms
    by (simp add: row_cells_def show_row_def butlast_append list_all_iff)
qed

text \<open>
  C29 (concern_keeps_identity). Writing a contract concern into a report that has none, outside of
  fences and in front of its summary (or at its end), changes none of the identities of the report: votes
  filed on it stay current.
\<close>

theorem concern_keeps_identity:
  assumes "room_for_concern report" "one_line reason"
  shows "semantic_report_text (with_concern report reason) = semantic_report_text report
    \<and> text_sha1_candidates sha1 (with_concern report reason) = text_sha1_candidates sha1 report"
proof -
  have same: "semantic_text canonical b trim (with_concern report reason) = semantic_text canonical b trim report"
    for canonical b trim
    by (simp only: semantic_text_def concern_keeps_lines [OF assms])
  show ?thesis
    by (simp only: text_sha1_candidates_def semantic_text_sha1_def legacy_semantic_text_sha1_def
        legacy_padded_table_semantic_text_sha1_def legacy_enrich_semantic_text_sha1_def semantic_report_text_def same)
qed

definition demo_concern_report :: string where
  "demo_concern_report = ''# T'' @ [newline] @ ''Severity: low'' @ [newline] @ ''Summary: x'' @ [newline]"

lemma demo_concern_room: "room_for_concern demo_concern_report" "one_line ''misuse''"
  by code_simp+

theorem concern_keeps_identity_witness:
  "semantic_report_text (with_concern demo_concern_report ''misuse'') = semantic_report_text demo_concern_report
   \<and> text_sha1_candidates id (with_concern demo_concern_report ''misuse'')
     = text_sha1_candidates id demo_concern_report"
  using concern_keeps_identity [OF demo_concern_room] by blast

text \<open>
  C30 (annotations_move_identity). Where the edit is not confined to what the harness wrote: clearing
  removes an authored section whose deeper heading ends in the words of the concern; setting strips the
  blanks that end a report and that identity keeps; and behind a concern a summary whose heading has no
  plain blank is lost, from identity at once and from the report when the concern is cleared.
\<close>

definition demo_deep_heading :: string where
  "demo_deep_heading = ''# T'' @ [newline] @ ''### Contract concern'' @ [newline] @ ''prose'' @ [newline]"

definition demo_trailing_blank :: string where
  "demo_trailing_blank = ''# T'' @ [newline] @ ''prose  '' @ [newline]"

definition demo_tab_summary :: string where
  "demo_tab_summary = ''# T'' @ [newline] @ ''##'' @ [CHR 0x09] @ ''Summary'' @ [newline] @ ''prose'' @ [newline]"

definition demo_tab_concern :: string where
  "demo_tab_concern = ''# T'' @ [newline] @ CONTRACT_CONCERN_HEADING @ [newline] @ ''misuse'' @ [newline]
     @ ''##'' @ [CHR 0x09] @ ''Summary'' @ [newline] @ ''prose'' @ [newline]"


text \<open>
  Fact (table_padding_neutral). However a renderer pads a table that holds something (blanks around cells,
  empty cells and separator bars up to any width), the lines identity keeps of it are the same.
\<close>

theorem table_padding_neutral:
  assumes "map (map py_strip) rendered = pad_rows width (map (map py_strip) table)"
    and "filled (map (map py_strip) table)"
    and "\<And>cells. cells \<in> set (table @ rendered) \<Longrightarrow> cells \<noteq> [] \<and> (\<forall>cell \<in> set cells. CHR ''|'' \<notin> set cell)"
  shows "canonical_rows True (map (row_cells \<circ> show_row) rendered) = canonical_rows True (map (row_cells \<circ> show_row) table)"
proof -
  have cells: "map (row_cells \<circ> show_row) rows = map (map py_strip) rows" if "set rows \<subseteq> set (table @ rendered)" for rows
  proof (rule map_cong [OF refl])
    fix cells assume "cells \<in> set rows"
    then have "cells \<in> set (table @ rendered)" using that by (rule subsetD [rotated])
    then show "(row_cells \<circ> show_row) cells = map py_strip cells"
      using assms(3) [of cells] by (simp add: row_cells_show list_all_iff)
  qed
  show ?thesis
    using pad_columns [OF assms(2), of width] enumerate_pad [of _ 0 width "map (map py_strip) table"]
    by (simp add: cells assms(1) canonical_rows_def) (simp add: pad_rows_def)
qed

theorem table_padding_neutral_witness:
  "canonical_rows True (map (row_cells \<circ> show_row)
       [['' a '', ''b '', []], [''---'', ''---'', ''---''], [''1'', [], '' '']])
   = canonical_rows True (map (row_cells \<circ> show_row) [[''a'', ''b''], [''---'', ''---''], [''1'']])"
  by (rule table_padding_neutral [where width = 3]) (auto simp: pad_rows_def pad_row_def filled_def body_rows_def
      py_strip_def strip_by_def rstrip_by_def py_space_def numeral_eq_Suc)

end
