(* ===== verification/Crashes.thy ===== *)
theory Crashes
  imports Requeue Diagnostics Identity
begin

text \<open>
  Triage of crash bundles (\<open>lib/triage.py\<close>): what is discarded, held, demoted to a finding, rejected by
  source review, or promoted. The export of a bundle, the filling of report fields, the scorer, the reviewers
  and the clock at the five points where the code asks for it are parameters. Writing the contract
  concern keeps the identities of a report, so the votes filed on it stand.
\<close>

subsection \<open>A pass over the crashes\<close>

datatype checkpoint = At_Start | At_Harness | At_Export | At_Fill | At_Score

text \<open>\<open>cr_expired p\<close>: no time is left at \<open>p\<close>. \<open>cr_pending_max\<close> is CRASH_PROMOTION_PENDING_MAX, \<open>cr_gate_on\<close> that
  CRASH_TRIGGER_GATE is not 0. \<open>cr_export\<close> says whether the bundle can never be exported, and what the
  export left; \<open>cr_fill\<close> adds the class and the fields the review could settle.\<close>

record crash_run =
  cr_pass :: gate_run
  cr_expired :: "checkpoint \<Rightarrow> bool"
  cr_gate_on :: bool
  cr_pending_max :: string
  cr_findings_only :: bool
  cr_age_pending :: bool
  cr_controls :: "string list"
  cr_export :: "artifact \<Rightarrow> bool \<times> artifact"
  cr_fill :: "artifact \<Rightarrow> artifact"

definition sanitizer_file :: "artifact \<Rightarrow> string option" where
  "sanitizer_file a =
     (case bf_exact (ar_files a) of
        Some diag \<Rightarrow> if diag \<noteq> [] then Some diag else bf_primary (ar_files a)
      | None \<Rightarrow> bf_primary (ar_files a))"

definition sanitizer_text :: "artifact \<Rightarrow> string" where
  "sanitizer_text a = (case sanitizer_file a of Some diag \<Rightarrow> diag | None \<Rightarrow> [])"

definition is_final_crash_receipt :: "gate_run \<Rightarrow> artifact \<Rightarrow> bool" where
  "is_final_crash_receipt r a \<longleftrightarrow> gr_current r a
     \<and> (case ar_receipt a of Some rc \<Rightarrow> vr_kind rc = ''crash'' \<and> vr_state rc \<in> set FINAL_STATES | None \<Rightarrow> False)"

subsection \<open>Incomplete bundles\<close>

definition promotion_pending_max :: "string \<Rightarrow> int" where
  "promotion_pending_max raw =
     (case py_int raw of Some v \<Rightarrow> if 0 \<le> v then v else 10 | None \<Rightarrow> 10)"

definition pending_signature :: "string \<Rightarrow> string list \<Rightarrow> string" where
  "pending_signature scope missing = scope @ '':'' @ py_join '','' (sort (remdups missing))"

definition bump_promotion_pending :: "string \<Rightarrow> string list \<Rightarrow> artifact \<Rightarrow> int \<times> artifact" where
  "bump_promotion_pending scope missing a =
     (let signature = pending_signature scope missing;
          passes = (if signature = ar_pending_sig a then ar_pending_count a + 1 else 1)
      in (passes, a\<lparr>ar_pending_sig := signature, ar_pending_count := passes\<rparr>))"

text \<open>\<open>str(n)\<close>.\<close>

definition int_str :: "int \<Rightarrow> string" where
  "int_str n = (if n < 0 then ''-'' @ nat_str (nat (- n)) else nat_str (nat n))"

definition ttl_section :: "int \<Rightarrow> int \<Rightarrow> string \<Rightarrow> string" where
  "ttl_section passes maximum missing_csv =
     [newline] @ ''## Possible false negative '' @ [EM_DASH] @ '' incomplete-bundle TTL'' @ [newline, newline]
       @ ''This crash dir was moved to `crashes-rejected/` after '' @ int_str passes @ ''/'' @ int_str maximum @ '' ''
       @ ''consecutive triage passes left it incomplete (missing: '' @ missing_csv @ ''). It is ''
       @ ''not a non-security class by signal '' @ [EM_DASH] @ '' the sanitizer diagnostic may be real; ''
       @ ''this is most likely a bundling / reproduction failure.'' @ [newline]"

definition log_ttl_false_negative :: "bool \<Rightarrow> int \<Rightarrow> int \<Rightarrow> string \<Rightarrow> artifact \<Rightarrow> artifact" where
  "log_ttl_false_negative reported passes maximum missing_csv a =
     (case fd_report (ar_dir a) of
        Some report \<Rightarrow> if reported then set_report (report @ ttl_section passes maximum missing_csv) a else a
      | None \<Rightarrow> a)"

definition incomplete_prefix :: "string \<Rightarrow> string" where
  "incomplete_prefix scope =
     (if scope = ''bundle'' then ''bundle-incomplete'' else ''never-reproduced-under-sanitizer'')"

definition hold_incomplete ::
  "crash_run \<Rightarrow> string \<Rightarrow> bool \<Rightarrow> string \<Rightarrow> string list \<Rightarrow> artifact \<Rightarrow> results \<Rightarrow> string \<times> results" where
  "hold_incomplete r name reported scope missing a rs =
     (let a1 = write_receipt ''crash'' ''pending''
            (''incomplete '' @ scope @ '': missing '' @ py_join '','' missing) None no_facts a
      in if \<not> cr_age_pending r then (''pending'', set_artifact Crashes name (a1\<lparr>ar_pending := missing\<rparr>) rs)
         else
           (let maximum = promotion_pending_max (cr_pending_max r);
                (passes, a2) = bump_promotion_pending scope missing a1;
                a3 = a2\<lparr>ar_pending := missing\<rparr>; missing_csv = py_join '','' missing
            in if passes < maximum then (''pending'', set_artifact Crashes name a3 rs)
               else
                 (let a4 = clear_promotion_sidecars (log_ttl_false_negative reported passes maximum missing_csv a3)
                  in (''rejected'', reject_artifact (gr_now (cr_pass r)) Crashes name
                       (incomplete_prefix scope @ '': missing '' @ missing_csv @ '' across '' @ int_str passes
                         @ '' triage passes'') [] False (set_artifact Crashes name a4 rs)))))"

definition log_suffixes :: "string list" where
  "log_suffixes = [''.asan.txt'', ''.msan.txt'', ''.tsan.txt'', ''.ubsan.txt'']"

definition bundle_missing_artifacts :: "artifact \<Rightarrow> string list" where
  "bundle_missing_artifacts a =
     (let f = ar_files a;
          inputs = filter (\<lambda>(name, filled). \<not> list_ex (\<lambda>s. py_endswith s (py_lower name)) log_suffixes \<and> filled)
            (bf_inputs f)
      in (if bf_draft f then [] else [''.audit/report.md''])
         @ (if bf_rendered f then [] else [''report.md''])
         @ (if bf_script f then [] else [''reproduce.sh''])
         @ (case bf_exact f of None \<Rightarrow> [''sanitizer.txt'']
            | Some diag \<Rightarrow> if has_valid_diagnostic diag False then [] else [''sanitizer.txt(valid)''])
         @ (if inputs = [] \<and> \<not> bf_own_harness f then [''input.* or harness.*''] else []))"

definition bundle_needs_refresh :: "artifact \<Rightarrow> bool" where
  "bundle_needs_refresh a \<longleftrightarrow> bundle_missing_artifacts a \<noteq> [] \<or> bf_stale (ar_files a)"

text \<open>What the first gate misses of a bundle.\<close>

definition crash_missing :: "bool \<Rightarrow> artifact \<Rightarrow> string list" where
  "crash_missing findings_only a =
     (case fd_report (ar_dir a) of None \<Rightarrow> [''report.md'']
        | Some report \<Rightarrow> if re_found SKELETON_MARKER_re False report
            then [''report.md(auto-filed skeleton not yet enriched)''] else [])
     @ (if sanitizer_file a = None \<or> \<not> has_valid_diagnostic (sanitizer_text a) findings_only
        then [''sanitizer.txt(valid)''] else [])
     @ (if \<not> bf_testcase (ar_files a) \<and> \<not> bf_harness (ar_files a) then [''testcase or harness''] else [])"

subsection \<open>Source review of a crash\<close>

definition CRASH_RATE_re :: rx where
  "CRASH_RATE_re =
     rseq [RBol, rstr ''CRASH_RATE:'', rstar (rset [CSpc]), RGrp 1 (rplus (rset [CDig])), rstar (rset [CSpc]),
       rstr ''/'', rstar (rset [CSpc]), RGrp 2 (rplus (rset [CDig])), rstar (rset [CSpc]), REol]"

text \<open>Whether the last rate printed is 5 of 5.\<close>

definition confirmed_rate :: "string \<Rightarrow> bool" where
  "confirmed_rate diag \<longleftrightarrow>
     (let rates = re_finditer CRASH_RATE_re False diag
      in rates \<noteq> [] \<and> re_group 1 (last rates) = ''5'' \<and> re_group 2 (last rates) = ''5'')"

definition direct_probe :: "string list \<Rightarrow> artifact \<Rightarrow> bool" where
  "direct_probe controls a \<longleftrightarrow>
     (let f = ar_files a
      in ''bytes'' \<in> set (map (\<lambda>v. py_lower (py_strip v)) controls)
         \<and> (case bf_context f of None \<Rightarrow> False
            | Some context \<Rightarrow> bf_verified f \<and> pc_mode context = Some ''generic''
                \<and> pc_sanitizer context \<noteq> Some ''runner'' \<and> pc_harness context = No_Harness
                \<and> pc_args context = Some []
                \<and> (pc_build_config context \<in> {None, Some []} \<or> bf_differential f = Some ''reproduced'')
                \<and> pc_binary_in_target context)
         \<and> (case sanitizer_file a of None \<Rightarrow> False | Some diag \<Rightarrow> confirmed_rate diag \<and> bf_fault_in_target f))"

text \<open>The record of an earlier proof is dropped first, so it stands for this one.\<close>

definition direct_probe_trigger_bypass :: "string list \<Rightarrow> artifact \<Rightarrow> bool \<times> artifact" where
  "direct_probe_trigger_bypass controls a =
     (direct_probe controls a, a\<lparr>ar_gate := (ar_gate a)\<lparr>gd_bypass := direct_probe controls a\<rparr>\<rparr>)"

definition crash_surface_needs_review :: "string \<Rightarrow> bool" where
  "crash_surface_needs_review report \<longleftrightarrow>
     (let surface = py_lower (report_field report ''Surface'')
      in py_strip (py_head CHR ''-'' (py_head EM_DASH surface)) \<in> {[], ''cli'', ''unknown''})"

definition review_ambiguous_crash_surface :: "crash_run \<Rightarrow> artifact \<Rightarrow> artifact" where
  "review_ambiguous_crash_surface r a =
     (let rv = gr_reviewer (cr_pass r)
      in if \<not> cr_gate_on r \<or> \<not> crash_surface_needs_review (report_of a)
            \<or> rv_backend rv = [] \<or> \<not> rv_target_root rv then a
         else a\<lparr>ar_gate := snd (trigger_vote (gr_env (cr_pass r)) rv (report_of a) False False Primary (ar_gate a))\<rparr>)"

text \<open>The reviews of a crash: it is rejected on two disproofs, of the first and the second reviewer or of the
  first and the resolver.\<close>

definition crash_reviews :: "gate_env \<Rightarrow> reviewer \<Rightarrow> string \<Rightarrow> gate_dir \<Rightarrow> bool \<times> gate_dir" where
  "crash_reviews env rv report d =
     (case trigger_vote env rv report False False Primary d of
        (first, d1) \<Rightarrow>
          if first \<noteq> 1 then
            (False, if cached_trigger_vote env d1 Primary = Some ''Uncertain'' \<or> promote_left_scope_open env d1 Primary
               then snd (trigger_vote env rv report True False Resolution d1) else d1)
          else
            (case trigger_vote env rv report False False Second d1 of
               (second, d2) \<Rightarrow>
                 if second \<noteq> 1 then
                   (if cached_trigger_vote env d2 Second \<in> {Some ''Promote'', Some ''Uncertain''} then
                      (let d3 = snd (trigger_vote env rv report True False Resolution d2)
                       in (cached_trigger_vote env d3 Resolution = Some ''Reject''
                             \<and> rejection_is_dispositive env d3 [Primary, Resolution] False, d3))
                    else (False, d2))
                 else (rejection_is_dispositive env d2 [Primary, Second] False, d2)))"

definition crash_trigger_gate :: "crash_run \<Rightarrow> bool option \<Rightarrow> artifact \<Rightarrow> bool \<times> artifact" where
  "crash_trigger_gate r direct_probe_bypass a =
     (if \<not> cr_gate_on r then (False, a)
      else
        (let (bypass, a1) = (case direct_probe_bypass of Some b \<Rightarrow> (b, a)
               | None \<Rightarrow> direct_probe_trigger_bypass (cr_controls r) a)
         in if bypass then (False, review_ambiguous_crash_surface r a1)
            else
              (case crash_reviews (gr_env (cr_pass r)) (gr_reviewer (cr_pass r)) (report_of a1) (ar_gate a1) of
                 (reject, d) \<Rightarrow> (reject, a1\<lparr>ar_gate := d\<rparr>))))"

subsection \<open>One crash\<close>

definition hold_pending :: "string \<Rightarrow> string \<Rightarrow> string list option \<Rightarrow> artifact \<Rightarrow> results \<Rightarrow> string \<times> results" where
  "hold_pending name detail controls a rs =
     (''pending'', set_artifact Crashes name (write_receipt ''crash'' ''pending'' detail controls no_facts a) rs)"

definition CRASH_REVIEW_REASON :: string where
  "CRASH_REVIEW_REASON =
     ''trigger-provenance (2 independent rejects): triggering state not attacker-reachable from a public boundary''"

text \<open>What is done once the reviews are in: the verdict of the report, and whether a probe proved the path.\<close>

definition publish_crash ::
  "crash_run \<Rightarrow> string \<Rightarrow> string \<Rightarrow> string \<Rightarrow> bool \<Rightarrow> artifact \<Rightarrow> results \<Rightarrow> string \<times> results" where
  "publish_crash r name verdict detail direct_trigger_proof a rs =
     (let env = gr_env (cr_pass r); now = gr_now (cr_pass r); controls = cr_controls r;
          (trigger_votes, facts) = trigger_publication_evidence env (ar_gate a);
          source_review_required = (cr_gate_on r
            \<and> (\<not> direct_trigger_proof \<or> crash_surface_needs_review (report_of a)));
          state = final_publication_state verdict trigger_votes facts direct_trigger_proof
            (cached_trigger_resolution env False (ar_gate a))
      in if source_review_required \<and> trigger_votes \<inter> {Some ''Promote'', Some ''Reject'', Some ''Uncertain''} = {} then
           hold_pending name ''source review is uncertain, stale, or incomplete'' (Some controls) a rs
         else if state \<in> {''not-reportable'', ''unsettled''} then
           (''rejected'', reject_artifact now Crashes name
              (publication_rejection_reason state verdict detail facts controls) []
              (trigger_out_of_scope state verdict facts) (set_artifact Crashes name a rs))
         else
           (let a1 = write_receipt ''crash'' state
                  (publication_detail state verdict detail facts controls direct_trigger_proof) (Some controls) facts a
            in if state = ''pending'' then (''pending'', set_artifact Crashes name a1 rs)
               else
                 (let (state', a2) = (if cr_expired r At_Score then (state, a1)
                        else score_final_report (cr_pass r) ''crash'' state controls a1);
                      rs2 = set_artifact Crashes name a2 rs
                  in if state' = ''pending'' then (''pending'', rs2)
                     else (''promoted'', record_accepted_artifact now name ''crash'' a2 rs2))))"

text \<open>A complete bundle: the verdict of its report, the contract concern, the reviews.\<close>

definition review_crash ::
  "crash_run \<Rightarrow> bool \<Rightarrow> bool \<Rightarrow> string \<Rightarrow> artifact \<Rightarrow> results \<Rightarrow> string \<times> results" where
  "review_crash r confirmed_trigger_bypass trigger_batch_attempted name a rs =
     (let env = gr_env (cr_pass r); controls = cr_controls r;
          (verdict, detail) = evaluate_crash_verdict (report_of a) controls
      in if verdict = ''incomplete'' then
           hold_incomplete r name True ''fields'' [''Caller contract or Trigger source''] a rs
         else
           (let a1 = clear_promotion_sidecars a;
                a2 = (if verdict \<in> {''contract-flag'', ''out-of-model''} then set_contract_concern detail a1
                      else clear_contract_concern a1);
                (direct_trigger_proof, a3) = (if confirmed_trigger_bypass then (True, a2)
                      else direct_probe_trigger_bypass controls a2)
            in if \<not> direct_trigger_proof \<and> trigger_batch_attempted
                  \<and> \<not> cached_trigger_resolution env False (ar_gate a3) then
                 hold_pending name ''batched source review is incomplete'' (Some controls) a3 rs
               else
                 (let (reject_trigger, a4) = (if direct_trigger_proof then (False, review_ambiguous_crash_surface r a3)
                        else crash_trigger_gate r (Some direct_trigger_proof) a3)
                  in if reject_trigger then
                       (''rejected'', reject_artifact (gr_now (cr_pass r)) Crashes name CRASH_REVIEW_REASON
                          UNREACHABLE_REJECTION_CATEGORY False (set_artifact Crashes name a4 rs))
                     else publish_crash r name verdict detail direct_trigger_proof a4 rs)))"

definition UNEXPORTABLE_REASON :: string where
  "UNEXPORTABLE_REASON =
     ''the reproducer names an audit-private path, so no maintainer bundle can be exported from it''"

definition compiled_units_reason :: "string list \<Rightarrow> string" where
  "compiled_units_reason units =
     ''reproducer compiles target source into the driver ('' @ py_join '', '' units
       @ '') instead of linking the pinned build, so the diagnostic is not evidence about the pinned build''"

text \<open>Why a complete crash is a finding instead: the first reason the code comes to.\<close>

definition demotion_reason :: "crash_run \<Rightarrow> artifact \<Rightarrow> string option" where
  "demotion_reason r a =
     (let diag = sanitizer_text a; f = ar_files a
      in if bf_harness f \<and> \<not> is_final_crash_receipt (cr_pass r) a \<and> bf_units f \<notin> {None, Some []} then
           Some (compiled_units_reason (the (bf_units f)))
         else if runtime_only_diagnostic diag (cr_findings_only r) then
           Some ''runtime diagnostic without a sanitizer-class memory-safety signal''
         else if \<not> has_memory_safety_signal diag then
           Some (if ubsan_class diag = ''nonsecurity''
             then ''UBSan non-memory-safety class - real undefined behavior, filed as a finding not a crash''
             else ''sanitizer diagnostic without a recognized memory-safety class'')
         else None)"

definition export_crash :: "crash_run \<Rightarrow> artifact \<Rightarrow> bool \<times> artifact" where
  "export_crash r a =
     (if bundle_needs_refresh a \<and> \<not> cr_expired r At_Export then cr_export r a else (False, a))"

text \<open>A crash with a memory-safety signal: exported, filled in and reviewed.\<close>

definition bundle_crash ::
  "crash_run \<Rightarrow> bool \<Rightarrow> bool \<Rightarrow> string \<Rightarrow> artifact \<Rightarrow> results \<Rightarrow> string \<times> results" where
  "bundle_crash r confirmed_trigger_bypass trigger_batch_attempted name a rs =
     (let (unexportable, a1) = export_crash r a; rs1 = set_artifact Crashes name a1 rs
      in if unexportable then
           (''demoted'', demote_to_finding (gr_now (cr_pass r)) name UNEXPORTABLE_REASON rs1)
         else if bundle_missing_artifacts a1 \<noteq> [] then
           hold_incomplete r name True ''bundle'' (bundle_missing_artifacts a1) a1 rs1
         else if fd_report (ar_dir a1) = None then hold_incomplete r name False ''bundle'' [''report.md''] a1 rs1
         else
           (let a2 = (if cr_expired r At_Fill then a1 else cr_fill r a1)
            in review_crash r confirmed_trigger_bypass trigger_batch_attempted name a2 rs1))"

definition HARNESS_ROOTED_REASON :: string where
  "HARNESS_ROOTED_REASON =
     ''harness-rooted: fault frame in audit harness/driver, no target-library frame''"

definition triage_one_crash ::
  "crash_run \<Rightarrow> bool \<Rightarrow> bool \<Rightarrow> string \<Rightarrow> results \<Rightarrow> string \<times> results" where
  "triage_one_crash r confirmed_trigger_bypass trigger_batch_attempted name rs =
     (case map_of (rs_lanes rs Crashes) name of None \<Rightarrow> (''pending'', rs)
      | Some a \<Rightarrow>
          (let now = gr_now (cr_pass r); diag = sanitizer_text a; missing = crash_missing (cr_findings_only r) a;
               cleared = set_artifact Crashes name (clear_promotion_sidecars a) rs
           in if cr_expired r At_Start then
                (if is_final_crash_receipt (cr_pass r) a then (''promoted'', rs)
                 else hold_pending name (if fd_report (ar_dir a) = None then ''incomplete missing: missing report.md''
                        else ''crash triage deadline expired'') None a rs)
              else if diag \<noteq> [] \<and> \<not> cr_expired r At_Harness \<and> bf_harness_rooted (ar_files a) then
                (''rejected'', reject_artifact now Crashes name HARNESS_ROOTED_REASON [] False cleared)
              else if diag \<noteq> [] \<and> \<not> runtime_only_diagnostic diag (cr_findings_only r) \<and> autodiscard_reason diag \<noteq> [] then
                (''rejected'', reject_artifact now Crashes name (autodiscard_reason diag) [] False cleared)
              else if missing \<noteq> [] then
                hold_incomplete r name (fd_report (ar_dir a) \<noteq> None) ''missing'' missing a rs
              else
                (case demotion_reason r a of
                   Some reason \<Rightarrow> (''demoted'', demote_to_finding now name reason rs)
                 | None \<Rightarrow> bundle_crash r confirmed_trigger_bypass trigger_batch_attempted name a rs)))"

subsection \<open>Triage of a crash loses nothing\<close>

text \<open>Export, filling and scoring rewrite a bundle in its place.\<close>

definition crash_keeps_names :: "crash_run \<Rightarrow> bool" where
  "crash_keeps_names r \<longleftrightarrow> keeps_names (cr_pass r)
     \<and> (\<forall>a. fd_name (ar_dir (snd (cr_export r a))) = fd_name (ar_dir a))
     \<and> (\<forall>a. fd_name (ar_dir (cr_fill r a)) = fd_name (ar_dir a))"

lemma crash_names [simp]:
  "fd_name (ar_dir (clear_promotion_sidecars a)) = fd_name (ar_dir a)"
  "fd_name (ar_dir (log_ttl_false_negative reported passes maximum csv a)) = fd_name (ar_dir a)"
  "fd_name (ar_dir (snd (bump_promotion_pending scope missing a))) = fd_name (ar_dir a)"
  "fd_name (ar_dir (set_contract_concern detail a)) = fd_name (ar_dir a)"
  "fd_name (ar_dir (clear_contract_concern a)) = fd_name (ar_dir a)"
  "ar_dir (snd (direct_probe_trigger_bypass controls a)) = ar_dir a"
  "ar_dir (review_ambiguous_crash_surface r a) = ar_dir a"
  by (auto simp: clear_promotion_sidecars_def log_ttl_false_negative_def bump_promotion_pending_def Let_def
      set_contract_concern_def clear_contract_concern_def set_report_def direct_probe_trigger_bypass_def
      review_ambiguous_crash_surface_def split: option.split)

lemma crash_gate_dir [simp]: "ar_dir (snd (crash_trigger_gate r bypass a)) = ar_dir a"
  by (auto simp: crash_trigger_gate_def Let_def split_beta split: option.split)

lemma hold_steady:
  assumes "map_of (rs_lanes rs Crashes) name = Some b" "fd_name (ar_dir a) = name"
  shows "steady rs (snd (hold_incomplete r name reported scope missing a rs))"
  unfolding hold_incomplete_def Let_def split_beta
  by (auto simp: assms(2) intro!: steady_set [OF assms(1)] steady_trans [OF steady_set [OF assms(1)] reject_steady])

lemma pending_steady:
  assumes "map_of (rs_lanes rs Crashes) name = Some b" "fd_name (ar_dir a) = name"
  shows "steady rs (snd (hold_pending name detail controls a rs))"
  by (simp add: hold_pending_def steady_set [OF assms(1)] assms(2))

lemma publish_crash_steady:
  assumes "map_of (rs_lanes rs Crashes) name = Some b" "fd_name (ar_dir a) = name" "crash_keeps_names r"
  shows "steady rs (snd (publish_crash r name verdict detail proved a rs))"
proof -
  have keep: "keeps_names (cr_pass r)" using assms(3) by (simp add: crash_keeps_names_def)
  note put = steady_set [OF assms(1)]
  show ?thesis
    unfolding publish_crash_def Let_def split_beta
    by (auto simp: assms(2) score_name [OF keep]
        intro!: put pending_steady [OF assms(1)] steady_trans [OF put reject_steady] steady_trans [OF put accepted_steady])
qed

lemma review_crash_steady:
  assumes "map_of (rs_lanes rs Crashes) name = Some b" "fd_name (ar_dir a) = name" "crash_keeps_names r"
  shows "steady rs (snd (review_crash r confirmed attempted name a rs))"
  unfolding review_crash_def Let_def split_beta
  by (auto simp: assms(2) intro!: hold_steady [OF assms(1)] pending_steady [OF assms(1)]
      publish_crash_steady [OF assms(1) _ assms(3)] steady_trans [OF steady_set [OF assms(1)] reject_steady])

lemma export_name: "crash_keeps_names r \<Longrightarrow> fd_name (ar_dir (snd (export_crash r a))) = fd_name (ar_dir a)"
  by (simp add: export_crash_def crash_keeps_names_def)

lemma bundle_crash_steady:
  assumes "map_of (rs_lanes rs Crashes) name = Some b" "fd_name (ar_dir a) = name" "crash_keeps_names r"
  shows "steady rs (snd (bundle_crash r confirmed attempted name a rs))"
proof -
  define a1 where "a1 = snd (export_crash r a)"
  have n1: "fd_name (ar_dir a1) = name" using export_name [OF assms(3), of a] assms(2) by (simp add: a1_def)
  have fill: "fd_name (ar_dir (cr_fill r a1)) = name" using assms(3) n1 by (simp add: crash_keeps_names_def)
  note put = steady_trans [OF steady_set [OF assms(1) n1]]
  show ?thesis
    unfolding bundle_crash_def Let_def split_beta a1_def [symmetric]
    by (auto simp: n1 fill intro!: put demote_steady hold_steady [OF set_artifact_at]
        review_crash_steady [OF set_artifact_at _ assms(3)])
qed

lemma triage_crash_steady:
  assumes "crash_keeps_names r"
  shows "steady rs (snd (triage_one_crash r confirmed attempted name rs))"
proof (cases "map_of (rs_lanes rs Crashes) name")
  case (Some a)
  show ?thesis
  proof (cases "filed_ok rs")
    case True
    then have names: "fd_name (ar_dir a) = name"
      using Some by (auto simp: filed_ok_def lanes_ok_def dest!: map_of_SomeD)
    note put = steady_set [OF Some]
    show ?thesis
      unfolding triage_one_crash_def Some option.case Let_def
      by (auto simp: names split: option.split intro!: pending_steady [OF Some] hold_steady [OF Some] demote_steady
          bundle_crash_steady [OF Some _ assms] steady_trans [OF put reject_steady])
  qed (simp add: steady_def)
qed (simp add: triage_one_crash_def)

subsection \<open>When a crash is rejected by review\<close>

lemma crash_reviews_reject:
  "crash_reviews env rv report d = (True, d')
     \<Longrightarrow> \<exists>t \<in> {Second, Resolution}. rejection_is_dispositive env d' [Primary, t] False"
  unfolding crash_reviews_def Let_def by (auto split: prod.splits if_splits)

lemma crash_gate_rejects:
  assumes "crash_trigger_gate r bypass a = (True, a')"
  shows "cr_gate_on r" "bypass \<noteq> Some True" "bypass = None \<Longrightarrow> \<not> direct_probe (cr_controls r) a"
    and "\<exists>t \<in> {Second, Resolution}.
      disproof (gr_env (cr_pass r)) (ar_gate a') DISPOSITIVE_REJECTION_KINDS Primary
      \<and> disproof (gr_env (cr_pass r)) (ar_gate a') DISPOSITIVE_REJECTION_KINDS t"
proof -
  show on: "cr_gate_on r" using assms by (auto simp: crash_trigger_gate_def split: if_splits)
  show "bypass \<noteq> Some True" using assms on by (auto simp: crash_trigger_gate_def)
  show "bypass = None \<Longrightarrow> \<not> direct_probe (cr_controls r) a"
    using assms on by (auto simp: crash_trigger_gate_def direct_probe_trigger_bypass_def)
  obtain report d d' where "crash_reviews (gr_env (cr_pass r)) (gr_reviewer (cr_pass r)) report d = (True, d')"
    and d': "ar_gate a' = d'"
    using assms on by (auto simp: crash_trigger_gate_def Let_def split: prod.splits if_splits)
  from crash_reviews_reject [OF this(1)] obtain t where t: "t \<in> {Second, Resolution}"
    "rejection_is_dispositive (gr_env (cr_pass r)) d' [Primary, t] False" by blast
  show "\<exists>t \<in> {Second, Resolution}.
      disproof (gr_env (cr_pass r)) (ar_gate a') DISPOSITIVE_REJECTION_KINDS Primary
      \<and> disproof (gr_env (cr_pass r)) (ar_gate a') DISPOSITIVE_REJECTION_KINDS t"
    using dispositive_pair [OF t(2)] t(1) by (auto simp: d')
qed


subsection \<open>What backs a promoted crash\<close>

text \<open>Filling leaves the files of the bundle alone, scoring the verdict of its receipt and its votes.\<close>

definition keeps_evidence :: "crash_run \<Rightarrow> bool" where
  "keeps_evidence r \<longleftrightarrow> score_keeps_verdict (cr_pass r)
     \<and> (\<forall>a a'. gr_score (cr_pass r) a = Some a' \<longrightarrow> ar_gate a' = ar_gate a)
     \<and> (\<forall>a. ar_files (cr_fill r a) = ar_files a)"

definition within_promote :: "gate_env \<Rightarrow> gate_dir \<Rightarrow> bool" where
  "within_promote env d \<longleftrightarrow> (\<exists>s p. vote_current env d s p \<and> vf_vote p = ''Promote''
     \<and> rf_fit (source_review_facts (vf_facts p)) = ''within'')"

lemma state_range:
  "final_publication_state verdict votes facts proved resolved
     \<in> {''not-reportable'', ''unsettled'', ''pending'', ''reportable''}"
  by (simp add: final_publication_state_def)

lemma accepted_lanes [simp]: "rs_lanes (record_accepted_artifact now name kind a rs) = rs_lanes rs"
  by (simp add: record_accepted_artifact_def Let_def)

lemma publish_crash_promoted:
  assumes "publish_crash r name verdict detail proved a rs = (''promoted'', rs')" "keeps_evidence r"
  shows "\<exists>b rc. map_of (rs_lanes rs' Crashes) name = Some b \<and> ar_receipt b = Some rc \<and> vr_state rc = ''reportable''
    \<and> ar_gate b = ar_gate a \<and> (\<not> cr_gate_on r \<or> proved \<or> within_promote (gr_env (cr_pass r)) (ar_gate a))"
proof -
  let ?env = "gr_env (cr_pass r)" and ?controls = "cr_controls r"
  obtain votes facts where pe: "trigger_publication_evidence ?env (ar_gate a) = (votes, facts)" by fastforce
  define state where "state = final_publication_state verdict votes facts proved
    (cached_trigger_resolution ?env False (ar_gate a))"
  define a1 where "a1 = write_receipt ''crash'' state
    (publication_detail state verdict detail facts ?controls proved) (Some ?controls) facts a"
  obtain state' a2 where sc: "(if cr_expired r At_Score then (state, a1)
      else score_final_report (cr_pass r) ''crash'' state ?controls a1) = (state', a2)" by fastforce
  note run = assms(1) [unfolded publish_crash_def Let_def pe prod.case, folded state_def, folded a1_def,
      unfolded sc prod.case hold_pending_def]
  have reviewed: "\<not> (cr_gate_on r \<and> \<not> proved \<and> votes \<inter> {Some ''Promote'', Some ''Reject'', Some ''Uncertain''} = {})"
    using run by (auto split: if_splits)
  have st: "state = ''reportable''"
    using run state_range [of verdict votes facts proved "cached_trigger_resolution ?env False (ar_gate a)"]
    by (auto simp flip: state_def split: if_splits)
  have rs': "rs' = record_accepted_artifact (gr_now (cr_pass r)) name ''crash'' a2 (set_artifact Crashes name a2 rs)"
    using run st by (auto split: if_splits)
  have a1: "ar_gate a1 = ar_gate a" "map_option vr_state (ar_receipt a1) = Some ''reportable''"
    by (simp_all add: a1_def write_receipt_def st)
  have scored: "gr_score (cr_pass r) a1 = Some a2 \<Longrightarrow> ar_gate a2 = ar_gate a1
      \<and> map_option vr_state (ar_receipt a2) = map_option vr_state (ar_receipt a1)"
    using assms(2) unfolding keeps_evidence_def score_keeps_verdict_def by blast
  have "a2 = a1 \<or> gr_score (cr_pass r) a1 = Some a2"
    using sc unfolding st score_final_report_def by (auto split: if_splits option.splits)
  then have a2: "ar_gate a2 = ar_gate a" "map_option vr_state (ar_receipt a2) = Some ''reportable''"
    using scored a1 by auto
  have "\<not> cr_gate_on r \<or> proved \<or> within_promote ?env (ar_gate a)"
  proof (cases "cr_gate_on r \<and> \<not> proved")
    case True
    then have "votes - {None} \<noteq> {}" using reviewed by auto
    then show ?thesis
      using reportable_backed [OF pe] st True unfolding state_def within_promote_def by auto
  qed auto
  then show ?thesis using a2 by (auto simp: rs')
qed

lemma direct_probe_files:
  assumes "ar_files a = ar_files b"
  shows "direct_probe controls a = direct_probe controls b"
  unfolding direct_probe_def sanitizer_file_def assms ..

lemma crash_files [simp]:
  "ar_files (set_contract_concern detail a) = ar_files a"
  "ar_files (clear_contract_concern a) = ar_files a"
  "ar_files (clear_promotion_sidecars a) = ar_files a"
  by (simp_all add: set_contract_concern_def clear_contract_concern_def set_report_def Let_def
      clear_promotion_sidecars_def split: option.split)

lemma review_crash_promoted:
  assumes "review_crash r confirmed attempted name a rs = (''promoted'', rs')" "keeps_evidence r"
  shows "\<exists>b rc. map_of (rs_lanes rs' Crashes) name = Some b \<and> ar_receipt b = Some rc \<and> vr_state rc = ''reportable''
    \<and> (\<not> cr_gate_on r \<or> confirmed \<or> direct_probe (cr_controls r) a
       \<or> within_promote (gr_env (cr_pass r)) (ar_gate b))"
proof -
  obtain verdict detail where ev: "evaluate_crash_verdict (report_of a) (cr_controls r) = (verdict, detail)" by fastforce
  define a2 where "a2 = (if verdict \<in> {''contract-flag'', ''out-of-model''}
    then set_contract_concern detail (clear_promotion_sidecars a)
    else clear_contract_concern (clear_promotion_sidecars a))"
  obtain proved a3 where probe: "(if confirmed then (True, a2) else direct_probe_trigger_bypass (cr_controls r) a2)
      = (proved, a3)" by fastforce
  obtain rejected a4 where gate: "(if proved then (False, review_ambiguous_crash_surface r a3)
      else crash_trigger_gate r (Some proved) a3) = (rejected, a4)" by fastforce
  have "publish_crash r name verdict detail proved a4 rs = (''promoted'', rs')"
    using assms(1) [unfolded review_crash_def Let_def ev prod.case, folded a2_def, unfolded probe prod.case gate]
    by (auto simp: hold_incomplete_def hold_pending_def Let_def split_beta split: if_splits)
  from publish_crash_promoted [OF this assms(2)] obtain b rc where
    b: "map_of (rs_lanes rs' Crashes) name = Some b" "ar_receipt b = Some rc" "vr_state rc = ''reportable''"
      "ar_gate b = ar_gate a4" "\<not> cr_gate_on r \<or> proved \<or> within_promote (gr_env (cr_pass r)) (ar_gate a4)" by blast
  have "ar_files a2 = ar_files a" by (simp add: a2_def)
  then have "proved \<Longrightarrow> confirmed \<or> direct_probe (cr_controls r) a"
    using probe direct_probe_files [of a2 a] by (auto simp: direct_probe_trigger_bypass_def split: if_splits)
  then show ?thesis using b by auto
qed

lemma promoted_crash_facts:
  assumes "triage_one_crash r confirmed attempted name rs = (''promoted'', rs')" "keeps_evidence r"
    and "map_of (rs_lanes rs Crashes) name = Some a" "\<not> cr_expired r At_Start"
  shows "has_memory_safety_signal (sanitizer_text a)" "bundle_missing_artifacts (snd (export_crash r a)) = []"
    and "\<exists>b rc. map_of (rs_lanes rs' Crashes) name = Some b \<and> ar_receipt b = Some rc \<and> vr_state rc = ''reportable''
      \<and> (\<not> cr_gate_on r \<or> confirmed \<or> direct_probe (cr_controls r) (snd (export_crash r a))
         \<or> within_promote (gr_env (cr_pass r)) (ar_gate b))"
proof -
  have kept: "demotion_reason r a = None" and
    bundled: "bundle_crash r confirmed attempted name a rs = (''promoted'', rs')"
    using assms(1) unfolding triage_one_crash_def assms(3) option.case Let_def
    by (auto simp: assms(4) hold_incomplete_def Let_def split_beta split: if_splits option.splits)
  show "has_memory_safety_signal (sanitizer_text a)"
    using kept by (auto simp: demotion_reason_def Let_def split: if_splits)
  obtain unexportable c where ex: "export_crash r a = (unexportable, c)" by fastforce
  note run = bundled [unfolded bundle_crash_def Let_def ex prod.case]
  show "bundle_missing_artifacts (snd (export_crash r a)) = []"
    using run by (auto simp: ex hold_incomplete_def Let_def split_beta split: if_splits)
  define a2 where "a2 = (if cr_expired r At_Fill then c else cr_fill r c)"
  have reviewed: "review_crash r confirmed attempted name a2 (set_artifact Crashes name c rs) = (''promoted'', rs')"
    using run unfolding a2_def by (auto simp: hold_incomplete_def Let_def split_beta split: if_splits)
  have "ar_files a2 = ar_files c" using assms(2) by (simp add: a2_def keeps_evidence_def)
  then have probe: "direct_probe (cr_controls r) a2 = direct_probe (cr_controls r) (snd (export_crash r a))"
    unfolding ex snd_conv by (rule direct_probe_files)
  show "\<exists>b rc. map_of (rs_lanes rs' Crashes) name = Some b \<and> ar_receipt b = Some rc
      \<and> vr_state rc = ''reportable'' \<and> (\<not> cr_gate_on r \<or> confirmed \<or> direct_probe (cr_controls r) (snd (export_crash r a))
         \<or> within_promote (gr_env (cr_pass r)) (ar_gate b))"
    using review_crash_promoted [OF reviewed assms(2)] unfolding probe .
qed

text \<open>
  C13 (promoted_crash_is_backed). A crash is promoted only with a memory-safety signal in its sanitizer
  log, a complete bundle, and a receipt that says reportable; and unless the gate is off, only on a
  machine's proof of its byte path or on a current Promote that places the trigger within the attacker's
  controls.
\<close>

theorem promoted_crash_is_backed:
  assumes "triage_one_crash r confirmed attempted name rs = (''promoted'', rs')" "keeps_evidence r"
    and "map_of (rs_lanes rs Crashes) name = Some a" "\<not> cr_expired r At_Start"
  shows "has_memory_safety_signal (sanitizer_text a) \<and> bundle_missing_artifacts (snd (export_crash r a)) = []
    \<and> (\<exists>b rc. map_of (rs_lanes rs' Crashes) name = Some b \<and> ar_receipt b = Some rc \<and> vr_state rc = ''reportable''
      \<and> (\<not> cr_gate_on r \<or> confirmed \<or> direct_probe (cr_controls r) (snd (export_crash r a))
         \<or> within_promote (gr_env (cr_pass r)) (ar_gate b)))"
  using promoted_crash_facts [OF assms] by blast

subsection \<open>How long an incomplete bundle is held\<close>

text \<open>A bundle the agent is still writing: nothing discards it, and something is missing.\<close>

definition still_bundling :: "crash_run \<Rightarrow> artifact \<Rightarrow> bool" where
  "still_bundling r a \<longleftrightarrow> \<not> cr_expired r At_Start
     \<and> (sanitizer_text a = [] \<or> \<not> bf_harness_rooted (ar_files a)
        \<and> (runtime_only_diagnostic (sanitizer_text a) (cr_findings_only r) \<or> autodiscard_reason (sanitizer_text a) = []))
     \<and> crash_missing (cr_findings_only r) a \<noteq> []"

definition next_pass :: "crash_run \<Rightarrow> string \<Rightarrow> results \<Rightarrow> results" where
  "next_pass r name rs = snd (triage_one_crash r False False name rs)"

lemma triage_bundling:
  assumes "map_of (rs_lanes rs Crashes) name = Some a" "still_bundling r a"
  shows "triage_one_crash r confirmed attempted name rs = hold_incomplete r name (fd_report (ar_dir a) \<noteq> None)
    ''missing'' (crash_missing (cr_findings_only r) a) a rs"
  using assms(2) unfolding triage_one_crash_def assms(1) option.case Let_def
  by (auto simp: still_bundling_def)

text \<open>What a pass over an incomplete bundle writes is nothing the next pass judges it by.\<close>

definition same_bundle :: "artifact \<Rightarrow> artifact \<Rightarrow> bool" where
  "same_bundle a b \<longleftrightarrow> ar_dir b = ar_dir a \<and> ar_files b = ar_files a"

lemma same_bundle_missing:
  assumes "same_bundle a b"
  shows "crash_missing f b = crash_missing f a" "still_bundling r b = still_bundling r a"
proof -
  have same: "ar_dir b = ar_dir a" "ar_files b = ar_files a" using assms by (simp_all add: same_bundle_def)
  have diag: "sanitizer_file b = sanitizer_file a" "sanitizer_text b = sanitizer_text a"
    unfolding sanitizer_text_def sanitizer_file_def same by (rule refl)+
  show missing: "crash_missing f b = crash_missing f a" for f
    unfolding crash_missing_def same diag ..
  show "still_bundling r b = still_bundling r a"
    unfolding still_bundling_def same diag missing ..
qed

lemma hold_pass:
  assumes "map_of (rs_lanes rs Crashes) name = Some b" "still_bundling r b" "cr_age_pending r"
  defines "signature \<equiv> pending_signature ''missing'' (crash_missing (cr_findings_only r) b)"
    and "maximum \<equiv> promotion_pending_max (cr_pending_max r)"
    and "passes \<equiv> (if ar_pending_sig b = pending_signature ''missing'' (crash_missing (cr_findings_only r) b)
      then ar_pending_count b + 1 else 1)"
  shows "passes < maximum \<Longrightarrow> fst (triage_one_crash r False False name rs) = ''pending''
      \<and> (\<exists>c. map_of (rs_lanes (next_pass r name rs) Crashes) name = Some c \<and> same_bundle b c
        \<and> ar_pending_sig c = signature \<and> ar_pending_count c = passes)"
    and "maximum \<le> passes \<Longrightarrow> fst (triage_one_crash r False False name rs) = ''rejected''
      \<and> (\<exists>d c. map_of (rs_lanes (next_pass r name rs) Crashes_Rejected) d = Some c
        \<and> (\<exists>rc. ar_receipt c = Some rc \<and> vr_state rc = ''rejected''))"
proof -
  let ?missing = "crash_missing (cr_findings_only r) b"
  have bumped: "bump_promotion_pending ''missing'' ?missing (write_receipt kind state detail controls facts b) =
      (passes, (write_receipt kind state detail controls facts b)
        \<lparr>ar_pending_sig := signature, ar_pending_count := passes\<rparr>)"
    for kind state detail controls facts
    by (simp add: bump_promotion_pending_def Let_def signature_def passes_def write_receipt_def)
  note step = triage_bundling [OF assms(1,2), of False False] hold_incomplete_def Let_def bumped prod.case
  show "passes < maximum \<Longrightarrow> fst (triage_one_crash r False False name rs) = ''pending''
      \<and> (\<exists>c. map_of (rs_lanes (next_pass r name rs) Crashes) name = Some c \<and> same_bundle b c
        \<and> ar_pending_sig c = signature \<and> ar_pending_count c = passes)"
    unfolding next_pass_def step
    by (simp add: assms(3) same_bundle_def write_receipt_def flip: maximum_def)
  assume late: "maximum \<le> passes"
  define a4 where "a4 = (let a3 = (write_receipt ''crash'' ''pending''
      (''incomplete missing: missing '' @ py_join '','' ?missing) None no_facts b)
        \<lparr>ar_pending_sig := signature, ar_pending_count := passes, ar_pending := ?missing\<rparr>
    in clear_promotion_sidecars (log_ttl_false_negative (fd_report (ar_dir b) \<noteq> None) passes maximum
      (py_join '','' ?missing) a3))"
  define reason where "reason = incomplete_prefix ''missing'' @ '': missing '' @ py_join '','' ?missing
    @ '' across '' @ int_str passes @ '' triage passes''"
  have pass: "triage_one_crash r False False name rs = (''rejected'',
      reject_artifact (gr_now (cr_pass r)) Crashes name reason [] False (set_artifact Crashes name a4 rs))"
    unfolding step using late assms(3) by (simp add: a4_def reason_def flip: maximum_def)
  obtain d where dest: "unique_destination (lane_names (set_artifact Crashes name a4 rs) (rejected_lane Crashes)) name
      (gr_now (cr_pass r)) = Some d"
    by (rule unique_destination_total)
  have receipt: "\<exists>rc. ar_receipt (rejected_artifact name d reason a4) = Some rc \<and> vr_state rc = ''rejected''" for d
    by (simp add: rejected_artifact_def write_receipt_def)
  from reject_arrives [OF set_artifact_at dest, of reason "[]" False]
  have "map_of (rs_lanes (next_pass r name rs) Crashes_Rejected) d = Some (rejected_artifact name d reason a4)"
    by (simp add: next_pass_def pass rejected_lane_def)
  then show "fst (triage_one_crash r False False name rs) = ''rejected''
      \<and> (\<exists>d c. map_of (rs_lanes (next_pass r name rs) Crashes_Rejected) d = Some c
        \<and> (\<exists>rc. ar_receipt c = Some rc \<and> vr_state rc = ''rejected''))"
    using receipt unfolding pass fst_conv by blast
qed

lemma held_passes:
  assumes "map_of (rs_lanes rs Crashes) name = Some a" "still_bundling r a" "cr_age_pending r"
    and "ar_pending_sig a \<noteq> pending_signature ''missing'' (crash_missing (cr_findings_only r) a)"
    and "k = 0 \<or> int k < promotion_pending_max (cr_pending_max r)"
  shows "\<exists>b. map_of (rs_lanes ((next_pass r name ^^ k) rs) Crashes) name = Some b \<and> same_bundle a b
    \<and> (k = 0 \<and> b = a \<or> 0 < k \<and> ar_pending_count b = int k
       \<and> ar_pending_sig b = pending_signature ''missing'' (crash_missing (cr_findings_only r) a))"
  using assms(5)
proof (induction k)
  case (Suc k)
  then obtain b where b: "map_of (rs_lanes ((next_pass r name ^^ k) rs) Crashes) name = Some b" "same_bundle a b"
    and held: "k = 0 \<and> b = a \<or> 0 < k \<and> ar_pending_count b = int k
      \<and> ar_pending_sig b = pending_signature ''missing'' (crash_missing (cr_findings_only r) a)" by auto
  have open_b: "still_bundling r b" using same_bundle_missing(2) [OF b(2)] assms(2) by simp
  have passes: "(if ar_pending_sig b = pending_signature ''missing'' (crash_missing (cr_findings_only r) b)
      then ar_pending_count b + 1 else 1) = int (Suc k)"
    using held assms(4) same_bundle_missing(1) [OF b(2)] by auto
  from hold_pass(1) [OF b(1) open_b assms(3)] obtain c where
    c: "map_of (rs_lanes (next_pass r name ((next_pass r name ^^ k) rs)) Crashes) name = Some c"
      "same_bundle b c" "ar_pending_count c = int (Suc k)"
      "ar_pending_sig c = pending_signature ''missing'' (crash_missing (cr_findings_only r) b)"
    unfolding passes using Suc.prems by auto
  have "same_bundle a c" using b(2) c(2) by (simp add: same_bundle_def)
  then show ?case using c(1,3,4) same_bundle_missing(1) [OF b(2)] by auto
qed (simp add: assms(1) same_bundle_def)

lemma incomplete_crash_passes:
  assumes "map_of (rs_lanes rs Crashes) name = Some a" "still_bundling r a" "cr_age_pending r"
    and "ar_pending_sig a \<noteq> pending_signature ''missing'' (crash_missing (cr_findings_only r) a)"
  defines "maximum \<equiv> nat (promotion_pending_max (cr_pending_max r))"
  shows "k + 1 < maximum \<Longrightarrow> fst (triage_one_crash r False False name ((next_pass r name ^^ k) rs)) = ''pending''"
    and "k + 1 = max 1 maximum \<Longrightarrow>
      fst (triage_one_crash r False False name ((next_pass r name ^^ k) rs)) = ''rejected''
      \<and> (\<exists>d c. map_of (rs_lanes ((next_pass r name ^^ (k + 1)) rs) Crashes_Rejected) d = Some c
         \<and> (\<exists>rc. ar_receipt c = Some rc \<and> vr_state rc = ''rejected''))"
proof -
  have reached: "\<exists>b. map_of (rs_lanes ((next_pass r name ^^ k) rs) Crashes) name = Some b \<and> still_bundling r b
      \<and> (if ar_pending_sig b = pending_signature ''missing'' (crash_missing (cr_findings_only r) b)
         then ar_pending_count b + 1 else 1) = int (k + 1)"
    if "k = 0 \<or> int k < promotion_pending_max (cr_pending_max r)"
  proof -
    from held_passes [OF assms(1-4) that] obtain b where
      b: "map_of (rs_lanes ((next_pass r name ^^ k) rs) Crashes) name = Some b" "same_bundle a b"
        "k = 0 \<and> b = a \<or> 0 < k \<and> ar_pending_count b = int k
          \<and> ar_pending_sig b = pending_signature ''missing'' (crash_missing (cr_findings_only r) a)" by blast
    then show ?thesis using same_bundle_missing [OF b(2)] assms(2,4) by auto
  qed
  show "fst (triage_one_crash r False False name ((next_pass r name ^^ k) rs)) = ''pending''" if "k + 1 < maximum"
  proof -
    have "k = 0 \<or> int k < promotion_pending_max (cr_pending_max r)" using that unfolding maximum_def by linarith
    from reached [OF this] show ?thesis using hold_pass(1) [OF _ _ assms(3)] that by (force simp: maximum_def)
  qed
  assume last: "k + 1 = max 1 maximum"
  then have "k = 0 \<or> int k < promotion_pending_max (cr_pending_max r)" by (auto simp: maximum_def)
  from reached [OF this] obtain b where
    b: "map_of (rs_lanes ((next_pass r name ^^ k) rs) Crashes) name = Some b" "still_bundling r b"
      "(if ar_pending_sig b = pending_signature ''missing'' (crash_missing (cr_findings_only r) b)
        then ar_pending_count b + 1 else 1) = int (k + 1)" by blast
  have "promotion_pending_max (cr_pending_max r) \<le> int (k + 1)" using last by (auto simp: maximum_def)
  from hold_pass(2) [OF b(1,2) assms(3), unfolded b(3), OF this]
  show "fst (triage_one_crash r False False name ((next_pass r name ^^ k) rs)) = ''rejected''
      \<and> (\<exists>d c. map_of (rs_lanes ((next_pass r name ^^ (k + 1)) rs) Crashes_Rejected) d = Some c
         \<and> (\<exists>rc. ar_receipt c = Some rc \<and> vr_state rc = ''rejected''))" by simp
qed

text \<open>
  C15 (incomplete_crash_ages_out). A bundle that misses the same things in pass after pass is held pending
  as often as the limit allows and rejected in the pass that reaches it, where it is kept with its receipt:
  no earlier, and no later.
\<close>

theorem incomplete_crash_ages_out:
  assumes "map_of (rs_lanes rs Crashes) name = Some a" "still_bundling r a" "cr_age_pending r"
    and "ar_pending_sig a \<noteq> pending_signature ''missing'' (crash_missing (cr_findings_only r) a)"
    and "maximum = nat (promotion_pending_max (cr_pending_max r))"
  shows "(k + 1 < maximum \<longrightarrow> fst (triage_one_crash r False False name ((next_pass r name ^^ k) rs)) = ''pending'')
    \<and> (k + 1 = max 1 maximum \<longrightarrow>
      fst (triage_one_crash r False False name ((next_pass r name ^^ k) rs)) = ''rejected''
      \<and> (\<exists>d c. map_of (rs_lanes ((next_pass r name ^^ (k + 1)) rs) Crashes_Rejected) d = Some c
         \<and> (\<exists>rc. ar_receipt c = Some rc \<and> vr_state rc = ''rejected'')))"
  using incomplete_crash_passes [OF assms(1-4), of k] unfolding assms(5) by blast

subsection \<open>Concrete crashes\<close>

definition demo_crash :: "gate_dir \<Rightarrow> bool \<Rightarrow> artifact" where
  "demo_crash d filed = (demo_artifact ''CRASH-1'' d)
     \<lparr>ar_files := demo_files\<lparr>bf_exact := Some demo_checkptr, bf_testcase := filed\<rparr>\<rparr>"

definition demo_crash_lanes :: "artifact \<Rightarrow> results" where
  "demo_crash_lanes a = \<lparr>rs_lanes = (\<lambda>l. if l = Crashes then [(''CRASH-1'', a)] else []), rs_store = store0,
     rs_routes = []\<rparr>"

definition demo_crash_run :: "reviewer \<Rightarrow> crash_run" where
  "demo_crash_run rv =
     \<lparr>cr_pass = demo_pass rv, cr_expired = (\<lambda>_. False), cr_gate_on = True, cr_pending_max = ''3'',
      cr_findings_only = False, cr_age_pending = True, cr_controls = [''bytes''], cr_export = (\<lambda>a. (False, a)),
      cr_fill = (\<lambda>a. a)\<rparr>"

lemma demo_promoted:
  "fst (triage_one_crash (demo_crash_run (demo_reviewer (demo_answers ''Promote'' [] []))) False False ''CRASH-1''
     (demo_crash_lanes (demo_crash (demo_gate (\<lambda>_. None)) True))) = ''promoted''"
  by code_simp

theorem promoted_crash_is_backed_witness:
  "has_memory_safety_signal demo_checkptr
   \<and> (\<exists>rs' b rc. triage_one_crash (demo_crash_run (demo_reviewer (demo_answers ''Promote'' [] []))) False False ''CRASH-1''
        (demo_crash_lanes (demo_crash (demo_gate (\<lambda>_. None)) True)) = (''promoted'', rs')
      \<and> map_of (rs_lanes rs' Crashes) ''CRASH-1'' = Some b \<and> ar_receipt b = Some rc \<and> vr_state rc = ''reportable'')"
proof -
  let ?r = "demo_crash_run (demo_reviewer (demo_answers ''Promote'' [] []))"
  let ?a = "demo_crash (demo_gate (\<lambda>_. None)) True"
  obtain rs' where rs': "triage_one_crash ?r False False ''CRASH-1'' (demo_crash_lanes ?a) = (''promoted'', rs')"
    using demo_promoted by (metis prod.collapse)
  have at: "keeps_evidence ?r" "map_of (rs_lanes (demo_crash_lanes ?a) Crashes) ''CRASH-1'' = Some ?a"
    "\<not> cr_expired ?r At_Start"
    by (simp_all add: keeps_evidence_def score_keeps_verdict_def demo_crash_run_def demo_pass_def demo_crash_lanes_def)
  have "sanitizer_text ?a = demo_checkptr"
    by (simp add: sanitizer_text_def sanitizer_file_def demo_crash_def demo_checkptr_def)
  then show ?thesis using promoted_crash_is_backed [OF rs' at] rs' by auto
qed


theorem incomplete_crash_ages_out_witness:
  "fst (triage_one_crash (demo_crash_run (demo_reviewer (\<lambda>_. None))) False False ''CRASH-1''
     ((next_pass (demo_crash_run (demo_reviewer (\<lambda>_. None))) ''CRASH-1'' ^^ 1)
       (demo_crash_lanes (demo_crash (demo_gate (\<lambda>_. None)) False)))) = ''pending''
   \<and> fst (triage_one_crash (demo_crash_run (demo_reviewer (\<lambda>_. None))) False False ''CRASH-1''
     ((next_pass (demo_crash_run (demo_reviewer (\<lambda>_. None))) ''CRASH-1'' ^^ 2)
       (demo_crash_lanes (demo_crash (demo_gate (\<lambda>_. None)) False)))) = ''rejected''"
proof -
  let ?r = "demo_crash_run (demo_reviewer (\<lambda>_. None))"
  let ?a = "demo_crash (demo_gate (\<lambda>_. None)) False"
  have "map_of (rs_lanes (demo_crash_lanes ?a) Crashes) ''CRASH-1'' = Some ?a" "cr_age_pending ?r"
    by (simp_all add: demo_crash_lanes_def demo_crash_run_def)
  moreover have "still_bundling ?r ?a" by code_simp
  moreover have "ar_pending_sig ?a \<noteq> pending_signature ''missing'' (crash_missing (cr_findings_only ?r) ?a)"
    by (simp add: demo_crash_def demo_artifact_def pending_signature_def)
  moreover have "promotion_pending_max (cr_pending_max ?r) = 3" by code_simp
  ultimately have passes: "(k + 1 < (3::nat) \<longrightarrow>
      fst (triage_one_crash ?r False False ''CRASH-1'' ((next_pass ?r ''CRASH-1'' ^^ k) (demo_crash_lanes ?a))) = ''pending'')
    \<and> (k + 1 = max 1 (3::nat) \<longrightarrow>
      fst (triage_one_crash ?r False False ''CRASH-1'' ((next_pass ?r ''CRASH-1'' ^^ k) (demo_crash_lanes ?a))) = ''rejected'')"
    for k using incomplete_crash_ages_out [of "demo_crash_lanes ?a" "''CRASH-1''" ?a ?r 3 k] by simp
  show ?thesis using passes [of 1] passes [of 2] by (simp only:)
qed

end
