(* ===== verification/Folding.thy ===== *)
theory Folding
  imports Crashes
begin

text \<open>
  Folding of duplicate crashes (\<open>lib/triage.py\<close>, \<open>lib/crash_bundle.py\<close>): a bundle whose crash state a
  promoted bundle already carries through the same probe route moves beside the crash tree, and of the
  bundles that share a state and a route with no promoted owner the first filed is adjudicated while the
  others wait for its verdict.
\<close>

subsection \<open>Crash states and probe routes\<close>

type_synonym crash_route = "string \<times> string \<times> string \<times> string list \<times> string \<times> string"

definition bundle_crash_route :: "bundle_files \<Rightarrow> crash_route option" where
  "bundle_crash_route f =
     (case bf_context f of None \<Rightarrow> None
      | Some context \<Rightarrow>
          (case (case pc_harness context of No_Harness \<Rightarrow> Some [] | Harness_File digest \<Rightarrow> Some digest
                 | Harness_Unknown \<Rightarrow> None) of
             None \<Rightarrow> None
           | Some harness_digest \<Rightarrow>
               (case (pc_args context, pc_sanitizer context, pc_mode context, pc_build_config context,
                      pc_build_recipe context) of
                  (Some args, Some sanitizer, Some mode, Some config, Some recipe) \<Rightarrow>
                    Some (sanitizer, mode, harness_digest, args, config, recipe)
                | _ \<Rightarrow> None)))"

record filed_state =
  fs_id :: string
  fs_state :: crash_state
  fs_promoted :: bool
  fs_receipt :: "string option"

definition filed_state_of :: "gate_run \<Rightarrow> string \<times> artifact \<Rightarrow> filed_state option" where
  "filed_state_of r = (\<lambda>(name, a).
     (let receipt_state = (if gr_current r a then map_option vr_state (ar_receipt a) else None)
      in case bf_state (ar_files a) of None \<Rightarrow> None
         | Some state \<Rightarrow> Some \<lparr>fs_id = name, fs_state = state,
             fs_promoted = (case receipt_state of None \<Rightarrow> False | Some s \<Rightarrow> s \<in> set SECURITY_STATES),
             fs_receipt = receipt_state\<rparr>))"

text \<open>Every crash directory with a state, in name order; the filter of the code is \<open>None\<close> in triage.\<close>

definition filed_crash_states :: "gate_run \<Rightarrow> crash_state option \<Rightarrow> results \<Rightarrow> filed_state list" where
  "filed_crash_states r state_filter rs =
     filter (\<lambda>item. case state_filter of None \<Rightarrow> True | Some state \<Rightarrow> fs_state item = state)
       (List.map_filter (filed_state_of r)
         (sort_key fst (filter (\<lambda>(name, _). py_startswith ''CRASH-'' name) (rs_lanes rs Crashes))))"

definition route_at :: "results \<Rightarrow> string \<Rightarrow> crash_route option" where
  "route_at rs name =
     (case map_of (rs_lanes rs Crashes) name of None \<Rightarrow> None | Some a \<Rightarrow> bundle_crash_route (ar_files a))"

definition state_owner ::
  "results \<Rightarrow> crash_state \<Rightarrow> crash_route option \<Rightarrow> filed_state list \<Rightarrow> string list \<Rightarrow> bool \<Rightarrow> string option" where
  "state_owner rs state route filed exclude promoted_only =
     (if route = None then None
      else map_option fs_id (find (\<lambda>item. fs_state item = state \<and> fs_id item \<notin> set exclude
             \<and> (promoted_only \<longrightarrow> fs_promoted item) \<and> route_at rs (fs_id item) = route)
           (sort_key (\<lambda>item. \<not> fs_promoted item) (sort_key fs_id filed))))"

subsection \<open>Folding\<close>

definition fold_reason :: "string \<Rightarrow> string" where
  "fold_reason owner = ''identical crash state already promoted as '' @ owner"

text \<open>The bundle leaves its lane, crashes or findings, and its hypothesis is closed as a duplicate.\<close>

definition fold_duplicate :: "int \<Rightarrow> lane \<Rightarrow> string \<Rightarrow> string \<Rightarrow> string \<Rightarrow> results \<Rightarrow> results" where
  "fold_duplicate now l name owner reason rs =
     (case map_of (rs_lanes rs l) name of None \<Rightarrow> rs
      | Some a \<Rightarrow>
          (case unique_destination (lane_names rs Duplicates) name now of None \<Rightarrow> rs
           | Some destination \<Rightarrow>
               (let rs1 = move_artifact l name Duplicates destination a rs
                in rs1\<lparr>rs_store := snd (record_artifact_duplicate (rs_store rs1) name owner reason
                     (Some (bundle_of destination a)) now)\<rparr>)))"

definition fold_duplicate_crash :: "int \<Rightarrow> string \<Rightarrow> string \<Rightarrow> results \<Rightarrow> results" where
  "fold_duplicate_crash now name owner rs = fold_duplicate now Crashes name owner (fold_reason owner) rs"

text \<open>A bundle that is neither folded nor adjudicated at once: its name, state, route and filing time.\<close>

record candidate =
  cd_name :: string
  cd_state :: crash_state
  cd_route :: "crash_route option"
  cd_filed :: "int option"

text \<open>The first loop: the bundles adjudicated at once, the candidates, and how many were folded.\<close>

record fold_run =
  fo_adjudicate :: "string list"
  fo_candidates :: "candidate list"
  fo_folded :: "(string \<times> string) list"
  fo_results :: results

definition fold_step :: "int \<Rightarrow> filed_state list \<Rightarrow> string \<Rightarrow> fold_run \<Rightarrow> fold_run" where
  "fold_step now filed name f =
     (let rs = fo_results f
      in case map_of (rs_lanes rs Crashes) name of
           None \<Rightarrow> f\<lparr>fo_adjudicate := fo_adjudicate f @ [name]\<rparr>
         | Some a \<Rightarrow>
             (case bf_state (ar_files a) of None \<Rightarrow> f\<lparr>fo_adjudicate := fo_adjudicate f @ [name]\<rparr>
              | Some state \<Rightarrow>
                  if name \<in> fs_id ` set (filter fs_promoted filed) then
                    f\<lparr>fo_adjudicate := fo_adjudicate f @ [name]\<rparr>
                  else
                    (let route = bundle_crash_route (ar_files a)
                     in case state_owner rs state route filed [name] True of
                          Some owner \<Rightarrow> f\<lparr>fo_folded := fo_folded f @ [(name, owner)],
                            fo_results := fold_duplicate_crash now name owner rs\<rparr>
                        | None \<Rightarrow> f\<lparr>fo_candidates := fo_candidates f @
                            [\<lparr>cd_name = name, cd_state = state, cd_route = route, cd_filed = bf_filed (ar_files a)\<rparr>]\<rparr>)))"

text \<open>Earliest filed first, those without a filing time last, then by name.\<close>

definition filing_order :: "candidate list \<Rightarrow> candidate list" where
  "filing_order cs =
     sort_key (\<lambda>c. cd_filed c \<in> {None, Some 0})
       (sort_key (\<lambda>c. case cd_filed c of None \<Rightarrow> 0 | Some t \<Rightarrow> t) (sort_key cd_name cs))"

text \<open>The second loop: the peers elected so far, and the names deferred behind one of them.\<close>

fun elect_leaders :: "bool \<Rightarrow> candidate list \<Rightarrow> candidate list \<Rightarrow> string list \<Rightarrow> candidate list \<times> string list" where
  "elect_leaders defer_siblings [] peers deferred = (peers, deferred)"
| "elect_leaders defer_siblings (c # rest) peers deferred =
     (if cd_route c \<noteq> None \<and> defer_siblings
         \<and> list_ex (\<lambda>p. cd_state p = cd_state c \<and> cd_route p = cd_route c) peers
      then elect_leaders defer_siblings rest peers (deferred @ [cd_name c])
      else elect_leaders defer_siblings rest (peers @ [c]) deferred)"

definition fold_duplicate_crash_states ::
  "gate_run \<Rightarrow> bool \<Rightarrow> string list \<Rightarrow> results \<Rightarrow> string list \<times> string list \<times> nat \<times> results" where
  "fold_duplicate_crash_states r defer_siblings directories rs =
     (let filed = filed_crash_states r None rs;
          f = fold (fold_step (gr_now r) filed) directories
            \<lparr>fo_adjudicate = [], fo_candidates = [], fo_folded = [], fo_results = rs\<rparr>;
          deferred = snd (elect_leaders defer_siblings (filing_order (fo_candidates f)) [] []);
          waiting = filter (\<lambda>d. d \<in> cd_name ` set (fo_candidates f) \<and> d \<notin> set deferred) directories
      in (fo_adjudicate f @ waiting, deferred, length (fo_folded f), fo_results f))"

subsection \<open>Folding moves and nothing else\<close>

lemma fold_duplicate_steady:
  assumes "l \<in> {Findings, Crashes}"
  shows "steady rs (fold_duplicate now l name owner reason rs)"
proof (cases "map_of (rs_lanes rs l) name")
  case (Some a)
  obtain d where d: "unique_destination (lane_names rs Duplicates) name now = Some d"
    "d \<notin> set (lane_names rs Duplicates)"
    by (rule unique_destination_total)
  show ?thesis
    using assms move_ok [of rs d Duplicates] d move_count [OF _ Some] routes_move [of rs l]
    by (auto simp: fold_duplicate_def Some Let_def steady_store) (auto simp: steady_def filed_ok_def)
qed (simp add: fold_duplicate_def)

lemma fold_crash_steady: "steady rs (fold_duplicate_crash now name owner rs)"
  by (simp add: fold_duplicate_crash_def fold_duplicate_steady)

lemma fold_duplicate_lanes:
  assumes "m \<noteq> Duplicates"
  shows "n \<noteq> name \<or> m \<noteq> l \<Longrightarrow>
      map_of (rs_lanes (fold_duplicate now l name owner reason rs) m) n = map_of (rs_lanes rs m) n"
    and "map_of (rs_lanes rs m) name \<noteq> None \<Longrightarrow>
      map_of (rs_lanes (fold_duplicate now m name owner reason rs) m) name = None"
proof -
  obtain d where d: "unique_destination (lane_names rs Duplicates) name now = Some d"
    by (rule unique_destination_total)
  show "n \<noteq> name \<or> m \<noteq> l \<Longrightarrow>
      map_of (rs_lanes (fold_duplicate now l name owner reason rs) m) n = map_of (rs_lanes rs m) n"
    using assms by (auto simp: fold_duplicate_def d move_elsewhere Let_def split: option.split)
  show "map_of (rs_lanes rs m) name \<noteq> None \<Longrightarrow>
      map_of (rs_lanes (fold_duplicate now m name owner reason rs) m) name = None"
    using assms by (auto simp: fold_duplicate_def d Let_def move_lanes delete_conv')
qed

lemma fold_crash_lanes:
  "n \<noteq> name \<Longrightarrow> map_of (rs_lanes (fold_duplicate_crash now name owner rs) Crashes) n = map_of (rs_lanes rs Crashes) n"
  "map_of (rs_lanes rs Crashes) name \<noteq> None \<Longrightarrow>
     map_of (rs_lanes (fold_duplicate_crash now name owner rs) Crashes) name = None"
  unfolding fold_duplicate_crash_def by (rule fold_duplicate_lanes; simp)+

subsection \<open>Owners\<close>

definition credited :: "gate_run \<Rightarrow> results \<Rightarrow> string \<Rightarrow> bool" where
  "credited r rs name \<longleftrightarrow> (case map_of (rs_lanes rs Crashes) name of None \<Rightarrow> False
     | Some a \<Rightarrow> gr_current r a \<and> (case ar_receipt a of None \<Rightarrow> False | Some rc \<Rightarrow> vr_state rc \<in> set SECURITY_STATES))"

text \<open>Two bundles with one crash state, reached through one known route.\<close>

definition same_crash :: "results \<Rightarrow> string \<Rightarrow> string \<Rightarrow> bool" where
  "same_crash rs d e \<longleftrightarrow>
     (case (map_of (rs_lanes rs Crashes) d, map_of (rs_lanes rs Crashes) e) of
        (Some a, Some b) \<Rightarrow> bf_state (ar_files a) \<noteq> None \<and> bf_state (ar_files a) = bf_state (ar_files b)
          \<and> bundle_crash_route (ar_files a) \<noteq> None
          \<and> bundle_crash_route (ar_files a) = bundle_crash_route (ar_files b)
      | _ \<Rightarrow> False)"

lemma same_crashD:
  assumes "same_crash rs d e"
  shows "\<exists>a b. map_of (rs_lanes rs Crashes) d = Some a \<and> map_of (rs_lanes rs Crashes) e = Some b
    \<and> bf_state (ar_files a) \<noteq> None \<and> bf_state (ar_files b) = bf_state (ar_files a)
    \<and> bundle_crash_route (ar_files a) \<noteq> None \<and> bundle_crash_route (ar_files b) = bundle_crash_route (ar_files a)"
proof (cases "map_of (rs_lanes rs Crashes) d")
  case (Some a)
  show ?thesis
  proof (cases "map_of (rs_lanes rs Crashes) e")
    case None
    show ?thesis using assms unfolding same_crash_def Some None by simp
  next
    case (Some b)
    have "bf_state (ar_files a) \<noteq> None \<and> bf_state (ar_files a) = bf_state (ar_files b)
        \<and> bundle_crash_route (ar_files a) \<noteq> None \<and> bundle_crash_route (ar_files a) = bundle_crash_route (ar_files b)"
      using assms [unfolded same_crash_def \<open>map_of (rs_lanes rs Crashes) d = Some a\<close> Some prod.case option.case] .
    then show ?thesis using \<open>map_of (rs_lanes rs Crashes) d = Some a\<close> Some by metis
  qed
qed (use assms in \<open>simp add: same_crash_def\<close>)

lemma filed_item:
  assumes "lanes_ok rs" "item \<in> set (filed_crash_states r None rs)"
  shows "\<exists>a. map_of (rs_lanes rs Crashes) (fs_id item) = Some a \<and> bf_state (ar_files a) = Some (fs_state item)
    \<and> (fs_promoted item \<longleftrightarrow> credited r rs (fs_id item))"
proof -
  obtain name a where a: "(name, a) \<in> set (rs_lanes rs Crashes)" "filed_state_of r (name, a) = Some item"
    using assms(2) by (auto simp: filed_crash_states_def List.map_filter_def)
  have "map_of (rs_lanes rs Crashes) name = Some a" using assms(1) a(1) by (simp add: lanes_ok_def)
  then show ?thesis
    using a(2) by (auto simp: filed_state_of_def credited_def Let_def split: option.splits if_splits)
qed

lemma credited_filed:
  assumes "lanes_ok rs" "map_of (rs_lanes rs Crashes) name = Some a" "bf_state (ar_files a) = Some state"
    and "py_startswith ''CRASH-'' name" "credited r rs name"
  shows "name \<in> fs_id ` set (filter fs_promoted (filed_crash_states r None rs))"
proof -
  obtain item where item: "filed_state_of r (name, a) = Some item" "fs_id item = name"
    using assms(3) by (simp add: filed_state_of_def Let_def)
  then have filed: "item \<in> set (filed_crash_states r None rs)"
    using assms(4) map_of_SomeD [OF assms(2)] by (force simp: filed_crash_states_def List.map_filter_def)
  then have "fs_promoted item" using filed_item [OF assms(1) filed] assms(5) item(2) by auto
  then show ?thesis using filed item(2) by auto
qed

lemma state_ownerD:
  assumes "state_owner rs state route filed exclude True = Some owner"
  shows "route \<noteq> None \<and> route_at rs owner = route \<and> owner \<notin> set exclude
    \<and> (\<exists>item \<in> set filed. fs_id item = owner \<and> fs_state item = state \<and> fs_promoted item)"
proof -
  let ?wanted = "\<lambda>item. fs_state item = state \<and> fs_id item \<notin> set exclude
     \<and> (True \<longrightarrow> fs_promoted item) \<and> route_at rs (fs_id item) = route"
  let ?sorted = "sort_key (\<lambda>item. \<not> fs_promoted item) (sort_key fs_id filed)"
  obtain item where item: "route \<noteq> None" "find ?wanted ?sorted = Some item" "fs_id item = owner"
    using assms unfolding state_owner_def by (auto split: if_splits)
  have "?wanted item \<and> item \<in> set ?sorted" using item(2) unfolding find_Some_iff by (metis nth_mem)
  then show ?thesis using item by auto
qed

text \<open>No credited bundle of the crash lane carries the crash of \<open>name\<close>.\<close>

definition unowned :: "gate_run \<Rightarrow> results \<Rightarrow> string \<Rightarrow> bool" where
  "unowned r rs name \<longleftrightarrow>
     (\<forall>e. py_startswith ''CRASH-'' e \<and> credited r rs e \<longrightarrow> \<not> same_crash rs name e)"

lemma state_owner_None:
  assumes "state_owner rs' state (bundle_crash_route (ar_files a)) (filed_crash_states r None rs) [name] True = None"
    and "lanes_ok rs" "map_of (rs_lanes rs Crashes) name = Some a" "bf_state (ar_files a) = Some state"
    and "\<not> credited r rs name" "\<And>e. credited r rs e \<Longrightarrow> route_at rs' e = route_at rs e"
  shows "unowned r rs name"
  unfolding unowned_def
proof (intro allI impI notI)
  fix e assume e: "py_startswith ''CRASH-'' e \<and> credited r rs e" and same: "same_crash rs name e"
  obtain b where b: "map_of (rs_lanes rs Crashes) e = Some b" "bf_state (ar_files b) = Some state"
    "bundle_crash_route (ar_files a) \<noteq> None" "bundle_crash_route (ar_files b) = bundle_crash_route (ar_files a)"
    using same_crashD [OF same] assms(3,4) by (elim exE conjE) simp
  obtain item where item: "item \<in> set (filed_crash_states r None rs)" "fs_promoted item" "fs_id item = e"
    using credited_filed [OF assms(2) b(1,2)] e by auto
  have "fs_state item = state" using filed_item [OF assms(2) item(1)] item(3) b(1,2) by auto
  moreover have "e \<noteq> name" using e assms(5) by blast
  moreover have "route_at rs' e = bundle_crash_route (ar_files a)"
    using assms(6) e b by (simp add: route_at_def)
  moreover have "find (\<lambda>item. fs_state item = state \<and> fs_id item \<notin> set [name]
       \<and> (True \<longrightarrow> fs_promoted item) \<and> route_at rs' (fs_id item) = bundle_crash_route (ar_files a))
      (sort_key (\<lambda>item. \<not> fs_promoted item) (sort_key fs_id (filed_crash_states r None rs))) = None"
    using assms(1) b(3) unfolding state_owner_def by (simp only: if_False option.map_disc_iff)
  ultimately show False using item unfolding find_None_iff by auto
qed

subsection \<open>The first loop\<close>

definition fold_start :: "results \<Rightarrow> fold_run" where
  "fold_start rs = \<lparr>fo_adjudicate = [], fo_candidates = [], fo_folded = [], fo_results = rs\<rparr>"

text \<open>What holds after the directories \<open>seen\<close> have been looked at.\<close>

definition fold_inv :: "gate_run \<Rightarrow> results \<Rightarrow> string list \<Rightarrow> fold_run \<Rightarrow> bool" where
  "fold_inv r rs seen f \<longleftrightarrow>
     mset (fo_adjudicate f @ map cd_name (fo_candidates f) @ map fst (fo_folded f)) = mset seen
     \<and> (\<forall>n. map_of (rs_lanes (fo_results f) Crashes) n =
          (if n \<in> fst ` set (fo_folded f) then None else map_of (rs_lanes rs Crashes) n))
     \<and> (\<forall>(d, owner) \<in> set (fo_folded f). same_crash rs d owner \<and> credited r rs owner)
     \<and> (\<forall>d \<in> fst ` set (fo_folded f). \<not> credited r rs d)
     \<and> (\<forall>c \<in> set (fo_candidates f). \<exists>a. map_of (rs_lanes rs Crashes) (cd_name c) = Some a
          \<and> bf_state (ar_files a) = Some (cd_state c) \<and> cd_route c = bundle_crash_route (ar_files a)
          \<and> \<not> credited r rs (cd_name c) \<and> unowned r rs (cd_name c))
     \<and> (\<forall>d \<in> set (fo_adjudicate f). credited r rs d
          \<or> (\<forall>a. map_of (rs_lanes rs Crashes) d = Some a \<longrightarrow> bf_state (ar_files a) = None))"

lemma fold_invD:
  assumes "fold_inv r rs seen f"
  shows "mset (fo_adjudicate f @ map cd_name (fo_candidates f) @ map fst (fo_folded f)) = mset seen"
    and "\<forall>n. map_of (rs_lanes (fo_results f) Crashes) n =
      (if n \<in> fst ` set (fo_folded f) then None else map_of (rs_lanes rs Crashes) n)"
    and "\<forall>d \<in> fst ` set (fo_folded f). \<not> credited r rs d"
    and "\<forall>(d, owner) \<in> set (fo_folded f). same_crash rs d owner \<and> credited r rs owner"
    and "\<forall>d \<in> set (fo_adjudicate f). credited r rs d
      \<or> (\<forall>a. map_of (rs_lanes rs Crashes) d = Some a \<longrightarrow> bf_state (ar_files a) = None)"
  using assms unfolding fold_inv_def by - (elim conjE, assumption)+

lemma fold_inv_folded:
  assumes "fold_inv r rs seen f" "same_crash rs name owner" "credited r rs owner" "\<not> credited r rs name"
    and "\<And>n. map_of (rs_lanes rs' Crashes) n =
      (if n \<in> fst ` set (fo_folded f @ [(name, owner)]) then None else map_of (rs_lanes rs Crashes) n)"
  shows "fold_inv r rs (seen @ [name]) (f\<lparr>fo_folded := fo_folded f @ [(name, owner)], fo_results := rs'\<rparr>)"
proof -
  have "\<forall>n. map_of (rs_lanes rs' Crashes) n =
      (if n \<in> fst ` set (fo_folded f @ [(name, owner)]) then None else map_of (rs_lanes rs Crashes) n)"
    using assms(5) by blast
  then show ?thesis using assms(1-4) unfolding fold_inv_def by auto
qed

lemma fold_step_inv:
  assumes "fold_inv r rs seen f" "lanes_ok rs" "name \<notin> set seen" "py_startswith ''CRASH-'' name"
  shows "fold_inv r rs (seen @ [name]) (fold_step now (filed_crash_states r None rs) name f)"
proof -
  let ?filed = "filed_crash_states r None rs"
  have fresh: "name \<notin> fst ` set (fo_folded f)"
  proof
    assume "name \<in> fst ` set (fo_folded f)"
    then have "name \<in> set (fo_adjudicate f @ map cd_name (fo_candidates f) @ map fst (fo_folded f))" by simp
    moreover have "mset (fo_adjudicate f @ map cd_name (fo_candidates f) @ map fst (fo_folded f)) = mset seen"
      using assms(1) unfolding fold_inv_def by blast
    ultimately show False using assms(3) mset_eq_setD by blast
  qed
  have lanes: "map_of (rs_lanes (fo_results f) Crashes) n =
      (if n \<in> fst ` set (fo_folded f) then None else map_of (rs_lanes rs Crashes) n)" for n
    using assms(1) unfolding fold_inv_def by blast
  have here: "map_of (rs_lanes (fo_results f) Crashes) name = map_of (rs_lanes rs Crashes) name"
    using lanes [of name] fresh by simp
  show ?thesis
  proof (cases "map_of (rs_lanes rs Crashes) name")
    case None
    then show ?thesis using assms(1) here by (auto simp: fold_step_def Let_def fold_inv_def)
  next
    case (Some a)
    show ?thesis
    proof (cases "bf_state (ar_files a)")
      case None
      then show ?thesis using assms(1) here Some by (auto simp: fold_step_def Let_def fold_inv_def)
    next
      case state: (Some state)
      have promoted: "name \<in> fs_id ` set (filter fs_promoted ?filed) \<longleftrightarrow> credited r rs name"
        using credited_filed [OF assms(2) Some state assms(4)] filed_item [OF assms(2)] by fastforce
      let ?route = "bundle_crash_route (ar_files a)"
      show ?thesis
      proof (cases "credited r rs name")
        case True
        then show ?thesis using assms(1) here Some state promoted by (auto simp: fold_step_def Let_def fold_inv_def)
      next
        case False
        show ?thesis
        proof (cases "state_owner (fo_results f) state ?route ?filed [name] True")
          case None
          have "route_at (fo_results f) e = route_at rs e" if "credited r rs e" for e
          proof -
            have "e \<notin> fst ` set (fo_folded f)" using assms(1) that by (auto simp: fold_inv_def)
            then show ?thesis using lanes [of e] by (simp add: route_at_def)
          qed
          from state_owner_None [OF None assms(2) Some state False this] have "unowned r rs name" .
          then show ?thesis using None assms(1) here Some state promoted False
            by (auto simp: fold_step_def Let_def fold_inv_def)
        next
          case (Some owner)
          from state_ownerD [OF Some] obtain item where owner: "?route \<noteq> None" "route_at (fo_results f) owner = ?route"
            "item \<in> set ?filed" "fs_id item = owner" "fs_state item = state" "fs_promoted item" by blast
          from filed_item [OF assms(2) owner(3)] obtain b where b: "map_of (rs_lanes rs Crashes) owner = Some b"
            "bf_state (ar_files b) = Some state" "credited r rs owner" using owner(4-6) by auto
          have "owner \<notin> fst ` set (fo_folded f)" using assms(1) b(3) by (auto simp: fold_inv_def)
          then have "route_at rs owner = ?route" using owner(2) lanes [of owner] by (simp add: route_at_def)
          then have same: "same_crash rs name owner"
            using owner(1) b \<open>map_of (rs_lanes rs Crashes) name = Some a\<close> state by (simp add: same_crash_def route_at_def)
          have step: "fold_step now ?filed name f = f\<lparr>fo_folded := fo_folded f @ [(name, owner)],
              fo_results := fold_duplicate_crash now name owner (fo_results f)\<rparr>"
            using here \<open>map_of (rs_lanes rs Crashes) name = Some a\<close> state promoted False Some
            by (simp add: fold_step_def Let_def)
          have moved: "map_of (rs_lanes (fold_duplicate_crash now name owner (fo_results f)) Crashes) n =
              (if n \<in> fst ` set (fo_folded f @ [(name, owner)]) then None else map_of (rs_lanes rs Crashes) n)" for n
          proof (cases "n = name")
            case True
            have "map_of (rs_lanes (fo_results f) Crashes) name \<noteq> None"
              using here \<open>map_of (rs_lanes rs Crashes) name = Some a\<close> by simp
            from fold_crash_lanes(2) [OF this] show ?thesis by (simp add: True)
          next
            case False
            from fold_crash_lanes(1) [OF this] show ?thesis using False by (simp add: lanes del: map_of_eq_None_iff)
          qed
          show ?thesis unfolding step by (rule fold_inv_folded [OF assms(1) same b(3) False moved])
        qed
      qed
    qed
  qed
qed

lemma fold_step_steady: "steady rs (fo_results f) \<Longrightarrow> steady rs (fo_results (fold_step now filed name f))"
  using fold_crash_steady steady_trans by (auto simp: fold_step_def Let_def split: option.split)

lemma fold_run_inv:
  assumes "fold_inv r rs seen f" "lanes_ok rs" "distinct (seen @ ds)" "\<forall>d \<in> set ds. py_startswith ''CRASH-'' d"
  shows "fold_inv r rs (seen @ ds) (fold (fold_step now (filed_crash_states r None rs)) ds f)"
  using assms
proof (induction ds arbitrary: seen f)
  case (Cons d ds)
  have "fold_inv r rs (seen @ [d]) (fold_step now (filed_crash_states r None rs) d f)"
    using Cons.prems by (intro fold_step_inv) simp_all
  from Cons.IH [OF this Cons.prems(2)] Cons.prems(3,4) show ?case by simp
qed simp

lemma fold_run_steady:
  "steady rs (fo_results f) \<Longrightarrow> steady rs (fo_results (fold (fold_step now filed) ds f))"
  by (induction ds arbitrary: f) (simp_all add: fold_step_steady)

lemma fold_start_inv: "fold_inv r rs [] (fold_start rs)"
  by (simp add: fold_inv_def fold_start_def)

theorem folding_steady: "steady rs (snd (snd (snd (fold_duplicate_crash_states r sib ds rs))))"
  by (simp add: fold_duplicate_crash_states_def Let_def fold_run_steady)

subsection \<open>Representatives\<close>

text \<open>\<open>c\<close> has a known route and waits behind \<open>p\<close>, which carries its state through that route.\<close>

definition behind :: "candidate \<Rightarrow> candidate \<Rightarrow> bool" where
  "behind p c \<longleftrightarrow> cd_route c \<noteq> None \<and> cd_state p = cd_state c \<and> cd_route p = cd_route c"

lemma elect_step:
  "elect_leaders sib (c # rest) peers deferred =
     (if sib \<and> (\<exists>p \<in> set peers. behind p c) then elect_leaders sib rest peers (deferred @ [cd_name c])
      else elect_leaders sib rest (peers @ [c]) deferred)"
  by (auto simp: behind_def list_ex_iff)

declare elect_leaders.simps(2) [simp del] elect_step [simp]

lemma elected_partition:
  "mset (map cd_name (fst (elect_leaders sib cs peers deferred)) @ snd (elect_leaders sib cs peers deferred))
     = mset (map cd_name (peers @ cs) @ deferred)"
  by (induction cs arbitrary: peers deferred) auto

lemma elected_keeps: "set peers \<subseteq> set (fst (elect_leaders sib cs peers deferred))"
proof (induction cs arbitrary: peers deferred)
  case (Cons c cs)
  from Cons.IH [of peers] Cons.IH [of "peers @ [c]"] show ?case by (cases sib) simp_all
qed simp

lemma elected_from: "set (fst (elect_leaders sib cs peers deferred)) \<subseteq> set peers \<union> set cs"
proof (induction cs arbitrary: peers deferred)
  case (Cons c cs)
  from Cons.IH [of peers] Cons.IH [of "peers @ [c]"] show ?case by (cases sib) (auto simp: subset_iff)
qed simp

lemma elected_deferred:
  "n \<in> set (snd (elect_leaders sib cs peers deferred)) \<Longrightarrow> n \<notin> set deferred \<Longrightarrow>
     sib \<and> (\<exists>c \<in> set cs. cd_name c = n \<and> (\<exists>p \<in> set (fst (elect_leaders sib cs peers deferred)). behind p c))"
proof (induction cs arbitrary: peers deferred)
  case (Cons c cs)
  show ?case
  proof (cases "sib \<and> (\<exists>p \<in> set peers. behind p c)")
    case True
    note kept = elected_keeps [of peers sib cs "deferred @ [cd_name c]"]
    show ?thesis
    proof (cases "cd_name c = n")
      case here: True
      then show ?thesis using True kept by auto
    next
      case False
      then show ?thesis using Cons.IH [of peers "deferred @ [cd_name c]"] Cons.prems True by auto
    qed
  next
    case False
    then show ?thesis using Cons.IH [of "peers @ [c]" deferred] Cons.prems unfolding elect_step if_not_P [OF False] by auto
  qed
qed simp

lemma elected_differ:
  "sorted_wrt (\<lambda>p q. \<not> behind p q) peers \<Longrightarrow> sib \<Longrightarrow>
     sorted_wrt (\<lambda>p q. \<not> behind p q) (fst (elect_leaders sib cs peers deferred))"
  by (induction cs arbitrary: peers deferred) (auto simp: sorted_wrt_append)

subsection \<open>What folding decides\<close>

lemma filing_order_mset [simp]: "mset (filing_order cs) = mset cs"
  by (simp add: filing_order_def)

lemma filing_order_set [simp]: "set (filing_order cs) = set cs"
  by (simp add: filing_order_def)

lemma sorted_wrt_pair: "sorted_wrt P xs \<Longrightarrow> x \<in> set xs \<Longrightarrow> y \<in> set xs \<Longrightarrow> x \<noteq> y \<Longrightarrow> P x y \<or> P y x"
  by (induction xs) auto

text \<open>The first loop's outcome \<open>f\<close> and the representatives \<open>peers\<close> behind the four results.\<close>

definition fold_outcome ::
  "gate_run \<Rightarrow> bool \<Rightarrow> string list \<Rightarrow> results \<Rightarrow> string list \<Rightarrow> string list \<Rightarrow> fold_run \<Rightarrow> candidate list \<Rightarrow> bool" where
  "fold_outcome r sib ds rs todo deferred f peers \<longleftrightarrow>
     fold_inv r rs ds f \<and> set todo = set (fo_adjudicate f) \<union> cd_name ` set peers
     \<and> mset (todo @ deferred @ map fst (fo_folded f)) = mset ds \<and> set peers \<subseteq> set (fo_candidates f)
     \<and> (\<forall>d \<in> set deferred. sib \<and> (\<exists>c \<in> set (fo_candidates f). cd_name c = d \<and> (\<exists>p \<in> set peers. behind p c)))
     \<and> (sib \<longrightarrow> sorted_wrt (\<lambda>p q. \<not> behind p q) peers)"

lemma fold_parts:
  assumes "lanes_ok rs" "distinct ds" "\<forall>d \<in> set ds. py_startswith ''CRASH-'' d"
    and "fold_duplicate_crash_states r sib ds rs = (todo, deferred, n, rs')"
  shows "\<exists>f peers. fold_outcome r sib ds rs todo deferred f peers \<and> rs' = fo_results f \<and> n = length (fo_folded f)"
proof -
  define f where "f = fold (fold_step (gr_now r) (filed_crash_states r None rs)) ds (fold_start rs)"
  define e where "e = elect_leaders sib (filing_order (fo_candidates f)) [] []"
  let ?waiting = "filter (\<lambda>d. d \<in> cd_name ` set (fo_candidates f) \<and> d \<notin> set (snd e)) ds"
  have out: "todo = fo_adjudicate f @ ?waiting" "deferred = snd e" "n = length (fo_folded f)" "rs' = fo_results f"
    using assms(4) by (auto simp: fold_duplicate_crash_states_def Let_def fold_start_def [symmetric]
        f_def [symmetric] e_def [symmetric])
  have inv: "fold_inv r rs ds f"
    using fold_run_inv [OF fold_start_inv assms(1), of ds r] assms(2,3) by (simp add: f_def)
  then have parts: "mset (fo_adjudicate f @ map cd_name (fo_candidates f) @ map fst (fo_folded f)) = mset ds"
    unfolding fold_inv_def by blast
  have elected: "mset (map cd_name (fst e) @ snd e) = mset (map cd_name (fo_candidates f))"
    using elected_partition [of sib "filing_order (fo_candidates f)" "[]" "[]"] by (simp add: e_def)
  have distinct: "distinct (fo_adjudicate f @ (map cd_name (fst e) @ snd e) @ map fst (fo_folded f))"
    using parts elected assms(2) by (metis (no_types, opaque_lifting) mset_append mset_eq_imp_distinct_iff)
  have names: "set (map cd_name (fst e)) \<union> set (snd e) = cd_name ` set (fo_candidates f)"
    using mset_eq_setD [OF elected] by simp
  have within: "cd_name ` set (fo_candidates f) \<subseteq> set ds" using mset_eq_setD [OF parts] by auto
  have waiting: "set ?waiting = set (map cd_name (fst e))" using names within distinct by auto
  then have "mset ?waiting = mset (map cd_name (fst e))"
    using distinct assms(2) set_eq_iff_mset_eq_distinct [of ?waiting "map cd_name (fst e)"] by simp
  then have "mset (todo @ deferred @ map fst (fo_folded f)) = mset ds"
    using parts elected by (simp add: out(1,2) ac_simps) (metis add.assoc add.commute)
  moreover have "set todo = set (fo_adjudicate f) \<union> cd_name ` set (fst e)" using waiting by (simp add: out(1))
  moreover have "set (fst e) \<subseteq> set (fo_candidates f)"
    using elected_from [of sib "filing_order (fo_candidates f)" "[]" "[]"] by (simp add: e_def)
  moreover have "\<forall>d \<in> set deferred. sib \<and> (\<exists>c \<in> set (fo_candidates f). cd_name c = d \<and> (\<exists>p \<in> set (fst e). behind p c))"
  proof
    fix d assume "d \<in> set deferred"
    then have "d \<in> set (snd (elect_leaders sib (filing_order (fo_candidates f)) [] []))" "d \<notin> set []"
      by (simp_all add: out(2) e_def)
    from elected_deferred [OF this]
    show "sib \<and> (\<exists>c \<in> set (fo_candidates f). cd_name c = d \<and> (\<exists>p \<in> set (fst e). behind p c))"
      unfolding e_def filing_order_set .
  qed
  moreover have "sib \<longrightarrow> sorted_wrt (\<lambda>p q. \<not> behind p q) (fst e)" by (simp add: e_def elected_differ)
  ultimately show ?thesis using inv out(3,4) unfolding fold_outcome_def by blast
qed

lemma candidate_in:
  assumes "fold_inv r rs seen f" "c \<in> set (fo_candidates f)"
  shows "\<exists>a. map_of (rs_lanes rs Crashes) (cd_name c) = Some a \<and> bf_state (ar_files a) = Some (cd_state c)
    \<and> cd_route c = bundle_crash_route (ar_files a)" "\<not> credited r rs (cd_name c)" "unowned r rs (cd_name c)"
  using assms unfolding fold_inv_def by blast+

lemma behind_same_crash:
  assumes "fold_inv r rs seen f" "c \<in> set (fo_candidates f)" "p \<in> set (fo_candidates f)"
  shows "behind p c \<longleftrightarrow> same_crash rs (cd_name c) (cd_name p)"
proof -
  obtain a where a: "map_of (rs_lanes rs Crashes) (cd_name c) = Some a" "bf_state (ar_files a) = Some (cd_state c)"
    "cd_route c = bundle_crash_route (ar_files a)"
    using candidate_in(1) [OF assms(1,2)] by blast
  obtain b where b: "map_of (rs_lanes rs Crashes) (cd_name p) = Some b" "bf_state (ar_files b) = Some (cd_state p)"
    "cd_route p = bundle_crash_route (ar_files b)"
    using candidate_in(1) [OF assms(1,3)] by blast
  show ?thesis unfolding same_crash_def behind_def a b by (simp add: a(2) b(2)) (metis a(3) b(3))
qed

text \<open>
  C16 (folding_moves_only_owned). Folding partitions the bundles it is given into those to adjudicate, those deferred
  and those folded, and touches no other bundle. A folded bundle is never itself a credited one: it has left the
  crash lane for a bundle that is still there, untouched, whose current receipt is a security one, and whose crash
  state and known route are its own. A deferred bundle, uncredited too, waits for an adjudicated one with the same
  state and route. \<close>

theorem folding_moves_only_owned:
  assumes "lanes_ok rs" "distinct ds" "\<forall>d \<in> set ds. py_startswith ''CRASH-'' d"
    and "fold_duplicate_crash_states r sib ds rs = (todo, deferred, n, rs')"
  shows "\<exists>folded. n = length folded \<and> mset (todo @ deferred @ folded) = mset ds
    \<and> (\<forall>d. d \<notin> set folded \<longrightarrow> map_of (rs_lanes rs' Crashes) d = map_of (rs_lanes rs Crashes) d)
    \<and> (\<forall>d \<in> set folded. \<not> credited r rs d \<and> map_of (rs_lanes rs' Crashes) d = None
        \<and> (\<exists>owner. credited r rs' owner \<and> same_crash rs d owner \<and> owner \<notin> set folded))
    \<and> (\<forall>d \<in> set deferred. \<not> credited r rs d \<and> (\<exists>e \<in> set todo. same_crash rs d e))"
proof -
  obtain f peers where out: "fold_outcome r sib ds rs todo deferred f peers" "rs' = fo_results f" "n = length (fo_folded f)"
    using fold_parts [OF assms] by blast
  then have inv: "fold_inv r rs ds f" by (simp add: fold_outcome_def)
  note lanes = fold_invD(2) [OF inv, folded out(2)]
  note uncredited = fold_invD(3) [OF inv]
  have owned: "\<exists>owner. credited r rs' owner \<and> same_crash rs d owner \<and> owner \<notin> fst ` set (fo_folded f)"
    if d: "d \<in> fst ` set (fo_folded f)" for d
  proof -
    obtain owner where "(d, owner) \<in> set (fo_folded f)" using d by auto
    then have owner: "same_crash rs d owner" "credited r rs owner" using fold_invD(4) [OF inv] by auto
    then have "owner \<notin> fst ` set (fo_folded f)" using uncredited by blast
    then show ?thesis using owner lanes by (auto simp: credited_def)
  qed
  have parts: "mset (todo @ deferred @ map fst (fo_folded f)) = mset ds" "set peers \<subseteq> set (fo_candidates f)"
    "set todo = set (fo_adjudicate f) \<union> cd_name ` set peers"
    "\<forall>d \<in> set deferred. sib \<and> (\<exists>c \<in> set (fo_candidates f). cd_name c = d \<and> (\<exists>p \<in> set peers. behind p c))"
    using out(1) unfolding fold_outcome_def by blast+
  have wait: "\<not> credited r rs d \<and> (\<exists>e \<in> set todo. same_crash rs d e)" if d: "d \<in> set deferred" for d
  proof -
    obtain c p where c: "c \<in> set (fo_candidates f)" "cd_name c = d" "p \<in> set peers" "behind p c"
      using parts(4) d by blast
    then have "p \<in> set (fo_candidates f)" "cd_name p \<in> set todo" using parts(2,3) by auto
    then show ?thesis using behind_same_crash [OF inv c(1)] candidate_in(2) [OF inv c(1)] c by blast
  qed
  show ?thesis
  proof (intro exI [of _ "map fst (fo_folded f)"] conjI ballI allI impI)
    show "n = length (map fst (fo_folded f))" by (simp add: out(3))
    fix d
    show "map_of (rs_lanes rs' Crashes) d = map_of (rs_lanes rs Crashes) d" if "d \<notin> set (map fst (fo_folded f))"
      using lanes that by simp
    show "\<not> credited r rs d" if "d \<in> set (map fst (fo_folded f))" using uncredited that by auto
    show "map_of (rs_lanes rs' Crashes) d = None" if "d \<in> set (map fst (fo_folded f))" using lanes that by simp
    show "\<exists>owner. credited r rs' owner \<and> same_crash rs d owner \<and> owner \<notin> set (map fst (fo_folded f))"
      if "d \<in> set (map fst (fo_folded f))" using owned that by simp
  qed (use parts(1) wait in blast)+
qed

text \<open>
  C17 (one_review_per_crash). After folding, no bundle that is left uncredited shares its crash state and route with
  a credited one, and with \<open>defer_siblings\<close> no two uncredited bundles sent to review together are one crash: one
  verdict settles each state and route. \<close>

theorem one_review_per_crash:
  assumes "lanes_ok rs" "distinct ds" "\<forall>d \<in> set ds. py_startswith ''CRASH-'' d"
    and "fold_duplicate_crash_states r sib ds rs = (todo, deferred, n, rs')"
  shows "(\<forall>d \<in> set todo \<union> set deferred. credited r rs d \<or> unowned r rs d)
    \<and> (sib \<longrightarrow> (\<forall>d \<in> set todo. \<forall>e \<in> set todo. d \<noteq> e \<and> \<not> credited r rs d \<longrightarrow> \<not> same_crash rs d e))"
proof -
  obtain f peers where out: "fold_outcome r sib ds rs todo deferred f peers" using fold_parts [OF assms] by blast
  then have inv: "fold_inv r rs ds f" by (simp add: fold_outcome_def)
  have todo: "set todo = set (fo_adjudicate f) \<union> cd_name ` set peers" "set peers \<subseteq> set (fo_candidates f)"
    "\<forall>d \<in> set deferred. \<exists>c \<in> set (fo_candidates f). cd_name c = d"
    using out unfolding fold_outcome_def by blast+
  have stateless: "\<not> same_crash rs d e \<and> \<not> same_crash rs e d" if "d \<in> set (fo_adjudicate f)" "\<not> credited r rs d" for d e
  proof -
    have "\<forall>a. map_of (rs_lanes rs Crashes) d = Some a \<longrightarrow> bf_state (ar_files a) = None"
      using fold_invD(5) [OF inv] that by blast
    then show ?thesis using same_crashD [of rs d e] same_crashD [of rs e d] by auto
  qed
  have unowned: "\<forall>d \<in> set todo \<union> set deferred. credited r rs d \<or> unowned r rs d"
  proof
    fix d assume "d \<in> set todo \<union> set deferred"
    then consider (adjudicate) "d \<in> set (fo_adjudicate f)" | (candidate) c where "c \<in> set (fo_candidates f)" "cd_name c = d"
      using todo by blast
    then show "credited r rs d \<or> unowned r rs d"
    proof cases
      case adjudicate
      then show ?thesis using stateless unfolding unowned_def by metis
    qed (use candidate_in(3) [OF inv] in metis)
  qed
  moreover have "\<not> same_crash rs d e"
    if sib: sib and d: "d \<in> set todo" and e: "e \<in> set todo" and "d \<noteq> e" and fresh: "\<not> credited r rs d" for d e
  proof
    assume same: "same_crash rs d e"
    have "mset (todo @ deferred @ map fst (fo_folded f)) = mset ds" using out unfolding fold_outcome_def by blast
    from mset_eq_setD [OF this] have "py_startswith ''CRASH-'' e" using e assms(3) by auto
    then have uncredited: "\<not> credited r rs e" using unowned d fresh same by (auto simp: unowned_def)
    obtain p q where peers: "p \<in> set peers" "q \<in> set peers" "d = cd_name p" "e = cd_name q"
      using todo(1) d e stateless [of d e] stateless [of e d] same fresh uncredited by blast
    have "sorted_wrt (\<lambda>p q. \<not> behind p q) peers" using out sib unfolding fold_outcome_def by blast
    then have "\<not> behind p q \<or> \<not> behind q p" using sorted_wrt_pair peers \<open>d \<noteq> e\<close> by metis
    moreover have "behind q p" using behind_same_crash [OF inv] peers todo(2) same by blast
    ultimately show False unfolding behind_def by metis
  qed
  ultimately show ?thesis by blast
qed

subsection \<open>Witnesses\<close>

text \<open>Two states and one route: \<open>CRASH-1\<close> is credited, \<open>CRASH-2\<close> repeats it, and of \<open>CRASH-3\<close> and \<open>CRASH-4\<close>,
  one crash too, the second was filed first.\<close>

definition demo_context :: probe_context where
  "demo_context = \<lparr>pc_mode = Some ''cli'', pc_sanitizer = Some ''asan'', pc_harness = No_Harness, pc_args = Some [],
     pc_build_config = Some ''c'', pc_build_recipe = Some ''b'', pc_binary_in_target = True\<rparr>"

definition demo_bundle :: "string \<Rightarrow> string \<Rightarrow> int \<Rightarrow> bool \<Rightarrow> string \<times> artifact" where
  "demo_bundle name frame filed promoted =
     (name, (demo_artifact name (demo_gate (\<lambda>_. None)))
        \<lparr>ar_files := demo_files\<lparr>bf_context := Some demo_context, bf_state := Some (''asan'', ''uaf'', [frame], []),
            bf_filed := Some filed\<rparr>,
          ar_receipt := (if promoted then Some \<lparr>vr_kind = ''crash'', vr_state = ''reportable'', vr_detail = [],
            vr_controls = None, vr_facts = no_facts\<rparr> else None)\<rparr>)"

definition demo_filed :: results where
  "demo_filed = \<lparr>rs_lanes = (\<lambda>l. if l = Crashes then
     [demo_bundle ''CRASH-1'' ''f'' 1 True, demo_bundle ''CRASH-2'' ''f'' 2 False,
      demo_bundle ''CRASH-3'' ''g'' 9 False, demo_bundle ''CRASH-4'' ''g'' 4 False] else []),
     rs_store = store0, rs_routes = []\<rparr>"

abbreviation demo_fold_run :: gate_run where
  "demo_fold_run \<equiv> (demo_pass (demo_reviewer (\<lambda>_. None)))\<lparr>gr_current := (\<lambda>_. True)\<rparr>"

abbreviation demo_names :: "string list" where
  "demo_names \<equiv> [''CRASH-1'', ''CRASH-2'', ''CRASH-3'', ''CRASH-4'']"

lemma demo_folding:
  "case fold_duplicate_crash_states demo_fold_run True demo_names demo_filed of (todo, deferred, n, _) \<Rightarrow>
     todo = [''CRASH-1'', ''CRASH-4''] \<and> deferred = [''CRASH-3''] \<and> n = 1"
  by code_simp

lemma demo_filed_ok: "lanes_ok demo_filed"
  by (simp add: lanes_ok_def demo_filed_def demo_bundle_def demo_artifact_def)

lemma demo_folds:
  obtains rs' where "fold_duplicate_crash_states demo_fold_run True demo_names demo_filed
    = ([''CRASH-1'', ''CRASH-4''], [''CRASH-3''], 1, rs')"
  using demo_folding by (cases "fold_duplicate_crash_states demo_fold_run True demo_names demo_filed") auto

lemma demo_names_ok: "distinct demo_names" "\<forall>d \<in> set demo_names. py_startswith ''CRASH-'' d"
  by (simp_all add: py_startswith_def)

theorem folding_moves_only_owned_witness:
  "\<exists>folded rs'. fold_duplicate_crash_states demo_fold_run True demo_names demo_filed
      = ([''CRASH-1'', ''CRASH-4''], [''CRASH-3''], 1, rs')
    \<and> folded = [''CRASH-2''] \<and> map_of (rs_lanes rs' Crashes) ''CRASH-2'' = None"
proof -
  obtain rs' where rs': "fold_duplicate_crash_states demo_fold_run True demo_names demo_filed
      = ([''CRASH-1'', ''CRASH-4''], [''CRASH-3''], 1, rs')"
    by (rule demo_folds)
  from folding_moves_only_owned [OF demo_filed_ok demo_names_ok this] obtain folded where
    folded: "length folded = 1" "mset ([''CRASH-1'', ''CRASH-4''] @ [''CRASH-3''] @ folded) = mset demo_names"
    "\<forall>d \<in> set folded. map_of (rs_lanes rs' Crashes) d = None"
    by auto
  obtain d where d: "folded = [d]" using folded(1) by (cases folded) auto
  then have "d = ''CRASH-2''" using folded(2) by (auto simp: add_mset_commute)
  then show ?thesis using rs' folded(3) d by auto
qed

theorem one_review_per_crash_witness:
  "\<exists>rs'. fold_duplicate_crash_states demo_fold_run True demo_names demo_filed
      = ([''CRASH-1'', ''CRASH-4''], [''CRASH-3''], 1, rs')
    \<and> (\<forall>d \<in> {''CRASH-1'', ''CRASH-4'', ''CRASH-3''}. credited demo_fold_run demo_filed d \<or> unowned demo_fold_run demo_filed d)"
proof -
  obtain rs' where rs': "fold_duplicate_crash_states demo_fold_run True demo_names demo_filed
      = ([''CRASH-1'', ''CRASH-4''], [''CRASH-3''], 1, rs')"
    by (rule demo_folds)
  from one_review_per_crash [OF demo_filed_ok demo_names_ok this] rs' show ?thesis by auto
qed

end
