(* ===== verification/Routing.thy ===== *)
theory Routing
  imports Folding
begin

text \<open>
  Findings that are crashes (\<open>route_finding_diagnostics\<close> of \<open>lib/triage.py\<close>): a finding with a dedicated
  sanitizer report and a runnable testcase moves into crash triage, unless it is the copy of a filed crash or came
  out of crash triage before. The pass that reconsiders historical demotions and the sidecar
  \<open>.crash-lead.json\<close>, which nothing reads, are left out.
\<close>

subsection \<open>The route into crash triage\<close>

text \<open>\<open>rt_dedicated a\<close>: a file \<open>sanitizer.txt\<close> lies in the bundle or under its \<open>.audit\<close>. \<open>rt_state\<close> is \<open>crash_state\<close> of
  \<open>lib/crash_bundle.py\<close>, the state read off the stack frames of a report.\<close>

record route_env =
  rt_pass :: gate_run
  rt_dedicated :: "artifact \<Rightarrow> bool"
  rt_state :: "string \<Rightarrow> crash_state option"

definition CRASH_DEMOTION_MARKER_re :: rx where
  "CRASH_DEMOTION_MARKER_re = rstr ''Demoted from `crashes/`''"

text \<open>The filed crash whose saved sanitizer report is the same, byte for byte.\<close>

definition filed_crash_with_same_evidence :: "route_env \<Rightarrow> results \<Rightarrow> string \<Rightarrow> string option" where
  "filed_crash_with_same_evidence e rs wanted =
     (case rt_state e wanted of None \<Rightarrow> None
      | Some state \<Rightarrow>
          if wanted = [] then None
          else map_option fs_id (find (\<lambda>filed. case map_of (rs_lanes rs Crashes) (fs_id filed) of None \<Rightarrow> False
                 | Some bundle \<Rightarrow> sanitizer_file bundle = Some wanted)
               (filed_crash_states (rt_pass e) (Some state) rs)))"

definition routed_name :: "string \<Rightarrow> string" where
  "routed_name name =
     (if py_startswith ''FIND-'' name then ''CRASH-'' @ py_removeprefix ''FIND-'' name else ''CRASH-'' @ name)"

definition routed_report :: "string \<Rightarrow> string" where
  "routed_report report =
     report @ [newline] @ ''## Triage disposition'' @ [newline, newline]
       @ ''Routed from `findings/` to `crashes/`: a dedicated sanitizer artifact and saved reproducer ''
       @ ''establish a crash candidate.'' @ [newline]"

definition same_evidence_reason :: "string \<Rightarrow> string" where
  "same_evidence_reason owner = ''identical sanitizer report already filed as '' @ owner"

definition route_one :: "route_env \<Rightarrow> string \<Rightarrow> results \<Rightarrow> bool \<times> results" where
  "route_one e name rs =
     (case map_of (rs_lanes rs Findings) name of None \<Rightarrow> (False, rs)
      | Some a \<Rightarrow>
          (case (fd_report (ar_dir a), sanitizer_file a) of
             (Some report, Some diag) \<Rightarrow>
               if re_found CRASH_DEMOTION_MARKER_re True report then (False, rs)
               else if \<not> (has_valid_diagnostic diag False \<and> has_memory_safety_signal diag
                     \<and> autodiscard_reason diag = []) then (False, rs)
               else if \<not> bf_testcase (ar_files a) then (False, rs)
               else
                 (case filed_crash_with_same_evidence e rs diag of
                    Some duplicate \<Rightarrow> (False, fold_duplicate (gr_now (rt_pass e)) Findings name duplicate
                      (same_evidence_reason duplicate) rs)
                  | None \<Rightarrow>
                      (case unique_destination (lane_names rs Crashes) (routed_name name) (gr_now (rt_pass e)) of
                         None \<Rightarrow> (False, rs)
                       | Some destination \<Rightarrow>
                           (True, move_artifact Findings name Crashes destination
                              (set_report (routed_report report) a) rs)))
           | _ \<Rightarrow> (False, rs)))"

definition route_candidates :: "route_env \<Rightarrow> results \<Rightarrow> string list" where
  "route_candidates e rs =
     sort (map fst (filter (\<lambda>(name, a). py_startswith ''FIND-'' name \<and> rt_dedicated e a) (rs_lanes rs Findings)))"

definition route_finding_diagnostics :: "route_env \<Rightarrow> results \<Rightarrow> nat \<times> results" where
  "route_finding_diagnostics e rs = pass_over (route_one e) (route_candidates e rs) 0 rs"

subsection \<open>Routing loses nothing\<close>

lemma route_one_steady: "steady rs (snd (route_one e name rs))"
proof (cases "map_of (rs_lanes rs Findings) name")
  case (Some a)
  obtain d where d: "unique_destination (lane_names rs Crashes) (routed_name name) (gr_now (rt_pass e)) = Some d"
    "d \<notin> set (lane_names rs Crashes)"
    by (rule unique_destination_total)
  have "steady rs (move_artifact Findings name Crashes d (set_report body a) rs)" for body
    using move_ok [of rs d Crashes] d(2) move_count [OF _ Some] routes_move [of rs Findings]
    by (auto simp: steady_def filed_ok_def)
  then show ?thesis
    by (auto simp: route_one_def Some d(1) fold_duplicate_steady split: option.split)
qed (simp add: route_one_def)

interpretation routing: lane_pass "route_one e" for e
  by unfold_locales (rule route_one_steady)

lemma routing_steady: "steady rs (snd (route_finding_diagnostics e rs))"
  unfolding route_finding_diagnostics_def by (rule routing.pass_steady)

subsection \<open>What came out of crash triage stays a finding\<close>

text \<open>A finding that has no report or says that it was demoted.\<close>

definition settled_finding :: "artifact \<Rightarrow> bool" where
  "settled_finding a \<longleftrightarrow> (case fd_report (ar_dir a) of None \<Rightarrow> True
     | Some report \<Rightarrow> re_found CRASH_DEMOTION_MARKER_re True report)"

lemma re_found_literal: "re_found (rstr w) ic (u @ w @ v)"
  unfolding re_found_at by (rule exI [of _ u], rule exI [of _ "w @ v"]) (simp add: rxm_rstr)

lemma route_one_settled:
  assumes "map_of (rs_lanes rs Findings) n = Some a" "settled_finding a"
  shows "map_of (rs_lanes (snd (route_one e name rs)) Findings) n = Some a"
proof (cases "n = name")
  case True
  then show ?thesis using assms by (auto simp: route_one_def settled_finding_def split: option.split)
next
  case False
  then show ?thesis using assms(1)
    by (auto simp: route_one_def fold_duplicate_lanes move_elsewhere split: option.split)
qed

lemma routing_settled:
  assumes "map_of (rs_lanes rs Findings) n = Some a" "settled_finding a"
  shows "map_of (rs_lanes (snd (route_finding_diagnostics e rs)) Findings) n = Some a"
proof -
  have "map_of (rs_lanes (snd (pass_over (route_one e) names k rs)) Findings) n = Some a" for names k
    using assms(1)
  proof (induction names arbitrary: k rs)
    case (Cons name names)
    have "map_of (rs_lanes (snd (route_one e name rs)) Findings) n = Some a"
      by (rule route_one_settled [OF Cons.prems assms(2)])
    from Cons.IH [OF this] show ?case by (cases "route_one e name rs") simp
  qed simp
  then show ?thesis by (simp add: route_finding_diagnostics_def)
qed

lemma demotion_arrives:
  assumes "map_of (rs_lanes rs Crashes) name = Some a"
  shows "\<exists>d b. map_of (rs_lanes (demote_to_finding now name reason rs) Findings) d = Some b \<and> settled_finding b"
proof -
  obtain d where d: "unique_destination (lane_names rs Findings) (demoted_name name) now = Some d"
    "d \<notin> set (lane_names rs Findings)"
    by (rule unique_destination_total)
  have mark: "re_found CRASH_DEMOTION_MARKER_re True (u @ ''Demoted from `crashes/`'' @ v)" for u v
    unfolding CRASH_DEMOTION_MARKER_re_def by (rule re_found_literal)
  show ?thesis
  proof (cases "fd_report (ar_dir a)")
    case None
    then show ?thesis
      by (intro exI [of _ d]) (simp add: demote_to_finding_def assms d(1) Let_def move_arrives [OF d(2)]
          settled_finding_def clear_promotion_sidecars_def)
  next
    case (Some body)
    have "re_found CRASH_DEMOTION_MARKER_re True (body @ [newline] @ ''## Triage disposition'' @ [newline, newline]
        @ ''Demoted from `crashes/`: '' @ reason @ ''.'' @ [newline])"
      using mark [of "body @ [newline] @ ''## Triage disposition'' @ [newline, newline]" "'': '' @ reason @ ''.'' @ [newline]"]
      by simp
    then show ?thesis
      by (intro exI [of _ d]) (simp add: demote_to_finding_def assms d(1) Let_def move_arrives [OF d(2)] Some
          settled_finding_def clear_promotion_sidecars_def set_report_def)
  qed
qed



lemma sanitizer_file_dir: "sanitizer_file (a\<lparr>ar_dir := x\<rparr>) = sanitizer_file a"
  by (cases "bf_exact (ar_files a)") (simp_all add: sanitizer_file_def)

text \<open>What is routed has a diagnostic crash triage neither discards nor demotes.\<close>

lemma routed_is_crash:
  assumes "route_one e name rs = (True, rs')"
  shows "\<exists>a diag d b. map_of (rs_lanes rs Findings) name = Some a \<and> sanitizer_file a = Some diag
    \<and> map_of (rs_lanes rs' Crashes) d = Some b \<and> sanitizer_text b = diag
    \<and> has_valid_diagnostic diag False \<and> has_memory_safety_signal diag \<and> autodiscard_reason diag = []
    \<and> bf_testcase (ar_files b)"
proof -
  obtain a report diag where a: "map_of (rs_lanes rs Findings) name = Some a" "fd_report (ar_dir a) = Some report"
    "sanitizer_file a = Some diag"
    using assms by (auto simp: route_one_def split: option.splits)
  obtain d where d: "unique_destination (lane_names rs Crashes) (routed_name name) (gr_now (rt_pass e)) = Some d"
    "d \<notin> set (lane_names rs Crashes)"
    by (rule unique_destination_total)
  have rs': "rs' = move_artifact Findings name Crashes d (set_report (routed_report report) a) rs"
    and gates: "has_valid_diagnostic diag False" "has_memory_safety_signal diag" "autodiscard_reason diag = []"
      "bf_testcase (ar_files a)"
    using assms by (auto simp: route_one_def a d(1) split: if_splits option.splits)
  have "map_of (rs_lanes rs' Crashes) d = Some ((set_report (routed_report report) a)
      \<lparr>ar_dir := (ar_dir (set_report (routed_report report) a))\<lparr>fd_name := d\<rparr>\<rparr>)"
    unfolding rs' by (rule move_arrives [OF d(2)])
  moreover have "sanitizer_text (a\<lparr>ar_dir := x\<rparr>) = diag" for x
    using a(3) by (simp add: sanitizer_text_def sanitizer_file_dir)
  ultimately show ?thesis using a gates
    by - (rule exI [of _ a], rule exI [of _ diag], rule exI [of _ d], simp add: set_report_def)
qed

end
