(* ===== verification/TriggerBatch.thy ===== *)
theory TriggerBatch
  imports Routing
begin

text \<open>
  One round of batched source reviews (\<open>_batch_finding_trigger_votes\<close> of \<open>lib/triage.py\<close>): which artifacts owe a
  vote, sessions of four, and the one retry of the ids a session left without a vote. What a session writes,
  its exit status and whether its wall allows it to start are parameters.
\<close>

subsection \<open>Sessions\<close>

text \<open>\<open>be_limit_open\<close>: the provider's limit is open when the round starts. \<open>be_blocked\<close>: no time is left, or the limit
  is open, when the session of that tag would start. \<open>be_run\<close>: the exit status of a session over the items it is
  given (name, bundle, prior reviews) and the vote file it left for each id.\<close>

type_synonym batch_item = "string \<times> artifact \<times> slot list"

record batch_env =
  be_gate :: gate_env
  be_reviewer :: reviewer
  be_limit_open :: bool
  be_blocked :: "slot \<Rightarrow> string \<Rightarrow> bool"
  be_run :: "slot \<Rightarrow> bool \<Rightarrow> string \<Rightarrow> batch_item list \<Rightarrow> int \<times> (string \<Rightarrow> vote_file option)"

definition TRIGGER_BATCH_SIZE :: nat where "TRIGGER_BATCH_SIZE = 4"

definition has_vote :: "gate_env \<Rightarrow> slot \<Rightarrow> artifact \<Rightarrow> bool" where
  "has_vote env s a \<longleftrightarrow> cached_trigger_vote env (ar_gate a) s \<noteq> None"

definition with_vote :: "slot \<Rightarrow> vote_file option \<Rightarrow> artifact \<Rightarrow> artifact" where
  "with_vote s p a = a\<lparr>ar_gate := (ar_gate a)\<lparr>gd_votes := (gd_votes (ar_gate a))(s := p)\<rparr>\<rparr>"

definition unlink_vote :: "slot \<Rightarrow> artifact \<Rightarrow> artifact" where
  "unlink_vote s = with_vote s None"

text \<open>The artifacts that owe a vote, in order; a vote file that answers nothing is removed.\<close>

fun pending_votes :: "gate_env \<Rightarrow> slot \<Rightarrow> lane \<Rightarrow> string list \<Rightarrow> results \<Rightarrow> string list \<times> results" where
  "pending_votes env s l [] rs = ([], rs)"
| "pending_votes env s l (name # rest) rs =
     (case map_of (rs_lanes rs l) name of None \<Rightarrow> pending_votes env s l rest rs
      | Some a \<Rightarrow>
          if fd_report (ar_dir a) = None \<or> has_vote env s a then pending_votes env s l rest rs
          else (case pending_votes env s l rest (set_artifact l name (unlink_vote s a) rs) of
                  (names, rs') \<Rightarrow> (name # names, rs')))"

function batches_of :: "'a list \<Rightarrow> 'a list list" where
  "batches_of xs = (if xs = [] then [] else take TRIGGER_BATCH_SIZE xs # batches_of (drop TRIGGER_BATCH_SIZE xs))"
  by auto
termination
  by (relation "measure length") (auto simp: TRIGGER_BATCH_SIZE_def)

declare batches_of.simps [simp del]

definition batch_items :: "gate_env \<Rightarrow> slot \<Rightarrow> lane \<Rightarrow> string list \<Rightarrow> results \<Rightarrow> batch_item list" where
  "batch_items env s l names rs =
     List.map_filter (\<lambda>name. map_option (\<lambda>a. (name, a,
         if s = Resolution then trigger_resolution_sources env (ar_gate a) else []))
       (map_of (rs_lanes rs l) name)) names"

definition file_vote :: "slot \<Rightarrow> lane \<Rightarrow> (string \<Rightarrow> vote_file option) \<Rightarrow> string \<Rightarrow> results \<Rightarrow> results" where
  "file_vote s l written name rs =
     (case map_of (rs_lanes rs l) name of None \<Rightarrow> rs
      | Some a \<Rightarrow> set_artifact l name (a\<lparr>ar_gate := put_vote s (written name) (ar_gate a)\<rparr>) rs)"

text \<open>A session: its tag, its ids, its exit status (\<open>None\<close>: it was not started).\<close>

type_synonym session = "string \<times> string list \<times> int option"

definition run_batch ::
  "batch_env \<Rightarrow> slot \<Rightarrow> bool \<Rightarrow> lane \<Rightarrow> string \<times> string list \<Rightarrow> results \<Rightarrow> session \<times> results" where
  "run_batch be s lens l = (\<lambda>(tag, names) rs.
     (if be_blocked be s tag then ((tag, names, None), rs)
      else (case be_run be s lens tag (batch_items (be_gate be) s l names rs) of
              (rc, written) \<Rightarrow> ((tag, names, Some rc), fold (file_vote s l written) names rs))))"

fun run_wave ::
  "batch_env \<Rightarrow> slot \<Rightarrow> bool \<Rightarrow> lane \<Rightarrow> (string \<times> string list) list \<Rightarrow> results \<Rightarrow> session list \<times> results" where
  "run_wave be s lens l [] rs = ([], rs)"
| "run_wave be s lens l (job # jobs) rs =
     (case run_batch be s lens l job rs of (session, rs1) \<Rightarrow>
        (case run_wave be s lens l jobs rs1 of (sessions, rs2) \<Rightarrow> (session # sessions, rs2)))"

text \<open>Ids still unvoted after a session that answered (0, 3) are asked again together, those of a session that used
  up its wall (124) one by one; nothing else is retried.\<close>

definition unvoted :: "gate_env \<Rightarrow> slot \<Rightarrow> lane \<Rightarrow> results \<Rightarrow> string \<Rightarrow> bool" where
  "unvoted env s l rs name \<longleftrightarrow> (case map_of (rs_lanes rs l) name of None \<Rightarrow> True | Some a \<Rightarrow> \<not> has_vote env s a)"

definition retries_of :: "gate_env \<Rightarrow> slot \<Rightarrow> lane \<Rightarrow> results \<Rightarrow> session \<Rightarrow> (string \<times> string list) list" where
  "retries_of env s l rs = (\<lambda>(tag, names, rc).
     (if rc \<notin> {Some 0, Some 3, Some 124} then []
      else
        (let missing = filter (unvoted env s l rs) names
         in if rc = Some 124 then
              map (\<lambda>(offset, name). (tag @ ''-retry-'' @ nat_str offset, [name])) (List.enumerate 0 missing)
            else if missing \<noteq> [] then [(tag @ ''-retry'', missing)] else [])))"

definition first_wave :: "string list \<Rightarrow> (string \<times> string list) list" where
  "first_wave pending = map (\<lambda>(i, batch). (nat_str i, batch)) (List.enumerate 0 (batches_of pending))"

text \<open>All sessions of a round over the artifacts that owe a vote: the first wave, and then the retries.\<close>

definition batch_sessions ::
  "batch_env \<Rightarrow> slot \<Rightarrow> bool \<Rightarrow> lane \<Rightarrow> string list \<Rightarrow> results \<Rightarrow> session list \<times> session list \<times> results" where
  "batch_sessions be s lens l pending rs =
     (let (first, rs1) = run_wave be s lens l (first_wave pending) rs;
          (second, rs2) = run_wave be s lens l (concat (map (retries_of (be_gate be) s l rs1) first)) rs1
      in (first, second, rs2))"

text \<open>The artifacts attempted, and the tree afterwards.\<close>

definition batch_finding_trigger_votes ::
  "batch_env \<Rightarrow> slot \<Rightarrow> bool \<Rightarrow> lane \<Rightarrow> string list \<Rightarrow> results \<Rightarrow> string list \<times> results" where
  "batch_finding_trigger_votes be s lens l directories rs =
     (let rv = be_reviewer be
      in if rv_backend rv = [] \<or> \<not> rv_target_root rv \<or> rv_disabled rv then ([], rs)
         else if be_limit_open be then (directories, rs)
         else
           (let (pending, rs1) = pending_votes (be_gate be) s l directories rs
            in (pending, snd (snd (batch_sessions be s lens l pending rs1)))))"

subsection \<open>A round files votes and nothing else\<close>

lemma with_vote_simps [simp]:
  "with_vote s (gd_votes (ar_gate a) s) a = a" "with_vote s p (with_vote s q a) = with_vote s p a"
  "gd_votes (ar_gate (with_vote s p a)) s = p" "ar_dir (with_vote s p a) = ar_dir a"
  by (simp_all add: with_vote_def)

text \<open>\<open>rs'\<close> is \<open>rs\<close> but for the votes in slot \<open>s\<close> of the artifacts \<open>names\<close> of lane \<open>l\<close>.\<close>

definition votes_filed :: "slot \<Rightarrow> lane \<Rightarrow> string set \<Rightarrow> results \<Rightarrow> results \<Rightarrow> bool" where
  "votes_filed s l names rs rs' \<longleftrightarrow>
     rs_store rs' = rs_store rs \<and> rs_routes rs' = rs_routes rs \<and> (\<forall>m. m \<noteq> l \<longrightarrow> rs_lanes rs' m = rs_lanes rs m)
     \<and> lane_names rs' l = lane_names rs l
     \<and> (\<forall>n a. map_of (rs_lanes rs l) n = Some a \<longrightarrow>
          (\<exists>p. map_of (rs_lanes rs' l) n = Some (with_vote s p a) \<and> (n \<notin> names \<longrightarrow> p = gd_votes (ar_gate a) s)))"

lemma votes_filed_refl: "votes_filed s l names rs rs"
  unfolding votes_filed_def
proof (intro conjI allI impI)
  fix n a assume a: "map_of (rs_lanes rs l) n = Some a"
  show "\<exists>p. map_of (rs_lanes rs l) n = Some (with_vote s p a) \<and> (n \<notin> names \<longrightarrow> p = gd_votes (ar_gate a) s)"
    by (rule exI [of _ "gd_votes (ar_gate a) s"]) (simp add: a)
qed simp_all

lemma votes_filed_trans:
  assumes "votes_filed s l names rs rs'" "votes_filed s l names' rs' rs''"
  shows "votes_filed s l (names \<union> names') rs rs''"
  unfolding votes_filed_def
proof (intro conjI allI impI)
  fix n a assume "map_of (rs_lanes rs l) n = Some a"
  then obtain p where p: "map_of (rs_lanes rs' l) n = Some (with_vote s p a)" "n \<notin> names \<longrightarrow> p = gd_votes (ar_gate a) s"
    using assms(1) unfolding votes_filed_def by blast
  from p(1) obtain q where "map_of (rs_lanes rs'' l) n = Some (with_vote s q (with_vote s p a))" "n \<notin> names' \<longrightarrow> q = p"
    using assms(2) unfolding votes_filed_def by (metis with_vote_simps(3))
  then show "\<exists>p. map_of (rs_lanes rs'' l) n = Some (with_vote s p a)
      \<and> (n \<notin> names \<union> names' \<longrightarrow> p = gd_votes (ar_gate a) s)"
    using p(2) by (intro exI [of _ q]) auto
qed (use assms in \<open>simp_all add: votes_filed_def\<close>)

lemma votes_filed_mono: "votes_filed s l names rs rs' \<Longrightarrow> names \<subseteq> names' \<Longrightarrow> votes_filed s l names' rs rs'"
  using votes_filed_trans [OF _ votes_filed_refl, of s l names rs rs' names'] by (simp add: sup.absorb2)

lemma votes_filed_set:
  assumes "map_of (rs_lanes rs l) name = Some a"
  shows "votes_filed s l {name} rs (set_artifact l name (with_vote s p a) rs)"
  unfolding votes_filed_def
proof (intro conjI allI impI)
  fix n b assume b: "map_of (rs_lanes rs l) n = Some b"
  show "\<exists>q. map_of (rs_lanes (set_artifact l name (with_vote s p a) rs) l) n = Some (with_vote s q b)
      \<and> (n \<notin> {name} \<longrightarrow> q = gd_votes (ar_gate b) s)"
  proof (cases "n = name")
    case True
    then show ?thesis using assms b by auto
  next
    case False
    then show ?thesis using b by (intro exI [of _ "gd_votes (ar_gate b) s"]) (simp add: set_artifact_lanes update_conv')
  qed
qed (simp_all add: set_artifact_lanes map_fst_update [OF map_of_names [OF assms]])

lemma file_vote_filed: "votes_filed s l {name} rs (file_vote s l written name rs)"
proof (cases "map_of (rs_lanes rs l) name")
  case (Some a)
  have "a\<lparr>ar_gate := put_vote s (written name) (ar_gate a)\<rparr> =
      with_vote s (case written name of None \<Rightarrow> gd_votes (ar_gate a) s | Some p \<Rightarrow> Some p) a"
    by (simp add: put_vote_def with_vote_def split: option.split)
  then show ?thesis using votes_filed_set [OF Some] by (simp add: file_vote_def Some)
qed (simp add: file_vote_def votes_filed_refl)

lemma file_votes_filed: "votes_filed s l (set names) rs (fold (file_vote s l written) names rs)"
proof (induction names arbitrary: rs)
  case (Cons n names)
  from votes_filed_trans [OF file_vote_filed Cons.IH] show ?case by simp
qed (simp add: votes_filed_refl)

lemma run_wave_filed:
  "votes_filed s l (\<Union>(set ` snd ` set jobs)) rs (snd (run_wave be s lens l jobs rs))"
proof (induction jobs arbitrary: rs)
  case (Cons job jobs)
  have "votes_filed s l (set (snd job)) rs (snd (run_batch be s lens l job rs))"
    by (cases job) (auto simp: run_batch_def votes_filed_refl file_votes_filed split: prod.split)
  from votes_filed_trans [OF this Cons.IH] show ?case by (simp add: split_beta)
qed (simp add: votes_filed_refl)

lemma pending_votes_filed:
  "votes_filed s l (set (fst (pending_votes env s l names rs))) rs (snd (pending_votes env s l names rs))"
proof (induction names arbitrary: rs)
  case (Cons n names)
  show ?case
  proof (cases "map_of (rs_lanes rs l) n")
    case (Some a)
    from votes_filed_trans [OF votes_filed_set [OF Some, of s None] Cons.IH] show ?thesis
      using Cons.IH by (auto simp: Some unlink_vote_def split_beta)
  qed (use Cons.IH in simp)
qed (simp add: votes_filed_refl)

lemma pending_unvoted:
  "n \<in> set (fst (pending_votes env s l names rs)) \<Longrightarrow>
     n \<in> set names \<and> (\<exists>a. map_of (rs_lanes rs l) n = Some a \<and> \<not> has_vote env s a)"
proof (induction names arbitrary: rs)
  case (Cons m names)
  show ?case
  proof (cases "map_of (rs_lanes rs l) m")
    case (Some a)
    show ?thesis
    proof (cases "fd_report (ar_dir a) = None \<or> has_vote env s a")
      case True
      then show ?thesis using Cons Some by simp
    next
      case False
      show ?thesis
      proof (cases "n = m")
        case True
        then show ?thesis using Some False by simp
      next
        case other: False
        then show ?thesis
          using Cons.prems Cons.IH [of "set_artifact l m (unlink_vote s a) rs"] Some False
          by (auto simp: split_beta set_artifact_lanes update_conv')
      qed
    qed
  qed (use Cons in simp)
qed simp

lemma pending_distinct: "distinct names \<Longrightarrow> distinct (fst (pending_votes env s l names rs))"
proof (induction names arbitrary: rs)
  case (Cons m names)
  show ?case
  proof (cases "map_of (rs_lanes rs l) m")
    case (Some a)
    then show ?thesis using Cons pending_unvoted [of m env s l names "set_artifact l m (unlink_vote s a) rs"]
      by (auto simp: split_beta)
  qed (use Cons in simp)
qed simp

subsection \<open>What is asked of the reviewers\<close>

abbreviation session_ids :: "session \<Rightarrow> string list" where
  "session_ids x \<equiv> fst (snd x)"

lemma batches_of_concat [simp]: "concat (batches_of xs) = xs"
proof (induction xs rule: batches_of.induct)
  case (1 xs)
  then show ?case by (subst batches_of.simps) simp
qed

lemma batches_of_size: "b \<in> set (batches_of xs) \<Longrightarrow> length b \<le> TRIGGER_BATCH_SIZE"
proof (induction xs rule: batches_of.induct)
  case (1 xs)
  from 1(2) show ?case by (subst (asm) batches_of.simps) (use 1(1) in \<open>auto split: if_splits\<close>)
qed

lemma first_wave_ids [simp]: "map snd (first_wave pending) = batches_of pending"
proof -
  have "map snd (map (\<lambda>(i, b). (nat_str i, b)) (List.enumerate k bs)) = bs" for k and bs :: "string list list"
    by (induction bs arbitrary: k) simp_all
  then show ?thesis by (simp only: first_wave_def)
qed

lemma run_batch_ids: "session_ids (fst (run_batch be s lens l job rs)) = snd job"
  by (cases job) (simp add: run_batch_def split: prod.split)

lemma wave_ids: "map session_ids (fst (run_wave be s lens l jobs rs)) = map snd jobs"
  by (induction jobs arbitrary: rs) (simp_all add: split_beta run_batch_ids)

lemma retries_ids:
  "concat (map snd (retries_of env s l rs x)) =
     (if snd (snd x) \<in> {Some 0, Some 3, Some 124} then filter (unvoted env s l rs) (session_ids x) else [])"
proof -
  have single: "concat (map snd (map (\<lambda>(i, n). (f i, [n])) (List.enumerate k ns))) = ns" for f :: "nat \<Rightarrow> string" and k ns
    by (induction ns arbitrary: k) simp_all
  show ?thesis by (cases x) (auto simp: retries_of_def Let_def single simp del: map_map)
qed

lemma retries_size:
  assumes "length (session_ids x) \<le> TRIGGER_BATCH_SIZE" "job \<in> set (retries_of env s l rs x)"
  shows "length (snd job) \<le> TRIGGER_BATCH_SIZE"
proof -
  have "length (filter (unvoted env s l rs) (session_ids x)) \<le> TRIGGER_BATCH_SIZE"
    using assms(1) length_filter_le le_trans by blast
  then show ?thesis
    using assms(2) by (cases x) (auto simp: retries_of_def Let_def TRIGGER_BATCH_SIZE_def in_set_enumerate_eq split: if_splits)
qed

lemma retried_ids:
  "concat (map snd (concat (map (retries_of env s l rs) first))) =
     concat (map (\<lambda>x. if snd (snd x) \<in> {Some 0, Some 3, Some 124}
       then filter (unvoted env s l rs) (session_ids x) else []) first)"
  by (induction first) (simp_all only: list.map concat.simps map_append concat_append retries_ids)

lemma concat_filter_distinct:
  "distinct (concat (map g xs)) \<Longrightarrow> (\<And>x. \<exists>P. f x = filter P (g x)) \<Longrightarrow>
     distinct (concat (map f xs)) \<and> set (concat (map f xs)) \<subseteq> set (concat (map g xs))"
proof (induction xs)
  case (Cons x xs)
  obtain P where "f x = filter P (g x)" using Cons.prems(2) by blast
  with Cons show ?case by auto
qed simp

text \<open>What the two waves of a round leave.\<close>

lemma sessions_split:
  fixes be s lens l pending rs
  defines "one \<equiv> run_wave be s lens l (first_wave pending) rs"
  defines "jobs \<equiv> concat (map (retries_of (be_gate be) s l (snd one)) (fst one))"
  defines "two \<equiv> run_wave be s lens l jobs (snd one)"
  assumes "batch_sessions be s lens l pending rs = (first, second, rs2)"
  shows "first = fst one" "second = fst two" "rs2 = snd two"
proof -
  have "batch_sessions be s lens l pending rs = (fst one, fst two, snd two)"
    by (simp only: batch_sessions_def Let_def split_beta one_def jobs_def two_def)
  with assms(4) show "first = fst one" "second = fst two" "rs2 = snd two" by simp_all
qed

lemma sessions_ids:
  assumes "batch_sessions be s lens l pending rs = (first, second, rs2)"
  shows "map session_ids first = batches_of pending" "set (concat (map session_ids second)) \<subseteq> set pending"
    and "distinct pending \<Longrightarrow> distinct (concat (map session_ids second))"
    and "\<forall>n \<in> set (concat (map session_ids second)).
      unvoted (be_gate be) s l (snd (run_wave be s lens l (first_wave pending) rs)) n"
    and "\<And>x. x \<in> set second \<Longrightarrow> length (session_ids x) \<le> TRIGGER_BATCH_SIZE"
proof -
  define rs' where "rs' = snd (run_wave be s lens l (first_wave pending) rs)"
  define jobs where "jobs = concat (map (retries_of (be_gate be) s l rs') first)"
  have w: "first = fst (run_wave be s lens l (first_wave pending) rs)" "second = fst (run_wave be s lens l jobs rs')"
    using sessions_split [OF assms] by (simp_all only: rs'_def jobs_def)
  let ?left = "\<lambda>x::session. if snd (snd x) \<in> {Some 0, Some 3, Some 124}
     then filter (unvoted (be_gate be) s l rs') (session_ids x) else []"
  show ids: "map session_ids first = batches_of pending" by (simp only: w(1) wave_ids first_wave_ids)
  have again: "concat (map session_ids second) = concat (map ?left first)"
    by (simp only: w(2) wave_ids jobs_def retried_ids)
  show "set (concat (map session_ids second)) \<subseteq> set pending"
  proof -
    have "set (concat (map ?left first)) \<subseteq> set (concat (map session_ids first))" by auto
    then show ?thesis by (simp only: again ids batches_of_concat)
  qed
  show "\<forall>n \<in> set (concat (map session_ids second)).
      unvoted (be_gate be) s l (snd (run_wave be s lens l (first_wave pending) rs)) n"
    unfolding again rs'_def [symmetric] by auto
  show "distinct (concat (map session_ids second))" if "distinct pending"
  proof -
    have "\<exists>P. ?left x = filter P (session_ids x)" for x
      by (cases "snd (snd x) \<in> {Some 0, Some 3, Some 124}") (auto intro: exI [of _ "\<lambda>_. False"])
    moreover have "distinct (concat (map session_ids first))" using that by (simp only: ids batches_of_concat)
    ultimately show ?thesis unfolding again using concat_filter_distinct [of session_ids first ?left] by blast
  qed
  fix x assume "x \<in> set second"
  then have "session_ids x \<in> set (map session_ids second)" by simp
  then have "session_ids x \<in> set (map snd jobs)" unfolding w(2) wave_ids .
  then obtain job y where job: "job \<in> set (retries_of (be_gate be) s l rs' y)" "y \<in> set first" "snd job = session_ids x"
    by (auto simp: jobs_def)
  have "session_ids y \<in> set (map session_ids first)" using job(2) by simp
  then have "length (session_ids y) \<le> TRIGGER_BATCH_SIZE" unfolding ids by (rule batches_of_size)
  from retries_size [OF this job(1)] show "length (session_ids x) \<le> TRIGGER_BATCH_SIZE" by (simp only: job(3))
qed

lemma sessions_filed:
  assumes "batch_sessions be s lens l pending rs = (first, second, rs2)"
  shows "votes_filed s l (set pending) rs rs2"
proof -
  define rs' where "rs' = snd (run_wave be s lens l (first_wave pending) rs)"
  define jobs where "jobs = concat (map (retries_of (be_gate be) s l rs')
    (fst (run_wave be s lens l (first_wave pending) rs)))"
  have w: "second = fst (run_wave be s lens l jobs rs')" "rs2 = snd (run_wave be s lens l jobs rs')"
    using sessions_split [OF assms] by (simp_all only: rs'_def jobs_def)
  have ids: "\<Union> (set ` snd ` set js) = set (concat (map snd js))" for js :: "(string \<times> string list) list" by auto
  have "set (concat (map snd jobs)) \<subseteq> set pending"
    using sessions_ids(2) [OF assms] by (simp only: w(1) wave_ids)
  then have "votes_filed s l (set pending) rs' rs2"
    using run_wave_filed [of s l jobs rs' be lens] votes_filed_mono unfolding w(2) ids by blast
  moreover have "votes_filed s l (set pending) rs rs'"
    using run_wave_filed [of s l "first_wave pending" rs be lens]
    by (simp only: rs'_def ids first_wave_ids batches_of_concat)
  ultimately show ?thesis using votes_filed_trans by (metis sup.idem)
qed


lemma batch_round_filed:
  "votes_filed s l (set directories) rs (snd (batch_finding_trigger_votes be s lens l directories rs))"
proof -
  define p where "p = pending_votes (be_gate be) s l directories rs"
  obtain first second rs2 where b: "batch_sessions be s lens l (fst p) (snd p) = (first, second, rs2)"
    by (metis prod.collapse)
  have "votes_filed s l (set (fst p)) rs (snd p)" unfolding p_def by (rule pending_votes_filed)
  then have "votes_filed s l (set (fst p)) rs rs2" using votes_filed_trans sessions_filed [OF b] by (metis sup.idem)
  moreover have "set (fst p) \<subseteq> set directories" using pending_unvoted unfolding p_def by blast
  ultimately have "votes_filed s l (set directories) rs rs2" by (rule votes_filed_mono)
  then show ?thesis
    by (simp add: batch_finding_trigger_votes_def Let_def split_beta b votes_filed_refl flip: p_def)
qed

definition demo_batch :: batch_env where
  "demo_batch = \<lparr>be_gate = demo_env, be_reviewer = demo_reviewer (\<lambda>_. None), be_limit_open = False,
     be_blocked = (\<lambda>_ _. False), be_run = (\<lambda>_ _ tag _. (if tag = ''0'' then 124 else 0, \<lambda>_. None))\<rparr>"

lemma demo_pending: "fst (pending_votes (be_gate demo_batch) Primary Crashes demo_names demo_filed) = demo_names"
  by code_simp


end
