(* ===== verification/CrashPass.thy ===== *)
theory CrashPass
  imports TriggerBatch
begin

text \<open>
  A pass over the crash lane (\<open>triage_crash_dirs\<close> and \<open>_adjudicate_crash_dirs\<close> of \<open>lib/triage.py\<close>): what is held,
  what is settled already, what is folded, and the adjudication of the rest, representatives before the bundles
  deferred behind them. Each bundle ends in exactly one count.
\<close>

subsection \<open>A pass\<close>

text \<open>\<open>pe_expired name p\<close>: no time is left at checkpoint \<open>p\<close> of the triage of \<open>name\<close>, \<open>pe_frozen\<close>: none is left when the
  classes are added. \<open>pe_class\<close> adds the class line to a report, \<open>pe_owed\<close> says that report fields are open and
  \<open>pe_converge names\<close> settles those of \<open>names\<close>. \<open>pe_order\<close> is the order in which the workers take the bundles:
  a call works on its own bundle and on locked ledgers, so calls are atomic here.\<close>

record pass_env =
  pe_run :: crash_run
  pe_batch :: batch_env
  pe_expired :: "string \<Rightarrow> checkpoint \<Rightarrow> bool"
  pe_frozen :: bool
  pe_class :: "artifact \<Rightarrow> artifact"
  pe_owed :: "artifact \<Rightarrow> bool"
  pe_converge :: "string list \<Rightarrow> artifact \<Rightarrow> artifact"
  pe_order :: "string list \<Rightarrow> string list"

type_synonym counts = "string \<Rightarrow> nat"

definition counts0 :: counts where "counts0 = (\<lambda>_. 0)"

definition bump :: "string \<Rightarrow> counts \<Rightarrow> counts" where
  "bump status counts = counts(status := counts status + 1)"

definition UNMEASURED_REPLAY_DETAIL :: string where
  "UNMEASURED_REPLAY_DETAIL = ''configured-target replay could not be measured''"

definition replay_unmeasured :: "artifact \<Rightarrow> bool" where
  "replay_unmeasured a \<longleftrightarrow> (case ar_receipt a of None \<Rightarrow> False
     | Some rc \<Rightarrow> vr_state rc = ''pending'' \<and> vr_detail rc = UNMEASURED_REPLAY_DETAIL)"

text \<open>Rewriting the bundles of a list in their places.\<close>

definition rewrite_crash :: "(artifact \<Rightarrow> artifact) \<Rightarrow> string \<Rightarrow> results \<Rightarrow> results" where
  "rewrite_crash f name rs =
     (case map_of (rs_lanes rs Crashes) name of None \<Rightarrow> rs | Some a \<Rightarrow> set_artifact Crashes name (f a) rs)"

definition rewrite_crashes :: "(artifact \<Rightarrow> artifact) \<Rightarrow> string list \<Rightarrow> results \<Rightarrow> results" where
  "rewrite_crashes f = fold (rewrite_crash f)"

definition hold_unmeasured :: "artifact \<Rightarrow> artifact" where
  "hold_unmeasured = write_receipt ''crash'' ''pending'' UNMEASURED_REPLAY_DETAIL None no_facts"

definition crash_at :: "results \<Rightarrow> (artifact \<Rightarrow> bool) \<Rightarrow> string \<Rightarrow> bool" where
  "crash_at rs P name \<longleftrightarrow> (case map_of (rs_lanes rs Crashes) name of None \<Rightarrow> False | Some a \<Rightarrow> P a)"

definition is_crash_signal :: "artifact \<Rightarrow> bool" where
  "is_crash_signal a \<longleftrightarrow> has_memory_safety_signal (sanitizer_text a) \<and> autodiscard_reason (sanitizer_text a) = []"

definition add_class :: "pass_env \<Rightarrow> artifact \<Rightarrow> artifact" where
  "add_class e a = (if is_crash_signal a then pe_class e a else a)"

text \<open>One bundle of a worker: its crash run is that of the pass, with its own clock.\<close>

definition triage_named ::
  "pass_env \<Rightarrow> (string \<Rightarrow> bool) \<Rightarrow> (string \<Rightarrow> bool) \<Rightarrow> string \<Rightarrow> counts \<times> results \<Rightarrow> counts \<times> results" where
  "triage_named e bypassed attempted name = (\<lambda>(counts, rs).
     (case triage_one_crash ((pe_run e)\<lparr>cr_expired := pe_expired e name\<rparr>) (bypassed name) (attempted name) name rs of
        (status, rs') \<Rightarrow> (bump status counts, rs')))"

subsection \<open>Adjudication of a group\<close>

text \<open>Bundles that can be exported before the reviews are; those that never can be are demoted.\<close>

definition may_export :: "pass_env \<Rightarrow> string \<Rightarrow> artifact \<Rightarrow> bool" where
  "may_export e name a \<longleftrightarrow>
     (case fd_report (ar_dir a) of None \<Rightarrow> False
      | Some report \<Rightarrow> \<not> re_found SKELETON_MARKER_re False report)
     \<and> has_valid_diagnostic (sanitizer_text a) (cr_findings_only (pe_run e))
     \<and> (bf_testcase (ar_files a) \<or> bf_harness (ar_files a))
     \<and> bundle_needs_refresh a \<and> \<not> pe_expired e name At_Export"

definition export_one :: "pass_env \<Rightarrow> string \<Rightarrow> string list \<times> results \<Rightarrow> string list \<times> results" where
  "export_one e name = (\<lambda>(unexportable, rs).
     (case map_of (rs_lanes rs Crashes) name of None \<Rightarrow> (unexportable, rs)
      | Some a \<Rightarrow>
          if may_export e name a then
            (case cr_export (pe_run e) a of (never, a') \<Rightarrow>
               (if never then unexportable @ [name] else unexportable, set_artifact Crashes name a' rs))
          else (unexportable, rs)))"

text \<open>A bundle the reviewers are to be asked about: complete, with a memory-safety signal.\<close>

definition reviewable :: "pass_env \<Rightarrow> artifact \<Rightarrow> bool" where
  "reviewable e a \<longleftrightarrow>
     (let diag = sanitizer_text a; findings_only = cr_findings_only (pe_run e)
      in (case fd_report (ar_dir a) of None \<Rightarrow> False
          | Some report \<Rightarrow> \<not> re_found SKELETON_MARKER_re False report)
         \<and> has_valid_diagnostic diag findings_only \<and> \<not> runtime_only_diagnostic diag findings_only
         \<and> autodiscard_reason diag = [] \<and> has_memory_safety_signal diag \<and> bundle_missing_artifacts a = [])"

text \<open>Which of the bundles have the reach of their trigger proved by a probe, and which owe a review.\<close>

definition sort_candidate ::
  "pass_env \<Rightarrow> string \<Rightarrow> string list \<times> string list \<times> results \<Rightarrow> string list \<times> string list \<times> results" where
  "sort_candidate e name = (\<lambda>(bypasses, candidates, rs).
     (case map_of (rs_lanes rs Crashes) name of None \<Rightarrow> (bypasses, candidates, rs)
      | Some a \<Rightarrow>
          if \<not> reviewable e a then (bypasses, candidates, rs)
          else if name \<in> set bypasses then (bypasses, candidates, rs)
          else (case direct_probe_trigger_bypass (cr_controls (pe_run e)) a of (proved, a') \<Rightarrow>
                  let rs' = set_artifact Crashes name a' rs
                  in if proved then (bypasses @ [name], candidates, rs') else (bypasses, candidates @ [name], rs'))))"

text \<open>The three rounds of batched reviews: first, second for the rejected, resolution where it is due.\<close>

definition review_rounds :: "pass_env \<Rightarrow> string list \<Rightarrow> results \<Rightarrow> string list \<times> results" where
  "review_rounds e candidates rs =
     (let env = gr_env (cr_pass (pe_run e));
          be = (pe_batch e)\<lparr>be_gate := env, be_reviewer := gr_reviewer (cr_pass (pe_run e))\<rparr>;
          (first, rs1) = batch_finding_trigger_votes be Primary False Crashes candidates rs;
          second_round = filter (crash_at rs1 (\<lambda>a. fd_report (ar_dir a) \<noteq> None
            \<and> cached_trigger_vote env (ar_gate a) Primary = Some ''Reject'')) candidates;
          (second, rs2) = (if second_round = [] then ([], rs1)
            else batch_finding_trigger_votes be Second False Crashes second_round rs1);
          resolution_round = filter (crash_at rs2 (\<lambda>a. fd_report (ar_dir a) \<noteq> None
            \<and> trigger_resolution_sources env (ar_gate a) \<noteq> [])) candidates;
          (third, rs3) = (if resolution_round = [] then ([], rs2)
            else batch_finding_trigger_votes be Resolution False Crashes resolution_round rs2)
      in (first @ second @ third, rs3))"

text \<open>The exports of a group, the demotion of what can never be exported, and the open report fields.\<close>

definition settle_exports :: "pass_env \<Rightarrow> string list \<Rightarrow> results \<Rightarrow> string list \<times> results" where
  "settle_exports e directories rs =
     (let reach = filter (crash_at rs (\<lambda>a. fd_report (ar_dir a) \<noteq> None \<and> is_crash_signal a)) directories;
          (unexportable, rs1) = fold (export_one e) reach ([], rs);
          rs2 = fold (\<lambda>name. demote_to_finding (gr_now (cr_pass (pe_run e))) name UNEXPORTABLE_REASON) unexportable rs1;
          reach_left = filter (\<lambda>d. d \<notin> set unexportable) reach
      in (unexportable, rewrite_crashes (pe_converge e reach_left) reach_left rs2))"

text \<open>The bypasses, the bundles whose batched review was attempted, and the tree.\<close>

definition review_group ::
  "pass_env \<Rightarrow> string list \<Rightarrow> string list \<Rightarrow> results \<Rightarrow> string list \<times> string list \<times> results" where
  "review_group e directories bypasses rs =
     (let (bypasses', candidates, rs1) = fold (sort_candidate e) directories (bypasses, [], rs)
      in (bypasses', review_rounds e (if cr_gate_on (pe_run e) then candidates else []) rs1))"

definition adjudicate_crash_dirs ::
  "pass_env \<Rightarrow> string list \<Rightarrow> string list \<Rightarrow> counts \<Rightarrow> results \<Rightarrow> string list \<times> counts \<times> results" where
  "adjudicate_crash_dirs e directories bypasses counts rs =
     (if directories = [] then (bypasses, counts, rs)
      else
        (let (unexportable, rs1) = settle_exports e directories rs;
             left = filter (\<lambda>d. d \<notin> set unexportable) directories;
             (bypasses', attempted, rs2) = review_group e left bypasses rs1
         in (bypasses', fold (triage_named e (\<lambda>d. d \<in> set bypasses') (\<lambda>d. d \<in> set attempted)) (pe_order e left)
               (fold (\<lambda>_. bump ''demoted'') unexportable counts, rs2))))"

subsection \<open>The pass over the lane\<close>

text \<open>A published crash whose review still answers the policy in force.\<close>

definition crash_review_is_reusable :: "crash_run \<Rightarrow> artifact \<Rightarrow> bool" where
  "crash_review_is_reusable r a \<longleftrightarrow> \<not> cr_gate_on r
     \<or> fd_report (ar_dir a) \<noteq> None \<and> cached_trigger_resolution (gr_env (cr_pass r)) False (ar_gate a)"

definition finalized_crash :: "crash_run \<Rightarrow> artifact \<Rightarrow> bool" where
  "finalized_crash r a \<longleftrightarrow> is_final_crash_receipt (cr_pass r) a \<and> crash_review_is_reusable r a"

definition cached_ready :: "crash_run \<Rightarrow> string list \<Rightarrow> string \<Rightarrow> artifact \<Rightarrow> bool" where
  "cached_ready r bypasses name a \<longleftrightarrow> fd_report (ar_dir a) \<noteq> None
     \<and> fst (evaluate_crash_verdict (report_of a) (cr_controls r)) \<noteq> ''incomplete''
     \<and> (\<not> cr_gate_on r \<or> name \<in> set bypasses \<or> cached_trigger_resolution (gr_env (cr_pass r)) False (ar_gate a))"

definition pass_directories :: "string list \<Rightarrow> string list option \<Rightarrow> results \<Rightarrow> string list" where
  "pass_directories held only rs =
     filter (\<lambda>d. d \<notin> set held \<and> (case only of None \<Rightarrow> True | Some chosen \<Rightarrow> d \<in> set chosen))
       (pass_names ''CRASH-'' rs Crashes)"

text \<open>The bundles of the pass: the held ones lose their receipts, the others get their class.\<close>

definition enter_pass :: "pass_env \<Rightarrow> string list \<Rightarrow> string list option \<Rightarrow> results \<Rightarrow> string list \<times> results" where
  "enter_pass e held only rs =
     (let rs1 = rewrite_crashes hold_unmeasured held rs;
          directories = pass_directories held only rs1
      in (directories, if pe_frozen e then rs1 else rewrite_crashes (add_class e) directories rs1))"

text \<open>What is published already is counted, what is reviewed already is finished; the rest is left.\<close>

definition finish_cached ::
  "pass_env \<Rightarrow> string list \<Rightarrow> string list \<Rightarrow> results \<Rightarrow> string list \<times> counts \<times> results" where
  "finish_cached e bypasses directories rs =
     (let finalized = filter (crash_at rs (finalized_crash (pe_run e))) directories;
          ready = filter (\<lambda>d. d \<notin> set finalized \<and> crash_at rs (cached_ready (pe_run e) bypasses d) d) directories;
          owed = filter (crash_at rs (pe_owed e)) ready
      in (filter (\<lambda>d. d \<notin> set finalized \<and> d \<notin> set ready) directories,
          fold (triage_named e (\<lambda>d. d \<in> set bypasses) (\<lambda>_. False)) (pe_order e ready)
            (counts0(''promoted'' := counts0 ''promoted'' + length finalized),
             rewrite_crashes (pe_converge e owed) owed rs)))"

text \<open>Duplicates fold, and what is not deferred is adjudicated.\<close>

definition fold_and_judge ::
  "pass_env \<Rightarrow> bool \<Rightarrow> string list \<Rightarrow> string list \<Rightarrow> counts \<Rightarrow> results \<Rightarrow> string list \<times> string list \<times> counts \<times> results" where
  "fold_and_judge e defer_siblings directories bypasses counts rs =
     (let (todo, deferred, folded, rs1) =
            fold_duplicate_crash_states (cr_pass (pe_run e)) defer_siblings directories rs
      in (deferred, adjudicate_crash_dirs e todo bypasses
            (counts(''duplicate'' := counts ''duplicate'' + folded)) rs1))"

text \<open>The pass once the tree-wide ones (\<open>restore_stale_kind\<close>, \<open>route_finding_diagnostics\<close>) are through.\<close>

definition triage_lane ::
  "pass_env \<Rightarrow> string list \<Rightarrow> string list \<Rightarrow> string list option \<Rightarrow> results \<Rightarrow> counts \<times> results" where
  "triage_lane e bypasses held only rs =
     (let (directories, rs1) = enter_pass e held only rs;
          (rest, counts1, rs2) = finish_cached e bypasses directories rs1;
          (deferred, bypasses', counts2, rs3) = fold_and_judge e True rest bypasses counts1 rs2
      in if deferred = [] then (counts2, rs3)
         else snd (snd (fold_and_judge e False deferred bypasses' counts2 rs3)))"

definition triage_crash_dirs ::
  "pass_env \<Rightarrow> route_env \<Rightarrow> string list \<Rightarrow> string list \<Rightarrow> string list option \<Rightarrow> results \<Rightarrow> counts \<times> results" where
  "triage_crash_dirs e route bypasses held only rs =
     triage_lane e bypasses held only
       (if only = None then
          (case restore_stale_kind (cr_pass (pe_run e)) ''crash'' rs of Inl _ \<Rightarrow> rs
           | Inr (_, rs1) \<Rightarrow> snd (route_finding_diagnostics route rs1))
        else rs)"

subsection \<open>What a step leaves alone\<close>

definition leaves :: "string \<Rightarrow> results \<Rightarrow> results \<Rightarrow> bool" where
  "leaves n rs rs' \<longleftrightarrow> map_of (rs_lanes rs' Crashes) n = map_of (rs_lanes rs Crashes) n"

lemma leaves_refl [simp, intro]: "leaves n rs rs"
  by (simp add: leaves_def)

lemma leaves_trans: "leaves n rs rs' \<Longrightarrow> leaves n rs' rs'' \<Longrightarrow> leaves n rs rs''"
  by (simp add: leaves_def)

lemma leaves_fold:
  "(\<And>x rs. x \<in> set xs \<Longrightarrow> leaves n rs (f x rs)) \<Longrightarrow> leaves n rs (fold f xs rs)"
proof (induction xs arbitrary: rs)
  case (Cons x xs)
  have "leaves n rs (f x rs)" by (rule Cons.prems) simp
  moreover have "leaves n (f x rs) (fold f xs (f x rs))" by (rule Cons.IH) (simp add: Cons.prems)
  ultimately show ?case by (simp add: leaves_trans [of n rs "f x rs"])
qed simp

lemma leaves_set: "n \<noteq> name \<Longrightarrow> leaves n rs (set_artifact Crashes name a rs)"
  by (simp add: leaves_def set_artifact_lanes update_conv')

lemma leaves_rewrite: "n \<noteq> name \<Longrightarrow> leaves n rs (rewrite_crash f name rs)"
  by (simp add: rewrite_crash_def leaves_set split: option.split)

lemma leaves_rewrites: "n \<notin> set names \<Longrightarrow> leaves n rs (rewrite_crashes f names rs)"
  unfolding rewrite_crashes_def by (rule leaves_fold) (metis leaves_rewrite)

lemma leaves_reject:
  assumes "n \<noteq> name"
  shows "leaves n rs (reject_artifact now Crashes name reason category oos rs)"
proof (cases "map_of (rs_lanes rs Crashes) name")
  case (Some a)
  obtain d where d: "unique_destination (lane_names rs (rejected_lane Crashes)) name now = Some d"
    by (rule unique_destination_total)
  show ?thesis using assms by (simp add: leaves_def reject_lanes [OF Some d] move_elsewhere rejected_lane_def)
qed (simp add: reject_artifact_def)

lemma leaves_demote:
  assumes "n \<noteq> name"
  shows "leaves n rs (demote_to_finding now name reason rs)"
proof (cases "map_of (rs_lanes rs Crashes) name")
  case (Some a)
  obtain d where d: "unique_destination (lane_names rs Findings) (demoted_name name) now = Some d"
    by (rule unique_destination_total)
  show ?thesis using assms by (simp add: leaves_def demote_to_finding_def Some d Let_def move_elsewhere)
qed (simp add: demote_to_finding_def)

lemma leaves_store [simp]: "leaves n rs (rs'\<lparr>rs_store := st\<rparr>) = leaves n rs rs'"
  by (simp add: leaves_def)

lemma leaves_accepted [simp]: "leaves n rs (record_accepted_artifact now name kind a rs') = leaves n rs rs'"
  by (simp add: record_accepted_artifact_def Let_def)

lemmas leaves_reject_set = leaves_trans [OF leaves_set leaves_reject]
lemmas leaves_demote_set = leaves_trans [OF leaves_set leaves_demote]

lemma leaves_hold_incomplete:
  "n \<noteq> name \<Longrightarrow> leaves n rs (snd (hold_incomplete r name reported scope missing a rs))"
  by (simp add: hold_incomplete_def Let_def split_beta leaves_set leaves_reject_set)

lemma leaves_publish: "n \<noteq> name \<Longrightarrow> leaves n rs (snd (publish_crash r name verdict detail proved a rs))"
  by (auto simp: publish_crash_def Let_def split_beta hold_pending_def leaves_set leaves_reject_set)

lemma leaves_review: "n \<noteq> name \<Longrightarrow> leaves n rs (snd (review_crash r confirmed attempted name a rs))"
  unfolding review_crash_def Let_def split_beta
  by (auto simp: hold_pending_def leaves_set leaves_reject_set leaves_hold_incomplete leaves_publish)

lemma leaves_bundle: "n \<noteq> name \<Longrightarrow> leaves n rs (snd (bundle_crash r confirmed attempted name a rs))"
  unfolding bundle_crash_def Let_def split_beta
  by (auto simp: leaves_demote_set intro: leaves_trans [OF leaves_set leaves_hold_incomplete]
      leaves_trans [OF leaves_set leaves_review])

lemma leaves_triage: "n \<noteq> name \<Longrightarrow> leaves n rs (snd (triage_one_crash r confirmed attempted name rs))"
  unfolding triage_one_crash_def Let_def
  by (auto simp: hold_pending_def leaves_set leaves_reject_set leaves_hold_incomplete leaves_demote leaves_bundle
      split: option.split)

subsection \<open>One status per crash\<close>

definition STATUSES :: "string list" where
  "STATUSES = [''promoted'', ''rejected'', ''pending'', ''demoted'', ''duplicate'']"

definition total_count :: "counts \<Rightarrow> nat" where
  "total_count counts = sum_list (map counts STATUSES)"

lemma bump_total [simp]: "status \<in> set STATUSES \<Longrightarrow> total_count (bump status counts) = total_count counts + 1"
  by (auto simp: total_count_def STATUSES_def bump_def)

lemma hold_status: "fst (hold_incomplete r name reported scope missing a rs) \<in> set STATUSES"
  by (simp add: hold_incomplete_def Let_def split_beta STATUSES_def)

lemma publish_status: "fst (publish_crash r name verdict detail proved a rs) \<in> set STATUSES"
  by (auto simp: publish_crash_def Let_def split_beta hold_pending_def STATUSES_def)

lemma review_status: "fst (review_crash r confirmed attempted name a rs) \<in> set STATUSES"
  unfolding review_crash_def Let_def split_beta
  using hold_status publish_status by (auto simp: hold_pending_def STATUSES_def)

lemma bundle_status: "fst (bundle_crash r confirmed attempted name a rs) \<in> set STATUSES"
  unfolding bundle_crash_def Let_def split_beta
  using hold_status review_status by (simp add: STATUSES_def)

lemma triage_status: "fst (triage_one_crash r confirmed attempted name rs) \<in> set STATUSES"
proof (cases "map_of (rs_lanes rs Crashes) name")
  case (Some a)
  show ?thesis
    unfolding triage_one_crash_def Let_def Some option.case
    using hold_status bundle_status by (simp add: STATUSES_def hold_pending_def split: option.split)
qed (simp add: triage_one_crash_def STATUSES_def)

subsection \<open>A pass loses nothing\<close>

text \<open>The workers take every bundle of a list once, and what rewrites a bundle keeps its name.\<close>

definition pass_keeps :: "pass_env \<Rightarrow> bool" where
  "pass_keeps e \<longleftrightarrow> crash_keeps_names (pe_run e)
     \<and> (\<forall>a. fd_name (ar_dir (pe_class e a)) = fd_name (ar_dir a))
     \<and> (\<forall>names a. fd_name (ar_dir (pe_converge e names a)) = fd_name (ar_dir a))
     \<and> (\<forall>names. mset (pe_order e names) = mset names)"

lemma steady_put:
  assumes "map_of (rs_lanes rs l) name = Some a" "fd_name (ar_dir b) = fd_name (ar_dir a)"
  shows "steady rs (set_artifact l name b rs)"
proof (cases "filed_ok rs")
  case True
  then have "fd_name (ar_dir b) = name"
    using assms map_of_SomeD [OF assms(1)] by (auto simp: filed_ok_def lanes_ok_def)
  from steady_set [OF assms(1) this] show ?thesis .
qed (simp add: steady_def)

lemma steady_fold_on:
  assumes "\<And>x st. steady (g st) (g (f x st))"
  shows "steady (g st) (g (fold f xs st))"
proof (induction xs arbitrary: st)
  case (Cons x xs)
  from steady_trans [OF assms Cons.IH] show ?case by simp
qed simp

lemma steady_rewrites:
  assumes "\<And>a. fd_name (ar_dir (f a)) = fd_name (ar_dir a)"
  shows "steady rs (rewrite_crashes f names rs)"
  unfolding rewrite_crashes_def
  by (rule steady_fold_on [of "\<lambda>x. x"]) (auto simp: rewrite_crash_def assms intro!: steady_put split: option.split)

lemma filed_dir: "filed_ok rs \<Longrightarrow> (n, a) \<in> set (rs_lanes rs l) \<Longrightarrow> map_of (rs_lanes rs l) n = Some a \<and> fd_name (ar_dir a) = n"
  by (auto simp: filed_ok_def lanes_ok_def)

lemma votes_filed_steady:
  assumes "votes_filed s l names rs rs'"
  shows "steady rs rs'"
  unfolding steady_def
proof
  assume ok: "filed_ok rs"
  have same: "lane_names rs' m = lane_names rs m" for m using assms by (cases "m = l") (auto simp: votes_filed_def)
  have dirs: "fd_name (ar_dir b) = n" if b: "(n, b) \<in> set (rs_lanes rs' m)" for n b m
  proof (cases "m = l")
    case True
    have "distinct (lane_names rs' l)" using ok same by (simp add: filed_ok_def lanes_ok_def)
    then have at: "map_of (rs_lanes rs' l) n = Some b" using b True by simp
    have "n \<in> set (lane_names rs l)" using b True same [of l] by (metis image_eqI fst_conv image_set)
    then obtain a where a: "map_of (rs_lanes rs l) n = Some a" by (metis map_of_eq_None_iff not_None_eq image_set)
    then obtain p where "map_of (rs_lanes rs' l) n = Some (with_vote s p a)"
      using assms unfolding votes_filed_def by blast
    then have "b = with_vote s p a" using at by simp
    then show ?thesis using filed_dir [OF ok map_of_SomeD [OF a]] by simp
  next
    case False
    then show ?thesis using assms b filed_dir [OF ok, of n b m] by (simp add: votes_filed_def)
  qed
  have "lanes_ok rs'" using ok dirs by (auto simp: filed_ok_def lanes_ok_def same)
  moreover have "routes_live rs'" using ok assms by (simp add: filed_ok_def routes_live_def same votes_filed_def)
  moreover have "length (rs_lanes rs' m) = length (rs_lanes rs m)" for m using arg_cong [OF same, of length m] by simp
  ultimately show "filed_ok rs' \<and> artifact_count rs' = artifact_count rs"
    by (simp add: filed_ok_def artifact_count_def)
qed

lemma rounds_steady: "steady rs (snd (review_rounds e candidates rs))"
proof -
  have one: "steady x (snd (batch_finding_trigger_votes be s lens l ds x))" for be s lens l ds x
    by (rule votes_filed_steady [OF batch_round_filed])
  show ?thesis unfolding review_rounds_def Let_def split_beta
    by (auto intro: one steady_trans [OF one one] steady_trans [OF steady_trans [OF one one] one])
qed

lemma triage_named_steady:
  assumes "pass_keeps e"
  shows "steady (snd st) (snd (triage_named e bypassed attempted name st))"
proof -
  have "crash_keeps_names ((pe_run e)\<lparr>cr_expired := pe_expired e name\<rparr>)"
    using assms by (simp add: pass_keeps_def crash_keeps_names_def)
  from triage_crash_steady [OF this] show ?thesis by (simp add: triage_named_def split_beta)
qed

lemma export_one_steady:
  assumes "pass_keeps e"
  shows "steady (snd st) (snd (export_one e name st))"
  using assms by (auto simp: export_one_def split_beta pass_keeps_def crash_keeps_names_def intro!: steady_put split: option.split)

lemma sort_candidate_steady: "steady (snd (snd st)) (snd (snd (sort_candidate e name st)))"
  by (auto simp: sort_candidate_def split_beta Let_def direct_probe_trigger_bypass_def intro!: steady_put split: option.split)

lemma settle_exports_steady:
  assumes "pass_keeps e"
  shows "steady rs (snd (settle_exports e directories rs))"
proof -
  have exports: "steady rs (snd (fold (export_one e) names ([], rs)))" for names
    using steady_fold_on [of snd "export_one e" "([], rs)"] export_one_steady [OF assms] by simp
  have demotes: "steady x (fold (\<lambda>name. demote_to_finding now name reason) names x)" for now reason names x
    by (rule steady_fold_on [of "\<lambda>x. x"]) (rule demote_steady)
  have converge: "steady x (rewrite_crashes (pe_converge e names) names x)" for names x
    by (rule steady_rewrites) (use assms in \<open>simp add: pass_keeps_def\<close>)
  show ?thesis unfolding settle_exports_def Let_def split_beta snd_conv
    by (rule steady_trans [OF steady_trans [OF exports demotes] converge])
qed

lemma review_group_steady: "steady rs (snd (snd (review_group e directories bypasses rs)))"
proof -
  have "steady rs (snd (snd (fold (sort_candidate e) directories (bypasses, [], rs))))"
    using steady_fold_on [of "\<lambda>st. snd (snd st)" "sort_candidate e" "(bypasses, [], rs)"] sort_candidate_steady by simp
  then show ?thesis unfolding review_group_def split_beta Let_def snd_conv by (rule steady_trans [OF _ rounds_steady])
qed

lemma triage_all_steady:
  "pass_keeps e \<Longrightarrow> steady rs (snd (fold (triage_named e bypassed attempted) names (counts, rs)))"
  using steady_fold_on [of snd "triage_named e bypassed attempted" "(counts, rs)"] triage_named_steady by simp

lemma adjudicate_steady:
  assumes "pass_keeps e"
  shows "steady rs (snd (snd (adjudicate_crash_dirs e directories bypasses counts rs)))"
  unfolding adjudicate_crash_dirs_def Let_def split_beta
  by (simp add: steady_trans [OF steady_trans [OF settle_exports_steady [OF assms] review_group_steady]
        triage_all_steady [OF assms]])

lemma enter_pass_steady:
  assumes "pass_keeps e"
  shows "steady rs (snd (enter_pass e held only rs))"
proof -
  have held: "steady rs (rewrite_crashes hold_unmeasured held rs)" by (rule steady_rewrites) (simp add: hold_unmeasured_def)
  moreover have "steady x (rewrite_crashes (add_class e) ds x)" for ds x
    by (rule steady_rewrites) (use assms in \<open>simp add: pass_keeps_def add_class_def\<close>)
  ultimately show ?thesis by (simp add: enter_pass_def Let_def steady_trans [OF held])
qed

lemma finish_cached_steady:
  assumes "pass_keeps e"
  shows "steady rs (snd (snd (finish_cached e bypasses directories rs)))"
proof -
  have "steady x (rewrite_crashes (pe_converge e ds) ds x)" for ds x
    by (rule steady_rewrites) (use assms in \<open>simp add: pass_keeps_def\<close>)
  then show ?thesis
    unfolding finish_cached_def Let_def snd_conv by (rule steady_trans [OF _ triage_all_steady [OF assms]])
qed

lemma fold_and_judge_steady:
  assumes "pass_keeps e"
  shows "steady rs (snd (snd (snd (fold_and_judge e sib directories bypasses counts rs))))"
  unfolding fold_and_judge_def Let_def split_beta snd_conv by (rule steady_trans [OF folding_steady adjudicate_steady [OF assms]])

lemma triage_lane_steady:
  assumes "pass_keeps e"
  shows "steady rs (snd (triage_lane e bypasses held only rs))"
proof -
  obtain ds rs1 where enter: "enter_pass e held only rs = (ds, rs1)" by fastforce
  obtain rest counts1 rs2 where cached: "finish_cached e bypasses ds rs1 = (rest, counts1, rs2)" by (metis prod.collapse)
  obtain deferred byp counts2 rs3 where judged: "fold_and_judge e True rest bypasses counts1 rs2 = (deferred, byp, counts2, rs3)"
    by (metis prod.collapse)
  have "steady rs rs1" using enter_pass_steady [OF assms, of rs held only] by (simp add: enter)
  moreover have "steady rs1 rs2" using finish_cached_steady [OF assms, of rs1 bypasses ds] by (simp add: cached)
  moreover have "steady rs2 rs3"
    using fold_and_judge_steady [OF assms, of rs2 True rest bypasses counts1] by (simp add: judged)
  ultimately have "steady rs rs3" by (metis steady_trans)
  then show ?thesis
    by (auto simp: triage_lane_def enter cached judged intro: steady_trans [OF _ fold_and_judge_steady [OF assms]])
qed

subsection \<open>Every bundle is counted once\<close>

lemma triage_all_total:
  "total_count (fst (fold (triage_named e bypassed attempted) names (counts, rs))) = total_count counts + length names"
proof (induction names arbitrary: counts rs)
  case (Cons n names)
  have "triage_named e bypassed attempted n (counts, rs) =
      (bump (fst (triage_one_crash ((pe_run e)\<lparr>cr_expired := pe_expired e n\<rparr>) (bypassed n) (attempted n) n rs)) counts,
       snd (triage_one_crash ((pe_run e)\<lparr>cr_expired := pe_expired e n\<rparr>) (bypassed n) (attempted n) n rs))"
    by (simp add: triage_named_def split_beta)
  then show ?case by (simp add: Cons.IH triage_status)
qed simp

lemma demoted_total: "total_count (fold (\<lambda>_. bump ''demoted'') names counts) = total_count counts + length names"
  by (induction names arbitrary: counts) (simp_all add: STATUSES_def)

lemma exports_within:
  "distinct (u @ names) \<Longrightarrow> distinct (fst (fold (export_one e) names (u, rs)))
     \<and> set (fst (fold (export_one e) names (u, rs))) \<subseteq> set u \<union> set names"
proof (induction names arbitrary: u rs)
  case (Cons n names)
  have "fst (export_one e n (u, rs)) = u \<or> fst (export_one e n (u, rs)) = u @ [n]"
    by (auto simp: export_one_def split_beta split: option.split)
  then show ?case
    using Cons.IH [of "fst (export_one e n (u, rs))" "snd (export_one e n (u, rs))"] Cons.prems by auto
qed simp

lemma settle_exports_within:
  assumes "distinct directories"
  shows "distinct (fst (settle_exports e directories rs))" "set (fst (settle_exports e directories rs)) \<subseteq> set directories"
proof -
  define reach where "reach = filter (crash_at rs (\<lambda>a. fd_report (ar_dir a) \<noteq> None \<and> is_crash_signal a)) directories"
  have out: "fst (settle_exports e directories rs) = fst (fold (export_one e) reach ([], rs))"
    by (simp add: settle_exports_def Let_def split_beta reach_def)
  have reach: "distinct reach" "set reach \<subseteq> set directories" using assms by (auto simp: reach_def)
  then show "distinct (fst (settle_exports e directories rs))"
    "set (fst (settle_exports e directories rs)) \<subseteq> set directories"
    unfolding out using exports_within [of "[]" reach e rs] by auto
qed

lemma length_without:
  assumes "distinct xs" "distinct us" "set us \<subseteq> set xs"
  shows "length us + length (filter (\<lambda>x. x \<notin> set us) xs) = length xs"
proof -
  have "set (filter (\<lambda>x. x \<in> set us) xs) = set us" "distinct (filter (\<lambda>x. x \<in> set us) xs)" using assms by auto
  then have "length (filter (\<lambda>x. x \<in> set us) xs) = length us" using assms(2) by (metis distinct_card)
  then show ?thesis using sum_length_filter_compl [of "\<lambda>x. x \<in> set us" xs] by simp
qed

lemma adjudicate_total:
  assumes "pass_keeps e" "distinct directories"
  shows "total_count (fst (snd (adjudicate_crash_dirs e directories bypasses counts rs)))
    = total_count counts + length directories"
proof -
  define u where "u = fst (settle_exports e directories rs)"
  have order: "length (pe_order e ns) = length ns" for ns using assms(1) by (metis pass_keeps_def mset_eq_length)
  have "length u + length (filter (\<lambda>d. d \<notin> set u) directories) = length directories"
    unfolding u_def by (rule length_without [OF assms(2) settle_exports_within [OF assms(2)]])
  then show ?thesis
    by (simp add: adjudicate_crash_dirs_def Let_def split_beta triage_all_total demoted_total order flip: u_def)
qed

text \<open>Folding splits its bundles; without deferral nothing is deferred.\<close>

lemma folding_splits:
  assumes "filed_ok rs" "distinct ds" "\<forall>d \<in> set ds. py_startswith ''CRASH-'' d"
    and "fold_duplicate_crash_states r sib ds rs = (todo, deferred, n, rs')"
  shows "length todo + length deferred + n = length ds" "distinct todo" "distinct deferred"
    "set todo \<union> set deferred \<subseteq> set ds" "\<not> sib \<Longrightarrow> deferred = []"
    "x \<notin> set ds \<Longrightarrow> leaves x rs rs'"
proof -
  have ok: "lanes_ok rs" using assms(1) by (simp add: filed_ok_def)
  obtain f peers where f: "fold_outcome r sib ds rs todo deferred f peers" "rs' = fo_results f" "n = length (fo_folded f)"
    using fold_parts [OF ok assms(2-4)] by blast
  have parts: "mset (todo @ deferred @ map fst (fo_folded f)) = mset ds"
    and sib: "\<forall>d \<in> set deferred. sib" and inv: "fold_inv r rs ds f"
    using f(1) unfolding fold_outcome_def by blast+
  show "length todo + length deferred + n = length ds" using mset_eq_length [OF parts] f(3) by simp
  have "distinct (todo @ deferred @ map fst (fo_folded f))" using parts assms(2) by (metis mset_eq_imp_distinct_iff)
  then show "distinct todo" "distinct deferred" by simp_all
  show "set todo \<union> set deferred \<subseteq> set ds" using mset_eq_setD [OF parts] by auto
  show "deferred = []" if "\<not> sib" using sib that by (cases deferred) auto
  show "leaves x rs rs'" if "x \<notin> set ds"
  proof -
    have "x \<notin> fst ` set (fo_folded f)" using mset_eq_setD [OF parts] that by auto
    then show ?thesis using fold_invD(2) [OF inv] by (simp add: leaves_def f(2))
  qed
qed

lemma rewrites_names [simp]: "lane_names (rewrite_crashes f names rs) l = lane_names rs l"
proof -
  have one: "lane_names (rewrite_crash f n rs) l = lane_names rs l" for n rs
    by (simp add: rewrite_crash_def set_artifact_names split: option.split)
  show ?thesis unfolding rewrite_crashes_def by (induction names arbitrary: rs) (simp_all add: one)
qed

lemma pass_directories_ok:
  assumes "filed_ok rs"
  shows "distinct (pass_directories held only rs)" "\<forall>d \<in> set (pass_directories held only rs). py_startswith ''CRASH-'' d"
    "pass_directories held only (rewrite_crashes f names rs) = pass_directories held only rs"
  using assms by (auto simp: pass_directories_def pass_names_def filed_ok_def lanes_ok_def)

lemma split_three:
  assumes "A = filter P xs" "B = filter (\<lambda>x. x \<notin> set A \<and> Q x) xs" "C = filter (\<lambda>x. x \<notin> set A \<and> x \<notin> set B) xs"
  shows "length A + length B + length C = length xs"
proof -
  let ?rest = "filter (\<lambda>x. \<not> P x) xs"
  have "B = filter (\<lambda>x. \<not> P x \<and> Q x) xs" unfolding assms(2) by (rule filter_cong) (auto simp: assms(1))
  then have B: "B = filter Q ?rest" by simp
  have "C = filter (\<lambda>x. \<not> P x \<and> \<not> Q x) xs" unfolding assms(3) by (rule filter_cong) (auto simp: assms(1) B)
  then have "C = filter (\<lambda>x. \<not> Q x) ?rest" by simp
  then show ?thesis
    using B sum_length_filter_compl [of P xs] sum_length_filter_compl [of Q ?rest] by (simp add: assms(1))
qed

lemma count_more [simp]:
  "status \<in> set STATUSES \<Longrightarrow> total_count (counts(status := counts status + n)) = total_count counts + n"
  by (auto simp: total_count_def STATUSES_def)

lemma finish_cached_total:
  assumes "pass_keeps e"
  shows "total_count (fst (snd (finish_cached e bypasses ds rs))) + length (fst (finish_cached e bypasses ds rs)) = length ds"
proof -
  define final where "final = filter (crash_at rs (finalized_crash (pe_run e))) ds"
  define ready where "ready = filter (\<lambda>d. d \<notin> set final \<and> crash_at rs (cached_ready (pe_run e) bypasses d) d) ds"
  define rest where "rest = filter (\<lambda>d. d \<notin> set final \<and> d \<notin> set ready) ds"
  have order: "length (pe_order e ns) = length ns" for ns using assms by (metis pass_keeps_def mset_eq_length)
  have "length final + length ready + length rest = length ds"
    by (rule split_three [OF final_def ready_def rest_def])
  moreover have "total_count counts0 = 0" by (simp add: total_count_def STATUSES_def counts0_def)
  moreover have "''promoted'' \<in> set STATUSES" by (simp add: STATUSES_def)
  moreover have "finish_cached e bypasses ds rs = (rest,
      fold (triage_named e (\<lambda>d. d \<in> set bypasses) (\<lambda>_. False)) (pe_order e ready)
        (counts0(''promoted'' := counts0 ''promoted'' + length final),
         rewrite_crashes (pe_converge e (filter (crash_at rs (pe_owed e)) ready)) (filter (crash_at rs (pe_owed e)) ready) rs))"
    by (simp only: finish_cached_def Let_def final_def ready_def rest_def)
  ultimately show ?thesis by (simp only: fst_conv snd_conv triage_all_total order count_more)
qed

lemma finish_cached_rest: "set (fst (finish_cached e bypasses ds rs)) \<subseteq> set ds"
  "distinct ds \<Longrightarrow> distinct (fst (finish_cached e bypasses ds rs))"
  by (auto simp: finish_cached_def Let_def)

lemma fold_and_judge_total:
  assumes "filed_ok rs" "pass_keeps e" "distinct ds" "\<forall>d \<in> set ds. py_startswith ''CRASH-'' d"
    and "fold_and_judge e sib ds bypasses counts rs = (deferred, bypasses', counts', rs')"
  shows "total_count counts' + length deferred = total_count counts + length ds" "distinct deferred"
    "set deferred \<subseteq> set ds" "\<not> sib \<Longrightarrow> deferred = []"
proof -
  obtain todo waiting n rs1 where split: "fold_duplicate_crash_states (cr_pass (pe_run e)) sib ds rs = (todo, waiting, n, rs1)"
    by (metis prod.collapse)
  have waiting: "waiting = deferred" and
    counts: "counts' = fst (snd (adjudicate_crash_dirs e todo bypasses (counts(''duplicate'' := counts ''duplicate'' + n)) rs1))"
    using assms(5) by (simp_all add: fold_and_judge_def split)
  note parts = folding_splits [OF assms(1,3,4) split [unfolded waiting]]
  have "''duplicate'' \<in> set STATUSES" by (simp add: STATUSES_def)
  then have "total_count counts' = total_count counts + n + length todo"
    by (simp only: counts adjudicate_total [OF assms(2) parts(2)] count_more)
  then show "total_count counts' + length deferred = total_count counts + length ds" using parts(1) by simp
  show "distinct deferred" "set deferred \<subseteq> set ds" "\<not> sib \<Longrightarrow> deferred = []" using parts(3-5) by auto
qed

text \<open>
  C18 (crash_pass_accounts). A pass gives every bundle it looks at exactly one verdict (promoted, rejected, pending,
  demoted or duplicate; the counts add up to the bundles), with representatives judged and their deferred siblings
  judged after them, whatever the reviewers, the clock and the order of the workers do; and no artifact is lost,
  doubled or filed under a foreign name. \<close>

theorem crash_pass_accounts:
  assumes "filed_ok rs" "pass_keeps e" "triage_lane e bypasses held only rs = (counts, rs')"
  shows "total_count counts = length (pass_directories held only rs)
    \<and> filed_ok rs' \<and> artifact_count rs' = artifact_count rs"
proof -
  obtain ds rs1 where enter: "enter_pass e held only rs = (ds, rs1)" by fastforce
  obtain rest counts1 rs2 where cached: "finish_cached e bypasses ds rs1 = (rest, counts1, rs2)" by (metis prod.collapse)
  obtain deferred byp counts2 rs3 where judged: "fold_and_judge e True rest bypasses counts1 rs2 = (deferred, byp, counts2, rs3)"
    by (metis prod.collapse)
  obtain deferred' byp' counts3 rs4 where last: "fold_and_judge e False deferred byp counts2 rs3 = (deferred', byp', counts3, rs4)"
    by (metis prod.collapse)
  have out: "counts = (if deferred = [] then counts2 else counts3)"
    using assms(3) by (simp add: triage_lane_def enter cached judged last split: if_splits)
  have ds: "ds = pass_directories held only rs"
    using enter pass_directories_ok(3) [OF assms(1)] by (auto simp: enter_pass_def Let_def)
  have dok: "distinct ds" "\<forall>d \<in> set ds. py_startswith ''CRASH-'' d" unfolding ds by (rule pass_directories_ok [OF assms(1)])+
  have rest: "set rest \<subseteq> set ds" "distinct rest" "total_count counts1 + length rest = length ds"
    using finish_cached_rest [where e = e and bypasses = bypasses and ds = ds and rs = rs1] finish_cached_total [OF assms(2), of bypasses ds rs1] dok(1)
    by (simp_all add: cached)
  have ok2: "filed_ok rs2"
    using enter_pass_steady [OF assms(2), of rs held only] finish_cached_steady [OF assms(2), of rs1 bypasses ds] assms(1)
    by (simp add: enter cached steady_def)
  have names: "\<forall>d \<in> set rest. py_startswith ''CRASH-'' d" using rest(1) dok(2) by blast
  note one = fold_and_judge_total [OF ok2 assms(2) rest(2) names judged]
  have ok3: "filed_ok rs3"
    using fold_and_judge_steady [OF assms(2), of rs2 True rest bypasses counts1] ok2 by (simp add: judged steady_def)
  have names': "\<forall>d \<in> set deferred. py_startswith ''CRASH-'' d" using one(3) names by blast
  note two = fold_and_judge_total [OF ok3 assms(2) one(2) names' last]
  have "total_count counts = length ds" using one(1) two(1) two(4) rest(3) out by (cases "deferred = []") simp_all
  then show ?thesis
    using triage_lane_steady [OF assms(2), of rs bypasses held only] assms(1,3) by (simp add: ds steady_def)
qed

subsection \<open>Held and settled bundles\<close>

lemma leaves_fold_on:
  "(\<And>x st. x \<in> set xs \<Longrightarrow> leaves n (g st) (g (f x st))) \<Longrightarrow> leaves n (g st) (g (fold f xs st))"
proof (induction xs arbitrary: st)
  case (Cons x xs)
  have "leaves n (g st) (g (f x st))" by (rule Cons.prems) simp
  moreover have "leaves n (g (f x st)) (g (fold f xs (f x st)))" by (rule Cons.IH) (simp add: Cons.prems)
  ultimately show ?case by (simp add: leaves_trans)
qed simp

lemma leaves_votes:
  assumes "votes_filed s Crashes names rs rs'" "n \<notin> names"
  shows "leaves n rs rs'"
proof (cases "map_of (rs_lanes rs Crashes) n")
  case None
  have "lane_names rs' Crashes = lane_names rs Crashes" using assms(1) by (simp add: votes_filed_def)
  then have "set (lane_names rs' Crashes) = set (lane_names rs Crashes)" by simp
  then have "map_of (rs_lanes rs' Crashes) n = None" using None by (simp add: map_of_eq_None_iff)
  then show ?thesis using None by (simp add: leaves_def)
next
  case (Some a)
  then obtain p where "map_of (rs_lanes rs' Crashes) n = Some (with_vote s p a)" "n \<notin> names \<longrightarrow> p = gd_votes (ar_gate a) s"
    using assms(1) unfolding votes_filed_def by blast
  then show ?thesis using Some assms(2) by (simp add: leaves_def)
qed

lemma leaves_rounds: "n \<notin> set candidates \<Longrightarrow> leaves n rs (snd (review_rounds e candidates rs))"
proof -
  assume n: "n \<notin> set candidates"
  have one: "leaves n x (snd (batch_finding_trigger_votes be s lens Crashes (filter P candidates) x))" for be s lens P x
    by (rule leaves_votes [OF batch_round_filed]) (use n in simp)
  have first: "leaves n x (snd (batch_finding_trigger_votes be s lens Crashes candidates x))" for be s lens x
    by (rule leaves_votes [OF batch_round_filed]) (use n in simp)
  show ?thesis unfolding review_rounds_def Let_def split_beta
    by (auto intro: first leaves_trans [OF first one] leaves_trans [OF leaves_trans [OF first one] one])
qed

lemma leaves_triage_all:
  "n \<notin> set names \<Longrightarrow> leaves n rs (snd (fold (triage_named e bypassed attempted) names (counts, rs)))"
proof -
  assume n: "n \<notin> set names"
  have "leaves n (snd (counts, rs)) (snd (fold (triage_named e bypassed attempted) names (counts, rs)))"
  proof (rule leaves_fold_on)
    fix x and st :: "counts \<times> results" assume "x \<in> set names"
    then have "n \<noteq> x" using n by blast
    then show "leaves n (snd st) (snd (triage_named e bypassed attempted x st))"
      by (simp add: triage_named_def split_beta leaves_triage)
  qed
  then show ?thesis by simp
qed

lemma exports_subset:
  "set (fst (fold (export_one e) names (u, rs))) \<subseteq> set u \<union> set names"
proof (induction names arbitrary: u rs)
  case (Cons m names)
  have "fst (export_one e m (u, rs)) = u \<or> fst (export_one e m (u, rs)) = u @ [m]"
    by (auto simp: export_one_def split_beta split: option.split)
  then show ?case
    using Cons.IH [of "fst (export_one e m (u, rs))" "snd (export_one e m (u, rs))"] by auto
qed simp

lemma leaves_exports:
  assumes "n \<notin> set directories"
  shows "leaves n rs (snd (settle_exports e directories rs))"
proof -
  let ?reach = "filter (crash_at rs (\<lambda>a. fd_report (ar_dir a) \<noteq> None \<and> is_crash_signal a)) directories"
  let ?x = "fold (export_one e) ?reach ([], rs)"
  have n: "n \<notin> set ?reach" "n \<notin> set (fst ?x)" using assms exports_subset [of e ?reach "[]" rs] by auto
  have one: "leaves n (snd st) (snd (export_one e name st))" if "name \<noteq> n" for name st
    using that by (auto simp: export_one_def split_beta leaves_set split: option.split)
  have "leaves n (snd ([] :: string list, rs)) (snd ?x)"
    by (rule leaves_fold_on [where g = snd], rule one) (use n(1) in blast)
  then have exported: "leaves n rs (snd ?x)" by simp
  have demoted: "leaves n (snd ?x) (fold (\<lambda>name. demote_to_finding now name reason) (fst ?x) (snd ?x))" for now reason
    by (rule leaves_fold) (metis leaves_demote n(2))
  have filled: "leaves n y (rewrite_crashes f (filter P ?reach) y)" for f P y
    by (rule leaves_rewrites) (use n(1) in auto)
  show ?thesis unfolding settle_exports_def Let_def split_beta snd_conv
    by (rule leaves_trans [OF leaves_trans [OF exported demoted] filled])
qed

lemma candidates_within:
  "set (fst (snd (fold (sort_candidate e) names (bypasses, candidates, rs)))) \<subseteq> set candidates \<union> set names"
proof (induction names arbitrary: bypasses candidates rs)
  case (Cons m names)
  let ?st = "sort_candidate e m (bypasses, candidates, rs)"
  have "fst (snd ?st) = candidates \<or> fst (snd ?st) = candidates @ [m]"
    by (auto simp: sort_candidate_def split_beta Let_def split: option.split)
  then show ?case using Cons.IH [of "fst ?st" "fst (snd ?st)" "snd (snd ?st)"] by auto
qed simp

lemma leaves_review_group:
  assumes "n \<notin> set directories"
  shows "leaves n rs (snd (snd (review_group e directories bypasses rs)))"
proof -
  let ?x = "fold (sort_candidate e) directories (bypasses, [], rs)"
  have one: "leaves n (snd (snd st)) (snd (snd (sort_candidate e name st)))" if "name \<noteq> n" for name st
    using that by (auto simp: sort_candidate_def split_beta Let_def leaves_set split: option.split)
  have "leaves n (snd (snd (bypasses, [] :: string list, rs))) (snd (snd ?x))"
    by (rule leaves_fold_on [where g = "\<lambda>st. snd (snd st)"], rule one) (use assms in blast)
  then have sorted: "leaves n rs (snd (snd ?x))" by simp
  have n: "n \<notin> set (if cr_gate_on (pe_run e) then fst (snd ?x) else [])"
    using assms candidates_within [of e directories bypasses "[]" rs] by auto
  show ?thesis unfolding review_group_def Let_def split_beta snd_conv by (rule leaves_trans [OF sorted leaves_rounds [OF n]])
qed

lemma order_set: "pass_keeps e \<Longrightarrow> set (pe_order e names) = set names"
  by (metis pass_keeps_def mset_eq_setD)

lemma leaves_adjudicate:
  assumes "pass_keeps e" "n \<notin> set directories"
  shows "leaves n rs (snd (snd (adjudicate_crash_dirs e directories bypasses counts rs)))"
proof (cases "directories = []")
  case False
  obtain u rs1 where u: "settle_exports e directories rs = (u, rs1)" by fastforce
  define left where "left = filter (\<lambda>d. d \<notin> set u) directories"
  obtain byp att rs2 where g: "review_group e left bypasses rs1 = (byp, att, rs2)" by (metis prod.collapse)
  have n: "n \<notin> set left" "n \<notin> set (pe_order e left)" using assms(2) order_set [OF assms(1)] by (auto simp: left_def)
  have "leaves n rs rs1" using leaves_exports [OF assms(2), of rs e] by (simp add: u)
  moreover have "leaves n rs1 rs2" using leaves_review_group [OF n(1), of rs1 e bypasses] by (simp add: g)
  ultimately have "leaves n rs rs2" by (rule leaves_trans)
  from leaves_trans [OF this leaves_triage_all [OF n(2)]] show ?thesis
    by (simp add: adjudicate_crash_dirs_def False u g flip: left_def)
qed (simp add: adjudicate_crash_dirs_def)

lemma leaves_fold_and_judge:
  assumes "filed_ok rs" "pass_keeps e" "distinct ds" "\<forall>d \<in> set ds. py_startswith ''CRASH-'' d" "n \<notin> set ds"
  shows "leaves n rs (snd (snd (snd (fold_and_judge e sib ds bypasses counts rs))))"
proof -
  obtain todo deferred k rs1 where split:
    "fold_duplicate_crash_states (cr_pass (pe_run e)) sib ds rs = (todo, deferred, k, rs1)"
    by (metis prod.collapse)
  note parts = folding_splits [OF assms(1,3,4) split]
  have "n \<notin> set todo" using parts(4) assms(5) by auto
  from leaves_trans [OF parts(6) [OF assms(5)] leaves_adjudicate [OF assms(2) this]]
  show ?thesis by (simp add: fold_and_judge_def split)
qed

lemma rewrites_at:
  "map_of (rs_lanes rs Crashes) n = Some a \<Longrightarrow>
     map_of (rs_lanes (rewrite_crashes f names rs) Crashes) n = Some ((f ^^ count_list names n) a)"
proof (induction names arbitrary: rs a)
  case (Cons m names)
  show ?case
  proof (cases "m = n")
    case True
    have "map_of (rs_lanes (rewrite_crash f m rs) Crashes) n = Some (f a)" using Cons.prems True by (simp add: rewrite_crash_def)
    from Cons.IH [OF this] show ?thesis using True by (simp add: rewrite_crashes_def funpow_swap1)
  next
    case False
    then have "map_of (rs_lanes (rewrite_crash f m rs) Crashes) n = Some a"
      using Cons.prems leaves_rewrite [of n m rs f] by (simp add: leaves_def)
    from Cons.IH [OF this] show ?thesis using False by (simp add: rewrite_crashes_def)
  qed
qed (simp add: rewrite_crashes_def)

lemma hold_again: "0 < k \<Longrightarrow> (hold_unmeasured ^^ k) a = hold_unmeasured a"
proof (induction k)
  case (Suc k)
  then show ?case by (cases k) (simp_all add: hold_unmeasured_def write_receipt_def)
qed simp

definition entered :: "pass_env \<Rightarrow> artifact \<Rightarrow> artifact" where
  "entered e a = (if pe_frozen e then a else add_class e a)"

lemma enter_pass_at:
  assumes "filed_ok rs" "enter_pass e held only rs = (ds, rs1)" "map_of (rs_lanes rs Crashes) n = Some a"
  shows "n \<in> set held \<Longrightarrow> map_of (rs_lanes rs1 Crashes) n = Some (hold_unmeasured a)"
    "n \<in> set ds \<Longrightarrow> map_of (rs_lanes rs1 Crashes) n = Some (entered e a)"
proof -
  define rs0 where "rs0 = rewrite_crashes hold_unmeasured held rs"
  have ds: "ds = pass_directories held only rs" and rs1: "rs1 = (if pe_frozen e then rs0 else rewrite_crashes (add_class e) ds rs0)"
    using assms(2) pass_directories_ok(3) [OF assms(1)] by (auto simp: enter_pass_def Let_def rs0_def)
  note at = rewrites_at [OF assms(3), of hold_unmeasured held, folded rs0_def]
  have in_held: "0 < count_list held n" if "n \<in> set held" using that by (simp add: count_list_0_iff neq0_conv [symmetric])
  have not_held: "count_list held n = 0" if "n \<in> set ds" using that by (simp add: ds pass_directories_def count_list_0_iff)
  show "map_of (rs_lanes rs1 Crashes) n = Some (hold_unmeasured a)" if "n \<in> set held"
  proof -
    have "n \<notin> set ds" using that by (simp add: ds pass_directories_def)
    then have "leaves n rs0 rs1" by (simp add: rs1 leaves_rewrites)
    then show ?thesis using at hold_again [OF in_held [OF that]] by (simp add: leaves_def)
  qed
  show "map_of (rs_lanes rs1 Crashes) n = Some (entered e a)" if "n \<in> set ds"
  proof -
    have "count_list ds n = 1" using that pass_directories_ok(1) [OF assms(1), of held only] by (simp add: ds count_list_eq_length_filter distinct_length_filter)
    then show ?thesis
      using at not_held [OF that] rewrites_at [of rs0 n a "add_class e" ds] by (simp add: rs1 entered_def)
  qed
qed

text \<open>
  C19 (standing_bundles). A bundle whose replay could not be measured is held: the pass leaves it where it is with a
  pending receipt and nothing else changed, so it carries no credit. A bundle that is published under a review still
  in force keeps its receipt and its votes: whatever happens to the others, nothing but its class line is added. \<close>

theorem standing_bundles:
  assumes "filed_ok rs" "pass_keeps e" "triage_lane e bypasses held only rs = (counts, rs')"
    and "map_of (rs_lanes rs Crashes) n = Some a"
  shows "(n \<in> set held \<longrightarrow> map_of (rs_lanes rs' Crashes) n = Some (hold_unmeasured a))
    \<and> (n \<in> set (pass_directories held only rs) \<and> finalized_crash (pe_run e) (entered e a) \<longrightarrow>
        map_of (rs_lanes rs' Crashes) n = Some (entered e a))"
proof -
  obtain ds rs1 where enter: "enter_pass e held only rs = (ds, rs1)" by fastforce
  obtain rest counts1 rs2 where cached: "finish_cached e bypasses ds rs1 = (rest, counts1, rs2)" by (metis prod.collapse)
  obtain deferred byp counts2 rs3 where judged: "fold_and_judge e True rest bypasses counts1 rs2 = (deferred, byp, counts2, rs3)"
    by (metis prod.collapse)
  define final where "final = filter (crash_at rs1 (finalized_crash (pe_run e))) ds"
  define ready where "ready = filter (\<lambda>d. d \<notin> set final \<and> crash_at rs1 (cached_ready (pe_run e) bypasses d) d) ds"
  have ds: "ds = pass_directories held only rs"
    using enter pass_directories_ok(3) [OF assms(1)] by (auto simp: enter_pass_def Let_def)
  have ok1: "filed_ok rs1" using enter_pass_steady [OF assms(2), of rs held only] assms(1) by (simp add: enter steady_def)
  have ok2: "filed_ok rs2" using finish_cached_steady [OF assms(2), of rs1 bypasses ds] ok1 by (simp add: cached steady_def)
  have rest: "rest = filter (\<lambda>d. d \<notin> set final \<and> d \<notin> set ready) ds"
    using cached by (simp add: finish_cached_def Let_def final_def ready_def)
  have rok: "distinct rest" "\<forall>d \<in> set rest. py_startswith ''CRASH-'' d"
    using pass_directories_ok(1,2) [OF assms(1), of held only] by (simp_all add: rest ds)
  note parts = fold_and_judge_total [OF ok2 assms(2) rok judged]
  have ok3: "filed_ok rs3"
    using fold_and_judge_steady [OF assms(2), of rs2 True rest bypasses counts1] ok2 by (simp add: judged steady_def)
  have stands: "leaves n rs1 rs'" if "n \<notin> set ready" "n \<notin> set rest"
  proof -
    let ?owed = "filter (crash_at rs1 (pe_owed e)) ready"
    have "n \<notin> set ?owed" "n \<notin> set (pe_order e ready)" using that(1) order_set [OF assms(2)] by auto
    then have "leaves n rs1 (snd (snd (finish_cached e bypasses ds rs1)))"
      unfolding finish_cached_def Let_def snd_conv final_def [symmetric] ready_def [symmetric]
      by (intro leaves_trans [OF leaves_rewrites leaves_triage_all])
    moreover have "leaves n rs2 rs3"
      using leaves_fold_and_judge [OF ok2 assms(2) rok that(2), of True bypasses counts1] by (simp add: judged)
    moreover have "n \<notin> set deferred" "\<forall>d \<in> set deferred. py_startswith ''CRASH-'' d" using parts(3) that(2) rok(2) by auto
    from leaves_fold_and_judge [OF ok3 assms(2) parts(2) this(2,1)]
    have "leaves n rs3 (snd (snd (snd (fold_and_judge e False deferred byp counts2 rs3))))" .
    moreover have "rs' = (if deferred = [] then rs3 else snd (snd (snd (fold_and_judge e False deferred byp counts2 rs3))))"
      using assms(3) by (auto simp: triage_lane_def enter cached judged split: if_splits)
    ultimately show ?thesis by (simp add: cached) (metis leaves_trans)
  qed
  have "map_of (rs_lanes rs' Crashes) n = Some (hold_unmeasured a)" if "n \<in> set held"
  proof -
    have "n \<notin> set ds" using that by (simp add: ds pass_directories_def)
    then show ?thesis using stands enter_pass_at(1) [OF assms(1) enter assms(4) that] by (simp add: ready_def rest leaves_def)
  qed
  moreover have "map_of (rs_lanes rs' Crashes) n = Some (entered e a)"
    if "n \<in> set ds" "finalized_crash (pe_run e) (entered e a)"
  proof -
    note at = enter_pass_at(2) [OF assms(1) enter assms(4) that(1)]
    have "n \<in> set final" using that at by (simp add: final_def crash_at_def)
    then show ?thesis using stands at by (simp add: ready_def rest leaves_def)
  qed
  ultimately show ?thesis by (simp add: ds)
qed

lemma triage_crash_dirs_steady:
  assumes "pass_keeps e"
  shows "steady rs (snd (triage_crash_dirs e route bypasses held only rs))"
proof -
  have "steady x (snd (route_finding_diagnostics route (snd (pass_over (restore_stale_one r Crashes_Rejected kind) names k x))))"
    for x r kind names k
    by (rule steady_trans [OF stale_crashes.pass_steady routing_steady])
  then show ?thesis
    unfolding triage_crash_dirs_def restore_stale_kind_def
    using triage_lane_steady [OF assms] steady_trans [OF _ triage_lane_steady [OF assms]] by (simp add: split_beta)
qed

subsection \<open>Witnesses\<close>

definition demo_pass_env :: pass_env where
  "demo_pass_env =
     \<lparr>pe_run = (demo_crash_run (demo_reviewer (\<lambda>_. None)))\<lparr>cr_pass := demo_fold_run, cr_gate_on := False\<rparr>,
      pe_batch = demo_batch, pe_expired = (\<lambda>_ _. False), pe_frozen = True, pe_class = (\<lambda>a. a), pe_owed = (\<lambda>_. False),
      pe_converge = (\<lambda>_ a. a), pe_order = rev\<rparr>"

lemma demo_pass_keeps: "pass_keeps demo_pass_env"
  by (simp add: pass_keeps_def demo_pass_env_def crash_keeps_names_def demo_crash_run_def demo_pass_def keeps_names_def)

lemma demo_filed_filed: "filed_ok demo_filed"
  using demo_filed_ok by (simp add: filed_ok_def routes_live_def demo_filed_def)

lemma demo_directories: "pass_directories [''CRASH-2''] None demo_filed = [''CRASH-1'', ''CRASH-3'', ''CRASH-4'']"
  by code_simp

theorem crash_pass_accounts_witness:
  "\<exists>counts rs'. triage_lane demo_pass_env [] [''CRASH-2''] None demo_filed = (counts, rs')
    \<and> total_count counts = 3 \<and> artifact_count rs' = artifact_count demo_filed"
proof -
  obtain counts rs' where run: "triage_lane demo_pass_env [] [''CRASH-2''] None demo_filed = (counts, rs')" by fastforce
  from crash_pass_accounts [OF demo_filed_filed demo_pass_keeps run] show ?thesis using run by (simp add: demo_directories)
qed

theorem standing_bundles_witness:
  "\<exists>counts rs'. triage_lane demo_pass_env [] [''CRASH-2''] None demo_filed = (counts, rs')
    \<and> map_of (rs_lanes rs' Crashes) ''CRASH-2'' = Some (hold_unmeasured (snd (demo_bundle ''CRASH-2'' ''f'' 2 False)))
    \<and> map_of (rs_lanes rs' Crashes) ''CRASH-1'' = Some (snd (demo_bundle ''CRASH-1'' ''f'' 1 True))"
proof -
  obtain counts rs' where run: "triage_lane demo_pass_env [] [''CRASH-2''] None demo_filed = (counts, rs')" by fastforce
  have at: "map_of (rs_lanes demo_filed Crashes) ''CRASH-2'' = Some (snd (demo_bundle ''CRASH-2'' ''f'' 2 False))"
    "map_of (rs_lanes demo_filed Crashes) ''CRASH-1'' = Some (snd (demo_bundle ''CRASH-1'' ''f'' 1 True))"
    by (simp_all add: demo_filed_def demo_bundle_def)
  have final: "entered demo_pass_env (snd (demo_bundle ''CRASH-1'' ''f'' 1 True)) = snd (demo_bundle ''CRASH-1'' ''f'' 1 True)"
    "finalized_crash (pe_run demo_pass_env) (snd (demo_bundle ''CRASH-1'' ''f'' 1 True))"
    by (simp_all add: entered_def demo_pass_env_def finalized_crash_def is_final_crash_receipt_def demo_bundle_def
        crash_review_is_reusable_def FINAL_STATES_def SECURITY_STATES_def)
  show ?thesis
    using run standing_bundles [OF demo_filed_filed demo_pass_keeps run at(1)]
      standing_bundles [OF demo_filed_filed demo_pass_keeps run at(2)] final by (simp add: demo_directories)
qed

end
