(* ===== verification/LaneHistory.thy ===== *)
theory LaneHistory
  imports CrashPass
begin

text \<open>
  Every history of the lanes: agents file and rewrite artifacts, the ledgers change, and triage validates
  findings, reviews crashes, folds duplicates, rejects, demotes, requeues and routes, one by one or in
  whole passes over the crash lane, in any order.
\<close>

definition results0 :: results where
  "results0 = \<lparr>rs_lanes = (\<lambda>_. []), rs_store = store0, rs_routes = []\<rparr>"

text \<open>\<open>lane_history n rs\<close>: \<open>rs\<close> is reached when agents file \<open>n\<close> artifacts and rewrite active ones, the
  ledgers change, and triage validates findings, reviews crashes, folds duplicates, rejects, demotes and
  requeues, in any order.\<close>

inductive lane_history :: "nat \<Rightarrow> results \<Rightarrow> bool" where
  hist_start: "lane_history 0 results0"
| hist_file: "lane_history n rs \<Longrightarrow> l \<in> {Findings, Crashes} \<Longrightarrow> name \<notin> set (lane_names rs l)
    \<Longrightarrow> fd_name (ar_dir a) = name
    \<Longrightarrow> lane_history (n + 1) (rs\<lparr>rs_lanes := (rs_lanes rs)(l := rs_lanes rs l @ [(name, a)])\<rparr>)"
| hist_rewrite: "lane_history n rs \<Longrightarrow> l \<in> {Findings, Crashes} \<Longrightarrow> name \<in> set (lane_names rs l)
    \<Longrightarrow> fd_name (ar_dir a) = name \<Longrightarrow> lane_history n (set_artifact l name a rs)"
| hist_ledger: "lane_history n rs \<Longrightarrow> lane_history n (rs\<lparr>rs_store := st\<rparr>)"
| hist_validate: "lane_history n rs \<Longrightarrow> keeps_names r
    \<Longrightarrow> lane_history n (snd (validate_one_finding r name initial_votes defer_trigger reject_missing rs))"
| hist_finalize: "lane_history n rs \<Longrightarrow> keeps_names r \<Longrightarrow> map_of (rs_lanes rs Findings) name = Some a
    \<Longrightarrow> lane_history n (snd (finalize_accepted_finding r name prepared a rs))"
| hist_reject: "lane_history n rs \<Longrightarrow> l \<in> {Findings, Crashes}
    \<Longrightarrow> lane_history n (reject_artifact now l name reason category out_of_scope rs)"
| hist_demote: "lane_history n rs \<Longrightarrow> lane_history n (demote_to_finding now name reason rs)"
| hist_triggers: "lane_history n rs \<Longrightarrow> restore_stale_trigger_rejections r rs = Inr (m, rs')
    \<Longrightarrow> lane_history n rs'"
| hist_quality: "lane_history n rs \<Longrightarrow> lane_history n (snd (refresh_or_restore_quality_rejections r rs))"
| hist_crash: "lane_history n rs \<Longrightarrow> crash_keeps_names q
    \<Longrightarrow> lane_history n (snd (triage_one_crash q confirmed attempted name rs))"
| hist_fold: "lane_history n rs
    \<Longrightarrow> lane_history n (snd (snd (snd (fold_duplicate_crash_states r sib directories rs))))"
| hist_route: "lane_history n rs \<Longrightarrow> lane_history n (snd (route_finding_diagnostics e rs))"
| hist_pass: "lane_history n rs \<Longrightarrow> pass_keeps p
    \<Longrightarrow> lane_history n (snd (triage_crash_dirs p e bypasses held only rs))"
| hist_legacy: "lane_history n rs \<Longrightarrow> lane_history n (snd (clear_legacy_same_site_receipts rs))"

lemma steady_keeps:
  "steady rs rs' \<Longrightarrow> filed_ok rs \<and> artifact_count rs = n \<Longrightarrow> filed_ok rs' \<and> artifact_count rs' = n"
  by (simp add: steady_def)

lemma file_keeps:
  assumes "filed_ok rs \<and> artifact_count rs = n" "l \<in> {Findings, Crashes}" "name \<notin> set (lane_names rs l)"
    and "fd_name (ar_dir a) = name"
  defines "rs' \<equiv> rs\<lparr>rs_lanes := (rs_lanes rs)(l := rs_lanes rs l @ [(name, a)])\<rparr>"
  shows "filed_ok rs' \<and> artifact_count rs' = n + 1"
proof -
  have "lanes_ok rs'" using assms by (auto simp: filed_ok_def lanes_ok_def)
  moreover have "artifact_count rs' = n + 1" using assms by (auto simp: artifact_count_def)
  moreover have "routes_live rs'"
    unfolding routes_live_def
  proof
    fix r assume "r \<in> set (rs_routes rs')"
    then have "r \<in> set (rs_routes rs)" by (simp add: rs'_def)
    then obtain m where "ro_lane r = lane_name m" "m \<in> {Findings_Rejected, Crashes_Rejected}"
      "ro_artifact r \<in> set (lane_names rs m)"
      using assms(1) unfolding filed_ok_def routes_live_def by blast
    then show "\<exists>m. ro_lane r = lane_name m \<and> m \<in> {Findings_Rejected, Crashes_Rejected}
        \<and> ro_artifact r \<in> set (lane_names rs' m)"
      using assms(2) by (intro exI [of _ m]) (auto simp: rs'_def)
  qed
  ultimately show ?thesis by (simp add: filed_ok_def)
qed



end
