(* ===== verification/Spec2Isabelle.thy ===== *)
theory Spec2Isabelle
  imports QueueSteps Coverage Dedup BugClasses LaneHistory
begin

text \<open>
  Tokenfuzz drives several auditing agents over one target. Its shared memory is a results tree: a
  ranked list of work cards, append-mostly JSONL ledgers (claims, hypotheses, probe runs, notes,
  review receipts), and lanes of directories holding the crashes and findings the agents file. Agents
  change it through \<open>bin/state\<close>, the harness through \<open>lib/workqueue.py\<close> and \<open>lib/coverage_ledger.py\<close>,
  and triage through \<open>lib/triage.py\<close>. This development models that core: how cards are selected,
  leased, worked and closed, how filed artifacts feed back, how review coverage is attested, and how
  triage accepts, rejects, reopens and finalizes what was filed.

  Language layer. \<open>Prelude\<close> (strings, dictionaries in insertion order, integers, rounding), \<open>PyRegex\<close>
  (the backtracking matcher the code's patterns run on) and \<open>PyTime\<close> (calendar, \<open>now_iso\<close>,
  \<open>parse_iso_utc\<close>) hold what the code uses of Python.

  State. \<open>Rows\<close> declares one record per row type of the ledgers and \<open>store\<close>, the tree of the queue; a
  missing key is the empty string, a dictionary an association list in insertion order. \<open>Lanes\<close>
  declares the artifact record and the lanes of the results tree. An operation is a function from the
  state it reads to the state it writes; the file lock it holds makes it atomic. Errors are the left
  values of a sum, so every raise is a branch. The clock, the process environment (\<open>ctx\<close>), SHA-1,
  bundles and files on disk, the call graph and every answer of a language model are arguments.

  Theories of the queue, in the order of their imports:
    \<^item> \<open>Paths\<close>, \<open>Patterns\<close>, \<open>Strategies\<close>: which paths are auditable, subsystem buckets
      (\<open>lib/audit_scope.py\<close>), the patch filters, the lane tables and predicates on cards.
    \<^item> \<open>Window\<close>: \<open>select_strategy_window\<close>, \<open>select_diversity_floor\<close>, the fuzz-campaign card. The
      rotation over pools is bounded by the number of cards left (\<open>pools_size\<close>), its measure.
    \<^item> \<open>Ledger\<close>, \<open>Lease\<close>: status classes and counters as functions of the rows; lease lifetimes,
      expiry, release of stale leases, dry streaks, closure of a card for a run.
    \<^item> \<open>Queue\<close>, \<open>Claim\<close>: \<open>explain_queue\<close> and its digests; \<open>claim_next_card\<close> with its snapshot,
      candidate filter, diversity rule and the stable sorts that order the offer.
    \<^item> \<open>Artifacts\<close>, \<open>Hyps\<close>, \<open>CardOps\<close>: joining filed bundles to hypotheses, rejection, folding and
      requeueing; opening, routing and updating hypotheses; runs, notes, evidence per strategy,
      yields, and the gated \<open>update_card_status\<close>. The id loop of \<open>add_hypothesis\<close> is a partial
      function whose termination is a theorem.
    \<^item> \<open>QueueSteps\<close>: all of these as one transition system, an inductive step relation with one rule
      per operation, and what holds of every reachable tree.
    \<^item> \<open>Ranges\<close>, \<open>Coverage\<close>: line ranges as canonical forms of line sets; the manifest, receipts,
      examined shares, second-pass eligibility and the coverage report (\<open>lib/coverage_ledger.py\<close>).

  Theories of triage, in the order of their imports:
    \<^item> \<open>Dedup\<close> (\<open>lib/finding_dedup.py\<close>): fingerprints of findings and the union-find with path
      compression that clusters them; \<open>BugClasses\<close> (\<open>lib/bug_classes.py\<close>): the vocabulary of bug
      classes and the resolution of a label.
    \<^item> \<open>Quality\<close>: quality votes, the currency of cached votes and the batched vote rounds.
    \<^item> \<open>Reviews\<close>: the fields of a report, the verdict on a trigger against the threat model
      (\<open>evaluate_crash_verdict\<close> of \<open>lib/triage_validate.py\<close>), source anchors, cached votes, settled
      facts and the publication state.
    \<^item> \<open>Lanes\<close>: moving an artifact between lanes (reject, restore, demote) under collision names, with
      its route notes and ledger rows. The search for a free name is a partial function, total on
      every finite lane (the free serial is below the number of names plus one).
    \<^item> \<open>Gate\<close>, \<open>Finalize\<close>: asking one or two reviewers whether a finding's trigger is real, the
      disposition, and finalization of one finding: fields, facts, quality loop, score, publication.
      The quality loop stops because each round adds a vote and the votes are bounded.
    \<^item> \<open>Requeue\<close>: the passes that reopen rejections whose receipt no longer covers the bytes or the
      model.
    \<^item> \<open>Diagnostics\<close>: the patterns by which triage recognises a sanitizer report, its class, what is
      discarded unseen, and the signature the scorer uses (\<open>lib/verdict.py\<close>); \<open>Identity\<close>
      (\<open>lib/report_identity.py\<close>): the text of a report its votes are bound to, and the contract concern
      triage writes into it.
    \<^item> \<open>Crashes\<close>: \<open>triage_one_crash\<close>, from the completeness gate and its ageing over the demotions,
      the export and the reviews to publication; \<open>Folding\<close> (with \<open>lib/crash_bundle.py\<close>): duplicates of a
      credited crash move aside, and one representative per crash state and route is reviewed.
    \<^item> \<open>Routing\<close>: findings with a crash diagnostic move into crash triage (\<open>route_finding_diagnostics\<close>);
      \<open>TriggerBatch\<close>: a round of batched source reviews with its sessions and its one retry;
      \<open>CrashPass\<close>: \<open>triage_crash_dirs\<close>, which composes these over the whole lane. The calls of its worker
      threads are atomic and come in any order (\<open>pe_order\<close> is a permutation).
    \<^item> \<open>LaneHistory\<close>: an inductive history of all lane operations.

  Interfaces are locales: \<open>line_sets\<close> (what the coverage ledger needs of ranges), \<open>turn_log\<close> (what a
  reader of the lease history needs of the claim ledger), \<open>disjoint_ids\<close> (what clustering needs of
  its forest) and \<open>lane_pass\<close> (what a pass over a lane promises of every artifact), each interpreted
  on the code's own definitions.

  What the lemmas show. Selection: the window is a bounded, rank-ordered choice that starves no
  companion and never prefers a less buildable card. Exclusion: a lease blocks its card for other
  agents until its whole-second expiry, a claim never takes a leased card or surface, and in every
  reachable ledger leases of different agents on one card do not overlap. Progress: whenever
  \<open>explain_queue\<close> calls a card eligible, a claim hands one out. Ledgers only grow and ids stay
  distinct. Rejection in the ledger rewrites exactly the rows naming the artifact, and reconsidering
  undoes it. Closure: a status update is committed exactly when its evidence is there. Coverage:
  examined lines are the union of the current receipts, inside the file, and the report splits the
  tree exactly. Triage: a finding is rejected on its trigger only by two reviewers that disprove it,
  accepted only with the facts that back it, no artifact is lost by any sequence of lane operations,
  and a rejection is reopened when its receipt is stale. A crash is promoted only with a memory-safety
  diagnostic and a proof or a review behind it, thrown out by its reviews only on two disproofs, held
  exactly as long as the limit says while it is incomplete, and folded only into a credited one that
  carries its state and route. A pass over the crash lane gives every bundle exactly one verdict, a
  demoted crash never comes back by routing (the call that reconsiders historical demotions aside), and a
  round of reviews asks each artifact at most twice.

  Bounds. A report is read whole (the code caps it at the size of \<open>read_report_bounded\<close>); the
  horizontal ellipsis of a truncated text is one character here. Floats that are only added, divided,
  rounded and compared are rationals; letter case is that of ASCII.

  Not modelled, because it is input and output: the command-line layers, reading and writing of
  files and JSON, subprocesses (VCS scans, builds, sanitizer runs, agent sessions) and rendering to
  Markdown and HTML. Not modelled, because a language model decides it: reranking, prompts and the
  text of votes. Not yet modelled: the benchmark (\<open>lib/benchmark*.py\<close>), target configuration
  (\<open>lib/target_config.py\<close>), the audit loop that schedules agents (\<open>lib/audit_runner.py\<close>), and of
  \<open>lib/triage.py\<close> the index files, the enrichment of reports and the pass over the findings lane.
\<close>

end
